(* ===== verification/Prelude.thy ===== *)
theory Prelude
  imports Main "HOL-Library.Word"
begin

text \<open>
  Shared vocabulary of the development: the exceptions the driver throws as values of a
  sum type, memory as byte lists (a pointer into a buffer is the suffix that starts at
  it), C integers at their width, little-endian encodings, the C string routines the
  driver calls, and the interface of a three-way comparison (\<open>three_way\<close>), under
  which every comparison routine of the driver is proved to be an order.
\<close>

unbundle bit_operations_syntax

named_theorems res_simps \<open>inversion of fallible computations that succeed\<close>
named_theorems c_int \<open>C integer arithmetic that does not overflow\<close>

section \<open>Errors\<close>

text \<open>
  \<open>assert\<close> (assert\_util.h) throws an \<open>AssertionException\<close> without a code;
  \<open>massert\<close> and \<open>msgasserted\<close> throw a \<open>MsgAssertionException\<close>, \<open>uassert\<close> and
  \<open>uasserted\<close> a \<open>UserException\<close>, both with their code. \<open>OutOfBounds\<close> stands for a
  read past the end of the memory the caller owns and \<open>UB\<close> for other undefined
  behaviour: the model never continues after either. \<open>ThrownInt\<close> is a thrown number,
  \<open>StdException\<close> an exception of the standard library, \<open>SocketExn\<close> a
  \<open>SocketException\<close> (a lost connection).
\<close>

datatype mongo_error =
    AssertFail | Massert nat | Uassert nat | OutOfBounds | UB | ThrownInt int | StdException | SocketExn

type_synonym 'a res = "mongo_error + 'a"

definition bind_res :: "'a res \<Rightarrow> ('a \<Rightarrow> 'b res) \<Rightarrow> 'b res" where
  "bind_res m f = (case m of Inl e \<Rightarrow> Inl e | Inr x \<Rightarrow> f x)"

definition guard :: "bool \<Rightarrow> mongo_error \<Rightarrow> unit res" where
  "guard b e = (if b then Inr () else Inl e)"

lemma bind_res_simps [simp]:
  "bind_res (Inr x) f = f x"
  "bind_res (Inl e) f = Inl e"
  by (simp_all add: bind_res_def)

lemma guard_simps [simp]:
  "guard True e = Inr ()"
  "guard False e = Inl e"
  by (simp_all add: guard_def)

lemma bind_res_Inr [res_simps]: "bind_res m f = Inr y \<longleftrightarrow> (\<exists>x. m = Inr x \<and> f x = Inr y)"
  by (cases m) auto

lemma guard_Inr [res_simps]: "guard b e = Inr u \<longleftrightarrow> b"
  by (cases u) (simp add: guard_def)

lemma bind_res_assoc: "bind_res (bind_res m f) g = bind_res m (\<lambda>x. bind_res (f x) g)"
  by (cases m) auto

lemma bind_res_split: "P (bind_res m f) \<longleftrightarrow> (\<forall>e. m = Inl e \<longrightarrow> P (Inl e)) \<and> (\<forall>x. m = Inr x \<longrightarrow> P (f x))"
  by (cases m) auto

lemma bind_res_cong [fundef_cong]:
  "m = m' \<Longrightarrow> (\<And>x. m' = Inr x \<Longrightarrow> f x = g x) \<Longrightarrow> bind_res m f = bind_res m' g"
  by (cases m') auto

text \<open>The statements of a method that each change the object and may throw, in order.\<close>

fun seq_res :: "('b \<Rightarrow> 'b res) list \<Rightarrow> 'b \<Rightarrow> 'b res" where
  "seq_res [] b = Inr b"
| "seq_res (f # fs) b = bind_res (f b) (seq_res fs)"

lemma seq_res_append: "seq_res (fs @ gs) b = bind_res (seq_res fs b) (seq_res gs)"
proof (induction fs arbitrary: b)
  case (Cons f fs)
  then show ?case by (cases "f b") auto
qed simp

text \<open>
  Operations on an object that outlives an exception (a connection, a cursor): the result
  or the exception, and the object as it was left.
\<close>

type_synonym ('s, 'a) act = "'s \<Rightarrow> 'a res \<times> 's"

definition bind_act :: "('s, 'a) act \<Rightarrow> ('a \<Rightarrow> ('s, 'b) act) \<Rightarrow> ('s, 'b) act" where
  "bind_act m f s = (case m s of (Inl e, s) \<Rightarrow> (Inl e, s) | (Inr x, s) \<Rightarrow> f x s)"

definition lift_act :: "'a res \<Rightarrow> ('s, 'a) act" where
  "lift_act r s = (r, s)"

fun seq_act :: "('s, unit) act list \<Rightarrow> ('s, unit) act" where
  "seq_act [] s = (Inr (), s)"
| "seq_act (f # fs) s = bind_act f (\<lambda>_. seq_act fs) s"

lemma lift_act_simp [simp]: "lift_act r s = (r, s)"
  by (simp add: lift_act_def)

lemma bind_act_Inr [simp]: "m s = (Inr x, s') \<Longrightarrow> bind_act m f s = f x s'"
  by (simp add: bind_act_def)

lemma bind_act_Inl [simp]: "m s = (Inl e, s') \<Longrightarrow> bind_act m f s = (Inl e, s')"
  by (simp add: bind_act_def)

section \<open>Bytes and machine integers\<close>

type_synonym bytes = "char list"

abbreviation NUL :: char where "NUL \<equiv> CHR 0x00"

text \<open>The value of a byte read as \<open>unsigned char\<close> and as (signed) \<open>char\<close>.\<close>

definition uchar :: "char \<Rightarrow> int" where
  "uchar c = int (of_char c)"

definition schar :: "char \<Rightarrow> int" where
  "schar c = (if uchar c < 128 then uchar c else uchar c - 256)"

lemma of_char_less [simp]: "(of_char c :: nat) < 256"
  by (metis char_of_char of_char_of mod_less_divisor zero_less_numeral)

lemma uchar_bounds [simp]: "0 \<le> uchar c" "uchar c < 256" "uchar c \<le> 255"
  using of_char_less [of c] by (auto simp: uchar_def simp del: of_char_less)

lemma uchar_not_neg [simp]: "\<not> uchar c < 0"
  by (simp add: not_less)

lemma of_char_inj [simp]: "(of_char c :: nat) = of_char d \<longleftrightarrow> c = d"
  by (metis char_of_char)

lemma uchar_inj [simp]: "uchar c = uchar d \<longleftrightarrow> c = d"
  by (simp add: uchar_def)

lemma uchar_pos [simp]: "0 < uchar c \<longleftrightarrow> c \<noteq> NUL"
  using uchar_inj [of c NUL] uchar_bounds(1) [of c] by (auto simp: uchar_def order_le_less)

lemma uchar_NUL [simp]: "uchar NUL = 0"
  by (simp add: uchar_def)

lemma uchar_zero [simp]: "uchar c = 0 \<longleftrightarrow> c = NUL"
  using uchar_inj [of c NUL] by simp

text \<open>A C \<open>int\<close>: the mathematical value reduced to 32 bits, two's complement.\<close>

definition i32 :: "int \<Rightarrow> int" where
  "i32 x = signed_take_bit 31 x"

lemma i32_id [c_int]: "- (2 ^ 31) \<le> x \<Longrightarrow> x < 2 ^ 31 \<Longrightarrow> i32 x = x"
  unfolding i32_def by (rule signed_take_bit_int_eq_self) auto

lemma i32_bounds: "- (2 ^ 31) \<le> i32 x" "i32 x < 2 ^ 31"
  unfolding i32_def
  by (rule signed_take_bit_int_greater_eq_minus_exp, rule signed_take_bit_int_less_exp)

text \<open>Little-endian encodings of \<open>n\<close> bytes (BSON is little endian; the code stores
  through \<open>int*\<close> and \<open>long long*\<close> on little-endian machines).\<close>

fun le_bytes :: "nat \<Rightarrow> nat \<Rightarrow> bytes" where
  "le_bytes 0 k = []"
| "le_bytes (Suc n) k = char_of k # le_bytes n (k div 256)"

fun le_val :: "bytes \<Rightarrow> nat" where
  "le_val [] = 0"
| "le_val (c # cs) = of_char c + 256 * le_val cs"

lemma length_le_bytes [simp]: "length (le_bytes n k) = n"
  by (induction n arbitrary: k) auto

lemma le_val_le_bytes: "le_val (le_bytes n k) = k mod 256 ^ n"
proof (induction n arbitrary: k)
  case (Suc n)
  have "k mod 256 + 256 * (k div 256 mod 256 ^ n) = k mod (256 * 256 ^ n)"
    by (simp add: mod_mult2_eq)
  then show ?case by (simp add: Suc)
qed simp

lemma le_val_bound: "le_val bs < 256 ^ length bs"
proof (induction bs)
  case (Cons c cs)
  have "of_char c + 256 * le_val cs < 256 * (le_val cs + 1)"
    using of_char_less [of c] by simp
  also have "\<dots> \<le> 256 * 256 ^ length cs"
    using Cons by (intro mult_left_mono) auto
  finally show ?case by simp
qed simp

lemma le_bytes_le_val: "le_bytes (length bs) (le_val bs) = bs"
proof (induction bs)
  case (Cons c cs)
  have "char_of (of_char c + 256 * le_val cs) = c"
  proof -
    have "char_of (of_char c + 256 * le_val cs :: nat) = char_of (of_char c :: nat)"
      by (simp add: char_of_eq_iff take_bit_eq_mod)
    then show ?thesis by simp
  qed
  moreover have "(of_char c + 256 * le_val cs) div 256 = le_val cs"
    using of_char_less [of c] by simp
  ultimately show ?case using Cons by simp
qed simp

definition le32 :: "32 word \<Rightarrow> bytes" where
  "le32 w = le_bytes 4 (unat w)"

definition le64 :: "64 word \<Rightarrow> bytes" where
  "le64 w = le_bytes 8 (unat w)"

lemma length_le [simp]: "length (le32 w) = 4" "length (le64 v) = 8"
  by (simp_all add: le32_def le64_def)

text \<open>Reading an integer through a pointer: undefined if fewer bytes are there.\<close>

definition rd32 :: "bytes \<Rightarrow> (32 word) res" where
  "rd32 p = (if length p < 4 then Inl OutOfBounds else Inr (word_of_nat (le_val (take 4 p))))"

definition rd64 :: "bytes \<Rightarrow> (64 word) res" where
  "rd64 p = (if length p < 8 then Inl OutOfBounds else Inr (word_of_nat (le_val (take 8 p))))"

lemma rd32_le32 [simp]: "rd32 (le32 w @ p) = Inr w"
proof -
  have "unat w < 256 ^ 4" using unsigned_less [of w] by simp
  then show ?thesis by (simp add: rd32_def le32_def le_val_le_bytes)
qed

lemma rd64_le64 [simp]: "rd64 (le64 w @ p) = Inr w"
proof -
  have "unat w < 256 ^ 8" using unsigned_less [of w] by simp
  then show ?thesis by (simp add: rd64_def le64_def le_val_le_bytes)
qed

lemma rd32_le32_Nil [simp]: "rd32 (le32 w) = Inr w"
  using rd32_le32 [of w "[]"] by simp

lemma rd64_le64_Nil [simp]: "rd64 (le64 w) = Inr w"
  using rd64_le64 [of w "[]"] by simp

text \<open>The signed value of a C \<open>int\<close> at a pointer.\<close>

definition rd_int :: "bytes \<Rightarrow> int res" where
  "rd_int p = bind_res (rd32 p) (\<lambda>w. Inr (sint w))"

definition le_int :: "int \<Rightarrow> bytes" where
  "le_int x = le32 (word_of_int x)"

lemma length_le_int [simp]: "length (le_int x) = 4"
  by (simp add: le_int_def)

lemma rd_int_le_int: "rd_int (le_int x @ p) = Inr (i32 x)"
  by (simp add: rd_int_def le_int_def i32_def sint_sbintrunc' signed_of_int)

lemma unat_word_of_int32: "n < 2 ^ 32 \<Longrightarrow> unat (word_of_int (int n) :: 32 word) = n"
  by (simp add: unsigned_of_nat take_bit_eq_mod)

lemma rd_int_short: "length p < 4 \<Longrightarrow> rd_int p = Inl OutOfBounds"
  by (simp add: rd_int_def rd32_def)

section \<open>C strings\<close>

text \<open>\<open>strlen\<close> reads until it meets a NUL; past the buffer that is undefined.\<close>

fun strlen :: "bytes \<Rightarrow> nat res" where
  "strlen [] = Inl OutOfBounds"
| "strlen (c # cs) = (if c = NUL then Inr 0 else bind_res (strlen cs) (\<lambda>n. Inr (Suc n)))"

lemma strlen_terminated [simp]: "NUL \<notin> set s \<Longrightarrow> strlen (s @ NUL # p) = Inr (length s)"
  by (induction s) auto

lemma strlen_Inr: "strlen p = Inr n \<Longrightarrow> n < length p \<and> p ! n = NUL \<and> NUL \<notin> set (take n p)"
  by (induction p arbitrary: n) (fastforce simp: res_simps split: if_splits)+

definition cstr :: "bytes \<Rightarrow> bytes" where
  "cstr s = takeWhile (\<lambda>c. c \<noteq> NUL) s"

lemma cstr_id [simp]: "NUL \<notin> set s \<Longrightarrow> cstr s = s"
  by (auto simp: cstr_def takeWhile_eq_all_conv)

lemma cstr_terminated [simp]: "NUL \<notin> set s \<Longrightarrow> cstr (s @ NUL # p) = s"
  by (induction s) (auto simp: cstr_def)

lemma NUL_cstr [simp]: "NUL \<notin> set (cstr s)"
  by (induction s) (auto simp: cstr_def)

text \<open>
  \<open>strcmp\<close> on strings whose terminator is implicit (the list is what precedes it, or
  the first NUL inside ends it): the difference of the first differing bytes, as
  \<open>unsigned char\<close>. Only the sign is specified by the C standard; only the sign is
  used in what is proved.
\<close>

fun strcmp :: "bytes \<Rightarrow> bytes \<Rightarrow> int" where
  "strcmp [] [] = 0"
| "strcmp [] (y # ys) = - uchar y"
| "strcmp (x # xs) [] = uchar x"
| "strcmp (x # xs) (y # ys) =
     (if x \<noteq> y then uchar x - uchar y else if x = NUL then 0 else strcmp xs ys)"

text \<open>\<open>memcmp\<close> over equally long buffers.\<close>

fun memcmp :: "bytes \<Rightarrow> bytes \<Rightarrow> int" where
  "memcmp (x # xs) (y # ys) = (if x \<noteq> y then uchar x - uchar y else memcmp xs ys)"
| "memcmp _ _ = 0"

lemma memcmp_eq_0: "length a = length b \<Longrightarrow> memcmp a b = 0 \<longleftrightarrow> a = b"
  by (induction a b rule: memcmp.induct) auto

lemma strcmp_eq_0: "strcmp a b = 0 \<longleftrightarrow> cstr a = cstr b"
  by (induction a b rule: strcmp.induct) (auto simp: cstr_def)

lemma strcmp_eq_0_plain: "NUL \<notin> set a \<Longrightarrow> NUL \<notin> set b \<Longrightarrow> strcmp a b = 0 \<longleftrightarrow> a = b"
  by (simp add: strcmp_eq_0)

section \<open>Numbers as text\<close>

text \<open>Decimal output, as \<open>%d\<close>, \<open>%u\<close>, \<open>%lld\<close> and the stream operators print it.\<close>

definition digit_char :: "nat \<Rightarrow> char" where
  "digit_char d = char_of (48 + d)"

fun show_nat :: "nat \<Rightarrow> bytes" where
  "show_nat n = (if n < 10 then [digit_char n] else show_nat (n div 10) @ [digit_char (n mod 10)])"

declare show_nat.simps [simp del]

definition show_int :: "int \<Rightarrow> bytes" where
  "show_int x = (if x < 0 then CHR ''-'' # show_nat (nat (- x)) else show_nat (nat x))"

definition is_digit :: "char \<Rightarrow> bool" where
  "is_digit c \<longleftrightarrow> 48 \<le> uchar c \<and> uchar c \<le> 57"

definition digit_val :: "char \<Rightarrow> nat" where
  "digit_val c = of_char c - 48"

fun digits_val :: "nat \<Rightarrow> bytes \<Rightarrow> nat" where
  "digits_val acc [] = acc"
| "digits_val acc (c # cs) = digits_val (acc * 10 + digit_val c) cs"

lemma is_digit_char [simp]: "d < 10 \<Longrightarrow> is_digit (digit_char d)"
  by (simp add: is_digit_def digit_char_def uchar_def)

lemma digit_val_char [simp]: "d < 10 \<Longrightarrow> digit_val (digit_char d) = d"
  by (simp add: digit_val_def digit_char_def)

lemma digits_val_append: "digits_val acc (xs @ ys) = digits_val (digits_val acc xs) ys"
  by (induction xs arbitrary: acc) auto

lemma show_nat_digits: "list_all is_digit (show_nat n)"
proof (induction n rule: show_nat.induct)
  case (1 n)
  then show ?case by (cases "n < 10") (simp_all add: show_nat.simps [of n])
qed

lemma show_nat_not_Nil [simp]: "show_nat n \<noteq> []"
  by (subst show_nat.simps) simp

lemma digits_val_show_nat: "digits_val 0 (show_nat n) = n"
proof (induction n rule: show_nat.induct)
  case (1 n)
  then show ?case by (cases "n < 10") (simp_all add: show_nat.simps [of n] digits_val_append)
qed

lemma show_nat_inj [simp]: "show_nat m = show_nat n \<longleftrightarrow> m = n"
  by (metis digits_val_show_nat)

lemma is_digit_not_NUL: "is_digit c \<Longrightarrow> c \<noteq> NUL"
  by (auto simp: is_digit_def)

lemma show_nat_no_NUL [simp]: "NUL \<notin> set (show_nat n)"
  using show_nat_digits [of n] by (auto simp: list_all_iff is_digit_def)

lemma show_int_no_NUL [simp]: "NUL \<notin> set (show_int x)"
  by (simp add: show_int_def)

text \<open>
  \<open>strtol(s, &r, 10)\<close> (64-bit \<open>long\<close>): white space, an optional sign, digits; the
  value (clamped to the range of \<open>long\<close>) and what \<open>r\<close> points to. Without digits the
  value is 0 and \<open>r\<close> is \<open>s\<close>.
\<close>

definition is_space :: "char \<Rightarrow> bool" where
  "is_space c \<longleftrightarrow> uchar c = 32 \<or> (9 \<le> uchar c \<and> uchar c \<le> 13)"

definition clamp_long :: "int \<Rightarrow> int" where
  "clamp_long x = max (- (2 ^ 63)) (min (2 ^ 63 - 1) x)"

definition strtol :: "bytes \<Rightarrow> int \<times> bytes" where
  "strtol s =
     (let s = cstr s;
          t = dropWhile is_space s;
          (neg, t') = (case t of [] \<Rightarrow> (False, t)
             | c # u \<Rightarrow> if c = CHR ''-'' then (True, u) else if c = CHR ''+'' then (False, u) else (False, t));
          ds = takeWhile is_digit t'
      in if ds = [] then (0, s)
         else (clamp_long ((if neg then - 1 else 1) * int (digits_val 0 ds)), dropWhile is_digit t'))"

lemma strtol_show_nat:
  "int n < 2 ^ 63 \<Longrightarrow> strtol (show_nat n) = (int n, [])"
proof -
  assume n: "int n < 2 ^ 63"
  obtain c u where cu: "show_nat n = c # u" by (metis show_nat_not_Nil neq_Nil_conv)
  have all: "\<forall>x \<in> set (show_nat n). is_digit x" using show_nat_digits [of n] by (simp add: list_all_iff)
  then have c: "is_digit c" using cu by simp
  then have "\<not> is_space c" "c \<noteq> CHR ''-''" "c \<noteq> CHR ''+''" by (auto simp: is_digit_def is_space_def uchar_def)
  moreover have "takeWhile is_digit (show_nat n) = show_nat n" "dropWhile is_digit (show_nat n) = []"
    using all by (simp_all add: takeWhile_eq_all_conv dropWhile_eq_Nil_conv)
  moreover have "cstr (show_nat n) = show_nat n" by simp
  moreover have "clamp_long (int n) = int n" using n by (simp add: clamp_long_def)
  ultimately show ?thesis
    using digits_val_show_nat [of n] unfolding strtol_def Let_def cu by simp
qed

section \<open>The interface of a three-way comparison\<close>

text \<open>
  What a sorted container or a sort routine needs of a comparison that returns a
  negative number, zero or a positive number: on a set \<open>D\<close> of values it is
  antisymmetric in sign and transitive.
\<close>

fun ord_insert :: "('a \<Rightarrow> 'a \<Rightarrow> bool) \<Rightarrow> 'a \<Rightarrow> 'a list \<Rightarrow> 'a list" where
  "ord_insert lt x [] = [x]"
| "ord_insert lt x (y # ys) =
     (if lt x y then x # y # ys else if lt y x then y # ord_insert lt x ys else y # ys)"

locale three_way =
  fixes cmp :: "'a \<Rightarrow> 'a \<Rightarrow> int" and D :: "'a set"
  assumes cmp_antisym: "x \<in> D \<Longrightarrow> y \<in> D \<Longrightarrow> sgn (cmp y x) = - sgn (cmp x y)"
    and cmp_trans: "x \<in> D \<Longrightarrow> y \<in> D \<Longrightarrow> z \<in> D \<Longrightarrow> cmp x y \<le> 0 \<Longrightarrow> cmp y z \<le> 0 \<Longrightarrow> cmp x z \<le> 0"
begin

text \<open>An ordered set under the comparison, as \<open>std::set\<close> keeps it.\<close>

lemma ord_insert_set: "set (ord_insert (\<lambda>x y. cmp x y < 0) x ys) \<subseteq> insert x (set ys)"
  by (induction ys) auto

lemma ord_insert_mono: "set ys \<subseteq> set (ord_insert (\<lambda>x y. cmp x y < 0) x ys)"
  by (induction ys) auto

lemma cmp_refl: "x \<in> D \<Longrightarrow> cmp x x = 0"
  using cmp_antisym [of x x] by (auto simp: sgn_if split: if_splits)

lemma cmp_flip_le: "x \<in> D \<Longrightarrow> y \<in> D \<Longrightarrow> 0 \<le> cmp y x \<longleftrightarrow> cmp x y \<le> 0"
  using cmp_antisym [of x y] by (auto simp: sgn_if split: if_splits)

lemma cmp_flip_less: "x \<in> D \<Longrightarrow> y \<in> D \<Longrightarrow> 0 < cmp y x \<longleftrightarrow> cmp x y < 0"
  using cmp_antisym [of x y] by (auto simp: sgn_if split: if_splits)

lemma cmp_flip_eq: "x \<in> D \<Longrightarrow> y \<in> D \<Longrightarrow> cmp y x = 0 \<longleftrightarrow> cmp x y = 0"
  using cmp_antisym [of x y] by (auto simp: sgn_if split: if_splits)

lemma cmp_total: "x \<in> D \<Longrightarrow> y \<in> D \<Longrightarrow> cmp x y \<le> 0 \<or> cmp y x \<le> 0"
  using cmp_flip_le [of x y] by linarith

lemma cmp_less_le_trans:
  assumes "x \<in> D" "y \<in> D" "z \<in> D" and "cmp x y < 0" and "cmp y z \<le> 0"
  shows "cmp x z < 0"
proof (rule ccontr)
  assume "\<not> cmp x z < 0"
  then have "cmp z x \<le> 0" using cmp_flip_le [of z x] assms by auto
  with assms have "cmp y x \<le> 0" using cmp_trans [of y z x] by blast
  then show False using cmp_flip_less [of x y] assms by auto
qed

lemma cmp_le_less_trans:
  assumes "x \<in> D" "y \<in> D" "z \<in> D" and "cmp x y \<le> 0" and "cmp y z < 0"
  shows "cmp x z < 0"
proof (rule ccontr)
  assume "\<not> cmp x z < 0"
  then have "cmp z x \<le> 0" using cmp_flip_le [of z x] assms by auto
  with assms have "cmp z y \<le> 0" using cmp_trans [of z x y] by blast
  then show False using cmp_flip_less [of y z] assms by auto
qed

lemma cmp_eq_trans:
  assumes "x \<in> D" "y \<in> D" "z \<in> D" and "cmp x y = 0" and "cmp y z = 0"
  shows "cmp x z = 0"
proof -
  have "cmp x z \<le> 0" using cmp_trans [of x y z] assms by auto
  moreover have "cmp z x \<le> 0"
    using cmp_trans [of z y x] cmp_flip_eq [of y z] cmp_flip_eq [of x y] assms by auto
  ultimately show ?thesis using cmp_flip_le [of z x] assms by auto
qed

lemma cmp_eq_cong_left:
  assumes "x \<in> D" "y \<in> D" "z \<in> D" and "cmp x y = 0"
  shows "sgn (cmp x z) = sgn (cmp y z)"
proof -
  have xy: "cmp x y \<le> 0" and yx: "cmp y x \<le> 0"
    using assms cmp_flip_eq [of x y] by auto
  have "cmp x z \<le> 0 \<longleftrightarrow> cmp y z \<le> 0"
    using assms(1,2,3) xy yx cmp_trans [of x y z] cmp_trans [of y x z] by blast
  moreover have "cmp x z < 0 \<longleftrightarrow> cmp y z < 0"
    using assms(1,2,3) xy yx cmp_le_less_trans [of x y z] cmp_le_less_trans [of y x z] by blast
  ultimately show ?thesis by (auto simp: sgn_if)
qed

lemma ord_insert_sorted:
  assumes "x \<in> D" and "set ys \<subseteq> D" and "sorted_wrt (\<lambda>x y. cmp x y < 0) ys"
  shows "sorted_wrt (\<lambda>x y. cmp x y < 0) (ord_insert (\<lambda>x y. cmp x y < 0) x ys)"
  using assms
proof (induction ys)
  case (Cons y ys)
  show ?case
  proof (cases "cmp x y < 0")
    case True
    then have "\<forall>z \<in> set ys. cmp x z < 0"
      using Cons.prems cmp_less_le_trans [of x y] by (auto simp: less_imp_le)
    then show ?thesis using True Cons.prems by simp
  next
    case False
    then show ?thesis
      using Cons ord_insert_set [of x ys] by auto
  qed
qed simp

text \<open>After an insertion, an element equivalent to the new one is in the set.\<close>

lemma ord_insert_in:
  assumes "x \<in> D" and "set ys \<subseteq> D"
  shows "\<exists>y \<in> set (ord_insert (\<lambda>x y. cmp x y < 0) x ys). cmp x y = 0"
  using assms
proof (induction ys)
  case Nil
  then show ?case by (simp add: cmp_refl)
next
  case (Cons y ys)
  then have "\<not> cmp x y < 0 \<Longrightarrow> \<not> cmp y x < 0 \<Longrightarrow> cmp x y = 0"
    using cmp_flip_less [of y x] by auto
  with Cons show ?case by (auto simp: cmp_refl)
qed

end

lemma three_way_key: "three_way (\<lambda>x y. f x - f y) D"
  by unfold_locales (auto simp: sgn_if)

lemma three_way_subset: "three_way c E \<Longrightarrow> D \<subseteq> E \<Longrightarrow> three_way c D"
  unfolding three_way_def by (meson subsetD)

lemma three_way_image: "three_way c (f ` D) \<Longrightarrow> three_way (\<lambda>x y. c (f x) (f y)) D"
  unfolding three_way_def by blast

text \<open>A comparison with the same signs is as good.\<close>

lemma three_way_sgn_cong:
  assumes "three_way c D" and "\<And>x y. x \<in> D \<Longrightarrow> y \<in> D \<Longrightarrow> sgn (c' x y) = sgn (c x y)"
  shows "three_way c' D"
proof -
  have le: "c' x y \<le> 0 \<longleftrightarrow> c x y \<le> 0" if "x \<in> D" "y \<in> D" for x y
    using assms(2) [OF that] by (auto simp: sgn_if split: if_splits)
  show ?thesis
  proof
    show "sgn (c' y x) = - sgn (c' x y)" if "x \<in> D" "y \<in> D" for x y
      using three_way.cmp_antisym [OF assms(1) that] assms(2) that by simp
    show "c' x z \<le> 0" if "x \<in> D" "y \<in> D" "z \<in> D" "c' x y \<le> 0" "c' y z \<le> 0" for x y z
      using three_way.cmp_trans [OF assms(1) that(1-3)] that le by simp
  qed
qed

text \<open>Comparing by a first and then, among equals, by a second comparison.\<close>

definition lex_cmp :: "('a \<Rightarrow> 'a \<Rightarrow> int) \<Rightarrow> ('a \<Rightarrow> 'a \<Rightarrow> int) \<Rightarrow> 'a \<Rightarrow> 'a \<Rightarrow> int" where
  "lex_cmp c d x y = (if c x y \<noteq> 0 then c x y else d x y)"

lemma three_way_lex:
  assumes c: "three_way c D" and d: "\<And>x. x \<in> D \<Longrightarrow> three_way d {y \<in> D. c x y = 0}"
  shows "three_way (lex_cmp c d) D"
proof
  fix x y assume D: "x \<in> D" "y \<in> D"
  have flip: "c y x = 0 \<longleftrightarrow> c x y = 0" using three_way.cmp_flip_eq [OF c D] .
  show "sgn (lex_cmp c d y x) = - sgn (lex_cmp c d x y)"
  proof (cases "c x y = 0")
    case True
    then have "sgn (d y x) = - sgn (d x y)"
      by (intro three_way.cmp_antisym [OF d [OF D(1)]]) (simp_all add: D three_way.cmp_refl [OF c D(1)])
    then show ?thesis using True flip by (simp add: lex_cmp_def)
  next
    case False
    then show ?thesis using flip three_way.cmp_antisym [OF c D] by (simp add: lex_cmp_def)
  qed
next
  fix x y z assume D: "x \<in> D" "y \<in> D" "z \<in> D" and xy: "lex_cmp c d x y \<le> 0" and yz: "lex_cmp c d y z \<le> 0"
  have le: "c x y \<le> 0" "c y z \<le> 0" using xy yz by (auto simp: lex_cmp_def split: if_splits)
  show "lex_cmp c d x z \<le> 0"
  proof (cases "c x y = 0 \<and> c y z = 0")
    case True
    then have "c x z = 0" using three_way.cmp_eq_trans [OF c D] by blast
    moreover have "d x z \<le> 0"
      by (rule three_way.cmp_trans [OF d [OF D(1)], of x y z])
         (use D True calculation xy yz three_way.cmp_refl [OF c D(1)] in \<open>auto simp: lex_cmp_def\<close>)
    ultimately show ?thesis by (simp add: lex_cmp_def)
  next
    case False
    then have "c x z < 0"
      using le three_way.cmp_less_le_trans [OF c D] three_way.cmp_le_less_trans [OF c D] by fastforce
    then show ?thesis by (simp add: lex_cmp_def)
  qed
qed

lemma three_way_lex_all: "three_way c D \<Longrightarrow> three_way d D \<Longrightarrow> three_way (lex_cmp c d) D"
  by (intro three_way_lex) (auto intro: three_way_subset)

text \<open>Sequences compare at the first difference; a proper prefix comes first.\<close>

fun list_cmp :: "('a \<Rightarrow> 'a \<Rightarrow> int) \<Rightarrow> 'a list \<Rightarrow> 'a list \<Rightarrow> int" where
  "list_cmp c [] [] = 0"
| "list_cmp c [] (_ # _) = - 1"
| "list_cmp c (_ # _) [] = 1"
| "list_cmp c (x # xs) (y # ys) = (if c x y \<noteq> 0 then c x y else list_cmp c xs ys)"

lemma list_cmp_cong:
  "(\<And>x y. x \<in> set xs \<Longrightarrow> y \<in> set ys \<Longrightarrow> c x y = c' x y) \<Longrightarrow> list_cmp c xs ys = list_cmp c' xs ys"
  by (induction c xs ys rule: list_cmp.induct) auto

lemma three_way_list:
  assumes c: "three_way c E"
  shows "three_way (list_cmp c) (lists E)"
proof
  show "sgn (list_cmp c ys xs) = - sgn (list_cmp c xs ys)" if "xs \<in> lists E" "ys \<in> lists E" for xs ys
    using that
  proof (induction xs arbitrary: ys rule: list.induct)
    case Nil
    then show ?case by (cases ys) auto
  next
    case step: (Cons x xs)
    show ?case
    proof (cases ys)
      case (Cons y ys')
      then have E: "x \<in> E" "y \<in> E" using step.prems by auto
      show ?thesis
        using Cons step.IH [of ys'] step.prems three_way.cmp_antisym [OF c E] three_way.cmp_flip_eq [OF c E] by simp
    qed simp
  qed
  show "list_cmp c xs zs \<le> 0"
    if "xs \<in> lists E" "ys \<in> lists E" "zs \<in> lists E" "list_cmp c xs ys \<le> 0" "list_cmp c ys zs \<le> 0" for xs ys zs
    using that
  proof (induction xs arbitrary: ys zs rule: list.induct)
    case Nil
    then show ?case by (cases zs) auto
  next
    case (Cons x xs)
    obtain y ys' where ys: "ys = y # ys'" using Cons.prems(4) by (cases ys) auto
    obtain z zs' where zs: "zs = z # zs'" using Cons.prems(5) ys by (cases zs) auto
    have E: "x \<in> E" "y \<in> E" "z \<in> E" using Cons.prems ys zs by auto
    have le: "c x y \<le> 0" "c y z \<le> 0" using Cons.prems(4,5) ys zs by (auto split: if_splits)
    show ?case
    proof (cases "c x y = 0 \<and> c y z = 0")
      case True
      then have "c x z = 0" using three_way.cmp_eq_trans [OF c E] by blast
      then show ?thesis using Cons.IH [of ys' zs'] Cons.prems ys zs True by simp
    next
      case False
      then have "c x z < 0"
        using le three_way.cmp_less_le_trans [OF c E] three_way.cmp_le_less_trans [OF c E] by fastforce
      then show ?thesis using zs by simp
    qed
  qed
qed

text \<open>\<open>strcmp\<close> and \<open>memcmp\<close> are such comparisons.\<close>

lemma memcmp_list_cmp: "length a = length b \<Longrightarrow> memcmp a b = list_cmp (\<lambda>x y. uchar x - uchar y) a b"
  by (induction a b rule: memcmp.induct) auto

lemma strcmp_list_cmp: "sgn (strcmp a b) = sgn (list_cmp (\<lambda>x y. uchar x - uchar y) (cstr a) (cstr b))"
proof (induction a b rule: strcmp.induct)
  case (2 y ys)
  then show ?case using uchar_bounds [of y] by (auto simp: cstr_def sgn_if)
next
  case (3 x xs)
  then show ?case using uchar_bounds [of x] by (auto simp: cstr_def sgn_if)
next
  case (4 x xs y ys)
  have "sgn (strcmp (x # xs) (y # ys)) = sgn (uchar x - uchar y)" if "x \<noteq> y" using that by simp
  with 4 show ?case by (cases "x = y") (auto simp: cstr_def)
qed (simp add: cstr_def)

interpretation strc: three_way strcmp UNIV
proof -
  have "three_way (\<lambda>a b. list_cmp (\<lambda>x y. uchar x - uchar y) (cstr a) (cstr b)) UNIV"
    by (rule three_way_image, rule three_way_subset [OF three_way_list [OF three_way_key [of uchar UNIV]]]) auto
  then show "three_way strcmp UNIV" by (rule three_way_sgn_cong) (rule strcmp_list_cmp)
qed

lemma three_way_memcmp: "three_way memcmp {b. length b = n}"
  by (rule three_way_sgn_cong [OF three_way_subset [OF three_way_list [OF three_way_key [of uchar UNIV]]]])
     (auto simp: memcmp_list_cmp)

interpretation oidc: three_way memcmp "{b. length b = 12}"
  by (rule three_way_memcmp)

end
