(* ===== verification/BsonTypes.thy ===== *)
theory BsonTypes
  imports Prelude
begin

text \<open>
  BSON documents: the type tags of bson/bsontypes.h, documents as values (what a
  sequence of bytes means), and the wire format of a document as the reference
  against which the builder (BsonBuilder) and the readers (BsonReader) are proved.
\<close>

section \<open>Type tags (bsontypes.h)\<close>

datatype BSONType =
    MinKey | EOO | NumberDouble | String | Object | Array | BinData | Undefined | jstOID
  | Bool | Date | jstNULL | RegEx | DBRef | Code | Symbol | CodeWScope | NumberInt
  | Timestamp | NumberLong | MaxKey

fun type_code :: "BSONType \<Rightarrow> int" where
  "type_code MinKey = -1"
| "type_code EOO = 0"
| "type_code NumberDouble = 1"
| "type_code String = 2"
| "type_code Object = 3"
| "type_code Array = 4"
| "type_code BinData = 5"
| "type_code Undefined = 6"
| "type_code jstOID = 7"
| "type_code Bool = 8"
| "type_code Date = 9"
| "type_code jstNULL = 10"
| "type_code RegEx = 11"
| "type_code DBRef = 12"
| "type_code Code = 13"
| "type_code Symbol = 14"
| "type_code CodeWScope = 15"
| "type_code NumberInt = 16"
| "type_code Timestamp = 17"
| "type_code NumberLong = 18"
| "type_code MaxKey = 127"

definition all_types :: "BSONType list" where
  "all_types = [MinKey, EOO, NumberDouble, String, Object, Array, BinData, Undefined, jstOID,
     Bool, Date, jstNULL, RegEx, DBRef, Code, Symbol, CodeWScope, NumberInt, Timestamp,
     NumberLong, MaxKey]"

text \<open>The enumerator a tag byte denotes: none for a byte that is no BSON type.\<close>

definition type_of_code :: "int \<Rightarrow> BSONType option" where
  "type_of_code x = find (\<lambda>t. type_code t = x) all_types"

text \<open>The byte written for a tag, \<open>(char) t\<close>.\<close>

definition type_byte :: "BSONType \<Rightarrow> char" where
  "type_byte t = char_of (nat (type_code t mod 256))"

lemma type_of_code_type_code [simp]: "type_of_code (type_code t) = Some t"
  by (cases t) (simp_all add: type_of_code_def all_types_def)

lemma type_code_inj [simp]: "type_code s = type_code t \<longleftrightarrow> s = t"
  by (metis option.inject type_of_code_type_code)

lemma schar_type_byte [simp]: "schar (type_byte t) = type_code t"
  by (cases t) (simp_all add: type_byte_def schar_def uchar_def of_char_of)

lemma type_byte_NUL [simp]: "type_byte t = NUL \<longleftrightarrow> t = EOO"
proof
  assume "type_byte t = NUL"
  then have "type_code t = type_code EOO"
    using schar_type_byte [of t] by (simp add: schar_def del: schar_type_byte)
  then show "t = EOO" by (simp only: type_code_inj)
qed (simp add: type_byte_def char_of_def)

lemma type_code_0 [simp]: "type_code t = 0 \<longleftrightarrow> t = EOO"
  by (cases t) simp_all

declare type_code.simps [simp del]

section \<open>Documents\<close>

text \<open>
  A value holds what the element's accessors return: IEEE bits of a double, the bytes
  of a string without its terminator, the fields of an embedded document in order.
\<close>

datatype bson_value =
    VMinKey
  | VDouble "64 word"
  | VString bytes
  | VObject "(bytes \<times> bson_value) list"
  | VArray "(bytes \<times> bson_value) list"
  | VBinData "8 word" bytes
  | VUndefined
  | VOID bytes
  | VBool bool
  | VDate "64 word"
  | VNull
  | VRegEx bytes bytes
  | VDBRef bytes bytes
  | VCode bytes
  | VSymbol bytes
  | VCodeWScope bytes "(bytes \<times> bson_value) list"
  | VInt "32 word"
  | VTimestamp "64 word"
  | VLong "64 word"
  | VMaxKey

type_synonym doc = "(bytes \<times> bson_value) list"
type_synonym elem = "bytes \<times> bson_value"

fun value_type :: "bson_value \<Rightarrow> BSONType" where
  "value_type VMinKey = MinKey"
| "value_type (VDouble _) = NumberDouble"
| "value_type (VString _) = String"
| "value_type (VObject _) = Object"
| "value_type (VArray _) = Array"
| "value_type (VBinData _ _) = BinData"
| "value_type VUndefined = Undefined"
| "value_type (VOID _) = jstOID"
| "value_type (VBool _) = Bool"
| "value_type (VDate _) = Date"
| "value_type VNull = jstNULL"
| "value_type (VRegEx _ _) = RegEx"
| "value_type (VDBRef _ _) = DBRef"
| "value_type (VCode _) = Code"
| "value_type (VSymbol _) = Symbol"
| "value_type (VCodeWScope _ _) = CodeWScope"
| "value_type (VInt _) = NumberInt"
| "value_type (VTimestamp _) = Timestamp"
| "value_type (VLong _) = NumberLong"
| "value_type VMaxKey = MaxKey"

lemma value_type_not_EOO [simp]: "value_type v \<noteq> EOO" "EOO \<noteq> value_type v"
  by (cases v, simp_all)+

lemma size_field [termination_simp]:
  "(n, v) \<in> set es \<Longrightarrow> size v < Suc (size_list (size_prod (\<lambda>_. 0) size) es)"
  by (induction es) auto

text \<open>Induction over values and their fields.\<close>

lemma bson_value_induct [case_names scalar object array code_w_scope]:
  assumes "\<And>v. value_type v \<notin> {Object, Array, CodeWScope} \<Longrightarrow> P v"
    and "\<And>es. (\<And>n v. (n, v) \<in> set es \<Longrightarrow> P v) \<Longrightarrow> P (VObject es)"
    and "\<And>es. (\<And>n v. (n, v) \<in> set es \<Longrightarrow> P v) \<Longrightarrow> P (VArray es)"
    and "\<And>c es. (\<And>n v. (n, v) \<in> set es \<Longrightarrow> P v) \<Longrightarrow> P (VCodeWScope c es)"
  shows "P v"
proof (induction v rule: bson_value.induct)
  case (VObject es)
  then show ?case by (intro assms(2)) (metis prod_set_simps(2) singletonI)
next
  case (VArray es)
  then show ?case by (intro assms(3)) (metis prod_set_simps(2) singletonI)
next
  case (VCodeWScope c es)
  then show ?case by (intro assms(4)) (metis prod_set_simps(2) singletonI)
qed (simp_all add: assms(1))

section \<open>The wire format\<close>

text \<open>
  The format documented in bsonobj.h:
  \<^verbatim>\<open><unsigned totalSize> {<byte BSONType><cstring FieldName><Data>}* EOO\<close>.
\<close>

fun enc_value :: "bson_value \<Rightarrow> bytes" where
  "enc_value VMinKey = []"
| "enc_value (VDouble w) = le64 w"
| "enc_value (VString s) = le_int (int (length s) + 1) @ s @ [NUL]"
| "enc_value (VObject es) =
     (let body = concat (map (\<lambda>(n, v). type_byte (value_type v) # n @ NUL # enc_value v) es)
      in le_int (int (length body) + 5) @ body @ [NUL])"
| "enc_value (VArray es) =
     (let body = concat (map (\<lambda>(n, v). type_byte (value_type v) # n @ NUL # enc_value v) es)
      in le_int (int (length body) + 5) @ body @ [NUL])"
| "enc_value (VBinData t d) = le_int (int (length d)) @ [char_of (unat t)] @ d"
| "enc_value VUndefined = []"
| "enc_value (VOID d) = d"
| "enc_value (VBool b) = [if b then CHR 0x01 else NUL]"
| "enc_value (VDate w) = le64 w"
| "enc_value VNull = []"
| "enc_value (VRegEx r opts) = r @ NUL # opts @ [NUL]"
| "enc_value (VDBRef ns d) = le_int (int (length ns) + 1) @ ns @ [NUL] @ d"
| "enc_value (VCode s) = le_int (int (length s) + 1) @ s @ [NUL]"
| "enc_value (VSymbol s) = le_int (int (length s) + 1) @ s @ [NUL]"
| "enc_value (VCodeWScope c es) =
     (let body = concat (map (\<lambda>(n, v). type_byte (value_type v) # n @ NUL # enc_value v) es)
      in le_int (4 + 4 + int (length c) + 1 + (int (length body) + 5)) @
         le_int (int (length c) + 1) @ c @ [NUL] @ le_int (int (length body) + 5) @ body @ [NUL])"
| "enc_value (VInt w) = le32 w"
| "enc_value (VTimestamp w) = le64 w"
| "enc_value (VLong w) = le64 w"
| "enc_value VMaxKey = []"

definition enc_elem :: "elem \<Rightarrow> bytes" where
  "enc_elem e = type_byte (value_type (snd e)) # fst e @ NUL # enc_value (snd e)"

definition enc_elems :: "doc \<Rightarrow> bytes" where
  "enc_elems d = concat (map enc_elem d)"

definition enc_doc :: "doc \<Rightarrow> bytes" where
  "enc_doc d = le_int (int (length (enc_elems d)) + 5) @ enc_elems d @ [NUL]"

lemma enc_body_eq:
  "concat (map (\<lambda>(n, v). type_byte (value_type v) # n @ NUL # enc_value v) es) = enc_elems es"
  unfolding enc_elems_def by (intro arg_cong [where f = concat] map_cong) (auto simp: enc_elem_def)

text \<open>The embedded documents of a value are encoded as documents.\<close>

lemma enc_value_nested [simp]:
  "enc_value (VObject es) = enc_doc es"
  "enc_value (VArray es) = enc_doc es"
  "enc_value (VCodeWScope c es) =
     le_int (4 + 4 + int (length c) + 1 + int (length (enc_doc es))) @
     le_int (int (length c) + 1) @ c @ [NUL] @ enc_doc es"
  by (simp_all add: enc_body_eq enc_doc_def Let_def)

declare enc_value.simps(4,5,16) [simp del]

lemma enc_elems_simps [simp]:
  "enc_elems [] = []"
  "enc_elems (e # d) = enc_elem e @ enc_elems d"
  "enc_elems (d1 @ d2) = enc_elems d1 @ enc_elems d2"
  by (simp_all add: enc_elems_def)

lemma length_enc_doc [simp]: "length (enc_doc d) = length (enc_elems d) + 5"
  by (simp add: enc_doc_def)

lemma length_enc_elem: "length (enc_elem (n, v)) = length n + 2 + length (enc_value v)"
  by (simp add: enc_elem_def)

lemma enc_elem_not_Nil [simp]: "enc_elem e \<noteq> []"
  by (simp add: enc_elem_def)

section \<open>Well-formed documents\<close>

text \<open>
  What the driver's own values satisfy: field names, regular expressions and their
  options, and the code of a \<open>CodeWScope\<close> and the namespace of a \<open>DBRef\<close> hold no NUL
  (they are C strings), object ids have 12 bytes.
\<close>

fun wf_value :: "bson_value \<Rightarrow> bool" where
  "wf_value (VObject es) = (\<forall>(n, v) \<in> set es. NUL \<notin> set n \<and> wf_value v)"
| "wf_value (VArray es) = (\<forall>(n, v) \<in> set es. NUL \<notin> set n \<and> wf_value v)"
| "wf_value (VOID d) = (length d = 12)"
| "wf_value (VRegEx r opts) = (NUL \<notin> set r \<and> NUL \<notin> set opts)"
| "wf_value (VDBRef ns d) = (NUL \<notin> set ns \<and> length d = 12)"
| "wf_value (VCodeWScope c es) = (NUL \<notin> set c \<and> (\<forall>(n, v) \<in> set es. NUL \<notin> set n \<and> wf_value v))"
| "wf_value _ = True"

definition wf_elem :: "elem \<Rightarrow> bool" where
  "wf_elem e = (NUL \<notin> set (fst e) \<and> wf_value (snd e))"

definition wf_doc :: "doc \<Rightarrow> bool" where
  "wf_doc d = list_all wf_elem d"

lemma wf_value_nested [simp]:
  "wf_value (VObject es) = wf_doc es"
  "wf_value (VArray es) = wf_doc es"
  "wf_value (VCodeWScope c es) = (NUL \<notin> set c \<and> wf_doc es)"
  by (auto simp: wf_doc_def wf_elem_def list_all_iff)

declare wf_value.simps(1,2,6) [simp del]

lemma wf_doc_simps [simp]:
  "wf_doc []" "wf_doc (e # d) \<longleftrightarrow> wf_elem e \<and> wf_doc d" "wf_doc (d1 @ d2) \<longleftrightarrow> wf_doc d1 \<and> wf_doc d2"
  by (simp_all add: wf_doc_def)

lemma wf_elem_pair [simp]: "wf_elem (n, v) \<longleftrightarrow> NUL \<notin> set n \<and> wf_value v"
  by (simp add: wf_elem_def)

text \<open>\<open>BSONObjMaxInternalSize\<close> and \<open>BufferMaxSize\<close> of bson/util/builder.h.\<close>

definition BSONObjMaxUserSize :: int where
  "BSONObjMaxUserSize = 16 * 1024 * 1024"

definition BSONObjMaxInternalSize :: int where
  "BSONObjMaxInternalSize = BSONObjMaxUserSize + 16 * 1024"

definition BufferMaxSize :: int where
  "BufferMaxSize = 64 * 1024 * 1024"

lemma size_limits [simp]:
  "BSONObjMaxInternalSize = 16793600" "BufferMaxSize = 67108864" "BSONObjMaxUserSize = 16777216"
  by (simp_all add: BSONObjMaxInternalSize_def BSONObjMaxUserSize_def BufferMaxSize_def)

text \<open>An embedded document is shorter than the element that holds it.\<close>

lemma enc_elem_le_doc: "e \<in> set d \<Longrightarrow> length (enc_elem e) + 5 \<le> length (enc_doc d)"
  by (induction d) auto

end
