(* ===== verification/BufBuilder.thy ===== *)
theory BufBuilder
  imports BsonTypes
begin

text \<open>
  The growing byte buffer of bson/util/builder.h. The allocation is a list of cells;
  a cell that \<open>malloc\<close> or \<open>realloc\<close> returned and nobody wrote is \<open>None\<close>
  (indeterminate). Writing outside the allocation is \<open>OutOfBounds\<close>. The locale
  \<open>append_buffer\<close> is what the object builder and the message assembly rely on.
\<close>

section \<open>The buffer\<close>

record bufbuilder =
  cells :: "char option list"
  buf_l :: int
  buf_size :: int

text \<open>\<open>BufBuilder(int initsize)\<close>: no allocation for \<open>initsize <= 0\<close>.\<close>

definition buf_new :: "int \<Rightarrow> bufbuilder" where
  "buf_new initsize = \<lparr>cells = replicate (nat initsize) None, buf_l = 0, buf_size = initsize\<rparr>"

definition buf_reset :: "int \<Rightarrow> bufbuilder \<Rightarrow> bufbuilder" where
  "buf_reset maxSize b =
     (let b = b\<lparr>buf_l := 0\<rparr>
      in if maxSize \<noteq> 0 \<and> buf_size b > maxSize
         then b\<lparr>cells := replicate (nat maxSize) None, buf_size := maxSize\<rparr> else b)"

definition buf_setlen :: "int \<Rightarrow> bufbuilder \<Rightarrow> bufbuilder" where
  "buf_setlen newLen b = b\<lparr>buf_l := newLen\<rparr>"

text \<open>\<open>realloc(data, a)\<close>: the old cells up to the smaller size are kept.\<close>

definition realloc_cells :: "nat \<Rightarrow> char option list \<Rightarrow> char option list" where
  "realloc_cells a cs = take a cs @ replicate (a - length cs) None"

definition grow_reallocate :: "bufbuilder \<Rightarrow> bufbuilder res" where
  "grow_reallocate b =
     (let a = buf_size b * 2;
          a = (if a = 0 then 512 else a);
          a = (if buf_l b > a then buf_l b + 16 * 1024 else a)
      in if a > BufferMaxSize then Inl (Massert 13548)
         else Inr (b\<lparr>cells := realloc_cells (nat a) (cells b), buf_size := a\<rparr>))"

text \<open>\<open>grow\<close> returns the write position before the growth.\<close>

definition grow :: "int \<Rightarrow> bufbuilder \<Rightarrow> (bufbuilder \<times> int) res" where
  "grow by_n b =
     (let oldlen = buf_l b;
          b = b\<lparr>buf_l := i32 (buf_l b + by_n)\<rparr>
      in bind_res (if buf_l b > buf_size b then grow_reallocate b else Inr b)
           (\<lambda>b. Inr (b, oldlen)))"

definition buf_skip :: "int \<Rightarrow> bufbuilder \<Rightarrow> bufbuilder res" where
  "buf_skip n b = bind_res (grow n b) (\<lambda>(b, _). Inr b)"

text \<open>A \<open>memcpy\<close> (or a store through a typed pointer) to \<open>data + pos\<close>.\<close>

definition buf_write :: "int \<Rightarrow> bytes \<Rightarrow> bufbuilder \<Rightarrow> bufbuilder res" where
  "buf_write pos xs b =
     (if 0 \<le> pos \<and> nat pos + length xs \<le> length (cells b)
      then Inr (b\<lparr>cells := take (nat pos) (cells b) @ map Some xs @ drop (nat pos + length xs) (cells b)\<rparr>)
      else Inl OutOfBounds)"

definition appendBuf :: "bytes \<Rightarrow> bufbuilder \<Rightarrow> bufbuilder res" where
  "appendBuf src b = bind_res (grow (i32 (int (length src))) b) (\<lambda>(b, pos). buf_write pos src b)"

text \<open>The typed \<open>appendNum\<close> overloads store the value's bytes.\<close>

definition appendChar :: "char \<Rightarrow> bufbuilder \<Rightarrow> bufbuilder res" where
  "appendChar j = appendBuf [j]"

definition appendNum_int :: "int \<Rightarrow> bufbuilder \<Rightarrow> bufbuilder res" where
  "appendNum_int j = appendBuf (le_int j)"

definition appendNum_32 :: "32 word \<Rightarrow> bufbuilder \<Rightarrow> bufbuilder res" where
  "appendNum_32 j = appendBuf (le32 j)"

definition appendNum_64 :: "64 word \<Rightarrow> bufbuilder \<Rightarrow> bufbuilder res" where
  "appendNum_64 j = appendBuf (le64 j)"

text \<open>A \<open>StringData\<close> is its characters; its terminator follows them in memory.\<close>

definition appendStr :: "bytes \<Rightarrow> bool \<Rightarrow> bufbuilder \<Rightarrow> bufbuilder res" where
  "appendStr str includeEOO = appendBuf (if includeEOO then str @ [NUL] else str)"

section \<open>Its invariant\<close>

definition buf_inv :: "bufbuilder \<Rightarrow> bool" where
  "buf_inv b \<longleftrightarrow> 0 \<le> buf_l b \<and> buf_l b \<le> buf_size b \<and> buf_size b = int (length (cells b)) \<and>
     buf_size b \<le> BufferMaxSize"

text \<open>What has been appended so far.\<close>

definition contents :: "bufbuilder \<Rightarrow> char option list" where
  "contents b = take (nat (buf_l b)) (cells b)"

lemma buf_new_inv: "0 \<le> n \<Longrightarrow> n \<le> BufferMaxSize \<Longrightarrow> buf_inv (buf_new n)"
  by (simp add: buf_inv_def buf_new_def)

lemma contents_new [simp]: "contents (buf_new n) = []"
  by (simp add: contents_def buf_new_def)

lemma length_contents: "buf_inv b \<Longrightarrow> int (length (contents b)) = buf_l b"
  by (auto simp: contents_def buf_inv_def min_def)

lemma buf_reset_inv: "buf_inv b \<Longrightarrow> 0 \<le> m \<Longrightarrow> buf_inv (buf_reset m b)"
  by (auto simp: buf_inv_def buf_reset_def Let_def)

lemma contents_reset [simp]: "contents (buf_reset m b) = []"
  by (simp add: buf_reset_def contents_def Let_def)

lemma contents_setlen:
  "buf_inv b \<Longrightarrow> 0 \<le> n \<Longrightarrow> n \<le> buf_l b \<Longrightarrow>
   contents (buf_setlen n b) = take (nat n) (contents b) \<and> buf_inv (buf_setlen n b)"
  by (auto simp: contents_def buf_setlen_def buf_inv_def min_def)

section \<open>Growth\<close>

lemma length_realloc [simp]: "length (realloc_cells a cs) = a"
  by (simp add: realloc_cells_def min_def)

lemma take_realloc: "n \<le> length cs \<Longrightarrow> n \<le> a \<Longrightarrow> take n (realloc_cells a cs) = take n cs"
  by (simp add: realloc_cells_def min_def)

text \<open>Growing by \<open>n\<close> keeps what was written and makes room for \<open>n\<close> more cells.\<close>

lemma grow_Inr:
  assumes inv: "buf_inv b" and n: "0 \<le> n" "n \<le> BufferMaxSize" and g: "grow n b = Inr (b', pos)"
  shows "buf_inv b' \<and> pos = buf_l b \<and> buf_l b' = buf_l b + n \<and>
    take (nat (buf_l b)) (cells b') = contents b"
proof -
  have l: "i32 (buf_l b + n) = buf_l b + n"
    using inv n by (intro i32_id) (auto simp: buf_inv_def)
  show ?thesis
  proof (cases "buf_l b + n > buf_size b")
    case True
    with g l show ?thesis
      using inv n
      by (auto simp: grow_def grow_reallocate_def Let_def buf_inv_def contents_def take_realloc split: if_splits)
  next
    case False
    with g l show ?thesis using inv n by (auto simp: grow_def buf_inv_def contents_def)
  qed
qed

text \<open>The only failure is the 64MB limit, and up to 32MB there is none.\<close>

lemma grow_Inl:
  assumes inv: "buf_inv b" and n: "0 \<le> n" "n \<le> BufferMaxSize" and g: "grow n b = Inl e"
  shows "e = Massert 13548 \<and> BufferMaxSize < 2 * (buf_l b + n)"
proof -
  have "i32 (buf_l b + n) = buf_l b + n"
    using inv n by (intro i32_id) (auto simp: buf_inv_def)
  with g show ?thesis
    using inv n by (auto simp: grow_def grow_reallocate_def Let_def buf_inv_def split: if_splits)
qed

section \<open>Appending\<close>

text \<open>
  The contract of a buffer: \<open>append\<close> either fails with \<open>e\<^sub>0\<close>, which it does not do
  before \<open>limit\<close> bytes are held, or adds exactly the bytes given.
\<close>

locale append_buffer =
  fixes invar :: "'b \<Rightarrow> bool" and held :: "'b \<Rightarrow> char option list"
    and append :: "bytes \<Rightarrow> 'b \<Rightarrow> 'b res" and limit :: nat and max_chunk :: nat
  assumes append_ok: "invar b \<Longrightarrow> length xs \<le> max_chunk \<Longrightarrow> append xs b = Inr b' \<Longrightarrow>
      invar b' \<and> held b' = held b @ map Some xs"
    and append_total: "invar b \<Longrightarrow> length (held b) + length xs \<le> limit \<Longrightarrow> \<exists>b'. append xs b = Inr b'"
    and limit_chunk: "limit \<le> max_chunk"
begin

lemma append_run:
  assumes "invar b" and "length (held b) + length xs \<le> limit"
  shows "\<exists>b'. append xs b = Inr b' \<and> invar b' \<and> held b' = held b @ map Some xs"
proof -
  obtain b' where "append xs b = Inr b'" using append_total [OF assms] by blast
  moreover have "length xs \<le> max_chunk" using assms(2) limit_chunk by simp
  ultimately show ?thesis using append_ok [OF assms(1)] by blast
qed

text \<open>A sequence of appends adds the concatenation.\<close>

lemma appends_run:
  "invar b \<Longrightarrow> length (held b) + length (concat xss) \<le> limit \<Longrightarrow>
   \<exists>b'. seq_res (map append xss) b = Inr b' \<and> invar b' \<and> held b' = held b @ map Some (concat xss)"
proof (induction xss arbitrary: b)
  case (Cons xs xss)
  then obtain b1 where b1: "append xs b = Inr b1" "invar b1" "held b1 = held b @ map Some xs"
    using append_run [of b xs] by auto
  then have "length (held b1) + length (concat xss) \<le> limit" using Cons.prems by simp
  with Cons.IH [OF b1(2)] b1 show ?case by simp
qed simp

text \<open>Whatever the sequence, if it succeeds it added the concatenation.\<close>

lemma appends_ok:
  "invar b \<Longrightarrow> \<forall>xs \<in> set xss. length xs \<le> max_chunk \<Longrightarrow> seq_res (map append xss) b = Inr b' \<Longrightarrow>
   invar b' \<and> held b' = held b @ map Some (concat xss)"
proof (induction xss arbitrary: b)
  case (Cons xs xss)
  then obtain b1 where b1: "append xs b = Inr b1" "seq_res (map append xss) b1 = Inr b'"
    by (auto simp: res_simps)
  have "invar b1 \<and> held b1 = held b @ map Some xs"
    by (rule append_ok) (use Cons.prems b1 in auto)
  with Cons.IH [of b1] b1(2) Cons.prems show ?case by simp
qed simp

end

lemma buf_write_at_end:
  assumes "buf_inv b'" and "buf_l b' = buf_l b + int (length xs)" and "0 \<le> buf_l b"
    and "take (nat (buf_l b)) (cells b') = contents b"
  shows "\<exists>b''. buf_write (buf_l b) xs b' = Inr b'' \<and> buf_inv b'' \<and> contents b'' = contents b @ map Some xs"
proof -
  let ?b = "b'\<lparr>cells := take (nat (buf_l b)) (cells b') @ map Some xs @ drop (nat (buf_l b) + length xs) (cells b')\<rparr>"
  have room: "nat (buf_l b) + length xs \<le> length (cells b')"
    using assms(1-3) unfolding buf_inv_def by linarith
  then have "buf_write (buf_l b) xs b' = Inr ?b" using assms(3) by (simp add: buf_write_def)
  moreover have "buf_inv ?b" using assms(1) room by (auto simp: buf_inv_def)
  moreover have "nat (buf_l b') = nat (buf_l b) + length xs" using assms(2,3) by simp
  then have "contents ?b = take (nat (buf_l b)) (cells b') @ map Some xs"
    using room by (cases xs) (simp_all add: contents_def min_def)
  then have "contents ?b = contents b @ map Some xs" unfolding assms(4) .
  ultimately show ?thesis by blast
qed

lemma chunk_len:
  "int (length xs) \<le> BufferMaxSize \<Longrightarrow> i32 (int (length xs)) = int (length xs)"
  by (intro i32_id) auto

lemma appendBuf_ok:
  assumes "buf_inv b" and "int (length xs) \<le> BufferMaxSize" and "appendBuf xs b = Inr b'"
  shows "buf_inv b' \<and> contents b' = contents b @ map Some xs"
proof -
  from assms(3) obtain b1 pos where g: "grow (int (length xs)) b = Inr (b1, pos)"
    and w: "buf_write pos xs b1 = Inr b'"
    using chunk_len [OF assms(2)] by (auto simp: appendBuf_def res_simps)
  have "buf_inv b1 \<and> pos = buf_l b \<and> buf_l b1 = buf_l b + int (length xs) \<and>
      take (nat (buf_l b)) (cells b1) = contents b"
    using grow_Inr [OF assms(1) _ assms(2) g] by simp
  then show ?thesis
    using buf_write_at_end [of b1 b xs] w assms(1) by (auto simp: buf_inv_def)
qed

lemma appendBuf_error:
  assumes "buf_inv b" and "int (length xs) \<le> BufferMaxSize" and "appendBuf xs b = Inl e"
  shows "e = Massert 13548 \<and> BufferMaxSize < 2 * int (length (contents b) + length xs)"
proof (cases "grow (int (length xs)) b")
  case (Inl e')
  then show ?thesis
    using grow_Inl [OF assms(1) _ assms(2) Inl] assms(3) chunk_len [OF assms(2)] length_contents [OF assms(1)]
    by (simp add: appendBuf_def)
next
  case (Inr p)
  then obtain b1 pos where g: "grow (int (length xs)) b = Inr (b1, pos)" by (cases p) auto
  have "buf_inv b1 \<and> pos = buf_l b \<and> buf_l b1 = buf_l b + int (length xs) \<and>
      take (nat (buf_l b)) (cells b1) = contents b"
    using grow_Inr [OF assms(1) _ assms(2) g] by simp
  then have "\<exists>b''. appendBuf xs b = Inr b''"
    using buf_write_at_end [of b1 b xs] assms(1) g chunk_len [OF assms(2)]
    by (auto simp: appendBuf_def buf_inv_def)
  then show ?thesis using assms(3) by simp
qed

interpretation bufb: append_buffer buf_inv contents appendBuf "32 * 1024 * 1024" "64 * 1024 * 1024"
proof unfold_locales
  fix b b' :: bufbuilder and xs :: bytes
  assume "buf_inv b" "length xs \<le> 64 * 1024 * 1024" "appendBuf xs b = Inr b'"
  then show "buf_inv b' \<and> contents b' = contents b @ map Some xs"
    by (intro appendBuf_ok) auto
next
  fix b :: bufbuilder and xs :: bytes
  assume inv: "buf_inv b" and len: "length (contents b) + length xs \<le> 32 * 1024 * 1024"
  show "\<exists>b'. appendBuf xs b = Inr b'"
  proof (cases "appendBuf xs b")
    case (Inl e)
    then show ?thesis using appendBuf_error [OF inv _ Inl] len by simp
  qed auto
qed simp

section \<open>Properties\<close>



end
