(* ===== verification/Doubles.thy ===== *)
theory Doubles
  imports Prelude
begin

text \<open>
  The C \<open>double\<close> as its 64 IEEE-754 bits, as far as the driver computes with it: ordered
  comparison, conversion from and to integers, and the sign of a difference. A finite
  double is an integer multiple of \<open>2 ^ -1074\<close>, so its exact value is the integer
  \<open>dbl_scaled\<close>; comparisons are then comparisons of integers. Infinities get a value
  larger than every finite one, NaN compares false with everything.
\<close>

definition dbl_neg :: "64 word \<Rightarrow> bool" where
  "dbl_neg w \<longleftrightarrow> 2 ^ 63 \<le> unat w"

definition dbl_exp :: "64 word \<Rightarrow> nat" where
  "dbl_exp w = unat w div 2 ^ 52 mod 2048"

definition dbl_frac :: "64 word \<Rightarrow> nat" where
  "dbl_frac w = unat w mod 2 ^ 52"

definition dbl_isnan :: "64 word \<Rightarrow> bool" where
  "dbl_isnan w \<longleftrightarrow> dbl_exp w = 2047 \<and> dbl_frac w \<noteq> 0"

definition dbl_finite :: "64 word \<Rightarrow> bool" where
  "dbl_finite w \<longleftrightarrow> dbl_exp w < 2047"

definition dbl_mag :: "64 word \<Rightarrow> nat" where
  "dbl_mag w = (if dbl_exp w = 0 then dbl_frac w else (2 ^ 52 + dbl_frac w) * 2 ^ (dbl_exp w - 1))"

definition dbl_scaled :: "64 word \<Rightarrow> int" where
  "dbl_scaled w = (if dbl_neg w then - int (dbl_mag w) else int (dbl_mag w))"

definition dbl_le :: "64 word \<Rightarrow> 64 word \<Rightarrow> bool" where
  "dbl_le a b \<longleftrightarrow> \<not> dbl_isnan a \<and> \<not> dbl_isnan b \<and> dbl_scaled a \<le> dbl_scaled b"

definition dbl_lt :: "64 word \<Rightarrow> 64 word \<Rightarrow> bool" where
  "dbl_lt a b \<longleftrightarrow> \<not> dbl_isnan a \<and> \<not> dbl_isnan b \<and> dbl_scaled a < dbl_scaled b"

definition dbl_eq :: "64 word \<Rightarrow> 64 word \<Rightarrow> bool" where
  "dbl_eq a b \<longleftrightarrow> \<not> dbl_isnan a \<and> \<not> dbl_isnan b \<and> dbl_scaled a = dbl_scaled b"

text \<open>\<open>numeric_limits<double>::max()\<close> and its negation.\<close>

definition dbl_max :: "64 word" where "dbl_max = 0x7FEFFFFFFFFFFFFF"
definition dbl_min_neg :: "64 word" where "dbl_min_neg = 0xFFEFFFFFFFFFFFFF"

text \<open>
  The sign of \<open>a - b\<close> for finite \<open>a\<close> and \<open>b\<close>: with gradual underflow the rounded
  difference is zero exactly when the operands are equal and otherwise has the sign of
  the exact difference (an overflow to infinity keeps it).
\<close>

definition dbl_diff_sign :: "64 word \<Rightarrow> 64 word \<Rightarrow> int" where
  "dbl_diff_sign a b = sgn (dbl_scaled a - dbl_scaled b)"

section \<open>Conversion from integers\<close>

fun nlog2 :: "nat \<Rightarrow> nat" where
  "nlog2 n = (if n < 2 then 0 else Suc (nlog2 (n div 2)))"

declare nlog2.simps [simp del]

text \<open>Round to nearest, ties to even: the mantissa of \<open>m\<close> with leading bit \<open>k\<close>.\<close>

definition round_mant :: "nat \<Rightarrow> nat \<Rightarrow> nat" where
  "round_mant m k =
     (if k \<le> 52 then m * 2 ^ (52 - k)
      else let s = k - 52; q = m div 2 ^ s; r = m mod 2 ^ s; half = 2 ^ (s - 1)
           in if half < r \<or> (r = half \<and> odd q) then q + 1 else q)"

text \<open>
  \<open>(double) n\<close>. A mantissa rounded up to \<open>2 ^ 53\<close> carries into the exponent field, as
  the addition does here.
\<close>

definition dbl_of_int :: "int \<Rightarrow> 64 word" where
  "dbl_of_int n =
     (if n = 0 then 0
      else let m = nat \<bar>n\<bar>; k = nlog2 m
           in word_of_nat ((if n < 0 then 2 ^ 63 else 0) + (1023 + k) * 2 ^ 52 + (round_mant m k - 2 ^ 52)))"

text \<open>
  \<open>(int) d\<close> and \<open>(long long) d\<close>: truncation towards zero, undefined when the result does
  not fit or \<open>d\<close> is not finite.
\<close>

definition dbl_unit :: nat where "dbl_unit = 2 ^ 1074"

definition dbl_trunc :: "64 word \<Rightarrow> int" where
  "dbl_trunc d = (if dbl_neg d then - int (dbl_mag d div dbl_unit) else int (dbl_mag d div dbl_unit))"

definition dbl_to_int :: "64 word \<Rightarrow> int res" where
  "dbl_to_int d = (if dbl_finite d \<and> - (2 ^ 31) \<le> dbl_trunc d \<and> dbl_trunc d < 2 ^ 31
                   then Inr (dbl_trunc d) else Inl UB)"

definition dbl_to_long :: "64 word \<Rightarrow> int res" where
  "dbl_to_long d = (if dbl_finite d \<and> - (2 ^ 63) \<le> dbl_trunc d \<and> dbl_trunc d < 2 ^ 63
                    then Inr (dbl_trunc d) else Inl UB)"

section \<open>Facts\<close>

lemma dbl_scaled_0 [simp]: "dbl_scaled 0 = 0"
  by (simp add: dbl_scaled_def dbl_mag_def dbl_exp_def dbl_frac_def dbl_neg_def)

lemma not_nan_0 [simp]: "\<not> dbl_isnan 0"
  by (simp add: dbl_isnan_def dbl_exp_def)

lemma dbl_finite_0 [simp]: "dbl_finite 0"
  by (simp add: dbl_finite_def dbl_exp_def)

lemma dbl_finite_not_nan: "dbl_finite w \<Longrightarrow> \<not> dbl_isnan w"
  by (simp add: dbl_finite_def dbl_isnan_def)

lemma nlog2_bounds: "0 < m \<Longrightarrow> 2 ^ nlog2 m \<le> m \<and> m < 2 ^ Suc (nlog2 m)"
proof (induction m rule: nlog2.induct)
  case (1 n)
  show ?case
  proof (cases "n < 2")
    case True
    with 1 show ?thesis by (simp add: nlog2.simps)
  next
    case False
    with 1 have "2 ^ nlog2 (n div 2) \<le> n div 2 \<and> n div 2 < 2 ^ Suc (nlog2 (n div 2))" by simp
    moreover have "nlog2 n = Suc (nlog2 (n div 2))" using False by (subst nlog2.simps) simp
    ultimately show ?thesis by simp linarith
  qed
qed

lemma unat_of_nat64: "n < 2 ^ 64 \<Longrightarrow> unat (word_of_nat n :: 64 word) = n"
  by (simp add: unsigned_of_nat take_bit_eq_mod)

text \<open>A number laid out as sign, exponent and fraction is read back as such.\<close>

lemma dbl_fields:
  assumes "e < 2048" and "f < 2 ^ 52"
  shows "dbl_neg (word_of_nat ((if s then 2 ^ 63 else 0) + e * 2 ^ 52 + f)) = s"
    and "dbl_exp (word_of_nat ((if s then 2 ^ 63 else 0) + e * 2 ^ 52 + f)) = e"
    and "dbl_frac (word_of_nat ((if s then 2 ^ 63 else 0) + e * 2 ^ 52 + f)) = f"
proof -
  let ?n = "(if s then 2 ^ 63 else 0) + e * 2 ^ 52 + f :: nat"
  have ef: "e * 2 ^ 52 + f < 2 ^ 63"
    using assms by simp
  then have "?n < 2 ^ 64" by simp
  then have u: "unat (word_of_nat ?n :: 64 word) = ?n" by (rule unat_of_nat64)
  show "dbl_neg (word_of_nat ?n) = s" using ef unfolding dbl_neg_def u by simp
  have n: "?n = f + 2 ^ 52 * (e + (if s then 2048 else 0))" by simp
  have "?n mod 2 ^ 52 = f" unfolding n mod_mult_self2 using assms(2) by simp
  then show "dbl_frac (word_of_nat ?n) = f" unfolding dbl_frac_def u .
  have "?n div 2 ^ 52 = e + (if s then 2048 else 0)"
    unfolding n by (subst div_mult_self2) (use assms(2) in auto)
  then show "dbl_exp (word_of_nat ?n) = e"
    unfolding dbl_exp_def u using assms(1) by simp
qed

lemma dbl_unit_pos [simp]: "0 < dbl_unit" "dbl_unit \<noteq> 0"
  by (simp_all add: dbl_unit_def del: power_numeral)

text \<open>An integer that fits 53 bits converts exactly.\<close>

lemma round_mant_small: "k \<le> 52 \<Longrightarrow> round_mant m k = m * 2 ^ (52 - k)"
  by (simp add: round_mant_def)

lemma mult_pow_unit: "k \<le> 52 \<Longrightarrow> m * 2 ^ (52 - k) * 2 ^ (1022 + k) = m * dbl_unit"
  by (simp add: dbl_unit_def mult.assoc del: power_numeral flip: power_add)

lemma dbl_of_int_fields:
  assumes "n \<noteq> 0" and "nlog2 (nat \<bar>n\<bar>) = k" and "k < 1024"
    and "round_mant (nat \<bar>n\<bar>) k = 2 ^ 52 + f" and "f < 2 ^ 52"
  shows "dbl_scaled (dbl_of_int n) = (if n < 0 then - 1 else 1) * int ((2 ^ 52 + f) * 2 ^ (1022 + k))"
    and "dbl_exp (dbl_of_int n) = 1023 + k"
proof -
  have w: "dbl_of_int n = word_of_nat ((if n < 0 then 2 ^ 63 else 0) + (1023 + k) * 2 ^ 52 + f)"
    using assms by (simp add: dbl_of_int_def Let_def)
  have "1023 + k < 2048" using assms(3) by simp
  note fields = dbl_fields [OF this assms(5), of "n < 0", folded w]
  show "dbl_exp (dbl_of_int n) = 1023 + k" by (rule fields(2))
  show "dbl_scaled (dbl_of_int n) = (if n < 0 then - 1 else 1) * int ((2 ^ 52 + f) * 2 ^ (1022 + k))"
    unfolding dbl_scaled_def dbl_mag_def fields by simp
qed

lemma dbl_of_int_small:
  assumes "n \<noteq> 0" and "\<bar>n\<bar> < 2 ^ 53"
  shows "dbl_scaled (dbl_of_int n) = n * int dbl_unit" and "dbl_finite (dbl_of_int n)"
proof -
  define m where "m = nat \<bar>n\<bar>"
  define k where "k = nlog2 m"
  have m: "0 < m" "m < 2 ^ 53" using assms by (simp_all add: m_def)
  have b: "2 ^ k \<le> m" "m < 2 ^ Suc k" using nlog2_bounds [OF m(1)] by (simp_all add: k_def)
  have k: "k \<le> 52"
  proof (rule ccontr)
    assume "\<not> k \<le> 52"
    then have "(2::nat) ^ 53 \<le> 2 ^ k" by (intro power_increasing) auto
    with b(1) m(2) show False by simp
  qed
  define f where "f = m * 2 ^ (52 - k) - 2 ^ 52"
  have pw: "(2::nat) ^ k * 2 ^ (52 - k) = 2 ^ 52" using k by (simp flip: power_add)
  have lo: "2 ^ 52 \<le> m * 2 ^ (52 - k)" using mult_le_mono1 [OF b(1), of "2 ^ (52 - k)"] pw by simp
  then have rm: "round_mant m k = 2 ^ 52 + f" using k by (simp add: round_mant_small f_def)
  have "m * 2 ^ (52 - k) < 2 ^ Suc k * 2 ^ (52 - k)" using b(2) by (simp add: mult_less_mono1)
  also have "\<dots> = 2 * 2 ^ 52" using pw by simp
  finally have f: "f < 2 ^ 52" by (simp add: f_def)
  have k': "k < 1024" using k by simp
  note fields = dbl_of_int_fields [OF assms(1) _ k' _ f, folded m_def, OF k_def [symmetric] rm]
  show "dbl_finite (dbl_of_int n)" using fields(2) k by (simp add: dbl_finite_def)
  have "(2 ^ 52 + f) * 2 ^ (1022 + k) = m * dbl_unit"
    using lo mult_pow_unit [OF k, of m] by (simp add: f_def)
  then show "dbl_scaled (dbl_of_int n) = n * int dbl_unit"
    using fields(1) by (simp add: m_def)
qed

lemma nlog2_eq:
  assumes "2 ^ k \<le> m" and "m < 2 ^ Suc k" shows "nlog2 m = k"
proof -
  have "0 < m" using assms(1) by (rule order.strict_trans2 [rotated]) simp
  note b = nlog2_bounds [OF this]
  have "2 ^ nlog2 m < (2 :: nat) ^ Suc k" "(2 :: nat) ^ k < 2 ^ Suc (nlog2 m)"
    using b assms by linarith+
  then have "nlog2 m < Suc k" "k < Suc (nlog2 m)"
    by (meson one_less_numeral_iff power_less_imp_less_exp semiring_norm(76))+
  then show ?thesis by simp
qed

lemma nlog2_power: "nlog2 (2 ^ k) = k"
  by (induction k) (simp_all add: nlog2.simps)

text \<open>The exact integers of a double: \<open>- 2 ^ 53 \<dots> 2 ^ 53\<close>.\<close>

lemma dbl_of_int_exact:
  assumes "\<bar>n\<bar> \<le> 2 ^ 53"
  shows "dbl_scaled (dbl_of_int n) = n * int dbl_unit" and "dbl_finite (dbl_of_int n)"
proof -
  have "dbl_scaled (dbl_of_int n) = n * int dbl_unit \<and> dbl_finite (dbl_of_int n)"
  proof (cases "n = 0 \<or> \<bar>n\<bar> < 2 ^ 53")
    case True
    then show ?thesis
      using dbl_of_int_small [of n] by (cases "n = 0") (simp_all add: dbl_of_int_def)
  next
    case False
    with assms have n: "n \<noteq> 0" "\<bar>n\<bar> = 2 ^ 53" by auto
    then have m: "nat \<bar>n\<bar> = 2 ^ 53" by simp
    have lg: "nlog2 (nat \<bar>n\<bar>) = 53" unfolding m by (rule nlog2_power)
    have rm: "round_mant (nat \<bar>n\<bar>) 53 = 2 ^ 52 + 0" unfolding m by (simp add: round_mant_def)
    have "(2 ^ 52 + 0) * 2 ^ (1022 + 53) = (2 ^ 53 :: nat) * dbl_unit"
      unfolding dbl_unit_def by (simp only: add_0_right flip: power_add) simp
    then have "int ((2 ^ 52 + 0) * 2 ^ (1022 + 53)) = \<bar>n\<bar> * int dbl_unit"
      unfolding n(2) by simp
    then show ?thesis
      using dbl_of_int_fields [OF n(1) lg _ rm] n(1)
      by (simp add: dbl_finite_def del: add_0_right split: if_splits)
  qed
  then show "dbl_scaled (dbl_of_int n) = n * int dbl_unit" and "dbl_finite (dbl_of_int n)" by blast+
qed

text \<open>So conversion to a double and back is the identity there.\<close>

lemma dbl_trunc_of_int: "\<bar>n\<bar> \<le> 2 ^ 53 \<Longrightarrow> dbl_trunc (dbl_of_int n) = n"
proof -
  assume n: "\<bar>n\<bar> \<le> 2 ^ 53"
  let ?d = "dbl_of_int n"
  have s: "dbl_scaled ?d = n * int dbl_unit" by (rule dbl_of_int_exact [OF n])
  have "int (dbl_mag ?d) = (if dbl_neg ?d then - n else n) * int dbl_unit"
    using s unfolding dbl_scaled_def by (simp split: if_splits)
  then have "int (dbl_mag ?d) div int dbl_unit = (if dbl_neg ?d then - n else n)" by simp
  then have "int (dbl_mag ?d div dbl_unit) = (if dbl_neg ?d then - n else n)"
    by (simp add: zdiv_int)
  then show ?thesis unfolding dbl_trunc_def by (simp split: if_splits)
qed

text \<open>The largest finite magnitude.\<close>

definition dbl_top :: nat where "dbl_top = (2 ^ 53 - 1) * 2 ^ 2045"

lemma dbl_max_fields:
  "dbl_max = word_of_nat ((if False then 2 ^ 63 else 0) + 2046 * 2 ^ 52 + (2 ^ 52 - 1))"
  "dbl_min_neg = word_of_nat ((if True then 2 ^ 63 else 0) + 2046 * 2 ^ 52 + (2 ^ 52 - 1))"
  by (simp_all add: dbl_max_def dbl_min_neg_def)

lemma dbl_max_bounds:
  "\<not> dbl_isnan dbl_max" "\<not> dbl_isnan dbl_min_neg"
  "dbl_scaled dbl_max = int dbl_top" "dbl_scaled dbl_min_neg = - int dbl_top"
proof -
  note f = dbl_fields [of 2046 "2 ^ 52 - 1"]
  have top: "(2 ^ 52 + (2 ^ 52 - 1)) * 2 ^ (2046 - 1) = dbl_top"
    by (simp add: dbl_top_def del: power_numeral) simp
  show "\<not> dbl_isnan dbl_max" "\<not> dbl_isnan dbl_min_neg"
    unfolding dbl_isnan_def dbl_max_fields using f(2) [of True] f(2) [of False] by simp_all
  show "dbl_scaled dbl_max = int dbl_top" "dbl_scaled dbl_min_neg = - int dbl_top"
    unfolding dbl_scaled_def dbl_mag_def dbl_max_fields
    using f [of True] f [of False] top by simp_all
qed

lemma dbl_mag_finite_bound: "dbl_finite w \<Longrightarrow> dbl_mag w \<le> dbl_top"
proof -
  assume fin: "dbl_finite w"
  have f: "dbl_frac w \<le> 2 ^ 52 - 1" by (simp add: dbl_frac_def less_eq_Suc_le [symmetric])
  show "dbl_mag w \<le> dbl_top"
  proof (cases "dbl_exp w = 0")
    case True
    have "dbl_frac w \<le> (2 ^ 53 - 1) * 1" using f by simp
    also have "\<dots> \<le> (2 ^ 53 - 1) * 2 ^ 2045" by (intro mult_le_mono) (auto simp del: power_numeral)
    finally show ?thesis using True by (simp add: dbl_mag_def dbl_top_def del: power_numeral)
  next
    case False
    have "(2 ^ 52 + dbl_frac w) * 2 ^ (dbl_exp w - 1) \<le> (2 ^ 53 - 1) * (2::nat) ^ 2045"
      using fin f by (intro mult_le_mono power_increasing) (auto simp: dbl_finite_def)
    then show ?thesis using False by (simp only: dbl_mag_def dbl_top_def if_False)
  qed
qed

lemma dbl_mag_inf_bound: "\<not> dbl_finite w \<Longrightarrow> dbl_top < dbl_mag w"
proof -
  assume inf: "\<not> dbl_finite w"
  have "dbl_exp w < 2048" by (simp add: dbl_exp_def)
  with inf have e: "dbl_exp w = 2047" by (simp add: dbl_finite_def)
  have "dbl_top < 2 ^ 53 * 2 ^ 2045"
    unfolding dbl_top_def by (rule mult_strict_right_mono) (auto simp del: power_numeral)
  also have "\<dots> = 2 ^ 52 * (2::nat) ^ 2046" by (simp only: flip: power_add) simp
  also have "\<dots> \<le> (2 ^ 52 + dbl_frac w) * 2 ^ (2047 - 1)"
    by (rule mult_le_mono) (simp_all del: power_numeral)
  also have "\<dots> = dbl_mag w" unfolding dbl_mag_def e by simp
  finally show ?thesis .
qed

text \<open>
  The test \<open>!(d <= max && d >= -max)\<close> of the comparison routine holds exactly of NaN
  and the infinities.
\<close>

lemma dbl_range_test: "dbl_le d dbl_max \<and> dbl_le dbl_min_neg d \<longleftrightarrow> dbl_finite d"
proof (cases "dbl_finite d")
  case True
  then show ?thesis
    using dbl_mag_finite_bound [OF True] dbl_finite_not_nan [OF True]
    by (auto simp: dbl_le_def dbl_max_bounds dbl_scaled_def [of d])
next
  case False
  then show ?thesis
    using dbl_mag_inf_bound [OF False]
    by (auto simp: dbl_le_def dbl_max_bounds dbl_scaled_def [of d])
qed

end
