(* ===== verification/Codecs.thy ===== *)
theory Codecs
  imports Prelude
begin

text \<open>
  The text encodings of binary data: base64 (util/base64.h, util/base64.cpp), used for
  \<open>$binary\<close> fields of JSON, and hexadecimal (util/hex.h), used for object ids.
  Bytes are \<open>unsigned char\<close>, so the arithmetic is on 8-bit words.
\<close>

section \<open>Bytes as 8-bit words\<close>

definition u8 :: "char \<Rightarrow> 8 word" where
  "u8 c = word_of_nat (of_char c)"

definition chr8 :: "8 word \<Rightarrow> char" where
  "chr8 w = char_of (unat w)"

lemma unat_u8: "unat (u8 c) = of_char c"
  using of_char_less [of c] by (simp add: u8_def unsigned_of_nat take_bit_eq_mod)

lemma chr8_u8 [simp]: "chr8 (u8 c) = c"
  by (simp add: chr8_def unat_u8)

lemma u8_chr8 [simp]: "u8 (chr8 w) = w"
proof -
  have "unat w < 256" using unsigned_less [of w] by simp
  then show ?thesis by (simp add: u8_def chr8_def take_bit_eq_mod)
qed

text \<open>Two bytes are equal when their eight bits are.\<close>

lemma byte_eqI:
  fixes a b :: "8 word"
  assumes "bit a 0 = bit b 0" "bit a 1 = bit b 1" "bit a 2 = bit b 2" "bit a 3 = bit b 3"
    "bit a 4 = bit b 4" "bit a 5 = bit b 5" "bit a 6 = bit b 6" "bit a 7 = bit b 7"
  shows "a = b"
proof (rule bit_word_eqI)
  fix n :: nat
  assume "n < LENGTH(8)"
  then have "n = 0 \<or> n = 1 \<or> n = 2 \<or> n = 3 \<or> n = 4 \<or> n = 5 \<or> n = 6 \<or> n = 7"
    by simp arith
  with assms show "bit a n = bit b n" by (elim disjE) simp_all
qed

lemma no_high_bit [simp]: "8 \<le> n \<Longrightarrow> \<not> bit (w :: 8 word) n"
  using bit_imp_le_length [of w n] by auto

section \<open>base64\<close>

definition alphabet_encode :: bytes where
  "alphabet_encode = ''ABCDEFGHIJKLMNOPQRSTUVWXYZ'' @ ''abcdefghijklmnopqrstuvwxyz'' @ ''0123456789'' @ ''+/''"

text \<open>\<open>Alphabet()\<close>: \<open>memset\<close> to 0, then \<open>decode[encode[i]] = i\<close> for \<open>i = 0..63\<close>.\<close>

definition alphabet_decode :: "char \<Rightarrow> 8 word" where
  "alphabet_decode = fold (\<lambda>i d. d(alphabet_encode ! i := word_of_nat i)) [0..<64] (\<lambda>_. 0)"

definition alphabet_e :: "8 word \<Rightarrow> char" where
  "alphabet_e x = alphabet_encode ! unat (x AND 0x3f)"

text \<open>The loop of \<open>encode(ss, data, size)\<close>; the lengths 1 and 2 are its two \<open>break\<close>s.\<close>

fun encode_loop :: "8 word list \<Rightarrow> bytes" where
  "encode_loop [] = []"
| "encode_loop [a] = [alphabet_e (drop_bit 2 a), alphabet_e (push_bit 4 a)]"
| "encode_loop [a, b] =
     [alphabet_e (drop_bit 2 a),
      alphabet_e (push_bit 4 a OR (drop_bit 4 b AND 0xF)),
      alphabet_e (push_bit 2 (b AND 0xF))]"
| "encode_loop (a # b # c # rest) =
     [alphabet_e (drop_bit 2 a),
      alphabet_e (push_bit 4 a OR (drop_bit 4 b AND 0xF)),
      alphabet_e (push_bit 2 (b AND 0xF) OR (drop_bit 6 c AND 0x3)),
      alphabet_e (c AND 0x3f)] @ encode_loop rest"

text \<open>The padding after the loop.\<close>

definition encode_pad :: "nat \<Rightarrow> bytes" where
  "encode_pad sz = (let m = sz mod 3 in if m = 1 then ''=='' else if m = 2 then ''='' else '''')"

definition base64_encode :: "bytes \<Rightarrow> bytes" where
  "base64_encode data = encode_loop (map u8 data) @ encode_pad (length data)"

text \<open>The body of the loop of \<open>decode\<close>: the three bytes of \<open>buf\<close> and how many of them are written.\<close>

definition decode_quad :: "char \<Rightarrow> char \<Rightarrow> char \<Rightarrow> char \<Rightarrow> 8 word list" where
  "decode_quad s0 s1 s2 s3 =
     (let b0 = (push_bit 2 (alphabet_decode s0) AND 0xFC) OR (drop_bit 4 (alphabet_decode s1) AND 0x3);
          b1 = (push_bit 4 (alphabet_decode s1) AND 0xF0) OR (drop_bit 2 (alphabet_decode s2) AND 0xF);
          b2 = (push_bit 6 (alphabet_decode s2) AND 0xC0) OR (alphabet_decode s3 AND 0x3F);
          len = (if s3 = CHR ''='' then (if s2 = CHR ''='' then 1 else 2) else 3)
      in take len [b0, b1, b2])"

fun decode_loop :: "bytes \<Rightarrow> 8 word list" where
  "decode_loop (s0 # s1 # s2 # s3 # rest) = decode_quad s0 s1 s2 s3 @ decode_loop rest"
| "decode_loop _ = []"

definition base64_decode :: "bytes \<Rightarrow> bytes res" where
  "base64_decode s =
     bind_res (guard (length s mod 4 = 0) (Uassert 10270))
       (\<lambda>_. Inr (map chr8 (decode_loop s)))"

subsection \<open>The alphabet\<close>

lemma length_alphabet [simp]: "length alphabet_encode = 64"
  by (simp add: alphabet_encode_def)

lemma distinct_alphabet: "distinct alphabet_encode"
  by (simp add: alphabet_encode_def)

lemma alphabet_no_pad: "CHR ''='' \<notin> set alphabet_encode"
  by (simp add: alphabet_encode_def)

lemma fold_upd_distinct:
  "distinct xs \<Longrightarrow> n \<le> length xs \<Longrightarrow> k < n \<Longrightarrow>
   fold (\<lambda>i d. d(xs ! i := f i)) [0..<n] d0 (xs ! k) = f k"
proof (induction n)
  case (Suc n)
  then show ?case
    by (cases "k = n") (auto simp: nth_eq_iff_index_eq)
qed simp

lemma decode_alphabet: "k < 64 \<Longrightarrow> alphabet_decode (alphabet_encode ! k) = word_of_nat k"
  unfolding alphabet_decode_def
  by (rule fold_upd_distinct [where f = word_of_nat]) (simp_all add: distinct_alphabet)

lemma unat_and_63: "unat (x AND 0x3f :: 8 word) < 64"
proof -
  have "x AND 0x3f = take_bit 6 x" by (simp add: take_bit_eq_mask mask_numeral)
  then show ?thesis by (simp add: unsigned_take_bit_eq take_bit_nat_less_exp [of 6, simplified])
qed

lemma alphabet_decode_e [simp]: "alphabet_decode (alphabet_e x) = x AND 0x3f"
  by (simp add: alphabet_e_def decode_alphabet unat_and_63)

lemma alphabet_e_in: "alphabet_e x \<in> set alphabet_encode"
  using unat_and_63 [of x] by (simp add: alphabet_e_def)

lemma alphabet_e_not_pad [simp]: "alphabet_e x \<noteq> CHR ''=''"
  using alphabet_e_in [of x] alphabet_no_pad by metis

lemma alphabet_decode_pad [simp]: "alphabet_decode (CHR ''='') = 0"
proof -
  have "c \<notin> set alphabet_encode \<Longrightarrow> n \<le> 64 \<Longrightarrow>
      fold (\<lambda>i d. d(alphabet_encode ! i := word_of_nat i)) [0..<n] (\<lambda>_. 0 :: 8 word) c = 0" for c n
    by (induction n) (auto dest: nth_mem [of _ alphabet_encode, simplified])
  then show ?thesis unfolding alphabet_decode_def using alphabet_no_pad by simp
qed

subsection \<open>Round trip\<close>

text \<open>What four characters carry: the sextets of three bytes put back together.\<close>

lemma sextets:
  fixes a b c :: "8 word"
  shows "(push_bit 2 (drop_bit 2 a AND 63) AND 252) OR (drop_bit 4 ((push_bit 4 a OR (drop_bit 4 b AND 15)) AND 63) AND 3) = a"
    and "(push_bit 2 (drop_bit 2 a AND 63) AND 252) OR (drop_bit 4 (push_bit 4 a AND 63) AND 3) = a"
    and "(push_bit 4 ((push_bit 4 a OR (drop_bit 4 b AND 15)) AND 63) AND 240) OR (drop_bit 2 ((push_bit 2 (b AND 15) OR (drop_bit 6 c AND 3)) AND 63) AND 15) = b"
    and "(push_bit 4 ((push_bit 4 a OR (drop_bit 4 b AND 15)) AND 63) AND 240) OR (drop_bit 2 (push_bit 2 (b AND 15) AND 63) AND 15) = b"
    and "(push_bit 6 ((push_bit 2 (b AND 15) OR (drop_bit 6 c AND 3)) AND 63) AND 192) OR (((c AND 63) AND 63) AND 63) = c"
  by (rule byte_eqI; simp only: bit_simps; simp add: bit_simps)+

lemma decode_quad3:
  "decode_quad (alphabet_e (drop_bit 2 a)) (alphabet_e (push_bit 4 a OR (drop_bit 4 b AND 15)))
     (alphabet_e (push_bit 2 (b AND 15) OR (drop_bit 6 c AND 3))) (alphabet_e (c AND 63)) = [a, b, c]"
  unfolding decode_quad_def alphabet_decode_e Let_def sextets(1,3,5) by simp

lemma decode_quad2:
  "decode_quad (alphabet_e (drop_bit 2 a)) (alphabet_e (push_bit 4 a OR (drop_bit 4 b AND 15)))
     (alphabet_e (push_bit 2 (b AND 15))) (CHR ''='') = [a, b]"
  unfolding decode_quad_def alphabet_decode_e sextets Let_def by simp

lemma decode_quad1:
  "decode_quad (alphabet_e (drop_bit 2 a)) (alphabet_e (push_bit 4 a)) (CHR ''='') (CHR ''='') = [a]"
  unfolding decode_quad_def alphabet_decode_e sextets Let_def by simp

lemma encode_pad_simps [simp]:
  "encode_pad 0 = []" "encode_pad (Suc 0) = ''==''" "encode_pad (Suc (Suc 0)) = ''=''"
  "encode_pad (Suc (Suc (Suc n))) = encode_pad n"
  by (simp_all add: encode_pad_def Let_def mod_Suc)

lemma decode_encode_loop: "decode_loop (encode_loop ws @ encode_pad (length ws)) = ws"
  by (induction ws rule: encode_loop.induct) (simp_all add: decode_quad1 decode_quad2 decode_quad3 del: push_bit_and)

lemma length_encode_loop:
  "length (encode_loop ws @ encode_pad (length ws)) = 4 * ((length ws + 2) div 3)"
proof (induction ws rule: encode_loop.induct)
  case (4 a b c rest)
  have "Suc (Suc (Suc (length rest + 2))) div 3 = Suc ((length rest + 2) div 3)"
    using div_add_self2 [of 3 "length rest + 2"] by simp
  with 4 show ?case by simp
qed simp_all

section \<open>Hexadecimal\<close>

definition hexchars :: bytes where "hexchars = ''0123456789ABCDEF''"
definition hexchars_lower :: bytes where "hexchars_lower = ''0123456789abcdef''"

definition fromHex :: "char \<Rightarrow> int res" where
  "fromHex c =
     (if schar (CHR ''0'') \<le> schar c \<and> schar c \<le> schar (CHR ''9'') then Inr (schar c - schar (CHR ''0''))
      else if schar (CHR ''a'') \<le> schar c \<and> schar c \<le> schar (CHR ''f'') then Inr (schar c - schar (CHR ''a'') + 10)
      else if schar (CHR ''A'') \<le> schar c \<and> schar c \<le> schar (CHR ''F'') then Inr (schar c - schar (CHR ''A'') + 10)
      else Inl AssertFail)"

text \<open>\<open>fromHex(const char*)\<close>: two digits to one byte.\<close>

definition fromHex2 :: "char \<Rightarrow> char \<Rightarrow> char res" where
  "fromHex2 c0 c1 =
     bind_res (fromHex c0) (\<lambda>h. bind_res (fromHex c1) (\<lambda>l.
       Inr (char_of (nat (push_bit 4 h OR l)))))"

definition hex_digits :: "bytes \<Rightarrow> char \<Rightarrow> bytes" where
  "hex_digits tab c = [tab ! unat (drop_bit 4 (u8 c AND 0xF0)), tab ! unat (u8 c AND 0x0F)]"

definition toHex :: "bytes \<Rightarrow> bytes" where
  "toHex xs = concat (map (hex_digits hexchars) xs)"

definition toHexLower :: "bytes \<Rightarrow> bytes" where
  "toHexLower xs = concat (map (hex_digits hexchars_lower) xs)"

text \<open>The loop of \<open>OID::init(string)\<close> and of every hex reader: pairs of digits.\<close>

fun unhex :: "bytes \<Rightarrow> bytes res" where
  "unhex [] = Inr []"
| "unhex [_] = Inl OutOfBounds"
| "unhex (a # b # rest) =
     bind_res (fromHex2 a b) (\<lambda>c. bind_res (unhex rest) (\<lambda>cs. Inr (c # cs)))"

lemma all_nibbles: "(\<forall>k < 16. P k) \<longleftrightarrow> P 0 \<and> P 1 \<and> P 2 \<and> P 3 \<and> P 4 \<and> P 5 \<and> P 6 \<and> P 7 \<and>
    P 8 \<and> P 9 \<and> P 10 \<and> P 11 \<and> P 12 \<and> P 13 \<and> P 14 \<and> P (15::nat)"
  by (simp add: numeral_eq_Suc All_less_Suc) blast

lemma fromHex_lower: "k < 16 \<Longrightarrow> fromHex (hexchars_lower ! k) = Inr (int k)"
proof -
  have "\<forall>k < 16. fromHex (hexchars_lower ! k) = Inr (int k)"
    unfolding all_nibbles by (simp add: hexchars_lower_def fromHex_def schar_def uchar_def)
  then show "k < 16 \<Longrightarrow> ?thesis" by blast
qed

lemma fromHex_upper: "k < 16 \<Longrightarrow> fromHex (hexchars ! k) = Inr (int k)"
proof -
  have "\<forall>k < 16. fromHex (hexchars ! k) = Inr (int k)"
    unfolding all_nibbles by (simp add: hexchars_def fromHex_def schar_def uchar_def)
  then show "k < 16 \<Longrightarrow> ?thesis" by blast
qed

lemma unat_high_nibble: "unat (drop_bit 4 (u8 c AND 0xF0)) = of_char c div 16"
proof -
  have "drop_bit 4 (u8 c AND 0xF0) = drop_bit 4 (u8 c)"
    by (rule byte_eqI; simp only: bit_simps; simp add: bit_simps)
  then show ?thesis
    by (simp only: unat_drop_bit_eq unat_u8) (simp add: drop_bit_eq_div)
qed

lemma unat_low_nibble: "unat (u8 c AND 0x0F) = of_char c mod 16"
proof -
  have "u8 c AND 0x0F = take_bit 4 (u8 c)" by (simp add: take_bit_eq_mask mask_numeral)
  then show ?thesis
    by (simp only: unsigned_take_bit_eq unat_u8) (simp add: take_bit_eq_mod)
qed

lemma nibbles_join: "char_of (nat (push_bit 4 (int (of_char c div 16)) OR int (of_char c mod 16))) = c"
proof -
  have "push_bit 4 (int (of_char c div 16)) OR take_bit 4 (int (of_char c)) =
        push_bit 4 (int (of_char c div 16)) + take_bit 4 (int (of_char c))"
    by (rule disjunctive_add [symmetric]) (auto simp: bit_simps)
  then have "push_bit 4 (int (of_char c div 16)) OR int (of_char c mod 16) =
        int (of_char c div 16) * 16 + int (of_char c mod 16)"
    by (simp add: take_bit_eq_mod push_bit_eq_mult zmod_int)
  also have "\<dots> = int (of_char c)" by (simp add: zdiv_int zmod_int)
  finally show ?thesis by simp
qed

lemma fromHex2_digits:
  assumes "\<And>k. k < 16 \<Longrightarrow> fromHex (tab ! k) = Inr (int k)"
  shows "fromHex2 (hex_digits tab c ! 0) (hex_digits tab c ! 1) = Inr c"
proof -
  have "of_char c div 16 < (16::nat)"
    using of_char_less [of c] by (simp add: less_mult_imp_div_less del: of_char_less)
  then show ?thesis
    by (simp only: fromHex2_def hex_digits_def unat_high_nibble unat_low_nibble nth_Cons_0 nth_Cons_Suc One_nat_def)
       (simp add: assms nibbles_join)
qed

lemma unhex_digits:
  assumes "\<And>k. k < 16 \<Longrightarrow> fromHex (tab ! k) = Inr (int k)"
  shows "unhex (concat (map (hex_digits tab) xs)) = Inr xs"
proof (induction xs)
  case (Cons x xs)
  show ?case using Cons fromHex2_digits [of tab x] assms by (simp add: hex_digits_def)
qed simp

lemma length_toHexLower [simp]: "length (toHexLower xs) = 2 * length xs"
  by (induction xs) (auto simp: toHexLower_def hex_digits_def)

lemma base64_whole:
  "base64_decode (base64_encode d) = Inr d \<and> length (base64_encode d) = 4 * ((length d + 2) div 3)"
proof -
  have len: "length (base64_encode d) = 4 * ((length d + 2) div 3)"
    using length_encode_loop [of "map u8 d"] by (simp add: base64_encode_def)
  have "decode_loop (base64_encode d) = map u8 d"
    using decode_encode_loop [of "map u8 d"] by (simp add: base64_encode_def)
  then show ?thesis by (simp add: len base64_decode_def comp_def)
qed

section \<open>Properties\<close>

text \<open>
  base64: decoding what \<open>encode\<close> produced gives the data back, for every length and
  padding, and the encoding has four characters for every three bytes begun.
\<close>

theorem base64_roundtrip:
  "base64_decode (base64_encode d) = Inr d \<and> length (base64_encode d) = 4 * ((length d + 2) div 3)"
  by (rule base64_whole)

end
