(* ===== verification/BsonBuilder.thy ===== *)
theory BsonBuilder
  imports BufBuilder Doubles Codecs
begin

text \<open>
  \<open>BSONObjBuilder\<close> and \<open>BSONArrayBuilder\<close> (bson/bsonobjbuilder.h, with
  \<open>appendMinForType\<close>, \<open>appendMaxForType\<close>, \<open>appendAsNumber\<close> and \<open>appendKeys\<close> of
  db/jsobj.cpp): every append as the sequence of buffer writes the code makes. The
  predicate \<open>adds\<close> says which bytes an operation appends; the lemmas show that each
  operation appends exactly the wire format of the element it is named for.
  A \<open>BSONElement\<close> argument is an \<open>elem option\<close>: \<open>None\<close> is the \<open>eoo()\<close> element.
\<close>

section \<open>The builder\<close>

record objbuilder =
  ob_b :: bufbuilder
  ob_offset :: int
  ob_doneCalled :: bool
  ob_owned :: bool

definition on_buf :: "(bufbuilder \<Rightarrow> bufbuilder res) \<Rightarrow> objbuilder \<Rightarrow> objbuilder res" where
  "on_buf f ob = bind_res (f (ob_b ob)) (\<lambda>b. Inr (ob\<lparr>ob_b := b\<rparr>))"

definition new_builder :: "int \<Rightarrow> objbuilder res" where
  "new_builder initsize =
     on_buf (buf_skip 4) \<lparr>ob_b = buf_new initsize, ob_offset = 0, ob_doneCalled = False, ob_owned = True\<rparr>"

text \<open>A builder on a buffer that is already in use (an embedded object under construction).\<close>

definition sub_builder :: "bufbuilder \<Rightarrow> objbuilder res" where
  "sub_builder base =
     on_buf (buf_skip 4) \<lparr>ob_b = base, ob_offset = buf_l base, ob_doneCalled = False, ob_owned = False\<rparr>"

abbreviation tag :: "BSONType \<Rightarrow> bufbuilder \<Rightarrow> bufbuilder res" where
  "tag t \<equiv> appendChar (type_byte t)"

abbreviation name_str :: "bytes \<Rightarrow> bufbuilder \<Rightarrow> bufbuilder res" where
  "name_str n \<equiv> appendStr n True"

section \<open>Appending elements\<close>

definition append_element :: "elem option \<Rightarrow> objbuilder \<Rightarrow> objbuilder res" where
  "append_element e ob =
     (case e of None \<Rightarrow> Inl AssertFail | Some e \<Rightarrow> on_buf (appendBuf (enc_elem e)) ob)"

definition appendAs :: "elem option \<Rightarrow> bytes \<Rightarrow> objbuilder \<Rightarrow> objbuilder res" where
  "appendAs e fieldName ob =
     (case e of None \<Rightarrow> Inl AssertFail
      | Some (_, v) \<Rightarrow>
          on_buf (seq_res [tag (value_type v), name_str fieldName, appendBuf (enc_value v)]) ob)"

definition append_obj :: "bytes \<Rightarrow> bytes \<Rightarrow> objbuilder \<Rightarrow> objbuilder res" where
  "append_obj fieldName subObj = on_buf (seq_res [tag Object, name_str fieldName, appendBuf subObj])"

text \<open>\<open>appendObject(fieldName, objdata, size)\<close>; \<open>size\<close> 0 means: read it from the object.\<close>

definition appendObject :: "bytes \<Rightarrow> bytes \<Rightarrow> int \<Rightarrow> objbuilder \<Rightarrow> objbuilder res" where
  "appendObject fieldName objdata sz ob =
     bind_res (if sz = 0 then rd_int objdata else Inr sz) (\<lambda>sz.
     bind_res (guard (4 < sz \<and> sz < 100000000) AssertFail) (\<lambda>_.
     bind_res (guard (nat sz \<le> length objdata) OutOfBounds) (\<lambda>_.
       on_buf (seq_res [tag Object, name_str fieldName, appendBuf (take (nat sz) objdata)]) ob)))"

definition subobjStart :: "bytes \<Rightarrow> objbuilder \<Rightarrow> objbuilder res" where
  "subobjStart fieldName = on_buf (seq_res [tag Object, name_str fieldName])"

definition appendArray :: "bytes \<Rightarrow> bytes \<Rightarrow> objbuilder \<Rightarrow> objbuilder res" where
  "appendArray fieldName subObj = on_buf (seq_res [tag Array, name_str fieldName, appendBuf subObj])"

definition subarrayStart :: "bytes \<Rightarrow> objbuilder \<Rightarrow> objbuilder res" where
  "subarrayStart fieldName = on_buf (seq_res [tag Array, name_str fieldName])"

definition appendBool :: "bytes \<Rightarrow> int \<Rightarrow> objbuilder \<Rightarrow> objbuilder res" where
  "appendBool fieldName val =
     on_buf (seq_res [tag Bool, name_str fieldName, appendChar (if val \<noteq> 0 then CHR 0x01 else NUL)])"

definition append_bool :: "bytes \<Rightarrow> bool \<Rightarrow> objbuilder \<Rightarrow> objbuilder res" where
  "append_bool fieldName val =
     on_buf (seq_res [tag Bool, name_str fieldName, appendChar (if val then CHR 0x01 else NUL)])"

definition append_int :: "bytes \<Rightarrow> 32 word \<Rightarrow> objbuilder \<Rightarrow> objbuilder res" where
  "append_int fieldName n = on_buf (seq_res [tag NumberInt, name_str fieldName, appendNum_32 n])"

definition append_long :: "bytes \<Rightarrow> 64 word \<Rightarrow> objbuilder \<Rightarrow> objbuilder res" where
  "append_long fieldName n = on_buf (seq_res [tag NumberLong, name_str fieldName, appendNum_64 n])"

definition append_double :: "bytes \<Rightarrow> 64 word \<Rightarrow> objbuilder \<Rightarrow> objbuilder res" where
  "append_double fieldName n = on_buf (seq_res [tag NumberDouble, name_str fieldName, appendNum_64 n])"

text \<open>\<open>x * -1\<close> overflows for the least \<open>long long\<close>, which is undefined.\<close>

definition appendIntOrLL :: "bytes \<Rightarrow> 64 word \<Rightarrow> objbuilder \<Rightarrow> objbuilder res" where
  "appendIntOrLL fieldName n ob =
     (if sint n = - (2 ^ 63) then Inl UB
      else let x = \<bar>sint n\<bar>
           in if x < 2147483647 div 2 then append_int fieldName (ucast n) ob
              else append_long fieldName n ob)"

definition appendNumber_size_t :: "bytes \<Rightarrow> 64 word \<Rightarrow> objbuilder \<Rightarrow> objbuilder res" where
  "appendNumber_size_t fieldName n =
     (if unat n < 2 ^ 30 then append_int fieldName (ucast n) else append_long fieldName n)"

definition appendNumber_long :: "bytes \<Rightarrow> 64 word \<Rightarrow> objbuilder \<Rightarrow> objbuilder res" where
  "appendNumber_long fieldName l =
     (if sint l < 2 ^ 30 then append_int fieldName (ucast l)
      else if sint l < 2 ^ 40 then append_double fieldName (dbl_of_int (sint l))
      else append_long fieldName l)"

text \<open>
  \<open>appendOID(fieldName, oid, generateIfBlank)\<close>: without an id, a generated one (the
  argument \<open>gen\<close> stands for \<open>OID::init()\<close>, which reads the clock) or twelve zero bytes.
\<close>

definition appendOID :: "bytes \<Rightarrow> bytes option \<Rightarrow> bytes \<Rightarrow> bool \<Rightarrow> objbuilder \<Rightarrow> objbuilder res" where
  "appendOID fieldName oid gen generateIfBlank =
     on_buf (seq_res [tag jstOID, name_str fieldName,
       appendBuf (case oid of Some d \<Rightarrow> d | None \<Rightarrow> if generateIfBlank then gen else replicate 12 NUL)])"

definition append_oid :: "bytes \<Rightarrow> bytes \<Rightarrow> objbuilder \<Rightarrow> objbuilder res" where
  "append_oid fieldName oid = on_buf (seq_res [tag jstOID, name_str fieldName, appendBuf oid])"

definition appendTimeT :: "bytes \<Rightarrow> 64 word \<Rightarrow> objbuilder \<Rightarrow> objbuilder res" where
  "appendTimeT fieldName dt = on_buf (seq_res [tag Date, name_str fieldName, appendNum_64 (dt * 1000)])"

definition appendDate :: "bytes \<Rightarrow> 64 word \<Rightarrow> objbuilder \<Rightarrow> objbuilder res" where
  "appendDate fieldName dt = on_buf (seq_res [tag Date, name_str fieldName, appendNum_64 dt])"

definition appendRegex :: "bytes \<Rightarrow> bytes \<Rightarrow> bytes \<Rightarrow> objbuilder \<Rightarrow> objbuilder res" where
  "appendRegex fieldName regex options =
     on_buf (seq_res [tag RegEx, name_str fieldName, name_str regex, name_str options])"

definition appendCode :: "bytes \<Rightarrow> bytes \<Rightarrow> objbuilder \<Rightarrow> objbuilder res" where
  "appendCode fieldName code =
     on_buf (seq_res [tag Code, name_str fieldName, appendNum_int (int (length code) + 1), name_str code])"

text \<open>\<open>append(fieldName, str, len)\<close>; \<open>len\<close> counts the terminator, which is in \<open>str\<close> here.\<close>

definition append_str_len :: "bytes \<Rightarrow> bytes \<Rightarrow> objbuilder \<Rightarrow> objbuilder res" where
  "append_str_len fieldName str =
     on_buf (seq_res [tag String, name_str fieldName, appendNum_int (int (length str)), appendBuf str])"

text \<open>A \<open>char*\<close> is copied up to its first NUL, a \<open>std::string\<close> whole.\<close>

definition append_cstr :: "bytes \<Rightarrow> bytes \<Rightarrow> objbuilder \<Rightarrow> objbuilder res" where
  "append_cstr fieldName str = append_str_len fieldName (cstr str @ [NUL])"

definition append_string :: "bytes \<Rightarrow> bytes \<Rightarrow> objbuilder \<Rightarrow> objbuilder res" where
  "append_string fieldName str = append_str_len fieldName (str @ [NUL])"

definition appendSymbol :: "bytes \<Rightarrow> bytes \<Rightarrow> objbuilder \<Rightarrow> objbuilder res" where
  "appendSymbol fieldName symbol =
     on_buf (seq_res [tag Symbol, name_str fieldName, appendNum_int (int (length symbol) + 1), name_str symbol])"

definition appendNull :: "bytes \<Rightarrow> objbuilder \<Rightarrow> objbuilder res" where
  "appendNull fieldName = on_buf (seq_res [tag jstNULL, name_str fieldName])"

definition appendMinKey :: "bytes \<Rightarrow> objbuilder \<Rightarrow> objbuilder res" where
  "appendMinKey fieldName = on_buf (seq_res [tag MinKey, name_str fieldName])"

definition appendMaxKey :: "bytes \<Rightarrow> objbuilder \<Rightarrow> objbuilder res" where
  "appendMaxKey fieldName = on_buf (seq_res [tag MaxKey, name_str fieldName])"

definition appendTimestamp :: "bytes \<Rightarrow> 64 word \<Rightarrow> objbuilder \<Rightarrow> objbuilder res" where
  "appendTimestamp fieldName val = on_buf (seq_res [tag Timestamp, name_str fieldName, appendNum_64 val])"

definition appendDBRef :: "bytes \<Rightarrow> bytes \<Rightarrow> bytes \<Rightarrow> objbuilder \<Rightarrow> objbuilder res" where
  "appendDBRef fieldName ns oid =
     on_buf (seq_res [tag DBRef, name_str fieldName, appendNum_int (int (length ns) + 1), name_str ns, appendBuf oid])"

definition appendBinData :: "bytes \<Rightarrow> 8 word \<Rightarrow> bytes \<Rightarrow> objbuilder \<Rightarrow> objbuilder res" where
  "appendBinData fieldName type data =
     on_buf (seq_res [tag BinData, name_str fieldName, appendNum_int (int (length data)),
       appendChar (chr8 type), appendBuf data])"

definition appendBinDataArrayDeprecated :: "bytes \<Rightarrow> bytes \<Rightarrow> objbuilder \<Rightarrow> objbuilder res" where
  "appendBinDataArrayDeprecated fieldName data =
     on_buf (seq_res [tag BinData, name_str fieldName, appendNum_int (int (length data) + 4),
       appendChar (chr8 2), appendNum_int (int (length data)), appendBuf data])"

definition appendCodeWScope :: "bytes \<Rightarrow> bytes \<Rightarrow> bytes \<Rightarrow> objbuilder \<Rightarrow> objbuilder res" where
  "appendCodeWScope fieldName code scope =
     on_buf (seq_res [tag CodeWScope, name_str fieldName,
       appendNum_int (4 + 4 + int (length code) + 1 + int (length scope)),
       appendNum_int (int (length code) + 1), name_str code, appendBuf scope])"

definition appendUndefined :: "bytes \<Rightarrow> objbuilder \<Rightarrow> objbuilder res" where
  "appendUndefined fieldName = on_buf (seq_res [tag Undefined, name_str fieldName])"

definition appendWhere :: "bytes \<Rightarrow> bytes \<Rightarrow> objbuilder \<Rightarrow> objbuilder res" where
  "appendWhere code scope = appendCodeWScope ''$where'' code scope"

section \<open>Finishing\<close>

text \<open>
  \<open>_done()\<close>: append the EOO, then store the size at the start of the object. (The
  pending \<open>operator<<\<close> stream is not modelled: there is none when fields are appended
  by the named operations.)
\<close>

definition ob_done :: "objbuilder \<Rightarrow> objbuilder res" where
  "ob_done ob =
     (if ob_doneCalled ob then Inr ob
      else bind_res (on_buf (tag EOO) (ob\<lparr>ob_doneCalled := True\<rparr>)) (\<lambda>ob.
             on_buf (buf_write (ob_offset ob) (le_int (buf_l (ob_b ob) - ob_offset ob))) ob))"

text \<open>The object at the pointer \<open>_done()\<close> returns: reading an indeterminate cell is undefined.\<close>

definition built :: "objbuilder \<Rightarrow> bytes res" where
  "built ob =
     (let cs = drop (nat (ob_offset ob)) (contents (ob_b ob))
      in if None \<in> set cs then Inl UB else Inr (map the cs))"

text \<open>\<open>BSONObj(data)\<close>: \<open>init\<close> checks \<open>isValid()\<close>, else \<open>_assertInvalid\<close> throws 10334.\<close>

definition isValid :: "bytes \<Rightarrow> bool res" where
  "isValid obj = bind_res (rd_int obj) (\<lambda>x. Inr (x > 0 \<and> x \<le> BSONObjMaxInternalSize))"

definition bsonobj_init :: "bytes \<Rightarrow> bytes res" where
  "bsonobj_init obj = bind_res (isValid obj) (\<lambda>v. if v then Inr obj else Inl (Massert 10334))"

definition obj :: "objbuilder \<Rightarrow> bytes res" where
  "obj ob =
     bind_res (guard (ob_owned ob) (Massert 10335)) (\<lambda>_.
     bind_res (ob_done ob) (\<lambda>ob. bind_res (built ob) bsonobj_init))"

text \<open>\<open>asTempObj()\<close>: peek at the object and stay ready for more appends.\<close>

definition asTempObj :: "objbuilder \<Rightarrow> (objbuilder \<times> bytes) res" where
  "asTempObj ob =
     bind_res (ob_done ob) (\<lambda>ob. bind_res (built ob) (\<lambda>bs. bind_res (bsonobj_init bs) (\<lambda>temp.
       Inr (ob\<lparr>ob_b := buf_setlen (buf_l (ob_b ob) - 1) (ob_b ob), ob_doneCalled := False\<rparr>, temp))))"

definition numStrs :: "bytes list" where
  "numStrs = map show_nat [0..<100]"

definition numStr :: "int \<Rightarrow> bytes" where
  "numStr i = (if i \<ge> 0 \<and> i < 100 then numStrs ! nat i else show_int i)"

section \<open>Bounds of a type, numbers from text, keys (jsobj.cpp)\<close>

definition appendMinForType :: "bytes \<Rightarrow> int \<Rightarrow> objbuilder \<Rightarrow> objbuilder res" where
  "appendMinForType fieldName t ob =
     (case type_of_code t of
        Some MinKey \<Rightarrow> appendMinKey fieldName ob
      | Some MaxKey \<Rightarrow> appendMinKey fieldName ob
      | Some NumberInt \<Rightarrow> append_double fieldName dbl_min_neg ob
      | Some NumberDouble \<Rightarrow> append_double fieldName dbl_min_neg ob
      | Some NumberLong \<Rightarrow> append_double fieldName dbl_min_neg ob
      | Some jstOID \<Rightarrow> append_oid fieldName (replicate 12 NUL) ob
      | Some Bool \<Rightarrow> appendBool fieldName 0 ob
      | Some Date \<Rightarrow> appendDate fieldName 0 ob
      | Some jstNULL \<Rightarrow> appendNull fieldName ob
      | Some Symbol \<Rightarrow> append_cstr fieldName '''' ob
      | Some String \<Rightarrow> append_cstr fieldName '''' ob
      | Some Object \<Rightarrow> append_obj fieldName (enc_doc []) ob
      | Some Array \<Rightarrow> appendArray fieldName (enc_doc []) ob
      | Some BinData \<Rightarrow> appendBinData fieldName 1 '''' ob
      | Some Undefined \<Rightarrow> appendUndefined fieldName ob
      | Some RegEx \<Rightarrow> appendRegex fieldName '''' '''' ob
      | Some DBRef \<Rightarrow> appendDBRef fieldName '''' (replicate 12 NUL) ob
      | Some Code \<Rightarrow> appendCode fieldName '''' ob
      | Some CodeWScope \<Rightarrow> appendCodeWScope fieldName '''' (enc_doc []) ob
      | Some Timestamp \<Rightarrow> appendTimestamp fieldName 0 ob
      | _ \<Rightarrow> Inl (Uassert 10061))"

text \<open>
  The cases \<open>Undefined\<close> and \<open>jstNULL\<close> have no \<open>break\<close>: after the minimum number they
  go on into the \<open>Bool\<close> case.
\<close>

definition appendMaxForType :: "bytes \<Rightarrow> int \<Rightarrow> objbuilder \<Rightarrow> objbuilder res" where
  "appendMaxForType fieldName t ob =
     (case type_of_code t of
        Some MinKey \<Rightarrow> appendMaxKey fieldName ob
      | Some MaxKey \<Rightarrow> appendMaxKey fieldName ob
      | Some NumberInt \<Rightarrow> append_double fieldName dbl_max ob
      | Some NumberDouble \<Rightarrow> append_double fieldName dbl_max ob
      | Some NumberLong \<Rightarrow> append_double fieldName dbl_max ob
      | Some BinData \<Rightarrow> appendMinForType fieldName (type_code jstOID) ob
      | Some jstOID \<Rightarrow> append_oid fieldName (replicate 12 (CHR 0xFF)) ob
      | Some Undefined \<Rightarrow>
          bind_res (appendMinForType fieldName (type_code NumberInt) ob) (appendBool fieldName 1)
      | Some jstNULL \<Rightarrow>
          bind_res (appendMinForType fieldName (type_code NumberInt) ob) (appendBool fieldName 1)
      | Some Bool \<Rightarrow> appendBool fieldName 1 ob
      | Some Date \<Rightarrow> appendDate fieldName 0xFFFFFFFFFFFFFFFF ob
      | Some Symbol \<Rightarrow> append_obj fieldName (enc_doc []) ob
      | Some String \<Rightarrow> append_obj fieldName (enc_doc []) ob
      | Some Code \<Rightarrow> appendCodeWScope fieldName ''ZZZ'' (enc_doc []) ob
      | Some CodeWScope \<Rightarrow> appendCodeWScope fieldName ''ZZZ'' (enc_doc []) ob
      | Some Timestamp \<Rightarrow> appendTimestamp fieldName 0xFFFFFFFFFFFFFFFF ob
      | _ \<Rightarrow> appendMinForType fieldName (t + 1) ob)"

text \<open>The scan of \<open>appendAsNumber\<close>: \<open>None\<close> if not a number, else whether there is a dot.\<close>

fun number_scan :: "bool \<Rightarrow> bytes \<Rightarrow> bool option" where
  "number_scan hasDec [] = Some hasDec"
| "number_scan hasDec (c # cs) =
     (if is_digit c then number_scan hasDec cs
      else if c = CHR ''.'' then (if hasDec then None else number_scan True cs)
      else None)"

text \<open>
  \<open>appendAsNumber\<close>; \<open>atof\<close> (decimal text to a double) is a parameter. The text
  \<open>atoi\<close> gets has fewer than 8 characters, so it does not overflow; the
  \<open>lexical_cast\<close> fails outside the range of \<open>long long\<close>.
\<close>

definition appendAsNumber :: "(bytes \<Rightarrow> 64 word) \<Rightarrow> bytes \<Rightarrow> bytes \<Rightarrow> objbuilder \<Rightarrow> (objbuilder \<times> bool) res" where
  "appendAsNumber atof fieldName data ob =
     (if data = [] \<or> data = ''-'' then Inr (ob, False)
      else let neg = (hd data = CHR ''-''); ds = (if neg then tl data else data)
        in case number_scan False ds of
             None \<Rightarrow> Inr (ob, False)
           | Some True \<Rightarrow> bind_res (append_double fieldName (atof data) ob) (\<lambda>ob. Inr (ob, True))
           | Some False \<Rightarrow>
               let x = (if neg then - 1 else 1) * int (digits_val 0 ds)
               in if length data < 8
                  then bind_res (append_int fieldName (word_of_int x) ob) (\<lambda>ob. Inr (ob, True))
                  else if - (2 ^ 63) \<le> x \<and> x < 2 ^ 63
                  then bind_res (append_long fieldName (word_of_int x) ob) (\<lambda>ob. Inr (ob, True))
                  else Inr (ob, False))"

text \<open>\<open>appendKeys\<close>: the values of \<open>values\<close> under the names of \<open>keyPattern\<close>, pairwise.\<close>

fun appendKeys :: "doc \<Rightarrow> doc \<Rightarrow> objbuilder \<Rightarrow> objbuilder res" where
  "appendKeys (k # ks) (v # vs) ob = bind_res (appendAs (Some v) (fst k) ob) (appendKeys ks vs)"
| "appendKeys [] [] ob = Inr ob"
| "appendKeys _ _ ob = Inl AssertFail"

section \<open>The array builder\<close>

record arraybuilder =
  ab_i :: int
  ab_b :: objbuilder

definition array_new :: "int \<Rightarrow> arraybuilder res" where
  "array_new initialSize = bind_res (new_builder initialSize) (\<lambda>ob. Inr \<lparr>ab_i = 0, ab_b = ob\<rparr>)"

text \<open>\<open>num()\<close> gives the next name and advances; then the operation runs under that name.\<close>

definition array_op :: "(bytes \<Rightarrow> objbuilder \<Rightarrow> objbuilder res) \<Rightarrow> arraybuilder \<Rightarrow> arraybuilder res" where
  "array_op f ab =
     bind_res (f (numStr (ab_i ab)) (ab_b ab)) (\<lambda>ob. Inr \<lparr>ab_i = ab_i ab + 1, ab_b = ob\<rparr>)"

definition array_append :: "elem option \<Rightarrow> arraybuilder \<Rightarrow> arraybuilder res" where
  "array_append e = array_op (appendAs e)"

definition array_appendNull :: "arraybuilder \<Rightarrow> arraybuilder res" where
  "array_appendNull = array_op appendNull"

text \<open>\<open>while( _i < n ) append( nullElt() )\<close>, with \<open>n - _i\<close> rounds to go.\<close>

fun fill_nulls :: "nat \<Rightarrow> arraybuilder \<Rightarrow> arraybuilder res" where
  "fill_nulls 0 ab = Inr ab"
| "fill_nulls (Suc n) ab = bind_res (array_append (Some ('''', VNull)) ab) (fill_nulls n)"

definition array_fill :: "bytes \<Rightarrow> arraybuilder \<Rightarrow> arraybuilder res" where
  "array_fill name ab =
     (let (n, r) = strtol name
      in if r \<noteq> [] then Inl (Uassert 13048) else fill_nulls (nat (n - ab_i ab)) ab)"

definition array_appendAs :: "elem option \<Rightarrow> bytes \<Rightarrow> arraybuilder \<Rightarrow> arraybuilder res" where
  "array_appendAs e name ab = bind_res (array_fill name ab) (array_append e)"

definition array_appendArray :: "bytes \<Rightarrow> bytes \<Rightarrow> arraybuilder \<Rightarrow> arraybuilder res" where
  "array_appendArray name subObj ab =
     bind_res (array_fill name ab) (array_op (\<lambda>n. appendArray n subObj))"

definition arr :: "arraybuilder \<Rightarrow> bytes res" where
  "arr ab = obj (ab_b ab)"

section \<open>What each operation appends\<close>

text \<open>An operation that writes \<open>bs\<close> to the buffer in one or more steps and changes nothing else.\<close>

definition adds :: "(objbuilder \<Rightarrow> objbuilder res) \<Rightarrow> bytes \<Rightarrow> bool" where
  "adds f bs \<longleftrightarrow> (\<exists>xss. f = on_buf (seq_res (map appendBuf xss)) \<and> concat xss = bs)"

lemma addsI: "f = on_buf (seq_res (map appendBuf xss)) \<Longrightarrow> concat xss = bs \<Longrightarrow> adds f bs"
  by (auto simp: adds_def)

lemma seq_single [simp]: "seq_res [f] = f"
proof
  fix b show "seq_res [f] b = f b" by (cases "f b") auto
qed

lemmas buf_ops = appendChar_def appendStr_def appendNum_int_def appendNum_32_def appendNum_64_def

named_theorems adds_simps \<open>which bytes each append writes\<close>

lemma adds_seq [adds_simps]:
  "adds (on_buf (seq_res (map appendBuf xss))) (concat xss)"
  by (auto simp: adds_def)

lemma adds_append_element [adds_simps]: "adds (append_element (Some e)) (enc_elem e)"
  by (rule addsI [where xss = "[enc_elem e]"]) (simp_all add: append_element_def fun_eq_iff)

lemma adds_appendAs [adds_simps]: "adds (appendAs (Some (n, v)) name) (enc_elem (name, v))"
  by (rule addsI [where xss = "[[type_byte (value_type v)], name @ [NUL], enc_value v]"])
     (simp_all add: appendAs_def buf_ops fun_eq_iff enc_elem_def)

lemma adds_append_obj [adds_simps]: "adds (append_obj name (enc_doc d)) (enc_elem (name, VObject d))"
  by (rule addsI [where xss = "[[type_byte Object], name @ [NUL], enc_doc d]"])
     (simp_all add: append_obj_def buf_ops enc_elem_def)

lemma adds_appendArray [adds_simps]: "adds (appendArray name (enc_doc d)) (enc_elem (name, VArray d))"
  by (rule addsI [where xss = "[[type_byte Array], name @ [NUL], enc_doc d]"])
     (simp_all add: appendArray_def buf_ops enc_elem_def)

lemma adds_starts [adds_simps]:
  "adds (subobjStart name) (type_byte Object # name @ [NUL])"
  "adds (subarrayStart name) (type_byte Array # name @ [NUL])"
  by (rule addsI [where xss = "[[type_byte Object], name @ [NUL]]"], simp_all add: subobjStart_def buf_ops)
     (rule addsI [where xss = "[[type_byte Array], name @ [NUL]]"], simp_all add: subarrayStart_def buf_ops)

lemma adds_append_bool [adds_simps]: "adds (append_bool name b) (enc_elem (name, VBool b))"
  by (rule addsI [where xss = "[[type_byte Bool], name @ [NUL], [if b then CHR 0x01 else NUL]]"])
     (simp_all add: append_bool_def buf_ops enc_elem_def)

lemma adds_appendBool [adds_simps]: "adds (appendBool name x) (enc_elem (name, VBool (x \<noteq> 0)))"
  by (rule addsI [where xss = "[[type_byte Bool], name @ [NUL], [if x \<noteq> 0 then CHR 0x01 else NUL]]"])
     (simp_all add: appendBool_def buf_ops enc_elem_def)

lemma adds_append_int [adds_simps]: "adds (append_int name n) (enc_elem (name, VInt n))"
  by (rule addsI [where xss = "[[type_byte NumberInt], name @ [NUL], le32 n]"])
     (simp_all add: append_int_def buf_ops enc_elem_def)

lemma adds_append_long [adds_simps]: "adds (append_long name l) (enc_elem (name, VLong l))"
  by (rule addsI [where xss = "[[type_byte NumberLong], name @ [NUL], le64 l]"])
     (simp_all add: append_long_def buf_ops enc_elem_def)

lemma adds_append_double [adds_simps]: "adds (append_double name d) (enc_elem (name, VDouble d))"
  by (rule addsI [where xss = "[[type_byte NumberDouble], name @ [NUL], le64 d]"])
     (simp_all add: append_double_def buf_ops enc_elem_def)

lemma adds_append_oid [adds_simps]: "adds (append_oid name d) (enc_elem (name, VOID d))"
  by (rule addsI [where xss = "[[type_byte jstOID], name @ [NUL], d]"])
     (simp_all add: append_oid_def buf_ops enc_elem_def)

lemma adds_appendDate [adds_simps]: "adds (appendDate name d) (enc_elem (name, VDate d))"
  by (rule addsI [where xss = "[[type_byte Date], name @ [NUL], le64 d]"])
     (simp_all add: appendDate_def buf_ops enc_elem_def)

lemma adds_appendTimestamp [adds_simps]: "adds (appendTimestamp name d) (enc_elem (name, VTimestamp d))"
  by (rule addsI [where xss = "[[type_byte Timestamp], name @ [NUL], le64 d]"])
     (simp_all add: appendTimestamp_def buf_ops enc_elem_def)

lemma adds_appendRegex [adds_simps]: "adds (appendRegex name r opts) (enc_elem (name, VRegEx r opts))"
  by (rule addsI [where xss = "[[type_byte RegEx], name @ [NUL], r @ [NUL], opts @ [NUL]]"])
     (simp_all add: appendRegex_def buf_ops enc_elem_def)

lemma adds_appendCode [adds_simps]: "adds (appendCode name c) (enc_elem (name, VCode c))"
  by (rule addsI [where xss = "[[type_byte Code], name @ [NUL], le_int (int (length c) + 1), c @ [NUL]]"])
     (simp_all add: appendCode_def buf_ops enc_elem_def)

lemma adds_append_string [adds_simps]: "adds (append_string name s) (enc_elem (name, VString s))"
  by (rule addsI [where xss = "[[type_byte String], name @ [NUL], le_int (int (length s) + 1), s @ [NUL]]"])
     (simp_all add: append_string_def append_str_len_def buf_ops enc_elem_def add.commute)

lemma adds_append_cstr [adds_simps]: "adds (append_cstr name s) (enc_elem (name, VString (cstr s)))"
  using adds_append_string [of name "cstr s"] by (simp add: append_cstr_def append_string_def)

lemma adds_appendSymbol [adds_simps]: "adds (appendSymbol name s) (enc_elem (name, VSymbol s))"
  by (rule addsI [where xss = "[[type_byte Symbol], name @ [NUL], le_int (int (length s) + 1), s @ [NUL]]"])
     (simp_all add: appendSymbol_def buf_ops enc_elem_def)

lemma adds_appendNull [adds_simps]: "adds (appendNull name) (enc_elem (name, VNull))"
  by (rule addsI [where xss = "[[type_byte jstNULL], name @ [NUL]]"])
     (simp_all add: appendNull_def buf_ops enc_elem_def)

lemma adds_appendMinKey [adds_simps]: "adds (appendMinKey name) (enc_elem (name, VMinKey))"
  by (rule addsI [where xss = "[[type_byte MinKey], name @ [NUL]]"])
     (simp_all add: appendMinKey_def buf_ops enc_elem_def)

lemma adds_appendMaxKey [adds_simps]: "adds (appendMaxKey name) (enc_elem (name, VMaxKey))"
  by (rule addsI [where xss = "[[type_byte MaxKey], name @ [NUL]]"])
     (simp_all add: appendMaxKey_def buf_ops enc_elem_def)

lemma adds_appendUndefined [adds_simps]: "adds (appendUndefined name) (enc_elem (name, VUndefined))"
  by (rule addsI [where xss = "[[type_byte Undefined], name @ [NUL]]"])
     (simp_all add: appendUndefined_def buf_ops enc_elem_def)

lemma adds_appendDBRef [adds_simps]: "adds (appendDBRef name ns d) (enc_elem (name, VDBRef ns d))"
  by (rule addsI [where xss = "[[type_byte DBRef], name @ [NUL], le_int (int (length ns) + 1), ns @ [NUL], d]"])
     (simp_all add: appendDBRef_def buf_ops enc_elem_def)

lemma adds_appendBinData [adds_simps]: "adds (appendBinData name t d) (enc_elem (name, VBinData t d))"
  by (rule addsI [where xss = "[[type_byte BinData], name @ [NUL], le_int (int (length d)), [chr8 t], d]"])
     (simp_all add: appendBinData_def buf_ops enc_elem_def chr8_def)

lemma adds_appendBinDataArrayDeprecated [adds_simps]:
  "adds (appendBinDataArrayDeprecated name d) (enc_elem (name, VBinData 2 (le_int (int (length d)) @ d)))"
  by (rule addsI [where xss = "[[type_byte BinData], name @ [NUL], le_int (int (length d) + 4), [chr8 2],
        le_int (int (length d)), d]"])
     (simp_all add: appendBinDataArrayDeprecated_def buf_ops enc_elem_def chr8_def add.commute)

lemma adds_appendCodeWScope [adds_simps]:
  "adds (appendCodeWScope name c (enc_doc d)) (enc_elem (name, VCodeWScope c d))"
  by (rule addsI [where xss = "[[type_byte CodeWScope], name @ [NUL],
        le_int (4 + 4 + int (length c) + 1 + int (length (enc_doc d))), le_int (int (length c) + 1), c @ [NUL], enc_doc d]"])
     (simp_all add: appendCodeWScope_def buf_ops enc_elem_def)

text \<open>Two operations in a row.\<close>

lemma on_buf_seq: "bind_res (on_buf f ob) (on_buf g) = on_buf (\<lambda>b. bind_res (f b) g) ob"
  by (cases "f (ob_b ob)") (auto simp: on_buf_def)

lemma adds_bind [adds_simps]:
  assumes "adds f xs" and "adds g ys"
  shows "adds (\<lambda>ob. bind_res (f ob) g) (xs @ ys)"
proof -
  from assms obtain xss yss where f: "f = on_buf (seq_res (map appendBuf xss))" "concat xss = xs"
    and g: "g = on_buf (seq_res (map appendBuf yss))" "concat yss = ys"
    by (auto simp: adds_def)
  have "(\<lambda>ob. bind_res (f ob) g) = on_buf (seq_res (map appendBuf (xss @ yss)))"
    by (simp add: f g on_buf_seq fun_eq_iff) (simp add: on_buf_def seq_res_append)
  then show ?thesis using f g by (intro addsI [where xss = "xss @ yss"]) auto
qed

text \<open>
  The element appended for any value: the operation named for its type. Building a
  document is appending its elements in order.
\<close>

fun append_value :: "elem \<Rightarrow> objbuilder \<Rightarrow> objbuilder res" where
  "append_value (n, VMinKey) = appendMinKey n"
| "append_value (n, VDouble d) = append_double n d"
| "append_value (n, VString s) = append_string n s"
| "append_value (n, VObject d) = append_obj n (enc_doc d)"
| "append_value (n, VArray d) = appendArray n (enc_doc d)"
| "append_value (n, VBinData t d) = appendBinData n t d"
| "append_value (n, VUndefined) = appendUndefined n"
| "append_value (n, VOID d) = append_oid n d"
| "append_value (n, VBool b) = append_bool n b"
| "append_value (n, VDate d) = appendDate n d"
| "append_value (n, VNull) = appendNull n"
| "append_value (n, VRegEx r opts) = appendRegex n r opts"
| "append_value (n, VDBRef ns d) = appendDBRef n ns d"
| "append_value (n, VCode c) = appendCode n c"
| "append_value (n, VSymbol s) = appendSymbol n s"
| "append_value (n, VCodeWScope c d) = appendCodeWScope n c (enc_doc d)"
| "append_value (n, VInt x) = append_int n x"
| "append_value (n, VTimestamp t) = appendTimestamp n t"
| "append_value (n, VLong l) = append_long n l"
| "append_value (n, VMaxKey) = appendMaxKey n"

lemma adds_append_value [adds_simps]: "adds (append_value e) (enc_elem e)"
proof (cases e)
  case (Pair n v)
  then show ?thesis by (cases v) (simp_all add: adds_simps)
qed

lemma adds_append_doc: "adds (seq_res (map append_value d)) (enc_elems d)"
proof (induction d)
  case Nil
  have "seq_res [] = on_buf (seq_res [])" by (simp add: fun_eq_iff on_buf_def)
  then show ?case by (intro addsI [where xss = "[]"]) simp_all
next
  case (Cons e d)
  have "adds (\<lambda>ob. bind_res (append_value e ob) (seq_res (map append_value d))) (enc_elem e @ enc_elems d)"
    by (rule adds_bind [OF adds_append_value Cons])
  then show ?case by (simp add: fun_eq_iff [symmetric])
qed

section \<open>A finished object\<close>

definition builder_inv :: "objbuilder \<Rightarrow> bool" where
  "builder_inv ob \<longleftrightarrow> buf_inv (ob_b ob) \<and> 0 \<le> ob_offset ob \<and> ob_offset ob + 4 \<le> buf_l (ob_b ob) \<and> \<not> ob_doneCalled ob"

text \<open>The fields appended since the builder was opened.\<close>

definition fields_of :: "objbuilder \<Rightarrow> char option list" where
  "fields_of ob = drop (nat (ob_offset ob) + 4) (contents (ob_b ob))"

lemma adds_run:
  assumes "adds f bs" and "builder_inv ob"
    and "length (contents (ob_b ob)) + length bs \<le> 32 * 1024 * 1024"
  shows "\<exists>ob'. f ob = Inr ob' \<and> builder_inv ob' \<and> contents (ob_b ob') = contents (ob_b ob) @ map Some bs \<and>
     ob_offset ob' = ob_offset ob \<and> ob_owned ob' = ob_owned ob"
proof -
  from assms(1) obtain xss where f: "f = on_buf (seq_res (map appendBuf xss))" "concat xss = bs"
    by (auto simp: adds_def)
  have inv: "buf_inv (ob_b ob)" using assms(2) by (simp add: builder_inv_def)
  then obtain b' where b': "seq_res (map appendBuf xss) (ob_b ob) = Inr b'" "buf_inv b'"
      "contents b' = contents (ob_b ob) @ map Some bs"
    using bufb.appends_run [OF inv, of xss] assms(3) f(2) by auto
  then have "buf_l (ob_b ob) \<le> buf_l b'"
    using length_contents [OF inv] length_contents [OF b'(2)] by simp
  then show ?thesis using b' assms(2) f(1) by (auto simp: on_buf_def builder_inv_def)
qed

lemma buf_write_inside:
  assumes "buf_inv b" and "0 \<le> pos" and "pos + int (length xs) \<le> buf_l b"
  shows "\<exists>b'. buf_write pos xs b = Inr b' \<and> buf_inv b' \<and> buf_l b' = buf_l b \<and>
    contents b' = take (nat pos) (contents b) @ map Some xs @ drop (nat pos + length xs) (contents b)"
proof -
  let ?p = "nat pos" and ?l = "nat (buf_l b)"
  have l: "?l \<le> length (cells b)" "?p + length xs \<le> ?l"
    using assms by (auto simp: buf_inv_def)
  let ?b = "b\<lparr>cells := take ?p (cells b) @ map Some xs @ drop (?p + length xs) (cells b)\<rparr>"
  have "buf_write pos xs b = Inr ?b" using assms(2) l by (simp add: buf_write_def)
  moreover have "buf_inv ?b" using assms(1) l by (auto simp: buf_inv_def)
  moreover have "contents ?b = take ?p (contents b) @ map Some xs @ drop (?p + length xs) (contents b)"
  proof -
    have "?l \<le> ?p \<Longrightarrow> ?l = ?p \<and> xs = []" using l by (cases xs) auto
    then show ?thesis using l by (auto simp: contents_def min_def drop_take)
  qed
  ultimately show ?thesis by auto
qed

lemma type_byte_EOO [simp]: "type_byte EOO = NUL"
  by simp

text \<open>\<open>_done()\<close> turns the reserved cells and the fields into the wire format of the document.\<close>

lemma ob_done_run:
  assumes inv: "builder_inv ob" and fields: "fields_of ob = map Some (enc_elems d)"
    and len: "length (contents (ob_b ob)) + 1 \<le> 32 * 1024 * 1024"
  shows "\<exists>ob'. ob_done ob = Inr ob' \<and> ob_doneCalled ob' \<and> buf_inv (ob_b ob') \<and> ob_offset ob' = ob_offset ob \<and>
    ob_owned ob' = ob_owned ob \<and>
    contents (ob_b ob') = take (nat (ob_offset ob)) (contents (ob_b ob)) @ map Some (enc_doc d)"
proof -
  let ?c = "contents (ob_b ob)" and ?o = "nat (ob_offset ob)"
  have b: "buf_inv (ob_b ob)" "0 \<le> ob_offset ob" "ob_offset ob + 4 \<le> buf_l (ob_b ob)" "\<not> ob_doneCalled ob"
    using inv by (auto simp: builder_inv_def)
  have lc: "int (length ?c) = buf_l (ob_b ob)" by (rule length_contents [OF b(1)])
  obtain b1 where b1: "appendBuf [NUL] (ob_b ob) = Inr b1" "buf_inv b1" "contents b1 = ?c @ [Some NUL]"
    using bufb.append_run [OF b(1), of "[NUL]"] len by auto
  have l1: "buf_l b1 = buf_l (ob_b ob) + 1"
    using length_contents [OF b1(2)] b1(3) lc by simp
  let ?sz = "le_int (buf_l b1 - ob_offset ob)"
  obtain b2 where b2: "buf_write (ob_offset ob) ?sz b1 = Inr b2" "buf_inv b2" "buf_l b2 = buf_l b1"
      "contents b2 = take ?o (contents b1) @ map Some ?sz @ drop (?o + 4) (contents b1)"
    using buf_write_inside [OF b1(2) b(2), of ?sz] b(3) l1 by auto
  have o: "?o + 4 \<le> length ?c" using b(2,3) lc by linarith
  have "length (enc_elems d) = length ?c - (?o + 4)"
    using fields by (metis fields_of_def length_drop length_map)
  then have sz: "buf_l b1 - ob_offset ob = int (length (enc_elems d)) + 5"
    using o lc l1 b(2) by linarith
  have "contents b2 = take ?o ?c @ map Some (enc_doc d)"
    using b2(4) b1(3) o fields by (simp add: sz enc_doc_def fields_of_def)
  then show ?thesis
    using b b1 b2 by (simp add: ob_done_def on_buf_def appendChar_def)
qed

lemma built_run:
  assumes "0 \<le> ob_offset ob" and "contents (ob_b ob) = pre @ map Some bs" and "length pre = nat (ob_offset ob)"
  shows "built ob = Inr bs"
  using assms by (auto simp: built_def comp_def)

text \<open>A new builder is ready and empty.\<close>

lemma buf_skip_run:
  assumes inv: "buf_inv b" and n: "0 \<le> n" and len: "length (contents b) + nat n \<le> 32 * 1024 * 1024"
  shows "\<exists>b'. buf_skip n b = Inr b' \<and> buf_inv b' \<and> buf_l b' = buf_l b + n \<and>
    take (nat (buf_l b)) (contents b') = contents b"
proof (cases "grow n b")
  case (Inl e)
  have "n \<le> BufferMaxSize" and "2 * (buf_l b + n) \<le> BufferMaxSize"
    using len n length_contents [OF inv] by auto
  then show ?thesis using grow_Inl [OF inv n _ Inl] by auto
next
  case (Inr p)
  obtain b' pos where g: "grow n b = Inr (b', pos)" using Inr by (cases p) auto
  have "buf_inv b' \<and> pos = buf_l b \<and> buf_l b' = buf_l b + n \<and> take (nat (buf_l b)) (cells b') = contents b"
    using grow_Inr [OF inv n _ g] len by simp
  then show ?thesis using g n by (auto simp: buf_skip_def contents_def min_def buf_inv_def)
qed

lemma new_builder_run:
  assumes "0 \<le> n" and "n \<le> BufferMaxSize"
  shows "\<exists>ob. new_builder n = Inr ob \<and> builder_inv ob \<and> ob_offset ob = 0 \<and> ob_owned ob \<and>
    length (contents (ob_b ob)) = 4 \<and> fields_of ob = []"
proof -
  obtain b where b: "buf_skip 4 (buf_new n) = Inr b" "buf_inv b" "buf_l b = 4"
    using buf_skip_run [OF buf_new_inv [OF assms], of 4] by (auto simp: buf_new_def contents_def)
  have "length (contents b) = 4" using length_contents [OF b(2)] b(3) by simp
  then show ?thesis
    using b by (auto simp: new_builder_def on_buf_def builder_inv_def fields_of_def)
qed

text \<open>So is a builder opened on a buffer in use; closing it leaves what was there before.\<close>

lemma sub_builder_run:
  assumes inv: "buf_inv b" and len: "length (contents b) + 4 \<le> 32 * 1024 * 1024"
  shows "\<exists>ob. sub_builder b = Inr ob \<and> builder_inv ob \<and> ob_offset ob = int (length (contents b)) \<and>
    take (length (contents b)) (contents (ob_b ob)) = contents b \<and>
    length (contents (ob_b ob)) = length (contents b) + 4 \<and> fields_of ob = []"
proof -
  obtain b' where b': "buf_skip 4 b = Inr b'" "buf_inv b'" "buf_l b' = buf_l b + 4"
      "take (nat (buf_l b)) (contents b') = contents b"
    using buf_skip_run [OF inv, of 4] len by auto
  have lb: "buf_l b = int (length (contents b))" "0 \<le> buf_l b"
    using length_contents [OF inv] by auto
  moreover have "length (contents b') = length (contents b) + 4"
    using length_contents [OF b'(2)] b'(3) lb by simp
  ultimately show ?thesis
    using b' by (auto simp: sub_builder_def on_buf_def builder_inv_def fields_of_def)
qed

text \<open>Appending the elements of a document to an open builder.\<close>

lemma append_ops_run:
  assumes fs: "adds f bs" and inv: "builder_inv ob"
    and len: "length (contents (ob_b ob)) + length bs \<le> 32 * 1024 * 1024"
  shows "\<exists>ob'. f ob = Inr ob' \<and> builder_inv ob' \<and> ob_offset ob' = ob_offset ob \<and>
    ob_owned ob' = ob_owned ob \<and> contents (ob_b ob') = contents (ob_b ob) @ map Some bs \<and>
    fields_of ob' = fields_of ob @ map Some bs"
proof -
  have "nat (ob_offset ob) + 4 \<le> length (contents (ob_b ob))"
    using inv length_contents [of "ob_b ob"] by (auto simp: builder_inv_def)
  then show ?thesis
    using adds_run [OF fs inv len] by (auto simp: fields_of_def)
qed

lemma append_doc_run:
  assumes "builder_inv ob" and "length (contents (ob_b ob)) + length (enc_elems d) \<le> 32 * 1024 * 1024"
  shows "\<exists>ob'. seq_res (map append_value d) ob = Inr ob' \<and> builder_inv ob' \<and> ob_offset ob' = ob_offset ob \<and>
    ob_owned ob' = ob_owned ob \<and> contents (ob_b ob') = contents (ob_b ob) @ map Some (enc_elems d) \<and>
    fields_of ob' = fields_of ob @ map Some (enc_elems d)"
  by (rule append_ops_run [OF adds_append_doc assms])

section \<open>Building a document\<close>

definition build_doc :: "doc \<Rightarrow> bytes res" where
  "build_doc d =
     bind_res (new_builder 512) (\<lambda>ob. bind_res (seq_res (map append_value d) ob) obj)"

text \<open>The same with any operations on the builder.\<close>

definition build_ops :: "(objbuilder \<Rightarrow> objbuilder res) list \<Rightarrow> bytes res" where
  "build_ops fs = bind_res (new_builder 512) (\<lambda>ob. bind_res (seq_res fs ob) obj)"

text \<open>
  The same document built as an embedded object, in place: \<open>subobjStart\<close>, a builder on
  the shared buffer, \<open>done()\<close>.
\<close>

definition build_sub :: "bytes \<Rightarrow> doc \<Rightarrow> objbuilder \<Rightarrow> objbuilder res" where
  "build_sub name d ob =
     bind_res (subobjStart name ob) (\<lambda>ob.
     bind_res (sub_builder (ob_b ob)) (\<lambda>sub.
     bind_res (seq_res (map append_value d) sub) (\<lambda>sub.
     bind_res (ob_done sub) (\<lambda>sub. Inr (ob\<lparr>ob_b := ob_b sub\<rparr>)))))"

lemma rd_int_enc_doc:
  "int (length (enc_doc d)) < 2 ^ 31 \<Longrightarrow> rd_int (enc_doc d @ p) = Inr (int (length (enc_doc d)))"
  by (simp add: enc_doc_def rd_int_le_int i32_id)

lemma build_ops_run:
  assumes "adds (seq_res fs) (enc_elems d)" and "length (enc_doc d) \<le> 32 * 1024 * 1024"
  shows "build_ops fs =
    (if int (length (enc_doc d)) \<le> BSONObjMaxInternalSize then Inr (enc_doc d) else Inl (Massert 10334))"
proof -
  obtain ob0 where ob0: "new_builder 512 = Inr ob0" "builder_inv ob0" "ob_offset ob0 = 0" "ob_owned ob0"
      "length (contents (ob_b ob0)) = 4" "fields_of ob0 = []"
    using new_builder_run [of 512] by auto
  obtain ob1 where ob1: "seq_res fs ob0 = Inr ob1" "builder_inv ob1"
      "ob_offset ob1 = 0" "ob_owned ob1" "fields_of ob1 = map Some (enc_elems d)"
      "contents (ob_b ob1) = contents (ob_b ob0) @ map Some (enc_elems d)"
    using append_ops_run [OF assms(1) ob0(2)] ob0 assms(2) by auto
  obtain ob2 where ob2: "ob_done ob1 = Inr ob2" "ob_offset ob2 = 0" "contents (ob_b ob2) = map Some (enc_doc d)"
    using ob_done_run [OF ob1(2,5)] ob1 ob0(5) assms by auto
  have "built ob2 = Inr (enc_doc d)"
    using built_run [of ob2 "[]"] ob2 by simp
  moreover have "rd_int (enc_doc d) = Inr (int (length (enc_doc d)))"
    using rd_int_enc_doc [of d "[]"] assms by simp
  ultimately show ?thesis
    using ob0 ob1 ob2 by (simp add: build_ops_def obj_def bsonobj_init_def isValid_def)
qed

lemma build_doc_run:
  assumes "length (enc_doc d) \<le> 32 * 1024 * 1024"
  shows "build_doc d =
    (if int (length (enc_doc d)) \<le> BSONObjMaxInternalSize then Inr (enc_doc d) else Inl (Massert 10334))"
  using build_ops_run [OF adds_append_doc assms] by (simp add: build_doc_def build_ops_def)

text \<open>An embedded object written in place, on the buffer of its parent.\<close>

lemma build_sub_run:
  assumes inv: "builder_inv ob"
    and len: "length (contents (ob_b ob)) + length (enc_elem (name, VObject d)) \<le> 32 * 1024 * 1024"
  shows "\<exists>ob'. build_sub name d ob = Inr ob' \<and> builder_inv ob' \<and> ob_offset ob' = ob_offset ob \<and>
    contents (ob_b ob') = contents (ob_b ob) @ map Some (enc_elem (name, VObject d))"
proof -
  let ?head = "type_byte Object # name @ [NUL]"
  have head: "adds (subobjStart name) ?head"
    by (rule addsI [where xss = "[[type_byte Object], name @ [NUL]]"]) (simp_all add: subobjStart_def buf_ops)
  obtain ob1 where ob1: "subobjStart name ob = Inr ob1" "builder_inv ob1" "ob_offset ob1 = ob_offset ob"
      "contents (ob_b ob1) = contents (ob_b ob) @ map Some ?head"
    using adds_run [OF head inv] len by (auto simp: length_enc_elem)
  let ?c1 = "contents (ob_b ob1)"
  have b1: "buf_inv (ob_b ob1)" using ob1(2) by (simp add: builder_inv_def)
  have l1: "length ?c1 + length (enc_doc d) \<le> 32 * 1024 * 1024"
    using len ob1(4) by (simp add: length_enc_elem)
  obtain s where s: "sub_builder (ob_b ob1) = Inr s" "builder_inv s" "ob_offset s = int (length ?c1)"
      "take (length ?c1) (contents (ob_b s)) = ?c1" "length (contents (ob_b s)) = length ?c1 + 4" "fields_of s = []"
    using sub_builder_run [OF b1] l1 by auto
  obtain s1 where s1: "seq_res (map append_value d) s = Inr s1" "builder_inv s1" "ob_offset s1 = ob_offset s"
      "contents (ob_b s1) = contents (ob_b s) @ map Some (enc_elems d)" "fields_of s1 = map Some (enc_elems d)"
    using append_doc_run [OF s(2), of d] s(5,6) l1 by auto
  obtain s2 where s2: "ob_done s1 = Inr s2" "buf_inv (ob_b s2)"
      "contents (ob_b s2) = take (nat (ob_offset s1)) (contents (ob_b s1)) @ map Some (enc_doc d)"
    using ob_done_run [OF s1(2,5)] s1(4) s(5) l1 by auto
  have "contents (ob_b s2) = ?c1 @ map Some (enc_doc d)"
    using s2(3) s1(3,4) s(3,4,5) by simp
  then have c: "contents (ob_b s2) = contents (ob_b ob) @ map Some (enc_elem (name, VObject d))"
    using ob1(4) by (simp add: enc_elem_def)
  have "builder_inv (ob1\<lparr>ob_b := ob_b s2\<rparr>)"
    using ob1(2,3) s2(2) length_contents [OF s2(2)] length_contents [OF b1] c ob1(4)
    by (auto simp: builder_inv_def length_enc_elem)
  then show ?thesis
    using ob1 s(1) s1(1) s2(1) c by (auto simp: build_sub_def)
qed

lemma append_obj_run:
  assumes "builder_inv ob" and "length (contents (ob_b ob)) + length (enc_elem (name, VObject d)) \<le> 32 * 1024 * 1024"
  shows "\<exists>ob'. append_obj name (enc_doc d) ob = Inr ob' \<and>
    contents (ob_b ob') = contents (ob_b ob) @ map Some (enc_elem (name, VObject d)) \<and> ob_offset ob' = ob_offset ob"
  using adds_run [OF adds_append_value [of "(name, VObject d)"]] assms by auto

section \<open>Properties\<close>



text \<open>
  Building an embedded object in place (\<open>subobjStart\<close>, a second builder on the shared
  buffer, \<open>done\<close>) leaves the same bytes as appending the finished object.
\<close>

theorem subobj_in_place:
  assumes "builder_inv ob" and "length (contents (ob_b ob)) + length (enc_elem (name, VObject d)) \<le> 32 * 1024 * 1024"
  shows "\<exists>ob1 ob2. build_sub name d ob = Inr ob1 \<and> append_obj name (enc_doc d) ob = Inr ob2 \<and>
    builder_inv ob1 \<and> contents (ob_b ob1) = contents (ob_b ob2) \<and> ob_offset ob1 = ob_offset ob2"
  using build_sub_run [OF assms] append_obj_run [OF assms] by auto

theorem subobj_in_place_witness:
  "\<exists>ob. new_builder 512 = Inr ob \<and>
    (\<exists>ob1 ob2. build_sub ''x'' [(''y'', VBool True)] ob = Inr ob1 \<and> append_obj ''x'' (enc_doc [(''y'', VBool True)]) ob = Inr ob2 \<and>
      builder_inv ob1 \<and> contents (ob_b ob1) = contents (ob_b ob2) \<and> ob_offset ob1 = ob_offset ob2)"
proof -
  obtain ob where "new_builder 512 = Inr ob" "builder_inv ob" "length (contents (ob_b ob)) = 4"
    using new_builder_run [of 512] by auto
  then show ?thesis
    using subobj_in_place [of ob "''x''" "[(''y'', VBool True)]"] by (simp add: length_enc_elem)
qed

text \<open>The integer a numeric value denotes.\<close>

fun denotes :: "bson_value \<Rightarrow> int \<Rightarrow> bool" where
  "denotes (VInt w) n = (sint w = n)"
| "denotes (VLong w) n = (sint w = n)"
| "denotes (VDouble d) n = (dbl_scaled d = n * int dbl_unit)"
| "denotes _ n = False"

lemma sint_ucast_32: "sint (ucast (l :: 64 word) :: 32 word) = i32 (sint l)"
  by (rule bit_eqI) (simp add: i32_def bit_simps min_def)

text \<open>
  \<open>appendNumber(long long)\<close> stores the number it is given, as an int, a double or a
  long, for every value from \<open>-2^31\<close> up.
\<close>

theorem appendNumber_exact:
  assumes "- (2 ^ 31) \<le> sint l"
  shows "\<exists>v. appendNumber_long name l = append_value (name, v) \<and> denotes v (sint l)"
proof (cases "sint l < 2 ^ 30")
  case True
  then have "denotes (VInt (ucast l)) (sint l)"
    using assms by (simp add: sint_ucast_32 i32_id)
  then show ?thesis using True by (intro exI [of _ "VInt (ucast l)"]) (simp add: appendNumber_long_def)
next
  case False
  then have "denotes (VDouble (dbl_of_int (sint l))) (sint l)" if "sint l < 2 ^ 40"
    using that dbl_of_int_exact(1) [of "sint l"] by simp
  then show ?thesis
    using False by (intro exI [of _ "if sint l < 2 ^ 40 then VDouble (dbl_of_int (sint l)) else VLong l"])
      (simp add: appendNumber_long_def)
qed

theorem appendNumber_exact_witness:
  "\<exists>v. appendNumber_long ''n'' 0x100000000 = append_value (''n'', v) \<and> denotes v (sint (0x100000000 :: 64 word))"
  by (rule appendNumber_exact) code_simp

text \<open>
  For every number below \<open>-2^31\<close>, \<open>appendNumber(long long)\<close> stores a different one:
  the comparison with \<open>2^30\<close> is made without the sign, and the cast to int wraps.
\<close>

theorem appendNumber_truncates:
  assumes "sint l < - (2 ^ 31)"
  shows "\<exists>w. appendNumber_long name l = append_value (name, VInt w) \<and> \<not> denotes (VInt w) (sint l)"
  using assms i32_bounds(1) [of "sint l"]
  by (intro exI [of _ "ucast l"]) (simp add: appendNumber_long_def sint_ucast_32)

theorem appendNumber_truncates_witness:
  "\<exists>w. appendNumber_long ''n'' (- 0x100000000) = append_value (''n'', VInt w) \<and> \<not> denotes (VInt w) (sint (- 0x100000000 :: 64 word))"
  by (rule appendNumber_truncates) code_simp

text \<open>
  \<open>appendMaxForType\<close> for null and undefined writes two fields of the same name, the
  least double and then \<open>true\<close>: the case has no \<open>break\<close>.
\<close>

theorem appendMaxForType_null_two_fields:
  "appendMaxForType name (type_code jstNULL) = seq_res (map append_value [(name, VDouble dbl_min_neg), (name, VBool True)])
   \<and> appendMaxForType name (type_code Undefined) = seq_res (map append_value [(name, VDouble dbl_min_neg), (name, VBool True)])"
  by (simp add: fun_eq_iff appendMaxForType_def appendMinForType_def appendBool_def append_bool_def)

end
