(* ===== verification/BsonReader.thy ===== *)
theory BsonReader
  imports BsonBuilder
begin

text \<open>
  Reading BSON from memory: \<open>BSONElement\<close> (bson/bsonelement.h, bson/bson-inl.h),
  \<open>BSONObjIterator\<close> (bson/bsonobjiterator.h) and \<open>BSONObj::valid\<close> (db/jsobj.cpp).
  Memory is the byte list \<open>mem\<close> that starts at the object; a pointer is an index into
  it, so that a computed element size may also move a pointer backwards or past the
  end. Every read outside \<open>mem\<close> is \<open>OutOfBounds\<close>.
\<close>

section \<open>Elements\<close>

text \<open>\<open>mongo::strnlen\<close> (bson/util/misc.h): -1 if there is no NUL in the first \<open>n\<close> bytes.\<close>

fun strnlen :: "bytes \<Rightarrow> nat \<Rightarrow> int \<Rightarrow> int res" where
  "strnlen s 0 i = Inr (- 1)"
| "strnlen [] (Suc n) i = Inl OutOfBounds"
| "strnlen (c # cs) (Suc n) i = (if c = NUL then Inr i else strnlen cs n (i + 1))"

text \<open>
  An element: the bytes at its \<open>data\<close> pointer and the cached \<open>fieldNameSize_\<close>
  (-1 until it is known).
\<close>

record belement =
  el_data :: bytes
  el_fns :: int

definition el_type :: "bytes \<Rightarrow> int res" where
  "el_type p = (case p of [] \<Rightarrow> Inl OutOfBounds | c # _ \<Rightarrow> Inr (schar c))"

definition el_eoo :: "bytes \<Rightarrow> bool res" where
  "el_eoo p = bind_res (el_type p) (\<lambda>t. Inr (t = type_code EOO))"

text \<open>\<open>BSONElement(const char *d, int maxLen)\<close>.\<close>

definition el_new :: "bytes \<Rightarrow> int \<Rightarrow> belement res" where
  "el_new d maxLen =
     bind_res (el_eoo d) (\<lambda>eoo.
       if eoo then Inr \<lparr>el_data = d, el_fns = 0\<rparr>
       else if maxLen \<noteq> - 1 then
         bind_res (strnlen (tl d) (nat (maxLen - 1)) 0) (\<lambda>size.
         bind_res (guard (size \<noteq> - 1) (Massert 10333)) (\<lambda>_.
           Inr \<lparr>el_data = d, el_fns = size + 1\<rparr>))
       else Inr \<lparr>el_data = d, el_fns = - 1\<rparr>)"

text \<open>\<open>fieldName()\<close> is \<open>data + 1\<close>, or the empty string for the EOO.\<close>

definition el_fieldNameSize :: "belement \<Rightarrow> int res" where
  "el_fieldNameSize e =
     (if el_fns e \<noteq> - 1 then Inr (el_fns e)
      else bind_res (el_eoo (el_data e)) (\<lambda>eoo.
        if eoo then Inr 1
        else bind_res (strlen (tl (el_data e))) (\<lambda>n. Inr (int n + 1))))"

definition el_fieldName :: "belement \<Rightarrow> bytes res" where
  "el_fieldName e =
     bind_res (el_eoo (el_data e)) (\<lambda>eoo.
       if eoo then Inr []
       else bind_res (strlen (tl (el_data e))) (\<lambda>n. Inr (take n (tl (el_data e)))))"

text \<open>\<open>value()\<close>: the memory from \<open>data + fieldNameSize() + 1\<close> on.\<close>

definition el_value :: "belement \<Rightarrow> bytes res" where
  "el_value e = bind_res (el_fieldNameSize e) (\<lambda>f. Inr (drop (nat (f + 1)) (el_data e)))"

text \<open>
  The size of the value of an element of type code \<open>t\<close> at \<open>v\<close>, from the switch of
  \<open>BSONElement::size(maxLen)\<close>; \<open>remain\<close> is what \<open>maxLen\<close> leaves for it.
\<close>

definition value_size :: "int \<Rightarrow> bytes \<Rightarrow> int \<Rightarrow> int \<Rightarrow> int res" where
  "value_size t v maxLen remain =
     (let enough = (maxLen = - 1 \<or> remain > 3)
      in case type_of_code t of
        Some EOO \<Rightarrow> Inr 0 | Some Undefined \<Rightarrow> Inr 0 | Some jstNULL \<Rightarrow> Inr 0
      | Some MaxKey \<Rightarrow> Inr 0 | Some MinKey \<Rightarrow> Inr 0
      | Some Bool \<Rightarrow> Inr 1
      | Some NumberInt \<Rightarrow> Inr 4
      | Some Timestamp \<Rightarrow> Inr 8 | Some Date \<Rightarrow> Inr 8 | Some NumberDouble \<Rightarrow> Inr 8 | Some NumberLong \<Rightarrow> Inr 8
      | Some jstOID \<Rightarrow> Inr 12
      | Some Symbol \<Rightarrow> bind_res (guard enough (Massert 10313)) (\<lambda>_. bind_res (rd_int v) (\<lambda>n. Inr (n + 4)))
      | Some Code \<Rightarrow> bind_res (guard enough (Massert 10313)) (\<lambda>_. bind_res (rd_int v) (\<lambda>n. Inr (n + 4)))
      | Some String \<Rightarrow> bind_res (guard enough (Massert 10313)) (\<lambda>_. bind_res (rd_int v) (\<lambda>n. Inr (n + 4)))
      | Some CodeWScope \<Rightarrow> bind_res (guard enough (Massert 10314)) (\<lambda>_. rd_int v)
      | Some DBRef \<Rightarrow> bind_res (guard enough (Massert 10315)) (\<lambda>_. bind_res (rd_int v) (\<lambda>n. Inr (n + 4 + 12)))
      | Some Object \<Rightarrow> bind_res (guard enough (Massert 10316)) (\<lambda>_. rd_int v)
      | Some Array \<Rightarrow> bind_res (guard enough (Massert 10316)) (\<lambda>_. rd_int v)
      | Some BinData \<Rightarrow> bind_res (guard enough (Massert 10317)) (\<lambda>_. bind_res (rd_int v) (\<lambda>n. Inr (n + 4 + 1)))
      | Some RegEx \<Rightarrow>
          bind_res (if maxLen = - 1 then bind_res (strlen v) (\<lambda>n. Inr (int n)) else strnlen v (nat remain) 0) (\<lambda>len1.
          let p = drop (nat (len1 + 1)) v
          in bind_res (if maxLen = - 1 then bind_res (strlen p) (\<lambda>n. Inr (int n))
               else let x = remain - len1 - 1
                    in bind_res (guard (0 \<le> x \<and> x \<le> 0x7fffffff) AssertFail) (\<lambda>_. strnlen p (nat x) 0)) (\<lambda>len2.
             Inr (len1 + 1 + len2 + 1)))
      | None \<Rightarrow> Inl (Massert 10320))"

definition el_size :: "belement \<Rightarrow> int \<Rightarrow> int res" where
  "el_size e maxLen =
     bind_res (el_fieldNameSize e) (\<lambda>f.
     bind_res (el_type (el_data e)) (\<lambda>t.
     bind_res (value_size t (drop (nat (f + 1)) (el_data e)) maxLen (maxLen - f - 1)) (\<lambda>x.
       Inr (i32 (x + f + 1)))))"

text \<open>\<open>BSONElement::validate\<close>.\<close>

definition validate_value :: "int \<Rightarrow> bytes \<Rightarrow> unit res" where
  "validate_value t v =
     (case type_of_code t of
        Some ty \<Rightarrow>
          if ty \<in> {DBRef, Code, Symbol, String} then
            bind_res (rd32 v) (\<lambda>w.
              let x = unat w
              in if 0 < x \<and> x < nat BSONObjMaxInternalSize
                 then (if 4 + (x - 1) < length v
                       then guard (v ! (4 + (x - 1)) = NUL) (Massert 10321) else Inl OutOfBounds)
                 else Inl (Massert 10321))
          else if ty = CodeWScope then
            bind_res (rd_int v) (\<lambda>totalSize.
            bind_res (guard (totalSize \<ge> 8) (Massert 10322)) (\<lambda>_.
            bind_res (rd_int (drop 4 v)) (\<lambda>strSizeWNull.
            bind_res (guard (totalSize \<ge> i32 (strSizeWNull + 4 + 4)) (Massert 10323)) (\<lambda>_.
            bind_res (if strSizeWNull > 0 then strnlen (drop 8 v) (nat strSizeWNull) 0 else Inr 0) (\<lambda>n.
            bind_res (guard (strSizeWNull > 0 \<and> strSizeWNull - 1 = n) (Massert 10324)) (\<lambda>_.
            bind_res (guard (totalSize \<ge> i32 (strSizeWNull + 4 + 4 + 4)) (Massert 10325)) (\<lambda>_.
            bind_res (rd_int (drop (nat (4 + 4 + strSizeWNull)) v)) (\<lambda>objSize.
              guard (totalSize = i32 (4 + 4 + strSizeWNull + objSize)) (Massert 10326)))))))))
          else Inr ()
      | None \<Rightarrow> Inr ())"

definition el_validate :: "belement \<Rightarrow> unit res" where
  "el_validate e =
     bind_res (el_type (el_data e)) (\<lambda>t. bind_res (el_value e) (validate_value t))"

section \<open>The iterator\<close>

record iterator =
  it_pos :: int
  it_end :: int

definition at :: "bytes \<Rightarrow> int \<Rightarrow> bytes res" where
  "at mem pos = (if 0 \<le> pos \<and> nat pos \<le> length mem then Inr (drop (nat pos) mem) else Inl OutOfBounds)"

definition iter_new :: "bytes \<Rightarrow> iterator res" where
  "iter_new mem =
     bind_res (rd_int mem) (\<lambda>sz.
       Inr (if sz = 0 then \<lparr>it_pos = 0, it_end = 0\<rparr> else \<lparr>it_pos = 4, it_end = sz\<rparr>))"

definition moreWithEOO :: "iterator \<Rightarrow> bool" where
  "moreWithEOO it \<longleftrightarrow> it_pos it < it_end it"

definition iter_more :: "bytes \<Rightarrow> iterator \<Rightarrow> bool res" where
  "iter_more mem it =
     (if it_pos it < it_end it
      then bind_res (at mem (it_pos it)) (\<lambda>p. bind_res (el_type p) (\<lambda>c. Inr (c \<noteq> 0)))
      else Inr False)"

definition iter_next :: "bytes \<Rightarrow> bool \<Rightarrow> iterator \<Rightarrow> (belement \<times> iterator) res" where
  "iter_next mem checkEnd it =
     bind_res (guard (it_pos it < it_end it) AssertFail) (\<lambda>_.
     let maxLen = (if checkEnd then it_end it - it_pos it else - 1)
     in bind_res (at mem (it_pos it)) (\<lambda>p.
        bind_res (el_new p maxLen) (\<lambda>e.
        bind_res (el_size e maxLen) (\<lambda>s.
          Inr (e, it\<lparr>it_pos := it_pos it + s\<rparr>)))))"

section \<open>Validation\<close>

text \<open>
  \<open>BSONObj::valid\<close>. A thrown exception is caught and means \<open>false\<close>; memory errors are
  not exceptions. The loop has no bound of its own: the model takes fuel, and \<open>None\<close>
  means it is used up.
\<close>

definition caught :: "mongo_error \<Rightarrow> bool res" where
  "caught e = (if e = OutOfBounds \<or> e = UB then Inl e else Inr False)"

fun valid_loop :: "nat \<Rightarrow> bytes \<Rightarrow> iterator \<Rightarrow> bool res option" where
  "valid_loop 0 mem it = None"
| "valid_loop (Suc n) mem it =
     (if \<not> moreWithEOO it then Some (Inr False)
      else case bind_res (iter_next mem True it) (\<lambda>(e, it').
              bind_res (el_validate e) (\<lambda>_.
              bind_res (el_type (el_data e)) (\<lambda>t.
              bind_res (el_value e) (\<lambda>v. Inr (t, v, it'))))) of
        Inl err \<Rightarrow> Some (caught err)
      | Inr (t, v, it') \<Rightarrow>
          if t = type_code EOO then Some (Inr (\<not> moreWithEOO it'))
          else if t = type_code Object \<or> t = type_code Array then
            (case bind_res (bsonobj_init v) iter_new of
               Inl err \<Rightarrow> Some (caught err)
             | Inr sub \<Rightarrow>
                (case valid_loop n v sub of
                   Some (Inr True) \<Rightarrow> valid_loop n mem it'
                 | r \<Rightarrow> r))
          else if t = type_code CodeWScope then
            (case bind_res (rd_int (drop 4 v)) (\<lambda>k. bind_res (at v (4 + 4 + k)) (\<lambda>o'.
                    bind_res (bsonobj_init o') (\<lambda>_. bind_res (iter_new o') (\<lambda>it. Inr (o', it))))) of
               Inl err \<Rightarrow> Some (caught err)
             | Inr (o', sub) \<Rightarrow>
                (case valid_loop n o' sub of
                   Some (Inr True) \<Rightarrow> valid_loop n mem it'
                 | r \<Rightarrow> r))
          else valid_loop n mem it')"

definition valid :: "nat \<Rightarrow> bytes \<Rightarrow> bool res option" where
  "valid fuel mem =
     (case iter_new mem of Inl err \<Rightarrow> Some (caught err) | Inr it \<Rightarrow> valid_loop fuel mem it)"

section \<open>Reading an encoded element\<close>

lemma strnlen_terminated [simp]:
  "NUL \<notin> set s \<Longrightarrow> length s < k \<Longrightarrow> strnlen (s @ NUL # p) k i = Inr (i + int (length s))"
proof (induction s arbitrary: k i)
  case Nil
  then show ?case by (cases k) auto
next
  case (Cons c s)
  then show ?case by (cases k) auto
qed

lemma el_type_enc [simp]: "el_type (enc_elem (n, v) @ p) = Inr (type_code (value_type v))"
  by (simp add: el_type_def enc_elem_def)

lemma el_eoo_enc [simp]: "el_eoo (enc_elem (n, v) @ p) = Inr False"
  by (simp add: el_eoo_def)

lemma tl_enc [simp]: "tl (enc_elem (n, v) @ p) = n @ NUL # enc_value v @ p"
  by (simp add: enc_elem_def)

lemma drop_enc: "drop (length n + 2) (enc_elem (n, v) @ p) = enc_value v @ p"
  by (simp add: enc_elem_def)

text \<open>A limit that leaves room for the name, or no limit.\<close>

lemma el_new_enc:
  assumes "NUL \<notin> set n" and "M = - 1 \<or> int (length n) + 1 < M"
  shows "el_new (enc_elem (n, v) @ p) M =
    Inr \<lparr>el_data = enc_elem (n, v) @ p, el_fns = (if M = - 1 then - 1 else int (length n) + 1)\<rparr>"
proof (cases "M = - 1")
  case False
  then have "length n < nat (M - 1)" using assms(2) by auto
  then show ?thesis using False assms(1) by (simp add: el_new_def)
qed (simp add: el_new_def)

lemma el_fieldNameSize_enc:
  assumes "NUL \<notin> set n" and "f = - 1 \<or> f = int (length n) + 1"
  shows "el_fieldNameSize \<lparr>el_data = enc_elem (n, v) @ p, el_fns = f\<rparr> = Inr (int (length n) + 1)"
  using assms by (auto simp: el_fieldNameSize_def)

lemma el_fieldName_enc:
  "NUL \<notin> set n \<Longrightarrow> el_fieldName \<lparr>el_data = enc_elem (n, v) @ p, el_fns = f\<rparr> = Inr n"
  by (simp add: el_fieldName_def)

lemma el_value_enc:
  assumes "NUL \<notin> set n" and "f = - 1 \<or> f = int (length n) + 1"
  shows "el_value \<lparr>el_data = enc_elem (n, v) @ p, el_fns = f\<rparr> = Inr (enc_value v @ p)"
  using assms drop_enc [of n v p] by (simp add: el_value_def el_fieldNameSize_enc nat_add_distrib add.commute)

text \<open>The size computed from the bytes is the size of the encoding.\<close>

lemma value_size_enc:
  assumes "wf_value v" and "int (length (enc_value v)) < 2 ^ 31"
    and "M = - 1 \<or> (int (length (enc_value v)) \<le> R \<and> R < 2 ^ 31)"
  shows "value_size (type_code (value_type v)) (enc_value v @ p) M R = Inr (int (length (enc_value v)))"
proof (cases v)
  case (VRegEx r opts)
  with assms show ?thesis
  proof (cases "M = - 1")
    case False
    have r: "NUL \<notin> set r" "NUL \<notin> set opts" using assms(1) VRegEx by auto
    have R: "int (length r) + int (length opts) + 2 \<le> R" "R < 2 ^ 31" using assms(3) False VRegEx by auto
    then have "length r < nat R" "length opts < nat (R - int (length r) - 1)" by auto
    then show ?thesis using VRegEx False r R by (simp add: value_size_def Let_def nat_add_distrib)
  qed (simp add: value_size_def Let_def nat_add_distrib)
qed (use assms in \<open>auto simp: value_size_def Let_def rd_int_le_int i32_id rd_int_enc_doc split: if_splits\<close>)

lemma validate_value_enc:
  assumes "wf_value v" and "int (length (enc_value v)) < BSONObjMaxInternalSize"
  shows "validate_value (type_code (value_type v)) (enc_value v @ p) = Inr ()"
proof -
  have str: "validate_value (type_code t) (le_int (int (length s) + 1) @ s @ NUL # q) = Inr ()"
    if "t \<in> {DBRef, Code, Symbol, String}" and "int (length s) + 5 < BSONObjMaxInternalSize" for t s q
  proof -
    define w where "w = (word_of_int (int (length s) + 1) :: 32 word)"
    have w: "unat w = length s + 1" "le_int (int (length s) + 1) = le32 w"
      using that(2) unat_word_of_int32 [of "length s + 1"] by (simp_all add: w_def le_int_def add.commute)
    show ?thesis
      using that by (auto simp: validate_value_def w Let_def nth_append)
  qed
  show ?thesis
  proof (cases v)
    case (VCodeWScope c d)
    let ?n = "int (length c) + 1" and ?t = "4 + 4 + int (length c) + 1 + int (length (enc_doc d))"
    have b: "?t < BSONObjMaxInternalSize" using assms(2) VCodeWScope by simp
    have i: "i32 ?t = ?t" "i32 ?n = ?n" "i32 (?n + 4 + 4) = ?n + 4 + 4" "i32 (?n + 4 + 4 + 4) = ?n + 4 + 4 + 4"
      "i32 (4 + 4 + ?n + int (length (enc_doc d))) = ?t"
      using b by (auto intro!: i32_id)
    have "rd_int (enc_doc d @ p) = Inr (int (length (enc_doc d)))"
      using b by (intro rd_int_enc_doc) auto
    then show ?thesis
      using VCodeWScope assms(1) i b
      by (simp add: validate_value_def rd_int_le_int nat_add_distrib)
  next
    case (VString x)
    then show ?thesis using str [of String x p] assms(2) by simp
  next
    case (VCode x)
    then show ?thesis using str [of Code x p] assms(2) by simp
  next
    case (VSymbol x)
    then show ?thesis using str [of Symbol x p] assms(2) by simp
  next
    case (VDBRef x d)
    then show ?thesis using str [of DBRef x "d @ p"] assms(2) by simp
  qed (simp_all add: validate_value_def)
qed

text \<open>One step of the iterator over an encoded element, with or without end checks.\<close>

lemma el_size_enc:
  assumes "wf_elem (n, v)" and "int (length (enc_elem (n, v))) < 2 ^ 31"
    and "M = - 1 \<or> (int (length (enc_elem (n, v))) \<le> M \<and> M < 2 ^ 31)"
    and "f = - 1 \<or> f = int (length n) + 1"
  shows "el_size \<lparr>el_data = enc_elem (n, v) @ p, el_fns = f\<rparr> M = Inr (int (length (enc_elem (n, v))))"
proof -
  have w: "NUL \<notin> set n" "wf_value v" using assms(1) by auto
  let ?L = "int (length (enc_value v))"
  have L: "int (length (enc_elem (n, v))) = ?L + (int (length n) + 1) + 1" by (simp add: length_enc_elem)
  have "value_size (type_code (value_type v)) (enc_value v @ p) M (M - (int (length n) + 1) - 1) = Inr ?L"
    by (rule value_size_enc [OF w(2)]) (use assms(2,3) L in auto)
  moreover have "i32 (?L + (int (length n) + 1) + 1) = ?L + (int (length n) + 1) + 1"
    using assms(2) L by (intro i32_id) auto
  moreover have "drop (nat (int (length n) + 1 + 1)) (enc_elem (n, v) @ p) = enc_value v @ p"
    using drop_enc [of n v p] by (simp add: nat_add_distrib)
  ultimately show ?thesis
    using L by (simp add: el_size_def el_fieldNameSize_enc [OF w(1) assms(4)])
qed

lemma iter_next_enc:
  assumes "wf_elem (n, v)" and "int (length (enc_elem (n, v))) < 2 ^ 31"
    and "it_pos it = int (length pre)" and "it_pos it + int (length (enc_elem (n, v))) \<le> it_end it"
    and "it_end it - it_pos it < 2 ^ 31"
  shows "\<exists>f. iter_next (pre @ enc_elem (n, v) @ post) chk it =
      Inr (\<lparr>el_data = enc_elem (n, v) @ post, el_fns = f\<rparr>, it\<lparr>it_pos := int (length (pre @ enc_elem (n, v)))\<rparr>) \<and>
      (f = - 1 \<or> f = int (length n) + 1)"
proof -
  let ?M = "if chk then it_end it - it_pos it else - 1"
  have pos: "0 < int (length (enc_elem (n, v)))" by simp
  have M: "?M = - 1 \<or> (int (length (enc_elem (n, v))) \<le> ?M \<and> ?M < 2 ^ 31)" using assms(4,5) by auto
  have "?M = - 1 \<or> int (length n) + 1 < ?M" using assms(4) by (auto simp: length_enc_elem)
  then have new: "el_new (enc_elem (n, v) @ post) ?M = Inr \<lparr>el_data = enc_elem (n, v) @ post,
      el_fns = (if ?M = - 1 then - 1 else int (length n) + 1)\<rparr>"
    using assms(1) by (intro el_new_enc) auto
  have "at (pre @ enc_elem (n, v) @ post) (it_pos it) = Inr (enc_elem (n, v) @ post)"
    using assms(3) by (simp add: at_def)
  moreover have "it_pos it < it_end it" using assms(4) pos by linarith
  ultimately show ?thesis
    using assms(1,3) new el_size_enc [OF assms(1,2) M]
    by (simp add: iter_next_def Let_def)
qed

text \<open>The EOO byte that ends every object.\<close>

lemma iter_next_eoo:
  assumes "it_pos it = int (length pre)" and "it_pos it < it_end it"
  shows "iter_next (pre @ NUL # post) chk it =
    Inr (\<lparr>el_data = NUL # post, el_fns = 0\<rparr>, it\<lparr>it_pos := int (length pre) + 1\<rparr>)"
proof -
  have "el_eoo (NUL # post) = Inr True" "el_type (NUL # post) = Inr (type_code EOO)"
    by (simp_all add: el_eoo_def el_type_def schar_def type_code.simps)
  moreover have "i32 1 = 1" by (intro i32_id) auto
  ultimately show ?thesis
    using assms by (simp add: iter_next_def Let_def at_def el_new_def el_size_def el_fieldNameSize_def value_size_def)
qed

section \<open>Built objects are valid\<close>

lemma iter_new_enc:
  "int (length (enc_doc d)) < 2 ^ 31 \<Longrightarrow>
   iter_new (enc_doc d @ p) = Inr \<lparr>it_pos = 4, it_end = int (length (enc_doc d))\<rparr>"
  by (simp add: iter_new_def rd_int_enc_doc)

lemma bsonobj_init_enc:
  "int (length (enc_doc d)) \<le> BSONObjMaxInternalSize \<Longrightarrow> bsonobj_init (enc_doc d @ p) = Inr (enc_doc d @ p)"
  by (simp add: bsonobj_init_def isValid_def rd_int_enc_doc)

lemma enc_doc_split: "enc_doc d @ p = le_int (int (length (enc_elems d)) + 5) @ enc_elems d @ NUL # p"
  by (simp add: enc_doc_def)

lemma valid_loop_enc:
  assumes "wf_doc d" and "length (enc_elems d) < fuel"
    and "int (length pre) = it_pos it" and "it_end it = it_pos it + int (length (enc_elems d)) + 1"
    and "int (length (enc_elems d)) + 5 \<le> BSONObjMaxInternalSize"
  shows "valid_loop fuel (pre @ enc_elems d @ NUL # post) it = Some (Inr True)"
  using assms
proof (induction fuel arbitrary: d pre post it)
  case (Suc fuel)
  show ?case
  proof (cases d)
    case Nil
    with Suc.prems have "iter_next (pre @ NUL # post) True it =
        Inr (\<lparr>el_data = NUL # post, el_fns = 0\<rparr>, it\<lparr>it_pos := int (length pre) + 1\<rparr>)"
      by (intro iter_next_eoo) auto
    with Nil Suc.prems show ?thesis
      by (simp add: moreWithEOO_def el_validate_def el_value_def el_fieldNameSize_def el_type_def
          schar_def validate_value_def type_of_code_def all_types_def type_code.simps)
  next
    case (Cons e d')
    obtain n v where e: "e = (n, v)" by (cases e)
    have wf: "wf_elem (n, v)" "wf_doc d'" and w: "NUL \<notin> set n" "wf_value v"
      using Suc.prems(1) Cons e by auto
    have len: "length (enc_elems d) = length (enc_elem (n, v)) + length (enc_elems d')" using Cons e by simp
    let ?post = "enc_elems d' @ NUL # post" and ?it = "it\<lparr>it_pos := int (length (pre @ enc_elem (n, v)))\<rparr>"
    obtain f where nx: "iter_next (pre @ enc_elem (n, v) @ ?post) True it =
        Inr (\<lparr>el_data = enc_elem (n, v) @ ?post, el_fns = f\<rparr>, ?it)" and f: "f = - 1 \<or> f = int (length n) + 1"
      using iter_next_enc [OF wf(1), of it pre "?post" True] Suc.prems(3-5) len by auto
    have val: "el_value \<lparr>el_data = enc_elem (n, v) @ ?post, el_fns = f\<rparr> = Inr (enc_value v @ ?post)"
      by (rule el_value_enc [OF w(1) f])
    have "validate_value (type_code (value_type v)) (enc_value v @ ?post) = Inr ()"
      by (rule validate_value_enc [OF w(2)]) (use Suc.prems(5) len in \<open>simp add: length_enc_elem\<close>)
    then have vd: "el_validate \<lparr>el_data = enc_elem (n, v) @ ?post, el_fns = f\<rparr> = Inr ()"
      using val by (simp add: el_validate_def)
    have mo: "moreWithEOO it" using Suc.prems(4) by (simp add: moreWithEOO_def)
    have rest: "valid_loop fuel (pre @ enc_elem (n, v) @ ?post) ?it = Some (Inr True)"
      using Suc.IH [of d' "pre @ enc_elem (n, v)" ?it post] Suc.prems len wf(2) by (simp add: length_enc_elem)
    have sub: "valid_loop fuel (enc_doc es @ q) \<lparr>it_pos = 4, it_end = int (length (enc_doc es))\<rparr> = Some (Inr True)"
      if "wf_doc es" and "length (enc_doc es) \<le> length (enc_value v)" for es q
      unfolding enc_doc_split using that Suc.prems(2,5) len
      by (intro Suc.IH) (auto simp: length_enc_elem)
    have mem: "pre @ enc_elems d @ NUL # post = pre @ enc_elem (n, v) @ ?post" using Cons e by simp
    have small: "int (length (enc_doc es)) \<le> BSONObjMaxInternalSize" if "length (enc_doc es) \<le> length (enc_value v)" for es
      using that Suc.prems(5) len by (simp add: length_enc_elem)
    show ?thesis
    proof (cases v)
      case (VObject es)
      then show ?thesis
        unfolding mem using nx vd val mo rest w(2) sub [of es] small [of es]
        by (simp add: bsonobj_init_enc iter_new_enc)
    next
      case (VArray es)
      then show ?thesis
        unfolding mem using nx vd val mo rest w(2) sub [of es] small [of es]
        by (simp add: bsonobj_init_enc iter_new_enc)
    next
      case (VCodeWScope c es)
      let ?q = "enc_doc es @ ?post" and ?n = "int (length c) + 1"
      have sm: "int (length (enc_doc es)) + int (length c) + 9 < 2 ^ 31" 
        using Suc.prems(5) len VCodeWScope by (simp add: length_enc_elem)
      have "rd_int (drop 4 (enc_value v @ ?post)) = Inr ?n"
        using sm VCodeWScope by (simp add: rd_int_le_int i32_id)
      moreover have "at (enc_value v @ ?post) (4 + 4 + ?n) = Inr ?q"
        using VCodeWScope by (simp add: at_def nat_add_distrib)
      ultimately show ?thesis
        unfolding mem using VCodeWScope nx vd val mo rest w(2) sub [of es ?post] small [of es]
        by (simp add: bsonobj_init_enc iter_new_enc)
    qed (unfold mem, insert nx vd val mo rest, simp_all)
  qed
qed simp

end
