(* ===== verification/BsonAccess.thy ===== *)
theory BsonAccess
  imports BsonReader
begin

text \<open>
  The accessors of \<open>BSONElement\<close> (bson/bsonelement.h, bson/bson-inl.h) over memory, the
  decoding of an object by iterating it and applying the accessors, and the theorems on
  validation: what the builder writes is valid and is read back unchanged, and what
  \<open>BSONObj::valid\<close> does with hostile bytes.
\<close>

section \<open>Accessors\<close>

text \<open>A \<open>const char*\<close> result, as the C string it points to.\<close>

definition cstr_at :: "bytes \<Rightarrow> bytes res" where
  "cstr_at p = bind_res (strlen p) (\<lambda>n. Inr (take n p))"

text \<open>The \<open>n\<close> bytes at a pointer.\<close>

definition bytes_at :: "bytes \<Rightarrow> int \<Rightarrow> bytes res" where
  "bytes_at p n = (if 0 \<le> n \<and> nat n \<le> length p then Inr (take (nat n) p) else Inl OutOfBounds)"

definition el_is :: "BSONType \<Rightarrow> belement \<Rightarrow> bool res" where
  "el_is t e = bind_res (el_type (el_data e)) (\<lambda>c. Inr (c = type_code t))"

definition isABSONObj :: "belement \<Rightarrow> bool res" where
  "isABSONObj e = bind_res (el_type (el_data e)) (\<lambda>c. Inr (c = type_code Object \<or> c = type_code Array))"

definition mayEncapsulate :: "belement \<Rightarrow> bool res" where
  "mayEncapsulate e = bind_res (el_type (el_data e)) (\<lambda>c.
     Inr (c = type_code Object \<or> c = type_code Array \<or> c = type_code CodeWScope))"

definition el_boolean :: "belement \<Rightarrow> bool res" where
  "el_boolean e = bind_res (el_value e) (\<lambda>v. case v of [] \<Rightarrow> Inl OutOfBounds | c # _ \<Rightarrow> Inr (c \<noteq> NUL))"

definition el_date :: "belement \<Rightarrow> (64 word) res" where
  "el_date e = bind_res (el_value e) rd64"

definition el_numberDouble :: "belement \<Rightarrow> (64 word) res" where
  "el_numberDouble e = bind_res (el_value e) rd64"

definition el_numberInt :: "belement \<Rightarrow> (32 word) res" where
  "el_numberInt e = bind_res (el_value e) rd32"

definition el_numberLong :: "belement \<Rightarrow> (64 word) res" where
  "el_numberLong e = bind_res (el_value e) rd64"

definition el_oid :: "belement \<Rightarrow> bytes res" where
  "el_oid e = bind_res (el_value e) (\<lambda>v. bytes_at v 12)"

definition valuestrsize :: "belement \<Rightarrow> int res" where
  "valuestrsize e = bind_res (el_value e) rd_int"

definition el_objsize :: "belement \<Rightarrow> int res" where
  "el_objsize e = bind_res (el_value e) rd_int"

definition valuestr :: "belement \<Rightarrow> bytes res" where
  "valuestr e = bind_res (el_value e) (\<lambda>v. at v 4)"

definition el_string :: "belement \<Rightarrow> bytes res" where
  "el_string e = bind_res (valuestr e) (\<lambda>p. bind_res (valuestrsize e) (\<lambda>n. bytes_at p (n - 1)))"

definition el_str :: "belement \<Rightarrow> bytes res" where
  "el_str e = bind_res (el_is String e) (\<lambda>b. if b then el_string e else Inr '''')"

definition valuestrsafe :: "belement \<Rightarrow> bytes res" where
  "valuestrsafe e = bind_res (el_is String e) (\<lambda>b. if b then bind_res (valuestr e) cstr_at else Inr '''')"

definition codeWScopeCode :: "belement \<Rightarrow> bytes res" where
  "codeWScopeCode e = bind_res (el_value e) (\<lambda>v. at v 8)"

definition codeWScopeScopeData :: "belement \<Rightarrow> bytes res" where
  "codeWScopeScopeData e =
     bind_res (codeWScopeCode e) (\<lambda>p. bind_res (strlen p) (\<lambda>n. at p (int n + 1)))"

definition codeWScopeObject :: "belement \<Rightarrow> bytes res" where
  "codeWScopeObject e =
     bind_res (el_is CodeWScope e) (\<lambda>b. bind_res (guard b AssertFail) (\<lambda>_.
     bind_res (el_value e) (\<lambda>v. bind_res (rd_int (drop 4 v)) (\<lambda>strSizeWNull.
     bind_res (at v (4 + 4 + strSizeWNull)) bsonobj_init))))"

definition embeddedObject :: "belement \<Rightarrow> bytes res" where
  "embeddedObject e =
     bind_res (isABSONObj e) (\<lambda>b. bind_res (guard b AssertFail) (\<lambda>_. bind_res (el_value e) bsonobj_init))"

definition embeddedObjectUserCheck :: "belement \<Rightarrow> bytes res" where
  "embeddedObjectUserCheck e =
     bind_res (isABSONObj e) (\<lambda>b. if b then bind_res (el_value e) bsonobj_init else Inl (Uassert 10065))"

definition binData :: "belement \<Rightarrow> (int \<times> bytes) res" where
  "binData e =
     bind_res (el_is BinData e) (\<lambda>b. bind_res (guard b AssertFail) (\<lambda>_.
     bind_res (valuestrsize e) (\<lambda>len. bind_res (el_value e) (\<lambda>v.
     bind_res (at v 5) (\<lambda>p. Inr (len, p))))))"

definition binDataType :: "belement \<Rightarrow> (8 word) res" where
  "binDataType e =
     bind_res (el_is BinData e) (\<lambda>b. bind_res (guard b AssertFail) (\<lambda>_.
     bind_res (el_value e) (\<lambda>v. if 4 < length v then Inr (u8 (v ! 4)) else Inl OutOfBounds)))"

text \<open>Subtype 2 (\<open>ByteArrayDeprecated\<close>) repeats the length in front of the data.\<close>

definition binDataClean :: "belement \<Rightarrow> (int \<times> bytes) res" where
  "binDataClean e =
     bind_res (binDataType e) (\<lambda>t.
       if t \<noteq> 2 then binData e
       else bind_res (valuestrsize e) (\<lambda>n. bind_res (el_value e) (\<lambda>v. bind_res (at v (5 + 4)) (\<lambda>p. Inr (n - 4, p)))))"

definition regex :: "belement \<Rightarrow> bytes res" where
  "regex e = bind_res (el_is RegEx e) (\<lambda>b. bind_res (guard b AssertFail) (\<lambda>_. el_value e))"

definition regexFlags :: "belement \<Rightarrow> bytes res" where
  "regexFlags e = bind_res (regex e) (\<lambda>p. bind_res (strlen p) (\<lambda>n. at p (int n + 1)))"

text \<open>The upper half of a timestamp is seconds, the lower half a counter.\<close>

definition timestampTime :: "belement \<Rightarrow> (64 word) res" where
  "timestampTime e = bind_res (el_value e) (\<lambda>v. bind_res (rd32 (drop 4 v)) (\<lambda>t. Inr (ucast t * 1000)))"

definition timestampInc :: "belement \<Rightarrow> (32 word) res" where
  "timestampInc e = bind_res (el_value e) rd32"

definition dbrefNS :: "belement \<Rightarrow> bytes res" where
  "dbrefNS e = bind_res (el_is DBRef e) (\<lambda>b. bind_res (guard b (Uassert 10063)) (\<lambda>_.
     bind_res (el_value e) (\<lambda>v. at v 4)))"

definition dbrefOID :: "belement \<Rightarrow> bytes res" where
  "dbrefOID e = bind_res (el_is DBRef e) (\<lambda>b. bind_res (guard b (Uassert 10064)) (\<lambda>_.
     bind_res (el_value e) (\<lambda>v. bind_res (rd_int v) (\<lambda>n.
     bind_res (at v (4 + n)) (\<lambda>p. bytes_at p 12)))))"

section \<open>Numbers and truth\<close>

definition el_isNumber :: "belement \<Rightarrow> bool res" where
  "el_isNumber e = bind_res (el_type (el_data e)) (\<lambda>c.
     Inr (c \<in> {type_code NumberLong, type_code NumberDouble, type_code NumberInt}))"

definition el_isSimpleType :: "belement \<Rightarrow> bool res" where
  "el_isSimpleType e = bind_res (el_type (el_data e)) (\<lambda>c.
     Inr (c \<in> type_code ` {NumberLong, NumberDouble, NumberInt, String, Bool, Date, jstOID}))"

definition numberDouble :: "belement \<Rightarrow> (64 word) res" where
  "numberDouble e = bind_res (el_type (el_data e)) (\<lambda>c.
     if c = type_code NumberDouble then el_numberDouble e
     else if c = type_code NumberInt then bind_res (el_numberInt e) (\<lambda>n. Inr (dbl_of_int (sint n)))
     else if c = type_code NumberLong then bind_res (el_numberLong e) (\<lambda>n. Inr (dbl_of_int (sint n)))
     else Inr 0)"

definition numberInt :: "belement \<Rightarrow> int res" where
  "numberInt e = bind_res (el_type (el_data e)) (\<lambda>c.
     if c = type_code NumberDouble then bind_res (el_numberDouble e) dbl_to_int
     else if c = type_code NumberInt then bind_res (el_numberInt e) (\<lambda>n. Inr (sint n))
     else if c = type_code NumberLong then bind_res (el_numberLong e) (\<lambda>n. Inr (i32 (sint n)))
     else Inr 0)"

definition numberLong :: "belement \<Rightarrow> int res" where
  "numberLong e = bind_res (el_type (el_data e)) (\<lambda>c.
     if c = type_code NumberDouble then bind_res (el_numberDouble e) dbl_to_long
     else if c = type_code NumberInt then bind_res (el_numberInt e) (\<lambda>n. Inr (sint n))
     else if c = type_code NumberLong then bind_res (el_numberLong e) (\<lambda>n. Inr (sint n))
     else Inr 0)"

text \<open>A NaN is different from zero, so it counts as true.\<close>

definition trueValue :: "belement \<Rightarrow> bool res" where
  "trueValue e = bind_res (el_type (el_data e)) (\<lambda>c.
     if c = type_code NumberLong then bind_res (el_numberLong e) (\<lambda>n. Inr (n \<noteq> 0))
     else if c = type_code NumberDouble then bind_res (el_numberDouble e) (\<lambda>d. Inr (\<not> dbl_eq d 0))
     else if c = type_code NumberInt then bind_res (el_numberInt e) (\<lambda>n. Inr (n \<noteq> 0))
     else if c = type_code Bool then el_boolean e
     else if c \<in> {type_code EOO, type_code jstNULL, type_code Undefined} then Inr False
     else Inr True)"

text \<open>The checked accessors \<open>Date()\<close>, \<open>Int()\<close> and so on: \<open>chk\<close> throws 13111 or 13118.\<close>

definition chk :: "BSONType \<Rightarrow> (belement \<Rightarrow> 'a res) \<Rightarrow> belement \<Rightarrow> 'a res" where
  "chk t f e = bind_res (el_is t e) (\<lambda>b. bind_res (guard b (Uassert 13111)) (\<lambda>_. f e))"

definition el_Number :: "belement \<Rightarrow> (64 word) res" where
  "el_Number e = bind_res (el_isNumber e) (\<lambda>b. bind_res (guard b (Uassert 13118)) (\<lambda>_. numberDouble e))"

section \<open>Decoding\<close>

text \<open>
  Reading an object the way every client of the driver does: iterate, and read each
  element with the accessors of its type. Embedded objects are read recursively.
\<close>

definition read_scalar :: "belement \<Rightarrow> bson_value res" where
  "read_scalar e = bind_res (el_type (el_data e)) (\<lambda>c.
     case type_of_code c of
       Some MinKey \<Rightarrow> Inr VMinKey
     | Some NumberDouble \<Rightarrow> bind_res (el_numberDouble e) (\<lambda>d. Inr (VDouble d))
     | Some String \<Rightarrow> bind_res (el_str e) (\<lambda>s. Inr (VString s))
     | Some BinData \<Rightarrow> bind_res (binDataType e) (\<lambda>t. bind_res (binData e) (\<lambda>(n, p).
         bind_res (bytes_at p n) (\<lambda>d. Inr (VBinData t d))))
     | Some Undefined \<Rightarrow> Inr VUndefined
     | Some jstOID \<Rightarrow> bind_res (el_oid e) (\<lambda>d. Inr (VOID d))
     | Some Bool \<Rightarrow> bind_res (el_boolean e) (\<lambda>b. Inr (VBool b))
     | Some Date \<Rightarrow> bind_res (el_date e) (\<lambda>d. Inr (VDate d))
     | Some jstNULL \<Rightarrow> Inr VNull
     | Some RegEx \<Rightarrow> bind_res (regex e) (\<lambda>p. bind_res (cstr_at p) (\<lambda>r.
         bind_res (regexFlags e) (\<lambda>q. bind_res (cstr_at q) (\<lambda>opts. Inr (VRegEx r opts)))))
     | Some DBRef \<Rightarrow> bind_res (dbrefNS e) (\<lambda>p. bind_res (cstr_at p) (\<lambda>ns.
         bind_res (dbrefOID e) (\<lambda>d. Inr (VDBRef ns d))))
     | Some Code \<Rightarrow> bind_res (el_string e) (\<lambda>s. Inr (VCode s))
     | Some Symbol \<Rightarrow> bind_res (el_string e) (\<lambda>s. Inr (VSymbol s))
     | Some NumberInt \<Rightarrow> bind_res (el_numberInt e) (\<lambda>n. Inr (VInt n))
     | Some Timestamp \<Rightarrow> bind_res (el_date e) (\<lambda>d. Inr (VTimestamp d))
     | Some NumberLong \<Rightarrow> bind_res (el_numberLong e) (\<lambda>n. Inr (VLong n))
     | Some MaxKey \<Rightarrow> Inr VMaxKey
     | _ \<Rightarrow> Inl (Massert 10320))"

fun read_loop :: "nat \<Rightarrow> bytes \<Rightarrow> iterator \<Rightarrow> doc res option" where
  "read_loop 0 mem it = None"
| "read_loop (Suc n) mem it =
     (case bind_res (iter_more mem it) (\<lambda>m.
         if m then bind_res (iter_next mem False it) (\<lambda>(e, it').
           bind_res (el_fieldName e) (\<lambda>nm. bind_res (el_type (el_data e)) (\<lambda>t. Inr (Some (e, nm, t, it')))))
         else Inr None) of
        Inl err \<Rightarrow> Some (Inl err)
      | Inr None \<Rightarrow> Some (Inr [])
      | Inr (Some (e, nm, t, it')) \<Rightarrow>
          (case (if t = type_code Object \<or> t = type_code Array then
                   (case bind_res (embeddedObject e) (\<lambda>o'. bind_res (iter_new o') (\<lambda>i. Inr (o', i))) of
                      Inl err \<Rightarrow> Some (Inl err)
                    | Inr (o', i) \<Rightarrow> map_option (\<lambda>r. bind_res r (\<lambda>d.
                        Inr (if t = type_code Object then VObject d else VArray d))) (read_loop n o' i))
                 else if t = type_code CodeWScope then
                   (case bind_res (codeWScopeCode e) cstr_at of
                      Inl err \<Rightarrow> Some (Inl err)
                    | Inr c \<Rightarrow>
                       (case bind_res (codeWScopeObject e) (\<lambda>o'. bind_res (iter_new o') (\<lambda>i. Inr (o', i))) of
                          Inl err \<Rightarrow> Some (Inl err)
                        | Inr (o', i) \<Rightarrow> map_option (\<lambda>r. bind_res r (\<lambda>d. Inr (VCodeWScope c d))) (read_loop n o' i)))
                 else Some (read_scalar e)) of
             None \<Rightarrow> None
           | Some (Inl err) \<Rightarrow> Some (Inl err)
           | Some (Inr v) \<Rightarrow> map_option (\<lambda>r. bind_res r (\<lambda>d. Inr ((nm, v) # d))) (read_loop n mem it')))"

definition read_doc :: "nat \<Rightarrow> bytes \<Rightarrow> doc res option" where
  "read_doc fuel mem =
     (case iter_new mem of Inl err \<Rightarrow> Some (Inl err) | Inr it \<Rightarrow> read_loop fuel mem it)"

section \<open>Reading back what was encoded\<close>

text \<open>An element as the iterator returns it: the name size cached or not.\<close>

abbreviation elem_at :: "bytes \<Rightarrow> bson_value \<Rightarrow> bytes \<Rightarrow> int \<Rightarrow> belement" where
  "elem_at n v p f \<equiv> \<lparr>el_data = enc_elem (n, v) @ p, el_fns = f\<rparr>"

lemma cstr_at_terminated [simp]: "NUL \<notin> set s \<Longrightarrow> cstr_at (s @ NUL # p) = Inr s"
  by (simp add: cstr_at_def)

lemma bytes_at_append [simp]: "n = int (length d) \<Longrightarrow> bytes_at (d @ p) n = Inr d"
  by (simp add: bytes_at_def)

lemma at_append: "k = int (length d) \<Longrightarrow> at (d @ p) k = Inr p"
  by (simp add: at_def)

lemma el_is_enc [simp]: "el_is t (elem_at n v p f) = Inr (value_type v = t)"
  by (simp add: el_is_def)

lemmas accessor_defs = el_numberDouble_def el_str_def el_string_def valuestr_def valuestrsize_def
  binDataType_def binData_def el_oid_def el_boolean_def el_date_def regex_def regexFlags_def
  dbrefNS_def dbrefOID_def el_numberInt_def el_numberLong_def

lemma u8_char_of [simp]: "u8 (char_of (unat (w :: 8 word))) = w"
  using u8_chr8 [of w] by (simp add: chr8_def)

lemma read_scalar_enc:
  assumes "wf_value v" and "value_type v \<notin> {Object, Array, CodeWScope}"
    and "int (length (enc_value v)) < 2 ^ 31" and "el_value (elem_at n v p f) = Inr (enc_value v @ p)"
  shows "read_scalar (elem_at n v p f) = Inr v"
proof (cases v)
  case (VString s)
  with assms show ?thesis
    by (simp add: read_scalar_def accessor_defs at_def rd_int_le_int i32_id)
next
  case (VCode s)
  with assms show ?thesis
    by (simp add: read_scalar_def accessor_defs at_def rd_int_le_int i32_id)
next
  case (VSymbol s)
  with assms show ?thesis
    by (simp add: read_scalar_def accessor_defs at_def rd_int_le_int i32_id)
next
  case (VBinData t d)
  with assms show ?thesis
    by (simp add: read_scalar_def accessor_defs at_def rd_int_le_int i32_id nth_append)
next
  case (VRegEx r opts)
  with assms show ?thesis
    by (simp add: read_scalar_def accessor_defs at_def nat_add_distrib)
next
  case (VDBRef ns d)
  with assms show ?thesis
    by (simp add: read_scalar_def accessor_defs at_def rd_int_le_int i32_id nat_add_distrib)
qed (use assms in \<open>simp_all add: read_scalar_def accessor_defs\<close>)

lemma iter_more_enc:
  assumes "it_pos it = int (length pre)" and "it_pos it < it_end it"
  shows "iter_more (pre @ enc_elem (n, v) @ post) it = Inr True"
    and "iter_more (pre @ NUL # post) it = Inr False"
  using assms by (simp_all add: iter_more_def at_def) (simp add: el_type_def schar_def)

lemma read_loop_enc:
  assumes "wf_doc d" and "length (enc_elems d) < fuel"
    and "int (length pre) = it_pos it" and "it_end it = it_pos it + int (length (enc_elems d)) + 1"
    and "int (length (enc_elems d)) + 5 \<le> BSONObjMaxInternalSize"
  shows "read_loop fuel (pre @ enc_elems d @ NUL # post) it = Some (Inr d)"
  using assms
proof (induction fuel arbitrary: d pre post it)
  case (Suc fuel)
  show ?case
  proof (cases d)
    case Nil
    with Suc.prems show ?thesis by (simp add: iter_more_enc)
  next
    case (Cons e d')
    obtain n v where e: "e = (n, v)" by (cases e)
    have wf: "wf_elem (n, v)" "wf_doc d'" and w: "NUL \<notin> set n" "wf_value v"
      using Suc.prems(1) Cons e by auto
    have len: "length (enc_elems d) = length (enc_elem (n, v)) + length (enc_elems d')" using Cons e by simp
    let ?post = "enc_elems d' @ NUL # post" and ?it = "it\<lparr>it_pos := int (length (pre @ enc_elem (n, v)))\<rparr>"
    have mo: "iter_more (pre @ enc_elem (n, v) @ ?post) it = Inr True"
      by (rule iter_more_enc) (use Suc.prems(3,4) in auto)
    obtain f where nx: "iter_next (pre @ enc_elem (n, v) @ ?post) False it = Inr (elem_at n v ?post f, ?it)"
        and f: "f = - 1 \<or> f = int (length n) + 1"
      using iter_next_enc [OF wf(1), of it pre "?post" False] Suc.prems(3-5) len by auto
    have val: "el_value (elem_at n v ?post f) = Inr (enc_value v @ ?post)"
      by (rule el_value_enc [OF w(1) f])
    have nm: "el_fieldName (elem_at n v ?post f) = Inr n" by (rule el_fieldName_enc [OF w(1)])
    have rest: "read_loop fuel (pre @ enc_elem (n, v) @ ?post) ?it = Some (Inr d')"
      using Suc.IH [of d' "pre @ enc_elem (n, v)" ?it post] Suc.prems len wf(2) by (simp add: length_enc_elem)
    have sub: "read_loop fuel (enc_doc es @ q) \<lparr>it_pos = 4, it_end = int (length (enc_doc es))\<rparr> = Some (Inr es)"
      if "wf_doc es" and "length (enc_doc es) \<le> length (enc_value v)" for es q
      unfolding enc_doc_split using that Suc.prems(2,5) len
      by (intro Suc.IH) (auto simp: length_enc_elem)
    have mem: "pre @ enc_elems d @ NUL # post = pre @ enc_elem (n, v) @ ?post" using Cons e by simp
    have small: "int (length (enc_doc es)) \<le> BSONObjMaxInternalSize" if "length (enc_doc es) \<le> length (enc_value v)" for es
      using that Suc.prems(5) len by (simp add: length_enc_elem)
    have step: "read_loop (Suc fuel) (pre @ enc_elem (n, v) @ ?post) it = Some (Inr ((n, v) # d'))"
    proof (cases "value_type v \<in> {Object, Array, CodeWScope}")
      case True
      then consider es where "v = VObject es" | es where "v = VArray es" | c es where "v = VCodeWScope c es"
        by (cases v) auto
      then show ?thesis
      proof cases
        case (1 es)
        then show ?thesis
          using mo nx nm val rest w(2) sub [of es ?post] small [of es]
          by (simp add: embeddedObject_def isABSONObj_def bsonobj_init_enc iter_new_enc)
      next
        case (2 es)
        then show ?thesis
          using mo nx nm val rest w(2) sub [of es ?post] small [of es]
          by (simp add: embeddedObject_def isABSONObj_def bsonobj_init_enc iter_new_enc)
      next
        case (3 c es)
        let ?q = "enc_doc es @ ?post" and ?n = "int (length c) + 1"
        have sm: "int (length (enc_doc es)) + int (length c) + 9 < 2 ^ 31"
          using Suc.prems(5) len 3 by (simp add: length_enc_elem)
        have "rd_int (drop 4 (enc_value v @ ?post)) = Inr ?n"
          using sm 3 by (simp add: rd_int_le_int i32_id)
        moreover have "at (enc_value v @ ?post) (4 + 4 + ?n) = Inr ?q"
          using 3 by (simp add: at_def nat_add_distrib)
        moreover have "at (enc_value v @ ?post) 8 = Inr (c @ NUL # ?q)"
          using 3 by (simp add: at_def)
        ultimately show ?thesis
          using 3 mo nx nm val rest w(2) sub [of es ?post] small [of es]
          by (simp add: codeWScopeCode_def codeWScopeObject_def bsonobj_init_enc iter_new_enc)
      qed
    next
      case False
      then have "read_scalar (elem_at n v ?post f) = Inr v"
        by (intro read_scalar_enc [OF w(2) _ _ val]) (use Suc.prems(5) len in \<open>auto simp: length_enc_elem\<close>)
      then show ?thesis using False mo nx nm rest by simp
    qed
    then show ?thesis unfolding mem using Cons e by simp
  qed
qed simp

lemma valid_enc:
  assumes "wf_doc d" and "int (length (enc_doc d)) \<le> BSONObjMaxInternalSize" and "length (enc_doc d) \<le> fuel"
  shows "valid fuel (enc_doc d) = Some (Inr True)"
  using valid_loop_enc [OF assms(1), of fuel "le_int (int (length (enc_elems d)) + 5)"
      "\<lparr>it_pos = 4, it_end = int (length (enc_doc d))\<rparr>" "[]"] iter_new_enc [of d "[]"] assms(2,3)
  by (simp add: valid_def enc_doc_def)

lemma read_doc_enc:
  assumes "wf_doc d" and "int (length (enc_doc d)) \<le> BSONObjMaxInternalSize" and "length (enc_doc d) \<le> fuel"
  shows "read_doc fuel (enc_doc d) = Some (Inr d)"
  using read_loop_enc [OF assms(1), of fuel "le_int (int (length (enc_elems d)) + 5)"
      "\<lparr>it_pos = 4, it_end = int (length (enc_doc d))\<rparr>" "[]"] iter_new_enc [of d "[]"] assms(2,3)
  by (simp add: read_doc_def enc_doc_def)

section \<open>Properties\<close>

text \<open>
  C7: Every document within the size limit, built with \<open>BSONObjBuilder\<close>, is accepted by
  \<open>BSONObj::valid\<close>, whose loop ends: as many steps as the object has bytes are enough.
\<close>

theorem built_is_valid:
  assumes "wf_doc d" and "int (length (enc_doc d)) \<le> BSONObjMaxInternalSize" and "length (enc_doc d) \<le> fuel"
  shows "\<exists>bs. build_doc d = Inr bs \<and> bsonobj_init bs = Inr bs \<and> valid fuel bs = Some (Inr True)"
  using assms(2) valid_enc [OF assms] bsonobj_init_enc [of d "[]"] by (auto simp: build_doc_run)

theorem built_is_valid_witness:
  "\<exists>bs. build_doc [(''n'', VInt 7), (''sub'', VObject [(''s'', VString ''hi''), (''b'', VBinData 0 ''xy'')])] = Inr bs \<and>
     bsonobj_init bs = Inr bs \<and> valid 64 bs = Some (Inr True)"
  using built_is_valid [of "[(''n'', VInt 7), (''sub'', VObject [(''s'', VString ''hi''), (''b'', VBinData 0 ''xy'')])]" 64]
  by (simp add: length_enc_elem)

text \<open>
  C1: Decoding what the builder wrote gives the document back: every field, in order, with
  its name, its type and its value, through all levels of embedded objects.
\<close>

theorem build_read_roundtrip:
  assumes "wf_doc d" and "int (length (enc_doc d)) \<le> BSONObjMaxInternalSize" and "length (enc_doc d) \<le> fuel"
  shows "\<exists>bs. build_doc d = Inr bs \<and> read_doc fuel bs = Some (Inr d)"
  using assms(2) read_doc_enc [OF assms] by (auto simp: build_doc_run)

theorem build_read_roundtrip_witness:
  "\<exists>bs. build_doc [(''r'', VRegEx ''^a'' ''i''), (''c'', VCodeWScope ''f()'' [(''x'', VBool True)])] = Inr bs \<and>
     read_doc 64 bs = Some (Inr [(''r'', VRegEx ''^a'' ''i''), (''c'', VCodeWScope ''f()'' [(''x'', VBool True)])])"
  using build_read_roundtrip [of "[(''r'', VRegEx ''^a'' ''i''), (''c'', VCodeWScope ''f()'' [(''x'', VBool True)])]" 64]
  by (simp add: length_enc_elem)

definition stuck_object :: bytes where
  "stuck_object = le_int 13 @ [type_byte BinData, CHR ''a'', NUL] @ le_int (- 8) @ [NUL, NUL]"

lemma stuck_loop:
  "valid_loop fuel stuck_object \<lparr>it_pos = 4, it_end = 13\<rparr> = None"
proof (induction fuel)
  case (Suc fuel)
  let ?p = "type_byte BinData # CHR ''a'' # NUL # le_int (- 8) @ [NUL, NUL]"
  have "el_new ?p 9 = Inr \<lparr>el_data = ?p, el_fns = 2\<rparr>"
    by (simp add: el_new_def el_eoo_def el_type_def eval_nat_numeral)
  moreover have "el_size \<lparr>el_data = ?p, el_fns = 2\<rparr> 9 = Inr 0"
    by (simp add: el_size_def el_fieldNameSize_def el_type_def value_size_def rd_int_le_int i32_id)
  ultimately have "iter_next stuck_object True \<lparr>it_pos = 4, it_end = 13\<rparr> =
      Inr (\<lparr>el_data = ?p, el_fns = 2\<rparr>, \<lparr>it_pos = 4, it_end = 13\<rparr>)"
    by (simp add: iter_next_def stuck_object_def at_def)
  then show ?case
    using Suc by (simp add: moreWithEOO_def el_value_def el_fieldNameSize_def el_validate_def el_type_def validate_value_def)
qed simp

text \<open>
  C39: \<open>BSONObj::valid\<close> never returns on an object of 13 bytes whose only field is binary
  data of length -8: the element's computed size is zero, so the iterator does not move,
  and neither \<open>size\<close> nor \<open>validate\<close> objects to the length.
\<close>

theorem valid_hangs_on_negative_length: "valid fuel stuck_object = None"
proof -
  have "iter_new stuck_object = Inr \<lparr>it_pos = 4, it_end = 13\<rparr>"
    by (simp add: iter_new_def stuck_object_def rd_int_le_int i32_id)
  then show ?thesis by (simp add: valid_def stuck_loop)
qed

definition overlong_object :: bytes where
  "overlong_object = le_int 13 @ [type_byte String, CHR ''a'', NUL] @ le_int 1000 @ [NUL, NUL]"

text \<open>
  \<open>BSONObj::valid\<close> reads outside the object when a string's length field points past
  its end: \<open>validate\<close> looks for the terminator at that length before anything has been
  compared with the object's size.
\<close>

theorem valid_reads_out_of_bounds:
  "length overlong_object = 13 \<and> valid (Suc fuel) overlong_object = Some (Inl OutOfBounds)"
proof -
  let ?p = "type_byte String # CHR ''a'' # NUL # le_int 1000 @ [NUL, NUL]"
  have it: "iter_new overlong_object = Inr \<lparr>it_pos = 4, it_end = 13\<rparr>"
    by (simp add: iter_new_def overlong_object_def rd_int_le_int i32_id)
  have "el_new ?p 9 = Inr \<lparr>el_data = ?p, el_fns = 2\<rparr>"
    by (simp add: el_new_def el_eoo_def el_type_def eval_nat_numeral)
  moreover have "el_size \<lparr>el_data = ?p, el_fns = 2\<rparr> 9 = Inr 1007"
    by (simp add: el_size_def el_fieldNameSize_def el_type_def value_size_def rd_int_le_int i32_id)
  ultimately have "iter_next overlong_object True \<lparr>it_pos = 4, it_end = 13\<rparr> =
      Inr (\<lparr>el_data = ?p, el_fns = 2\<rparr>, \<lparr>it_pos = 1011, it_end = 13\<rparr>)"
    by (simp add: iter_next_def overlong_object_def at_def)
  moreover have "el_validate \<lparr>el_data = ?p, el_fns = 2\<rparr> = Inl OutOfBounds"
    using unat_word_of_int32 [of 1000]
    by (simp add: el_validate_def el_type_def el_value_def el_fieldNameSize_def validate_value_def le_int_def)
  ultimately show ?thesis
    using it by (simp add: valid_def moreWithEOO_def caught_def) (simp add: overlong_object_def)
qed

end
