(* ===== verification/Wire.thy ===== *)
theory Wire
  imports BsonAccess
begin

text \<open>
  The wire protocol: \<open>Message\<close> and \<open>MsgData\<close> (util/message.h), the connection to a server
  with its piggy-back buffer (\<open>MessagingPort\<close>, \<open>PiggyBackData\<close> of util/message.cpp), the
  reader of requests and the writer of replies (db/dbmessage.h). The network is part of a
  port's state: the bytes that will arrive, the bytes that were sent, and whether sending
  works.
\<close>

section \<open>Messages\<close>

datatype operation = opReply | dbMsg | dbUpdate | dbInsert | dbQuery | dbGetMore | dbDelete | dbKillCursors

fun op_code :: "operation \<Rightarrow> int" where
  "op_code opReply = 1" | "op_code dbMsg = 1000" | "op_code dbUpdate = 2001" | "op_code dbInsert = 2002"
| "op_code dbQuery = 2004" | "op_code dbGetMore = 2005" | "op_code dbDelete = 2006" | "op_code dbKillCursors = 2007"

definition all_ops :: "operation list" where
  "all_ops = [opReply, dbMsg, dbUpdate, dbInsert, dbQuery, dbGetMore, dbDelete, dbKillCursors]"

definition op_of_code :: "int \<Rightarrow> operation option" where
  "op_of_code c = find (\<lambda>o'. op_code o' = c) all_ops"

definition opToString :: "int \<Rightarrow> bytes res" where
  "opToString op =
     (if op = 0 then Inr ''none''
      else case op_of_code op of
        Some opReply \<Rightarrow> Inr ''reply'' | Some dbMsg \<Rightarrow> Inr ''msg'' | Some dbUpdate \<Rightarrow> Inr ''update''
      | Some dbInsert \<Rightarrow> Inr ''insert'' | Some dbQuery \<Rightarrow> Inr ''query'' | Some dbGetMore \<Rightarrow> Inr ''getmore''
      | Some dbDelete \<Rightarrow> Inr ''remove'' | Some dbKillCursors \<Rightarrow> Inr ''killcursors'' | None \<Rightarrow> Inl AssertFail)"

definition opIsWrite :: "int \<Rightarrow> bool res" where
  "opIsWrite op =
     (if op = 0 then Inr False
      else case op_of_code op of
        Some opReply \<Rightarrow> Inr False | Some dbMsg \<Rightarrow> Inr False | Some dbQuery \<Rightarrow> Inr False
      | Some dbGetMore \<Rightarrow> Inr False | Some dbKillCursors \<Rightarrow> Inr False
      | Some dbUpdate \<Rightarrow> Inr False | Some dbInsert \<Rightarrow> Inr False | Some dbDelete \<Rightarrow> Inr False
      | None \<Rightarrow> Inl AssertFail)"

definition doesOpGetAResponse :: "int \<Rightarrow> bool" where
  "doesOpGetAResponse op \<longleftrightarrow> op = op_code dbQuery \<or> op = op_code dbGetMore"

text \<open>
  A message in one buffer. \<open>setData\<close> allocates the header and fills in the length and the
  operation; the two ids are indeterminate (\<open>None\<close>) until \<open>say\<close> or \<open>piggyBack\<close> writes them.
\<close>

record message =
  m_len :: int
  m_id :: "32 word option"
  m_responseTo :: "32 word option"
  m_operation :: int
  m_data :: bytes

definition MsgDataHeaderSize :: int where "MsgDataHeaderSize = 16"

definition set_data :: "operation \<Rightarrow> bytes \<Rightarrow> message" where
  "set_data operation data =
     \<lparr>m_len = i32 (int (length data) + MsgDataHeaderSize), m_id = None, m_responseTo = None,
      m_operation = op_code operation, m_data = data\<rparr>"

definition dataLen :: "message \<Rightarrow> int" where
  "dataLen m = m_len m - MsgDataHeaderSize"

definition msg_valid :: "message \<Rightarrow> bool" where
  "msg_valid m \<longleftrightarrow> \<not> (m_len m \<le> 0 \<or> m_len m > 4 * BSONObjMaxInternalSize) \<and>
     \<not> (m_operation m < 0 \<or> m_operation m > 30000)"

definition getCursor :: "message \<Rightarrow> (64 word) res" where
  "getCursor m =
     bind_res (case m_responseTo m of Some r \<Rightarrow> guard (r > 0) AssertFail | None \<Rightarrow> Inl UB) (\<lambda>_.
     bind_res (guard (m_operation m = op_code opReply) AssertFail) (\<lambda>_. rd64 (drop 4 (m_data m))))"

text \<open>The buffer as it is sent: 16-bit operation, two zero bytes for flags and version.\<close>

definition msg_bytes :: "message \<Rightarrow> bytes res" where
  "msg_bytes m =
     (case (m_id m, m_responseTo m) of
        (Some i, Some r) \<Rightarrow>
          Inr (le_int (m_len m) @ le32 i @ le32 r @ take 2 (le_int (m_operation m)) @ [NUL, NUL] @ m_data m)
      | _ \<Rightarrow> Inl UB)"

text \<open>A request body assembled in a \<open>BufBuilder\<close>: \<open>setData(op, b.buf(), b.len())\<close>.\<close>

definition build_message :: "operation \<Rightarrow> (bufbuilder \<Rightarrow> bufbuilder res) list \<Rightarrow> message res" where
  "build_message operation fs =
     bind_res (seq_res fs (buf_new 512)) (\<lambda>b.
       if None \<in> set (contents b) then Inl UB else Inr (set_data operation (map the (contents b))))"

definition appendSelf :: "bytes \<Rightarrow> bufbuilder \<Rightarrow> bufbuilder res" where
  "appendSelf o' b =
     bind_res (rd_int o') (\<lambda>n. bind_res (guard (n \<noteq> 0) AssertFail) (\<lambda>_.
     bind_res (bytes_at o' n) (\<lambda>xs. appendBuf xs b)))"

section \<open>A port\<close>

record port =
  p_in :: bytes
  p_out :: bytes
  p_up :: bool
  p_next_id :: "32 word"
  p_piggy :: "bytes option"

definition port_send :: "bytes \<Rightarrow> (port, unit) act" where
  "port_send data p = (if p_up p then (Inr (), p\<lparr>p_out := p_out p @ data\<rparr>) else (Inl SocketExn, p))"

text \<open>
  \<open>recv(buf, len)\<close>: all of it, or a \<open>SocketException\<close> when the other side closes first.
\<close>

definition port_recv_bytes :: "nat \<Rightarrow> (port, bytes) act" where
  "port_recv_bytes n p =
     (if n \<le> length (p_in p) then (Inr (take n (p_in p)), p\<lparr>p_in := drop n (p_in p)\<rparr>)
      else (Inl SocketExn, p\<lparr>p_in := []\<rparr>))"

definition nextMessageId :: "port \<Rightarrow> 32 word \<times> port" where
  "nextMessageId p = (p_next_id p, p\<lparr>p_next_id := p_next_id p + 1\<rparr>)"

definition piggy_len :: "port \<Rightarrow> int" where
  "piggy_len p = (case p_piggy p of Some b \<Rightarrow> int (length b) | None \<Rightarrow> 0)"

text \<open>\<open>PiggyBackData\<close>: 1300 bytes; \<open>flush\<close> sends them, and resets only when that did not throw.\<close>

definition piggy_flush :: "(port, unit) act" where
  "piggy_flush p =
     (case p_piggy p of
        None \<Rightarrow> (Inl UB, p)
      | Some b \<Rightarrow> if b = [] then (Inr (), p)
                  else bind_act (port_send b) (\<lambda>_ p. (Inr (), p\<lparr>p_piggy := Some []\<rparr>)) p)"

definition piggy_append :: "message \<Rightarrow> (port, unit) act" where
  "piggy_append m =
     bind_act (lift_act (guard (m_len m \<le> 1300) AssertFail)) (\<lambda>_.
     bind_act (\<lambda>p. if piggy_len p + m_len m > 1300 then piggy_flush p else (Inr (), p)) (\<lambda>_.
     bind_act (lift_act (msg_bytes m)) (\<lambda>bs p.
       case p_piggy p of
         None \<Rightarrow> (Inl UB, p)
       | Some b \<Rightarrow> if length b + length bs \<le> 1300 then (Inr (), p\<lparr>p_piggy := Some (b @ bs)\<rparr>)
                   else (Inl OutOfBounds, p))))"

text \<open>\<open>say\<close>: stamps the message, puts it behind what is waiting, or sends both.\<close>

definition stamp :: "message \<Rightarrow> 32 word \<Rightarrow> 32 word \<Rightarrow> message" where
  "stamp m i responseTo = m\<lparr>m_id := Some i, m_responseTo := Some responseTo\<rparr>"

definition send_message :: "message \<Rightarrow> (port, unit) act" where
  "send_message m = bind_act (lift_act (msg_bytes m)) port_send"

definition port_say :: "message \<Rightarrow> 32 word \<Rightarrow> (port, message) act" where
  "port_say toSend responseTo p =
     (let (i, p) = nextMessageId p; m = stamp toSend i responseTo
      in bind_act (\<lambda>p.
           if p_piggy p \<noteq> None \<and> piggy_len p \<noteq> 0 then
             if piggy_len p + m_len m > 1300 then bind_act piggy_flush (\<lambda>_. send_message m) p
             else bind_act (piggy_append m) (\<lambda>_. piggy_flush) p
           else send_message m p) (\<lambda>_ p. (Inr m, p)) p)"

definition port_piggyBack :: "message \<Rightarrow> 32 word \<Rightarrow> (port, unit) act" where
  "port_piggyBack toSend responseTo p =
     (if m_len toSend > 1300 then bind_act (port_say toSend (- 1)) (\<lambda>_ p. (Inr (), p)) p
      else let (i, p) = nextMessageId p;
               p = (if p_piggy p = None then p\<lparr>p_piggy := Some []\<rparr> else p)
           in piggy_append (stamp toSend i responseTo) p)"

text \<open>
  \<open>recv(Message&)\<close>: the length, then the rest. A length of -1 is an endianness probe that
  is answered before waiting again; the text \<open>GET \<close> is answered with an HTTP page. A
  \<open>SocketException\<close> is caught: no message (\<open>None\<close>), with what had arrived consumed.
\<close>

definition http_page :: bytes where
  "http_page = ''You are trying to access MongoDB on the native driver port. '' @
     ''For http diagnostic access, add 1000 to the port number'' @ [CHR 0x0A]"

definition crlf :: bytes where "crlf = [CHR 0x0D, CHR 0x0A]"

definition http_reply :: bytes where
  "http_reply = ''HTTP/1.0 200 OK'' @ crlf @ ''Connection: close'' @ crlf @ ''Content-Type: text/plain'' @ crlf @
     ''Content-Length: '' @ show_nat (length http_page) @ crlf @ crlf @ http_page"

function port_recv_msg :: "port \<Rightarrow> message option \<times> port" where
  "port_recv_msg p =
     (case port_recv_bytes 4 p of
        (Inl _, p1) \<Rightarrow> (None, p1)
      | (Inr lenbuf, p1) \<Rightarrow>
         (case rd_int lenbuf of
            Inl _ \<Rightarrow> (None, p1)
          | Inr len \<Rightarrow>
             if len < 16 \<or> len > 48000000 then
               if len = - 1 then
                 (case port_send (le32 0x10203040) p1 of (Inl _, p2) \<Rightarrow> (None, p2) | (Inr _, p2) \<Rightarrow> port_recv_msg p2)
               else if len = 542393671 then (None, snd (port_send http_reply p1))
               else (None, p1)
             else
               (case port_recv_bytes (nat (len - 4)) p1 of
                  (Inl _, p2) \<Rightarrow> (None, p2)
                | (Inr rest, p2) \<Rightarrow>
                   (case (rd32 rest, rd32 (drop 4 rest), rd_int (drop 8 rest)) of
                      (Inr i, Inr r, Inr w) \<Rightarrow>
                        (Some \<lparr>m_len = len, m_id = Some i, m_responseTo = Some r,
                               m_operation = signed_take_bit 15 w, m_data = drop 12 rest\<rparr>, p2)
                    | _ \<Rightarrow> (None, p2)))))"
  by pat_completeness auto
termination
  by (relation "measure (\<lambda>p. length (p_in p))")
     (auto simp: port_recv_bytes_def port_send_def split: if_splits)

declare port_recv_msg.simps [simp del]

text \<open>\<open>recv(toSend, response)\<close>: the answer must be to the message that was sent.\<close>

definition port_recv_reply :: "message \<Rightarrow> (port, message option) act" where
  "port_recv_reply toSend p =
     (case port_recv_msg p of
        (None, p) \<Rightarrow> (Inr None, p)
      | (Some m, p) \<Rightarrow> if m_responseTo m = m_id toSend then (Inr (Some m), p) else (Inl AssertFail, p))"

definition port_call :: "message \<Rightarrow> (port, message option) act" where
  "port_call toSend = bind_act (port_say toSend (- 1)) port_recv_reply"

section \<open>Reading a request (DbMessage)\<close>

text \<open>
  Positions are offsets into the message's data: 0 is the reserved field, 4 the namespace
  (\<open>data\<close>); \<open>None\<close> is the null pointer \<open>nextjsobj\<close> gets at the end.
\<close>

record dbmessage =
  dm_mem :: bytes
  dm_theEnd :: int
  dm_next :: "int option"
  dm_mark :: "int option"

definition dbmessage_new :: "message \<Rightarrow> dbmessage" where
  "dbmessage_new m = \<lparr>dm_mem = m_data m, dm_theEnd = dataLen m, dm_next = Some 4, dm_mark = None\<rparr>"

definition dm_getns :: "dbmessage \<Rightarrow> bytes res" where
  "dm_getns d = bind_res (at (dm_mem d) 4) cstr_at"

definition dm_reservedField :: "dbmessage \<Rightarrow> int res" where
  "dm_reservedField d = rd_int (dm_mem d)"

text \<open>Step over the namespace if nothing was pulled yet.\<close>

definition dm_skip_ns :: "dbmessage \<Rightarrow> int res" where
  "dm_skip_ns d =
     (case dm_next d of
        None \<Rightarrow> Inl UB
      | Some n \<Rightarrow> if n = 4 then bind_res (at (dm_mem d) 4) (\<lambda>p. bind_res (strlen p) (\<lambda>k. Inr (n + int k + 1))) else Inr n)"

definition dm_pullInt :: "dbmessage \<Rightarrow> (int \<times> dbmessage) res" where
  "dm_pullInt d =
     bind_res (dm_skip_ns d) (\<lambda>n. bind_res (at (dm_mem d) n) (\<lambda>p. bind_res (rd_int p) (\<lambda>i.
       Inr (i, d\<lparr>dm_next := Some (n + 4)\<rparr>))))"

definition dm_pullInt64 :: "dbmessage \<Rightarrow> (64 word \<times> dbmessage) res" where
  "dm_pullInt64 d =
     bind_res (dm_skip_ns d) (\<lambda>n. bind_res (at (dm_mem d) n) (\<lambda>p. bind_res (rd64 p) (\<lambda>i.
       Inr (i, d\<lparr>dm_next := Some (n + 8)\<rparr>))))"

definition dm_moreJSObjs :: "dbmessage \<Rightarrow> bool" where
  "dm_moreJSObjs d \<longleftrightarrow> dm_next d \<noteq> None"

definition dm_markSet :: "dbmessage \<Rightarrow> dbmessage" where
  "dm_markSet d = d\<lparr>dm_mark := dm_next d\<rparr>"

definition dm_markReset :: "dbmessage \<Rightarrow> dbmessage res" where
  "dm_markReset d = (if dm_mark d = None then Inl AssertFail else Inr (d\<lparr>dm_next := dm_mark d\<rparr>))"

definition dm_resetPull :: "dbmessage \<Rightarrow> dbmessage" where
  "dm_resetPull d = d\<lparr>dm_next := Some 4\<rparr>"

text \<open>
  \<open>nextJsObj\<close>: an object whose size field is compared with the distance from \<open>data\<close>, not
  from the object, to the end. \<open>check\<close> stands for \<open>objcheck\<close> with the result of \<open>valid()\<close>.
\<close>

definition dm_nextJsObj :: "(bytes \<Rightarrow> bool res) option \<Rightarrow> dbmessage \<Rightarrow> (bytes \<times> dbmessage) res" where
  "dm_nextJsObj check d =
     bind_res (dm_skip_ns d) (\<lambda>n.
     bind_res (guard (dm_next d \<noteq> Some 4 \<or> dm_theEnd d > n) (Massert 13066)) (\<lambda>_.
     bind_res (guard (dm_theEnd d - n > 3) (Massert 10304)) (\<lambda>_.
     bind_res (at (dm_mem d) n) (\<lambda>p.
     bind_res (bsonobj_init p) (\<lambda>js.
     bind_res (rd_int js) (\<lambda>sz.
     bind_res (guard (sz > 3) (Massert 10305)) (\<lambda>_.
     bind_res (guard (sz < dm_theEnd d - 4) (Massert 10306)) (\<lambda>_.
     bind_res (case check of None \<Rightarrow> Inr True | Some f \<Rightarrow> f js) (\<lambda>ok.
     bind_res (guard ok (Massert 10307)) (\<lambda>_.
       Inr (js, d\<lparr>dm_next := (if n + sz \<ge> dm_theEnd d then None else Some (n + sz))\<rparr>)))))))))))"

record query_message =
  qm_ns :: bytes
  qm_ntoskip :: int
  qm_ntoreturn :: int
  qm_options :: int
  qm_query :: bytes
  qm_fields :: "bytes option"

definition query_message_new :: "(bytes \<Rightarrow> bool res) option \<Rightarrow> dbmessage \<Rightarrow> query_message res" where
  "query_message_new check d =
     bind_res (dm_getns d) (\<lambda>ns.
     bind_res (dm_pullInt d) (\<lambda>(skip, d).
     bind_res (dm_pullInt d) (\<lambda>(ret, d).
     bind_res (dm_nextJsObj check d) (\<lambda>(q, d).
     bind_res (if dm_moreJSObjs d then bind_res (dm_nextJsObj check d) (\<lambda>(f, d). Inr (Some f)) else Inr None) (\<lambda>flds.
     bind_res (dm_reservedField d) (\<lambda>opts.
       Inr \<lparr>qm_ns = ns, qm_ntoskip = skip, qm_ntoreturn = ret, qm_options = opts, qm_query = q, qm_fields = flds\<rparr>))))))"

section \<open>Writing a reply\<close>

text \<open>\<open>replyToQuery\<close>: the \<open>QueryResult\<close> header over 20 bytes of data, then the objects.\<close>

definition reply_data :: "int \<Rightarrow> 64 word \<Rightarrow> int \<Rightarrow> int \<Rightarrow> bytes \<Rightarrow> bytes" where
  "reply_data flags cursorId startingFrom nReturned data =
     le_int flags @ le64 cursorId @ le_int startingFrom @ le_int nReturned @ data"

definition replyToQuery :: "int \<Rightarrow> message \<Rightarrow> bytes \<Rightarrow> int \<Rightarrow> int \<Rightarrow> 64 word \<Rightarrow> (port, unit) act" where
  "replyToQuery flags request data nReturned startingFrom cursorId p =
     (case m_id request of
        None \<Rightarrow> (Inl UB, p)
      | Some i \<Rightarrow>
          bind_act (port_say (set_data opReply (reply_data flags cursorId startingFrom nReturned data)) i)
            (\<lambda>_ p. (Inr (), p)) p)"

text \<open>The fields of a reply as the client reads them (\<open>QueryResult\<close>).\<close>

record query_result =
  qr_flags :: int
  qr_cursorId :: "64 word"
  qr_startingFrom :: int
  qr_nReturned :: int
  qr_data :: bytes

definition read_query_result :: "message \<Rightarrow> query_result res" where
  "read_query_result m =
     (let d = m_data m in
      bind_res (rd_int d) (\<lambda>fl. bind_res (rd64 (drop 4 d)) (\<lambda>c. bind_res (rd_int (drop 12 d)) (\<lambda>s.
      bind_res (rd_int (drop 16 d)) (\<lambda>n.
        Inr \<lparr>qr_flags = fl, qr_cursorId = c, qr_startingFrom = s, qr_nReturned = n, qr_data = drop 20 d\<rparr>)))))"

section \<open>What is sent arrives\<close>

text \<open>
  The contract of a message channel: receiving takes exactly the encoding of one message
  off the front of the input. \<open>recv_times\<close> receives until \<open>n\<close> messages have come, or one
  fails to.
\<close>

fun recv_times :: "('s \<Rightarrow> 'm option \<times> 's) \<Rightarrow> nat \<Rightarrow> 's \<Rightarrow> 'm list \<times> 's" where
  "recv_times rcv 0 s = ([], s)"
| "recv_times rcv (Suc n) s =
     (case rcv s of (None, s) \<Rightarrow> ([], s) | (Some m, s) \<Rightarrow> (case recv_times rcv n s of (ms, s) \<Rightarrow> (m # ms, s)))"

locale channel =
  fixes ok :: "'m \<Rightarrow> bool" and enc :: "'m \<Rightarrow> bytes" and rcv :: "'s \<Rightarrow> 'm option \<times> 's"
    and inp :: "'s \<Rightarrow> bytes" and set_inp :: "bytes \<Rightarrow> 's \<Rightarrow> 's"
  assumes rcv_one: "ok m \<Longrightarrow> inp s = enc m @ rest \<Longrightarrow> rcv s = (Some m, set_inp rest s)"
    and inp_set [simp]: "inp (set_inp x s) = x"
    and set_set [simp]: "set_inp y (set_inp x s) = set_inp y s"
    and set_same: "set_inp (inp s) s = s"
begin

lemma rcv_all:
  "list_all ok ms \<Longrightarrow> inp s = concat (map enc ms) @ rest \<Longrightarrow>
   recv_times rcv (length ms) s = (ms, set_inp rest s)"
proof (induction ms arbitrary: s)
  case Nil
  then show ?case using set_same [of s] by simp
next
  case (Cons m ms)
  then show ?case using rcv_one [of m s "concat (map enc ms) @ rest"] by simp
qed

end

text \<open>A message whose length field is right, within the limit of \<open>recv\<close>, with both ids written.\<close>

definition sendable :: "message \<Rightarrow> bool" where
  "sendable m \<longleftrightarrow> m_len m = int (length (m_data m)) + 16 \<and> m_len m \<le> 48000000 \<and>
     0 \<le> m_operation m \<and> m_operation m < 32768"

definition wire_bytes :: "message \<Rightarrow> bytes" where
  "wire_bytes m = (case msg_bytes m of Inr bs \<Rightarrow> bs | Inl _ \<Rightarrow> [])"

definition stamped_ok :: "message \<Rightarrow> bool" where
  "stamped_ok m \<longleftrightarrow> sendable m \<and> m_id m \<noteq> None \<and> m_responseTo m \<noteq> None"

lemma le_bytes_4:
  "le_bytes 4 n = [char_of n, char_of (n div 256), char_of (n div 256 div 256), char_of (n div 256 div 256 div 256)]"
proof -
  have four: "4 = Suc (Suc (Suc (Suc 0)))" by simp
  show ?thesis unfolding four le_bytes.simps ..
qed

lemma op_bytes:
  assumes "0 \<le> w" and "w < 32768"
  shows "take 2 (le_int w) @ [NUL, NUL] = le_int w" "i32 w = w" "signed_take_bit 15 w = w"
proof -
  have k: "unat (word_of_int w :: 32 word) = nat w"
    using assms unat_word_of_int32 [of "nat w"] by simp
  have "nat w div 256 div 256 = 0" using assms by (simp add: div_mult2_eq [symmetric])
  then show "take 2 (le_int w) @ [NUL, NUL] = le_int w"
    unfolding le_int_def le32_def k le_bytes_4 by (simp add: char_of_def)
  show "i32 w = w" using assms by (intro i32_id) auto
  show "signed_take_bit 15 w = w" using assms by (intro signed_take_bit_int_eq_self) auto
qed

lemma msg_bytes_stamped:
  assumes "stamped_ok m"
  shows "\<exists>i r. m_id m = Some i \<and> m_responseTo m = Some r \<and>
    msg_bytes m = Inr (le_int (m_len m) @ le32 i @ le32 r @ le_int (m_operation m) @ m_data m)"
  using assms op_bytes(1) [of "m_operation m"] by (auto simp: stamped_ok_def sendable_def msg_bytes_def)

lemma port_recv_one:
  assumes "stamped_ok m" and "p_in q = wire_bytes m @ rest"
  shows "port_recv_msg q = (Some m, q\<lparr>p_in := rest\<rparr>)"
proof -
  obtain i r where m: "m_id m = Some i" "m_responseTo m = Some r"
      and bs: "msg_bytes m = Inr (le_int (m_len m) @ le32 i @ le32 r @ le_int (m_operation m) @ m_data m)"
    using msg_bytes_stamped [OF assms(1)] by blast
  have s: "sendable m" using assms(1) by (simp add: stamped_ok_def)
  let ?body = "le32 i @ le32 r @ le_int (m_operation m) @ m_data m"
  have len: "nat (m_len m - 4) = length ?body" using s by (simp add: sendable_def)
  have a: "port_recv_bytes 4 q = (Inr (le_int (m_len m)), q\<lparr>p_in := ?body @ rest\<rparr>)"
    using assms(2) bs by (simp add: port_recv_bytes_def wire_bytes_def)
  have b: "rd_int (le_int (m_len m)) = Inr (m_len m)"
    using rd_int_le_int [of "m_len m" "[]"] s i32_id [of "m_len m"] by (simp add: sendable_def)
  have c: "\<not> (m_len m < 16 \<or> m_len m > 48000000)" using s by (simp add: sendable_def)
  have d: "port_recv_bytes (nat (m_len m - 4)) (q\<lparr>p_in := ?body @ rest\<rparr>) = (Inr ?body, q\<lparr>p_in := rest\<rparr>)"
    unfolding len by (simp add: port_recv_bytes_def)
  have e: "rd32 ?body = Inr i" "rd32 (drop 4 ?body) = Inr r" "rd_int (drop 8 ?body) = Inr (m_operation m)"
      "signed_take_bit 15 (m_operation m) = m_operation m" "drop 12 ?body = m_data m"
    using s op_bytes [of "m_operation m"] by (simp_all add: rd_int_le_int sendable_def)
  have "m = \<lparr>m_len = m_len m, m_id = Some i, m_responseTo = Some r, m_operation = m_operation m, m_data = m_data m\<rparr>"
    using m by simp
  then show ?thesis using a b c d e by (subst port_recv_msg.simps) simp
qed

interpretation port: channel stamped_ok wire_bytes port_recv_msg p_in "\<lambda>x. p_in_update (\<lambda>_. x)"
  by unfold_locales (simp_all add: port_recv_one)

section \<open>The piggy-back buffer\<close>

definition pending :: "port \<Rightarrow> bytes" where
  "pending p = (case p_piggy p of Some b \<Rightarrow> b | None \<Rightarrow> [])"

definition port_ok :: "port \<Rightarrow> bool" where
  "port_ok p \<longleftrightarrow> p_up p \<and> length (pending p) \<le> 1300"

lemma piggy_len_pending [simp]: "piggy_len p = int (length (pending p))"
  by (simp add: piggy_len_def pending_def split: option.split)

lemma stamped_stamp [simp]: "sendable m \<Longrightarrow> stamped_ok (stamp m i r)"
  by (simp add: stamped_ok_def sendable_def stamp_def)

lemma msg_bytes_ok:
  assumes "stamped_ok m"
  shows "msg_bytes m = Inr (wire_bytes m)" "int (length (wire_bytes m)) = m_len m"
  using msg_bytes_stamped [OF assms] assms by (auto simp: wire_bytes_def stamped_ok_def sendable_def)

lemma piggy_flush_run:
  assumes "port_ok p" and "p_piggy p \<noteq> None"
  shows "piggy_flush p = (Inr (), p\<lparr>p_out := p_out p @ pending p, p_piggy := Some []\<rparr>)"
  using assms by (auto simp: piggy_flush_def port_send_def port_ok_def pending_def bind_act_def)

lemma piggy_append_run:
  assumes "port_ok p" and "p_piggy p \<noteq> None" and "stamped_ok m" and "m_len m \<le> 1300"
  shows "\<exists>p'. piggy_append m p = (Inr (), p') \<and> port_ok p' \<and> p_piggy p' \<noteq> None \<and> p_next_id p' = p_next_id p \<and> p_in p' = p_in p \<and>
    p_out p' @ pending p' = p_out p @ pending p @ wire_bytes m"
  using assms msg_bytes_ok [OF assms(3)] piggy_flush_run [OF assms(1,2)]
  by (auto simp: piggy_append_def port_ok_def pending_def bind_act_def)

lemma port_say_run:
  assumes "port_ok p" and "sendable m"
  shows "\<exists>p'. port_say m r p = (Inr (stamp m (p_next_id p) r), p') \<and> port_ok p' \<and> pending p' = [] \<and>
    p_next_id p' = p_next_id p + 1 \<and> p_in p' = p_in p \<and> p_out p' = p_out p @ pending p @ wire_bytes (stamp m (p_next_id p) r)"
proof -
  let ?m = "stamp m (p_next_id p) r" and ?p = "p\<lparr>p_next_id := p_next_id p + 1\<rparr>"
  have m: "stamped_ok ?m" "m_len ?m = m_len m" using assms(2) by simp_all (simp add: stamp_def)
  have ok: "port_ok ?p" and [simp]: "pending ?p = pending p" using assms(1) by (simp_all add: port_ok_def pending_def)
  note say = port_say_def nextMessageId_def Let_def port_send_def send_message_def bind_act_def
  show ?thesis
  proof (cases "pending p = []")
    case True
    then show ?thesis using assms(1) msg_bytes_ok [OF m(1)] by (simp add: say port_ok_def pending_def split: option.splits)
  next
    case False
    then have pg: "p_piggy ?p \<noteq> None" by (auto simp: pending_def split: option.splits)
    show ?thesis
    proof (cases "int (length (pending p)) + m_len m > 1300")
      case True
      then show ?thesis
        using False pg m assms(1) msg_bytes_ok [OF m(1)] piggy_flush_run [OF ok pg]
        by (auto simp: say port_ok_def pending_def)
    next
      case fits: False
      obtain p' where p': "piggy_append ?m ?p = (Inr (), p')" "port_ok p'" "p_piggy p' \<noteq> None" "p_next_id p' = p_next_id p + 1"
          "p_in p' = p_in p" "p_out p' @ pending p' = p_out p @ pending p @ wire_bytes ?m"
        using piggy_append_run [OF ok pg m(1)] fits m(2) by auto
      then show ?thesis
        using False pg m fits piggy_flush_run [of p'] by (auto simp: say port_ok_def pending_def)
    qed
  qed
qed

lemma port_piggyBack_run:
  assumes "port_ok p" and "sendable m"
  shows "\<exists>p'. port_piggyBack m r p = (Inr (), p') \<and> port_ok p' \<and> p_next_id p' = p_next_id p + 1 \<and> p_in p' = p_in p \<and>
    p_out p' @ pending p' = p_out p @ pending p @
      wire_bytes (stamp m (p_next_id p) (if m_len m > 1300 then - 1 else r))"
proof (cases "m_len m > 1300")
  case True
  then show ?thesis using port_say_run [OF assms, of "- 1"] by (auto simp: port_piggyBack_def)
next
  case False
  let ?p = "if p_piggy p = None then p\<lparr>p_next_id := p_next_id p + 1, p_piggy := Some []\<rparr>
            else p\<lparr>p_next_id := p_next_id p + 1\<rparr>"
  have p: "port_ok ?p" "p_piggy ?p \<noteq> None" "p_next_id ?p = p_next_id p + 1" "p_out ?p = p_out p" "p_in ?p = p_in p" "pending ?p = pending p"
    using assms(1) by (auto simp: port_ok_def pending_def split: option.splits)
  have "m_len (stamp m (p_next_id p) r) \<le> 1300" using False by (simp add: stamp_def)
  from piggy_append_run [OF p(1,2) stamped_stamp [OF assms(2)] this] p(3-6) False
  show ?thesis by (auto simp: port_piggyBack_def nextMessageId_def Let_def)
qed

datatype sending = Say message "32 word" | PiggyBack message "32 word"

fun sent_message :: "sending \<Rightarrow> message" where
  "sent_message (Say m r) = m"
| "sent_message (PiggyBack m r) = m"

fun run_sending :: "sending \<Rightarrow> (port, unit) act" where
  "run_sending (Say m r) = bind_act (port_say m r) (\<lambda>_ p. (Inr (), p))"
| "run_sending (PiggyBack m r) = port_piggyBack m r"

text \<open>The messages as they arrive: numbered from \<open>i\<close>; a long piggy-backed one loses its \<open>responseTo\<close>.\<close>

fun arriving :: "32 word \<Rightarrow> sending list \<Rightarrow> message list" where
  "arriving i [] = []"
| "arriving i (Say m r # ss) = stamp m i r # arriving (i + 1) ss"
| "arriving i (PiggyBack m r # ss) = stamp m i (if m_len m > 1300 then - 1 else r) # arriving (i + 1) ss"

lemma arriving_ok: "list_all (\<lambda>s. sendable (sent_message s)) ss \<Longrightarrow> list_all stamped_ok (arriving i ss)"
  by (induction i ss rule: arriving.induct) auto

lemma length_arriving [simp]: "length (arriving i ss) = length ss"
  by (induction i ss rule: arriving.induct) auto

lemma run_sendings:
  "list_all (\<lambda>s. sendable (sent_message s)) ss \<Longrightarrow> port_ok p \<Longrightarrow>
   \<exists>p'. seq_act (map run_sending ss) p = (Inr (), p') \<and> port_ok p' \<and>
     p_out p' @ pending p' = p_out p @ pending p @ concat (map wire_bytes (arriving (p_next_id p) ss))"
proof (induction "p_next_id p" ss arbitrary: p rule: arriving.induct)
  case (2 m r ss)
  obtain p1 where p1: "port_say m r p = (Inr (stamp m (p_next_id p) r), p1)" "port_ok p1" "p_next_id p1 = p_next_id p + 1"
      "p_out p1 @ pending p1 = p_out p @ pending p @ wire_bytes (stamp m (p_next_id p) r)"
    using port_say_run [OF 2(3), of m r] 2(2) by auto
  show ?case
    using 2(1) [of p1] p1 2(2) append_assoc [of "p_out p1" "pending p1"] by (auto simp flip: append_assoc)
next
  case (3 m r ss)
  obtain p1 where p1: "port_piggyBack m r p = (Inr (), p1)" "port_ok p1" "p_next_id p1 = p_next_id p + 1"
      "p_out p1 @ pending p1 = p_out p @ pending p @ wire_bytes (stamp m (p_next_id p) (if m_len m > 1300 then - 1 else r))"
    using port_piggyBack_run [OF 3(3), of m r] 3(2) by auto
  show ?case
    using 3(1) [of p1] p1 3(2) append_assoc [of "p_out p1" "pending p1"] by (auto simp flip: append_assoc)
qed simp

section \<open>Properties\<close>



text \<open>
  \<open>nextJsObj\<close> accepts an object that runs past the end of the message: it compares the
  object's size with the distance from the namespace to the end, not with what is left. Here
  five bytes are left, and the object handed out says it has eight.
\<close>

theorem nextJsObj_accepts_overrun:
  "\<exists>d d' js. dbmessage_new (set_data dbInsert (le_int 0 @ ''a.b'' @ [NUL] @ le_int 8 @ [NUL])) = d \<and>
     dm_nextJsObj None d = Inr (js, d') \<and> rd_int js = Inr 8 \<and> length js = 5"
  by (simp add: dbmessage_new_def set_data_def dm_nextJsObj_def dm_skip_ns_def at_def i32_id dataLen_def
      MsgDataHeaderSize_def bsonobj_init_def isValid_def rd_int_le_int)

end
