(* ===== verification/Connection.thy ===== *)
theory Connection
  imports Wire
begin

text \<open>
  A connection (\<open>DBClientConnection\<close>) and the requests the client assembles
  (client/dbclient.cpp): what \<open>say\<close>, \<open>call\<close> and \<open>checkResponse\<close> do to the connection,
  and the messages of insert, remove, update, query, getMore and killCursors. The theorems
  show that the server's readers (\<open>DbMessage\<close>, \<open>QueryMessage\<close>) get back what was put in.

  The connections are those mongoR.cc makes: \<open>autoReconnect\<close> is false, so a connection that
  has failed stays failed.
\<close>

section \<open>Options\<close>

definition QueryOption_CursorTailable :: int where "QueryOption_CursorTailable = 2"
definition QueryOption_SlaveOk :: int where "QueryOption_SlaveOk = 4"
definition QueryOption_OplogReplay :: int where "QueryOption_OplogReplay = 8"
definition QueryOption_NoCursorTimeout :: int where "QueryOption_NoCursorTimeout = 16"
definition QueryOption_AwaitData :: int where "QueryOption_AwaitData = 32"
definition QueryOption_Exhaust :: int where "QueryOption_Exhaust = 64"
definition QueryOption_PartialResults :: int where "QueryOption_PartialResults = 128"

definition UpdateOption_Upsert :: int where "UpdateOption_Upsert = 1"
definition UpdateOption_Multi :: int where "UpdateOption_Multi = 2"
definition RemoveOption_JustOne :: int where "RemoveOption_JustOne = 1"

definition ResultFlag_CursorNotFound :: int where "ResultFlag_CursorNotFound = 1"
definition ResultFlag_ErrSet :: int where "ResultFlag_ErrSet = 2"

definition has_flag :: "int \<Rightarrow> int \<Rightarrow> bool" where
  "has_flag flags b \<longleftrightarrow> flags AND b \<noteq> 0"

section \<open>The connection\<close>

text \<open>
  \<open>cn_clientSet\<close>: the connection belongs to a replica set; \<open>cn_isntMaster\<close> counts the calls
  of the set's \<open>isntMaster()\<close>.
\<close>

record connection =
  cn_port :: port
  cn_failed :: bool
  cn_clientSet :: bool
  cn_isntMaster :: nat

text \<open>\<open>_checkConnection\<close> throws on a failed connection: \<open>autoReconnect\<close> is false.\<close>

definition checkConnection :: "(connection, unit) act" where
  "checkConnection c = (if cn_failed c then (Inl SocketExn, c) else (Inr (), c))"

text \<open>A \<open>SocketException\<close> marks the connection failed on its way out.\<close>

definition catching_socket :: "(port, 'a) act \<Rightarrow> (connection, 'a) act" where
  "catching_socket f c =
     (case f (cn_port c) of
        (Inl SocketExn, p) \<Rightarrow> (Inl SocketExn, c\<lparr>cn_port := p, cn_failed := True\<rparr>)
      | (r, p) \<Rightarrow> (r, c\<lparr>cn_port := p\<rparr>))"

definition conn_say :: "message \<Rightarrow> (connection, unit) act" where
  "conn_say toSend =
     bind_act checkConnection (\<lambda>_.
     bind_act (catching_socket (port_say toSend (- 1))) (\<lambda>_ c. (Inr (), c)))"

definition sayPiggyBack :: "message \<Rightarrow> (connection, unit) act" where
  "sayPiggyBack toSend c = (case port_piggyBack toSend (- 1) (cn_port c) of (r, p) \<Rightarrow> (r, c\<lparr>cn_port := p\<rparr>))"

text \<open>\<open>recv(m)\<close> ignores whether a message came; \<open>None\<close> is the message left empty.\<close>

definition conn_recv :: "(connection, message option) act" where
  "conn_recv c = (case port_recv_msg (cn_port c) of (m, p) \<Rightarrow> (Inr m, c\<lparr>cn_port := p\<rparr>))"

definition conn_call :: "message \<Rightarrow> bool \<Rightarrow> (connection, message option) act" where
  "conn_call toSend assertOk =
     bind_act (catching_socket (port_call toSend)) (\<lambda>r c.
       case r of
         Some m \<Rightarrow> (Inr (Some m), c)
       | None \<Rightarrow> (if assertOk then Inl (Uassert 10278) else Inr None, c\<lparr>cn_failed := True\<rparr>))"

text \<open>\<open>strncmp(p, s, n) == 0\<close> for a literal \<open>s\<close> of \<open>n\<close> characters: reads up to the first difference.\<close>

fun strncmp_eq :: "bytes \<Rightarrow> bytes \<Rightarrow> bool res" where
  "strncmp_eq p [] = Inr True"
| "strncmp_eq [] (_ # _) = Inl OutOfBounds"
| "strncmp_eq (c # p) (d # s) = (if c \<noteq> d then Inr False else strncmp_eq p s)"

definition firstElement :: "bytes \<Rightarrow> belement res" where
  "firstElement o' = bind_res (at o' 4) (\<lambda>p. el_new p (- 1))"

definition checkResponse :: "bytes \<Rightarrow> int \<Rightarrow> (connection, unit) act" where
  "checkResponse data nReturned c =
     (if cn_clientSet c \<and> nReturned \<noteq> 0 then
        case bind_res (bsonobj_init data) (\<lambda>o'. bind_res (firstElement o') (\<lambda>e.
             bind_res (el_fieldName e) (\<lambda>n.
               if strcmp n ''$err'' \<noteq> 0 then Inr False
               else bind_res (el_is String e) (\<lambda>s.
                 if \<not> s then Inr False
                 else bind_res (valuestr e) (\<lambda>p. strncmp_eq p ''not master''))))) of
          Inl err \<Rightarrow> (Inl err, c)
        | Inr b \<Rightarrow> (Inr (), if b then c\<lparr>cn_isntMaster := cn_isntMaster c + 1\<rparr> else c)
      else (Inr (), c))"

section \<open>Requests\<close>

definition assembleRequest :: "bytes \<Rightarrow> bytes \<Rightarrow> int \<Rightarrow> int \<Rightarrow> bytes option \<Rightarrow> int \<Rightarrow> message res" where
  "assembleRequest ns query nToReturn nToSkip fieldsToReturn queryOptions =
     build_message dbQuery
       ([appendNum_int queryOptions, appendStr ns True, appendNum_int nToSkip, appendNum_int nToReturn,
         appendSelf query] @
        (case fieldsToReturn of None \<Rightarrow> [] | Some f \<Rightarrow> [appendSelf f]))"

definition getmore_request :: "int \<Rightarrow> bytes \<Rightarrow> int \<Rightarrow> 64 word \<Rightarrow> message res" where
  "getmore_request opts ns n cursorId =
     build_message dbGetMore [appendNum_int opts, appendStr ns True, appendNum_int n, appendNum_64 cursorId]"

definition kill_request :: "64 word \<Rightarrow> message res" where
  "kill_request cursorId = build_message dbKillCursors [appendNum_int 0, appendNum_int 1, appendNum_64 cursorId]"

definition insert_request :: "bytes \<Rightarrow> bytes list \<Rightarrow> message res" where
  "insert_request ns v = build_message dbInsert ([appendNum_int 0, appendStr ns True] @ map appendSelf v)"

definition remove_request :: "bytes \<Rightarrow> bytes \<Rightarrow> bool \<Rightarrow> message res" where
  "remove_request ns o' justOne =
     build_message dbDelete
       [appendNum_int 0, appendStr ns True, appendNum_int (if justOne then 0 OR RemoveOption_JustOne else 0),
        appendSelf o']"

definition update_flags :: "bool \<Rightarrow> bool \<Rightarrow> int" where
  "update_flags upsert multi =
     (let flags = 0; flags = (if upsert then flags OR UpdateOption_Upsert else flags)
      in if multi then flags OR UpdateOption_Multi else flags)"

definition update_request :: "bytes \<Rightarrow> bytes \<Rightarrow> bytes \<Rightarrow> bool \<Rightarrow> bool \<Rightarrow> message res" where
  "update_request ns query o' upsert multi =
     build_message dbUpdate
       [appendNum_int 0, appendStr ns True, appendNum_int (update_flags upsert multi), appendSelf query, appendSelf o']"

definition insert_one :: "bytes \<Rightarrow> bytes \<Rightarrow> (connection, unit) act" where
  "insert_one ns o' = bind_act (lift_act (insert_request ns [o'])) conn_say"

definition insert_many :: "bytes \<Rightarrow> bytes list \<Rightarrow> (connection, unit) act" where
  "insert_many ns v = bind_act (lift_act (insert_request ns v)) conn_say"

definition remove_docs :: "bytes \<Rightarrow> bytes \<Rightarrow> bool \<Rightarrow> (connection, unit) act" where
  "remove_docs ns o' justOne = bind_act (lift_act (remove_request ns o' justOne)) conn_say"

definition update_docs :: "bytes \<Rightarrow> bytes \<Rightarrow> bytes \<Rightarrow> bool \<Rightarrow> bool \<Rightarrow> (connection, unit) act" where
  "update_docs ns query o' upsert multi = bind_act (lift_act (update_request ns query o' upsert multi)) conn_say"

definition killCursor :: "bool \<Rightarrow> 64 word \<Rightarrow> (connection, unit) act" where
  "killCursor lazyKillCursor cursorId =
     bind_act (lift_act (kill_request cursorId)) (if lazyKillCursor then sayPiggyBack else conn_say)"

section \<open>What the requests look like\<close>

lemma build_message_run:
  assumes "length (concat xss) \<le> 32 * 1024 * 1024"
  shows "build_message op (map appendBuf xss) = Inr (set_data op (concat xss))"
proof -
  obtain b where "seq_res (map appendBuf xss) (buf_new 512) = Inr b" "contents b = map Some (concat xss)"
    using bufb.appends_run [of "buf_new 512" xss] buf_new_inv [of 512] assms by auto
  then show ?thesis by (simp add: build_message_def)
qed

lemma appendSelf_enc:
  assumes "int (length (enc_doc d)) < 2 ^ 31"
  shows "appendSelf (enc_doc d) = appendBuf (enc_doc d)"
proof
  fix b
  have "bytes_at (enc_doc d) (int (length (enc_doc d))) = Inr (enc_doc d)"
    using bytes_at_append [of "int (length (enc_doc d))" "enc_doc d" "[]"] by simp
  then show "appendSelf (enc_doc d) b = appendBuf (enc_doc d) b"
    using rd_int_enc_doc [OF assms, of "[]"] by (simp add: appendSelf_def)
qed

text \<open>A document that fits an object, and documents that together fit a message.\<close>

definition fits :: "doc \<Rightarrow> bool" where
  "fits d \<longleftrightarrow> wf_doc d \<and> int (length (enc_doc d)) \<le> BSONObjMaxInternalSize"

definition enc_docs :: "doc list \<Rightarrow> bytes" where
  "enc_docs ds = concat (map enc_doc ds)"

lemma enc_docs_simps [simp]:
  "enc_docs [] = []" "enc_docs (d # ds) = enc_doc d @ enc_docs ds"
  by (simp_all add: enc_docs_def)

lemma enc_doc_not_Nil [simp]: "enc_doc d \<noteq> []"
  by (simp add: enc_doc_def)

lemma enc_docs_Nil [simp]: "enc_docs ds = [] \<longleftrightarrow> ds = []"
  by (cases ds) (simp_all add: enc_doc_def)

lemma fits_small: "fits d \<Longrightarrow> int (length (enc_doc d)) < 2 ^ 31"
  by (simp add: fits_def)

lemma map_appendSelf: "list_all fits ds \<Longrightarrow> map appendSelf (map enc_doc ds) = map appendBuf (map enc_doc ds)"
  by (induction ds) (auto intro!: appendSelf_enc fits_small)

lemma build_request:
  assumes "length (concat xss) + length (enc_docs ds) \<le> 32 * 1024 * 1024" and "list_all fits ds"
  shows "build_message op (map appendBuf xss @ map appendSelf (map enc_doc ds)) =
    Inr (set_data op (concat xss @ enc_docs ds))"
  using build_message_run [of "xss @ map enc_doc ds" op] assms
  by (simp add: map_appendSelf enc_docs_def del: map_map)

section \<open>What the server reads\<close>

text \<open>\<open>objcheck\<close>: \<open>nextJsObj\<close> validates with \<open>valid()\<close> (run with \<open>fuel\<close>), or not.\<close>

definition objcheck_by :: "nat option \<Rightarrow> (bytes \<Rightarrow> bool res) option" where
  "objcheck_by oc =
     map_option (\<lambda>fuel js. case valid fuel js of Some r \<Rightarrow> r | None \<Rightarrow> Inl UB) oc"

text \<open>The objects of an insert message, pulled while there are more.\<close>

fun pull_objs :: "(bytes \<Rightarrow> bool res) option \<Rightarrow> nat \<Rightarrow> dbmessage \<Rightarrow> bytes list res" where
  "pull_objs check 0 d = Inl UB"
| "pull_objs check (Suc n) d =
     (if dm_moreJSObjs d
      then bind_res (dm_nextJsObj check d) (\<lambda>(js, d). bind_res (pull_objs check n d) (\<lambda>r. Inr (js # r)))
      else Inr [])"

definition enough :: "nat option \<Rightarrow> doc \<Rightarrow> bool" where
  "enough oc d \<longleftrightarrow> (case oc of Some fuel \<Rightarrow> length (enc_doc d) \<le> fuel | None \<Rightarrow> True)"

lemma valid_enc_in:
  assumes "fits d" and "length (enc_doc d) \<le> fuel"
  shows "valid fuel (enc_doc d @ q) = Some (Inr True)"
  using valid_loop_enc [of d fuel "le_int (int (length (enc_elems d)) + 5)"
      "\<lparr>it_pos = 4, it_end = int (length (enc_doc d))\<rparr>" q] iter_new_enc [of d q] assms
  by (simp add: valid_def enc_doc_def fits_def)

lemma read_doc_enc_in:
  assumes "fits d" and "length (enc_doc d) \<le> fuel"
  shows "read_doc fuel (enc_doc d @ q) = Some (Inr d)"
  using read_loop_enc [of d fuel "le_int (int (length (enc_elems d)) + 5)"
      "\<lparr>it_pos = 4, it_end = int (length (enc_doc d))\<rparr>" q] iter_new_enc [of d q] assms
  by (simp add: read_doc_def enc_doc_def fits_def)

lemma objcheck_ok:
  assumes "fits d" and "enough oc d"
  shows "(case objcheck_by oc of None \<Rightarrow> Inr True | Some f \<Rightarrow> f (enc_doc d @ q)) = Inr True"
  using assms valid_enc_in [OF assms(1)] by (auto simp: objcheck_by_def enough_def split: option.splits)

text \<open>A request with its reserved field, its namespace and what follows.\<close>

definition request_data :: "int \<Rightarrow> bytes \<Rightarrow> bytes \<Rightarrow> bytes" where
  "request_data opts ns rest = le_int opts @ ns @ NUL # rest"

text \<open>The reader stands before \<open>post\<close> in the data \<open>pre @ post\<close>; \<open>None\<close> when nothing is left.\<close>

definition reader_at :: "bytes \<Rightarrow> bytes \<Rightarrow> dbmessage \<Rightarrow> bool" where
  "reader_at pre post d \<longleftrightarrow> dm_mem d = pre @ post \<and> dm_theEnd d = int (length (pre @ post)) \<and> 5 \<le> length pre \<and>
     dm_next d = (if post = [] then None else Some (int (length pre)))"

lemma reader_skip:
  assumes "reader_at pre post d" and "post \<noteq> []"
  shows "dm_skip_ns d = Inr (int (length pre))" "at (dm_mem d) (int (length pre)) = Inr post"
    "dm_next d \<noteq> Some 4"
  using assms by (auto simp: reader_at_def dm_skip_ns_def at_def)

lemma first_skip:
  assumes "NUL \<notin> set ns" and "dm_next d = Some 4" and "dm_mem d = request_data opts ns rest"
  shows "dm_skip_ns d = Inr (int (length ns) + 5)" "at (dm_mem d) (int (length ns) + 5) = Inr rest"
  using assms by (simp_all add: dm_skip_ns_def at_def request_data_def nat_add_distrib)

lemma next_obj_at:
  assumes "fits q" and "enough oc q" and "dm_skip_ns d = Inr n" and "at (dm_mem d) n = Inr (enc_doc q @ post)"
    and "5 \<le> n" and "dm_theEnd d = n + int (length (enc_doc q @ post))"
  shows "dm_nextJsObj (objcheck_by oc) d = Inr (enc_doc q @ post,
    d\<lparr>dm_next := (if post = [] then None else Some (n + int (length (enc_doc q))))\<rparr>)"
proof -
  have sz: "rd_int (enc_doc q @ post) = Inr (int (length (enc_doc q)))"
    using rd_int_enc_doc [OF fits_small [OF assms(1)]] .
  have init: "bsonobj_init (enc_doc q @ post) = Inr (enc_doc q @ post)"
    using assms(1) by (intro bsonobj_init_enc) (simp add: fits_def)
  show ?thesis
    using assms(3-6) sz init objcheck_ok [OF assms(1,2), of post] by (simp add: dm_nextJsObj_def)
qed

lemma next_obj_first:
  assumes "fits q" and "enough oc q" and "NUL \<notin> set ns" and "dm_next d = Some 4"
    and "dm_mem d = request_data opts ns (enc_doc q @ post)" and "dm_theEnd d = int (length (dm_mem d))"
  shows "\<exists>d'. dm_nextJsObj (objcheck_by oc) d = Inr (enc_doc q @ post, d') \<and>
    reader_at (request_data opts ns (enc_doc q)) post d'"
  using next_obj_at [OF assms(1,2) first_skip [OF assms(3-5)]] assms(5,6)
  by (auto simp: reader_at_def request_data_def)

lemma next_obj_more:
  assumes "fits q" and "enough oc q" and "reader_at pre (enc_doc q @ post) d"
  shows "\<exists>d'. dm_nextJsObj (objcheck_by oc) d = Inr (enc_doc q @ post, d') \<and> reader_at (pre @ enc_doc q) post d'"
  using next_obj_at [OF assms(1,2) reader_skip(1,2) [OF assms(3)]] assms(3)
  by (auto simp: reader_at_def enc_doc_def)

lemma pull_objs_run:
  assumes "list_all fits ds" and "list_all (enough oc) ds" and "reader_at pre (enc_docs ds) d" and "length ds < n"
  shows "\<exists>os. pull_objs (objcheck_by oc) n d = Inr os \<and> list_all2 (\<lambda>o' d. \<exists>q. o' = enc_doc d @ q) os ds"
  using assms
proof (induction ds arbitrary: n d pre)
  case Nil
  then show ?case by (cases n) (auto simp: reader_at_def dm_moreJSObjs_def)
next
  case (Cons x ds)
  obtain n' where n: "n = Suc n'" using Cons.prems(4) by (cases n) auto
  obtain d' where d': "dm_nextJsObj (objcheck_by oc) d = Inr (enc_doc x @ enc_docs ds, d')"
      "reader_at (pre @ enc_doc x) (enc_docs ds) d'"
    using next_obj_more [of x oc pre "enc_docs ds" d] Cons.prems by auto
  have "dm_moreJSObjs d" using Cons.prems(3) by (auto simp: reader_at_def dm_moreJSObjs_def enc_doc_def)
  then show ?case using Cons.IH [OF _ _ d'(2), of n'] Cons.prems n d'(1) by auto
qed

lemma dbmessage_of_request:
  assumes "length data \<le> 32 * 1024 * 1024"
  shows "dbmessage_new (set_data op data) = \<lparr>dm_mem = data, dm_theEnd = int (length data), dm_next = Some 4, dm_mark = None\<rparr>"
  using assms by (simp add: dbmessage_new_def set_data_def dataLen_def MsgDataHeaderSize_def i32_id)

lemma pull_first:
  assumes "NUL \<notin> set ns" and "dm_next d = Some 4" and "dm_mem d = request_data opts ns (le_int i @ rest)"
    and "rest \<noteq> []" and "dm_theEnd d = int (length (dm_mem d))"
  shows "\<exists>d'. dm_pullInt d = Inr (i32 i, d') \<and> reader_at (request_data opts ns (le_int i)) rest d'"
  using first_skip [OF assms(1-3)] assms(3-5)
  by (auto simp: dm_pullInt_def rd_int_le_int reader_at_def request_data_def)

lemma pull_more:
  assumes "reader_at pre (le_int i @ rest) d" and "rest \<noteq> []"
  shows "\<exists>d'. dm_pullInt d = Inr (i32 i, d') \<and> reader_at (pre @ le_int i) rest d'"
  using reader_skip [OF assms(1)] assms by (auto simp: dm_pullInt_def rd_int_le_int reader_at_def)

lemma reader_ns:
  assumes "NUL \<notin> set ns" and "dm_mem d = request_data opts ns rest"
  shows "dm_getns d = Inr ns" "dm_reservedField d = Inr (i32 opts)"
  using assms by (simp_all add: dm_getns_def dm_reservedField_def request_data_def at_def rd_int_le_int)

definition option_docs :: "doc option \<Rightarrow> doc list" where
  "option_docs f = (case f of None \<Rightarrow> [] | Some d \<Rightarrow> [d])"

section \<open>Properties\<close>

text \<open>
  C10: A query arrives as it was made: from the message \<open>assembleRequest\<close> builds, the server's
  \<open>QueryMessage\<close> reads the namespace, the numbers to skip and to return, the options, the
  query document and, exactly when one was given, the field selector, whether or not objects
  are checked on the way.
\<close>

theorem query_request_roundtrip:
  assumes "NUL \<notin> set ns" and "length ns \<le> 1024" and "list_all fits (q # option_docs f)"
    and "list_all (enough oc) (q # option_docs f)" and "length (enc_docs (q # option_docs f)) \<le> 31 * 1024 * 1024"
    and "list_all (\<lambda>i. - (2 ^ 31) \<le> i \<and> i < 2 ^ 31) [nret, nskip, opts]"
  shows "\<exists>m qm mem. assembleRequest ns (enc_doc q) nret nskip (map_option enc_doc f) opts = Inr m \<and>
    m_operation m = op_code dbQuery \<and> query_message_new (objcheck_by oc) (dbmessage_new m) = Inr qm \<and>
    qm_ns qm = ns \<and> qm_ntoskip qm = nskip \<and> qm_ntoreturn qm = nret \<and> qm_options qm = opts \<and>
    qm_query qm = enc_doc q @ mem \<and> qm_fields qm = map_option enc_doc f"
proof -
  let ?fs = "option_docs f"
  let ?d = "request_data opts ns (le_int nskip @ le_int nret @ enc_docs (q # ?fs))"
  have int: "i32 nret = nret" "i32 nskip = nskip" "i32 opts = opts" using assms(6) by (auto intro: i32_id)
  have "assembleRequest ns (enc_doc q) nret nskip (map_option enc_doc f) opts =
      build_message dbQuery (map appendBuf [le_int opts, ns @ [NUL], le_int nskip, le_int nret] @
        map appendSelf (map enc_doc (q # ?fs)))"
    by (simp add: assembleRequest_def buf_ops option_docs_def split: option.split)
  also have "\<dots> = Inr (set_data dbQuery ?d)"
    using assms(2,3,5) by (subst build_request) (simp_all add: request_data_def)
  finally have m: "assembleRequest ns (enc_doc q) nret nskip (map_option enc_doc f) opts =
      Inr (set_data dbQuery ?d)" .
  define dm where "dm = dbmessage_new (set_data dbQuery ?d)"
  have dm: "dm_mem dm = ?d" "dm_next dm = Some 4" "dm_theEnd dm = int (length (dm_mem dm))"
    using assms(2,5) by (simp_all add: dm_def dbmessage_of_request request_data_def)
  obtain d1 where d1: "dm_pullInt dm = Inr (nskip, d1)"
      "reader_at (request_data opts ns (le_int nskip)) (le_int nret @ enc_docs (q # ?fs)) d1"
    using pull_first [OF assms(1) dm(2,1) _ dm(3)] int by auto
  obtain d2 where d2: "dm_pullInt d1 = Inr (nret, d2)"
      "reader_at (request_data opts ns (le_int nskip) @ le_int nret) (enc_docs (q # ?fs)) d2"
    using pull_more [OF d1(2)] int by (auto simp del: enc_docs_simps)
  obtain d3 where d3: "dm_nextJsObj (objcheck_by oc) d2 = Inr (enc_doc q @ enc_docs ?fs, d3)"
      "reader_at (request_data opts ns (le_int nskip) @ le_int nret @ enc_doc q) (enc_docs ?fs) d3"
    using next_obj_more [OF _ _ d2(2) [unfolded enc_docs_simps]] assms(3,4) by auto
  have mem: "dm_mem d3 = ?d" using d3(2) by (simp add: reader_at_def request_data_def)
  have opt: "dm_reservedField d3 = Inr opts" "dm_getns dm = Inr ns"
    using reader_ns [OF assms(1) mem] reader_ns [OF assms(1) dm(1)] int by auto
  have "query_message_new (objcheck_by oc) dm = Inr \<lparr>qm_ns = ns, qm_ntoskip = nskip, qm_ntoreturn = nret,
      qm_options = opts, qm_query = enc_doc q @ enc_docs ?fs, qm_fields = map_option enc_doc f\<rparr>"
  proof (cases f)
    case None
    then have "\<not> dm_moreJSObjs d3" using d3(2) by (simp add: reader_at_def dm_moreJSObjs_def option_docs_def)
    then show ?thesis
      using d1(1) d2(1) d3(1) opt None by (simp add: query_message_new_def)
  next
    case (Some x)
    then have at: "reader_at (request_data opts ns (le_int nskip) @ le_int nret @ enc_doc q) (enc_doc x @ []) d3"
      using d3(2) by (simp add: option_docs_def)
    have "fits x" "enough oc x" using assms(3,4) Some by (simp_all add: option_docs_def)
    then obtain d4 where d4: "dm_nextJsObj (objcheck_by oc) d3 = Inr (enc_doc x, d4)"
        "dm_mem d4 = dm_mem d3"
      using next_obj_more [OF _ _ at] at by (auto simp: reader_at_def)
    have "dm_moreJSObjs d3" using at by (simp add: reader_at_def dm_moreJSObjs_def enc_doc_def)
    then show ?thesis
      using d1(1) d2(1) d3(1) d4 opt(1,2) mem Some reader_ns [OF assms(1), of d4] int(3)
      by (simp add: query_message_new_def)
  qed
  moreover have "m_operation (set_data dbQuery ?d) = op_code dbQuery" by (simp add: set_data_def)
  ultimately show ?thesis using m unfolding dm_def by (metis query_message.select_convs)
qed

theorem query_request_roundtrip_witness:
  "\<exists>m qm mem. assembleRequest ''db.c'' (enc_doc [(''a'', VInt 1)]) 0 0 (map_option enc_doc (Some [(''b'', VInt 1)])) 4 = Inr m \<and>
    m_operation m = op_code dbQuery \<and> query_message_new (objcheck_by (Some 64)) (dbmessage_new m) = Inr qm \<and>
    qm_ns qm = ''db.c'' \<and> qm_ntoskip qm = 0 \<and> qm_ntoreturn qm = 0 \<and> qm_options qm = 4 \<and>
    qm_query qm = enc_doc [(''a'', VInt 1)] @ mem \<and> qm_fields qm = map_option enc_doc (Some [(''b'', VInt 1)])"
  by (rule query_request_roundtrip)
     (simp_all add: option_docs_def fits_def enough_def length_enc_elem)



end
