(* ===== verification/Cursor.thy ===== *)
theory Cursor
  imports Connection
begin

text \<open>
  \<open>DBClientCursor\<close> (client/dbclientcursor.h and .cpp): a query's results, fetched batch by
  batch. A cursor works on the connection it was opened on, so its operations are actions on
  the pair of both. \<open>attach\<close>, which moves a cursor to a pooled connection, is not modelled:
  \<open>_client\<close> is never null.
\<close>

section \<open>The cursor\<close>

text \<open>
  The constructor that takes a cursor id leaves \<open>batchSize\<close> indeterminate (\<open>None\<close>), and
  neither sets \<open>resultFlags\<close>. \<open>cu_data\<close> is the memory at the \<open>data\<close> pointer.
\<close>

record cursor =
  cu_ns :: bytes
  cu_query :: bytes
  cu_nToReturn :: int
  cu_haveLimit :: bool
  cu_nToSkip :: int
  cu_fields :: "bytes option"
  cu_opts :: int
  cu_batchSize :: "int option"
  cu_putBack :: "bytes list"
  cu_resultFlags :: "int option"
  cu_cursorId :: "64 word"
  cu_nReturned :: int
  cu_pos :: int
  cu_data :: bytes
  cu_own :: bool

type_synonym client = "cursor \<times> connection"

definition cursor_new :: "bytes \<Rightarrow> bytes \<Rightarrow> int \<Rightarrow> int \<Rightarrow> bytes option \<Rightarrow> int \<Rightarrow> int \<Rightarrow> cursor" where
  "cursor_new ns query nToReturn nToSkip fieldsToReturn queryOptions bs =
     \<lparr>cu_ns = ns, cu_query = query, cu_nToReturn = nToReturn,
      cu_haveLimit = (nToReturn > 0 \<and> \<not> has_flag queryOptions QueryOption_CursorTailable),
      cu_nToSkip = nToSkip, cu_fields = fieldsToReturn, cu_opts = queryOptions,
      cu_batchSize = Some (if bs = 1 then 2 else bs), cu_putBack = [], cu_resultFlags = None,
      cu_cursorId = 0, cu_nReturned = 0, cu_pos = 0, cu_data = [], cu_own = True\<rparr>"

definition cursor_of_id :: "bytes \<Rightarrow> 64 word \<Rightarrow> int \<Rightarrow> int \<Rightarrow> cursor" where
  "cursor_of_id ns cursorId nToReturn options =
     \<lparr>cu_ns = ns, cu_query = enc_doc [], cu_nToReturn = nToReturn,
      cu_haveLimit = (nToReturn > 0 \<and> \<not> has_flag options QueryOption_CursorTailable),
      cu_nToSkip = 0, cu_fields = None, cu_opts = options, cu_batchSize = None, cu_putBack = [],
      cu_resultFlags = None, cu_cursorId = cursorId, cu_nReturned = 0, cu_pos = 0, cu_data = [], cu_own = True\<rparr>"

definition tailable :: "cursor \<Rightarrow> bool" where
  "tailable cu \<longleftrightarrow> has_flag (cu_opts cu) QueryOption_CursorTailable"

definition nextBatchSize :: "cursor \<Rightarrow> int res" where
  "nextBatchSize cu =
     (case cu_batchSize cu of
        None \<Rightarrow> Inl UB
      | Some b \<Rightarrow>
          Inr (if cu_nToReturn cu = 0 then b else if b = 0 then cu_nToReturn cu
               else if b < cu_nToReturn cu then b else cu_nToReturn cu))"

definition on_conn :: "(connection, 'a) act \<Rightarrow> (client, 'a) act" where
  "on_conn f = (\<lambda>(cu, c). case f c of (r, c) \<Rightarrow> (r, (cu, c)))"

definition with_cursor :: "(cursor \<Rightarrow> 'a res) \<Rightarrow> (client, 'a) act" where
  "with_cursor f = (\<lambda>(cu, c). (f cu, (cu, c)))"

definition set_cursor :: "(cursor \<Rightarrow> cursor) \<Rightarrow> (client, unit) act" where
  "set_cursor f = (\<lambda>(cu, c). (Inr (), (f cu, c)))"

section \<open>Receiving a batch\<close>

text \<open>An empty message has no buffer: \<open>singleData()\<close> throws 13273.\<close>

definition cursor_lost :: "query_result \<Rightarrow> (client, unit) act" where
  "cursor_lost qr =
     (if has_flag (qr_flags qr) ResultFlag_CursorNotFound then
        bind_act (lift_act (guard (qr_cursorId qr = 0) AssertFail)) (\<lambda>_.
        bind_act (set_cursor (cu_cursorId_update (\<lambda>_. 0))) (\<lambda>_.
          with_cursor (\<lambda>cu. guard (tailable cu) (Uassert 13127))))
      else lift_act (Inr ()))"

definition dataReceived :: "message option \<Rightarrow> (client, unit) act" where
  "dataReceived m =
     bind_act (lift_act (case m of None \<Rightarrow> Inl (Massert 13273) | Some m \<Rightarrow> read_query_result m)) (\<lambda>qr.
     bind_act (set_cursor (\<lambda>cu. cu\<lparr>cu_resultFlags := Some (qr_flags qr)\<rparr>)) (\<lambda>_.
     bind_act (cursor_lost qr) (\<lambda>_.
     bind_act (set_cursor (\<lambda>cu.
         cu\<lparr>cu_cursorId := (if cu_cursorId cu = 0 \<or> \<not> tailable cu then qr_cursorId qr else cu_cursorId cu),
            cu_nReturned := qr_nReturned qr, cu_pos := 0, cu_data := qr_data qr\<rparr>)) (\<lambda>_.
       on_conn (checkResponse (qr_data qr) (qr_nReturned qr))))))"

definition cursor_request :: "cursor \<Rightarrow> message res" where
  "cursor_request cu =
     (if cu_cursorId cu = 0 then
        bind_res (nextBatchSize cu) (\<lambda>n.
          assembleRequest (cu_ns cu) (cu_query cu) n (cu_nToSkip cu) (cu_fields cu) (cu_opts cu))
      else getmore_request (cu_opts cu) (cu_ns cu) (cu_nToReturn cu) (cu_cursorId cu))"

definition cursor_init :: "(client, bool) act" where
  "cursor_init =
     bind_act (with_cursor cursor_request) (\<lambda>toSend.
     bind_act (on_conn (conn_call toSend False)) (\<lambda>m.
       if m = None then lift_act (Inr False)
       else bind_act (dataReceived m) (\<lambda>_. lift_act (Inr True))))"

definition requestMore :: "(client, unit) act" where
  "requestMore =
     bind_act (with_cursor (\<lambda>cu. guard (cu_cursorId cu \<noteq> 0 \<and> cu_pos cu = cu_nReturned cu) AssertFail)) (\<lambda>_.
     bind_act (set_cursor (\<lambda>cu.
         if cu_haveLimit cu then cu\<lparr>cu_nToReturn := i32 (cu_nToReturn cu - cu_nReturned cu)\<rparr> else cu)) (\<lambda>_.
     bind_act (with_cursor (\<lambda>cu. guard (\<not> cu_haveLimit cu \<or> cu_nToReturn cu > 0) AssertFail)) (\<lambda>_.
     bind_act (with_cursor (\<lambda>cu. bind_res (nextBatchSize cu) (\<lambda>n.
         getmore_request (cu_opts cu) (cu_ns cu) n (cu_cursorId cu)))) (\<lambda>toSend.
     bind_act (on_conn (conn_call toSend True)) dataReceived))))"

definition exhaustReceiveMore :: "(client, unit) act" where
  "exhaustReceiveMore =
     bind_act (with_cursor (\<lambda>cu. guard (cu_cursorId cu \<noteq> 0 \<and> cu_pos cu = cu_nReturned cu) AssertFail)) (\<lambda>_.
     bind_act (with_cursor (\<lambda>cu. guard (\<not> cu_haveLimit cu) AssertFail)) (\<lambda>_.
     bind_act (on_conn conn_recv) dataReceived))"

section \<open>Iterating\<close>

definition cursor_more :: "(client, bool) act" where
  "cursor_more = (\<lambda>(cu, c).
     if cu_putBack cu \<noteq> [] then (Inr True, (cu, c))
     else if cu_haveLimit cu \<and> cu_pos cu \<ge> cu_nToReturn cu then (Inr False, (cu, c))
     else if cu_pos cu < cu_nReturned cu then (Inr True, (cu, c))
     else if cu_cursorId cu = 0 then (Inr False, (cu, c))
     else bind_act requestMore (\<lambda>_. with_cursor (\<lambda>cu. Inr (cu_pos cu < cu_nReturned cu))) (cu, c))"

definition cursor_next :: "(client, bytes) act" where
  "cursor_next = (\<lambda>(cu, c).
     case cu_putBack cu of
       o' # rest \<Rightarrow> (Inr o', (cu\<lparr>cu_putBack := rest\<rparr>, c))
     | [] \<Rightarrow>
        if \<not> cu_pos cu < cu_nReturned cu then (Inl (Uassert 13422), (cu, c))
        else
          let cu = cu\<lparr>cu_pos := cu_pos cu + 1\<rparr>
          in case bind_res (bsonobj_init (cu_data cu)) (\<lambda>o'. bind_res (rd_int o') (\<lambda>n.
                  bind_res (at (cu_data cu) n) (\<lambda>d. Inr (o', d)))) of
               Inl err \<Rightarrow> (Inl err, (cu, c))
             | Inr (o', d) \<Rightarrow> (Inr o', (cu\<lparr>cu_data := d\<rparr>, c)))"

text \<open>\<open>putBack(o)\<close> keeps an owned copy.\<close>

definition putBack :: "bytes \<Rightarrow> (client, unit) act" where
  "putBack o' = bind_act (lift_act (bind_res (rd_int o') (bytes_at o')))
     (\<lambda>xs. set_cursor (\<lambda>cu. cu\<lparr>cu_putBack := xs # cu_putBack cu\<rparr>))"

definition cursor_nextSafe :: "(client, bytes) act" where
  "cursor_nextSafe =
     bind_act cursor_next (\<lambda>o'.
     bind_act (lift_act (bind_res (firstElement o') el_fieldName)) (\<lambda>n.
       lift_act (if strcmp n ''$err'' = 0 then Inl (Uassert 13106) else Inr o')))"

definition objsLeftInBatch :: "cursor \<Rightarrow> int" where
  "objsLeftInBatch cu = int (length (cu_putBack cu)) + cu_nReturned cu - cu_pos cu"

definition moreInCurrentBatch :: "cursor \<Rightarrow> bool" where
  "moreInCurrentBatch cu \<longleftrightarrow> objsLeftInBatch cu > 0"

text \<open>\<open>peek(v, atMost)\<close>; a negative \<open>atMost\<close> is no limit.\<close>

fun peek_loop :: "nat \<Rightarrow> int \<Rightarrow> bytes \<Rightarrow> bytes list res" where
  "peek_loop 0 m d = Inr []"
| "peek_loop (Suc left) m d =
     (if m = 0 then Inr []
      else bind_res (bsonobj_init d) (\<lambda>o'. bind_res (rd_int o') (\<lambda>n. bind_res (at d n) (\<lambda>d'.
           bind_res (peek_loop left (m - 1) d') (\<lambda>v. Inr (o' # v))))))"

definition cursor_peek :: "int \<Rightarrow> (client, bytes list) act" where
  "cursor_peek limit = with_cursor (\<lambda>cu. peek_loop (nat (cu_nReturned cu - cu_pos cu)) limit (cu_data cu))"

text \<open>\<open>while (more()) { next(); }\<close>, collecting what \<open>next\<close> returns.\<close>

fun drain :: "nat \<Rightarrow> client \<Rightarrow> (bytes list res \<times> client) option" where
  "drain 0 s = None"
| "drain (Suc n) s =
     (case cursor_more s of
        (Inl err, s) \<Rightarrow> Some (Inl err, s)
      | (Inr False, s) \<Rightarrow> Some (Inr [], s)
      | (Inr True, s) \<Rightarrow>
          (case cursor_next s of
             (Inl err, s) \<Rightarrow> Some (Inl err, s)
           | (Inr o', s) \<Rightarrow> map_option (\<lambda>(r, s). (bind_res r (\<lambda>os. Inr (o' # os)), s)) (drain n s)))"

definition itcount :: "nat \<Rightarrow> client \<Rightarrow> (int res \<times> client) option" where
  "itcount fuel s = map_option (\<lambda>(r, s). (bind_res r (\<lambda>os. Inr (int (length os))), s)) (drain fuel s)"

definition isDead :: "cursor \<Rightarrow> bool" where
  "isDead cu \<longleftrightarrow> cu_cursorId cu = 0"

definition hasResultFlag :: "cursor \<Rightarrow> int \<Rightarrow> bool res" where
  "hasResultFlag cu flag = (case cu_resultFlags cu of None \<Rightarrow> Inl UB | Some f \<Rightarrow> Inr (has_flag f flag))"

definition cursor_decouple :: "cursor \<Rightarrow> cursor" where
  "cursor_decouple cu = cu\<lparr>cu_own := False\<rparr>"

text \<open>The destructor: exceptions are swallowed (\<open>DESTRUCTOR_GUARD\<close>).\<close>

definition cursor_destroy :: "client \<Rightarrow> connection" where
  "cursor_destroy = (\<lambda>(cu, c).
     if cu_cursorId cu \<noteq> 0 \<and> cu_own cu
     then snd (bind_act (lift_act (kill_request (cu_cursorId cu))) sayPiggyBack c) else c)"

text \<open>\<open>DBClientCursorBatchIterator\<close>: the rest of the current batch, counted.\<close>

definition batch_nextSafe :: "client \<times> int \<Rightarrow> bytes res \<times> (client \<times> int)" where
  "batch_nextSafe = (\<lambda>(s, n).
     if \<not> moreInCurrentBatch (fst s) then (Inl (Massert 13383), (s, n))
     else case cursor_nextSafe s of (r, s) \<Rightarrow> (r, (s, n + 1)))"

section \<open>Opening a cursor\<close>

definition db_query ::
  "bytes \<Rightarrow> bytes \<Rightarrow> int \<Rightarrow> int \<Rightarrow> bytes option \<Rightarrow> int \<Rightarrow> int \<Rightarrow> connection \<Rightarrow> cursor option res \<times> connection" where
  "db_query ns query nToReturn nToSkip fieldsToReturn queryOptions batchSize =
     bind_act checkConnection (\<lambda>_ c.
       case cursor_init (cursor_new ns query nToReturn nToSkip fieldsToReturn queryOptions batchSize, c) of
         (Inl err, (cu, c)) \<Rightarrow> (Inl err, cursor_destroy (cu, c))
       | (Inr True, (cu, c)) \<Rightarrow> (Inr (Some cu), c)
       | (Inr False, (cu, c)) \<Rightarrow> (Inr None, cursor_destroy (cu, c)))"

definition db_getMore :: "bytes \<Rightarrow> 64 word \<Rightarrow> int \<Rightarrow> int \<Rightarrow> connection \<Rightarrow> cursor option res \<times> connection" where
  "db_getMore ns cursorId nToReturn options c =
     (case cursor_init (cursor_of_id ns cursorId nToReturn options, c) of
        (Inl err, (cu, c)) \<Rightarrow> (Inl err, cursor_destroy (cu, c))
      | (Inr True, (cu, c)) \<Rightarrow> (Inr (Some cu), c)
      | (Inr False, (cu, c)) \<Rightarrow> (Inr None, cursor_destroy (cu, c)))"

end
