(* ===== verification/CursorSpec.thy ===== *)
theory CursorSpec
  imports Cursor
begin

text \<open>
  What a cursor promises, and that \<open>DBClientCursor\<close> keeps it. The abstract cursor is a
  sequence of documents to come, cut at the limit. The relation \<open>cursor_at\<close> ties it to the
  driver's state: the documents not yet returned lie in the current message, the batches
  to come are on the wire as the server's replies to the requests the cursor will make.
\<close>

section \<open>The server's replies\<close>

record batch =
  ba_msgid :: "32 word"
  ba_cursor :: "64 word"
  ba_flags :: int
  ba_docs :: "doc list"

text \<open>The reply as \<open>replyToQuery\<close> makes and \<open>say\<close> stamps it.\<close>

definition reply_message :: "32 word \<Rightarrow> batch \<Rightarrow> message" where
  "reply_message responseTo b =
     stamp (set_data opReply (reply_data (ba_flags b) (ba_cursor b) 0 (int (length (ba_docs b))) (enc_docs (ba_docs b))))
       (ba_msgid b) responseTo"

definition batch_ok :: "batch \<Rightarrow> bool" where
  "batch_ok b \<longleftrightarrow> list_all fits (ba_docs b) \<and> length (enc_docs (ba_docs b)) \<le> 47000000 \<and>
     0 \<le> ba_flags b \<and> ba_flags b < 2 ^ 31 \<and> \<not> has_flag (ba_flags b) ResultFlag_CursorNotFound"

text \<open>Replies to consecutive requests; the last one, and only it, says that the cursor is closed.\<close>

fun replies :: "32 word \<Rightarrow> batch list \<Rightarrow> bytes" where
  "replies i [] = []"
| "replies i (b # bs) = wire_bytes (reply_message i b) @ replies (i + 1) bs"

fun chain :: "64 word \<Rightarrow> batch list \<Rightarrow> bool" where
  "chain cid [] \<longleftrightarrow> cid = 0"
| "chain cid (b # bs) \<longleftrightarrow> cid \<noteq> 0 \<and> batch_ok b \<and> ba_docs b \<noteq> [] \<and> chain (ba_cursor b) bs"

definition batch_docs :: "batch list \<Rightarrow> doc list" where
  "batch_docs bs = concat (map ba_docs bs)"

lemma batch_docs_simps [simp]:
  "batch_docs [] = []" "batch_docs (b # bs) = ba_docs b @ batch_docs bs"
  by (simp_all add: batch_docs_def)

lemma enc_docs_size: "5 * length ds \<le> length (enc_docs ds)"
  by (induction ds) auto

lemma batch_count: "batch_ok b \<Longrightarrow> int (length (ba_docs b)) < 10000000"
  using enc_docs_size [of "ba_docs b"] by (simp add: batch_ok_def)

lemma reply_sendable:
  assumes "batch_ok b"
  shows "stamped_ok (reply_message i b)" "m_responseTo (reply_message i b) = Some i"
  using assms
  by (simp_all add: reply_message_def stamp_def stamped_ok_def sendable_def set_data_def reply_data_def
      batch_ok_def i32_id MsgDataHeaderSize_def)

lemma read_reply:
  assumes "batch_ok b"
  shows "read_query_result (reply_message i b) =
    Inr \<lparr>qr_flags = ba_flags b, qr_cursorId = ba_cursor b, qr_startingFrom = 0,
         qr_nReturned = int (length (ba_docs b)), qr_data = enc_docs (ba_docs b)\<rparr>"
proof -
  have "i32 (ba_flags b) = ba_flags b" "i32 (int (length (ba_docs b))) = int (length (ba_docs b))"
    using assms batch_count [OF assms] by (auto simp: batch_ok_def intro!: i32_id)
  then show ?thesis
    by (simp add: read_query_result_def reply_message_def stamp_def set_data_def reply_data_def rd_int_le_int i32_id)
qed

section \<open>A call that is answered\<close>

lemma conn_call_reply:
  assumes "port_ok (cn_port c)" and "sendable m" and "stamped_ok r" and "m_responseTo r = Some (p_next_id (cn_port c))"
    and "p_in (cn_port c) = wire_bytes r @ rest"
  shows "\<exists>p. conn_call m ao c = (Inr (Some r), c\<lparr>cn_port := p\<rparr>) \<and>
    port_ok p \<and> p_in p = rest \<and> p_next_id p = p_next_id (cn_port c) + 1 \<and> pending p = [] \<and>
    p_out p = p_out (cn_port c) @ pending (cn_port c) @ wire_bytes (stamp m (p_next_id (cn_port c)) (- 1))"
proof -
  let ?p = "cn_port c" and ?i = "p_next_id (cn_port c)"
  obtain p1 where p1: "port_say m (- 1) ?p = (Inr (stamp m ?i (- 1)), p1)" "port_ok p1" "pending p1 = []"
      "p_next_id p1 = ?i + 1" "p_in p1 = p_in ?p" "p_out p1 = p_out ?p @ pending ?p @ wire_bytes (stamp m ?i (- 1))"
    using port_say_run [OF assms(1,2), of "- 1"] by auto
  have rcv: "port_recv_msg p1 = (Some r, p1\<lparr>p_in := rest\<rparr>)"
    using p1(5) assms(5) by (intro port_recv_one [OF assms(3)]) simp
  have "m_id (stamp m ?i (- 1)) = Some ?i" by (simp add: stamp_def)
  then have "port_call m ?p = (Inr (Some r), p1\<lparr>p_in := rest\<rparr>)"
    using p1(1) rcv assms(4) by (simp add: port_call_def port_recv_reply_def)
  then show ?thesis
    using p1 by (intro exI [of _ "p1\<lparr>p_in := rest\<rparr>"])
      (simp add: conn_call_def bind_act_def catching_socket_def port_ok_def pending_def)
qed

lemma conn_call_answered:
  assumes "port_ok (cn_port c)" and "sendable m" and "batch_ok b"
    and "p_in (cn_port c) = replies (p_next_id (cn_port c)) (b # bs)"
  shows "\<exists>p. conn_call m ao c = (Inr (Some (reply_message (p_next_id (cn_port c)) b)), c\<lparr>cn_port := p\<rparr>) \<and>
    port_ok p \<and> p_in p = replies (p_next_id p) bs"
  using conn_call_reply [OF assms(1,2) reply_sendable [OF assms(3)], of "replies (p_next_id (cn_port c) + 1) bs" ao] assms(4)
  by auto

section \<open>The relation\<close>

definition limit_left :: "cursor \<Rightarrow> nat option" where
  "limit_left cu = (if cu_haveLimit cu then Some (nat (cu_nToReturn cu - cu_pos cu)) else None)"

definition cut :: "nat option \<Rightarrow> 'a list \<Rightarrow> 'a list" where
  "cut l xs = (case l of Some n \<Rightarrow> take n xs | None \<Rightarrow> xs)"

definition cursor_static :: "cursor \<Rightarrow> bool" where
  "cursor_static cu \<longleftrightarrow> \<not> tailable cu \<and> length (cu_ns cu) \<le> 1024 \<and> cu_batchSize cu \<noteq> None \<and> cu_putBack cu = [] \<and>
     cu_nToReturn cu < 2 ^ 31 \<and> - (2 ^ 31) \<le> cu_nToReturn cu \<and> 0 \<le> cu_pos cu \<and> cu_nReturned cu < 2 ^ 30"

fun cursor_at :: "doc list \<Rightarrow> batch list \<Rightarrow> client \<Rightarrow> bool" where
  "cursor_at ds bs (cu, c) \<longleftrightarrow> cursor_static cu \<and> cu_nReturned cu = cu_pos cu + int (length ds) \<and>
     cu_data cu = enc_docs ds \<and> list_all fits ds \<and> chain (cu_cursorId cu) bs \<and>
     \<not> cn_clientSet c \<and> port_ok (cn_port c) \<and> p_in (cn_port c) = replies (p_next_id (cn_port c)) bs"

text \<open>The documents still to be returned.\<close>

fun expected :: "doc list \<Rightarrow> batch list \<Rightarrow> client \<Rightarrow> doc list" where
  "expected ds bs (cu, c) = cut (limit_left cu) (ds @ batch_docs bs)"

lemma getmore_sendable:
  assumes "length ns \<le> 1024"
  shows "\<exists>m. getmore_request opts ns n cid = Inr m \<and> sendable m"
proof -
  have "getmore_request opts ns n cid = build_message dbGetMore (map appendBuf [le_int opts, ns @ [NUL], le_int n, le64 cid])"
    by (simp add: getmore_request_def buf_ops)
  also have "\<dots> = Inr (set_data dbGetMore (concat [le_int opts, ns @ [NUL], le_int n, le64 cid]))"
    using assms by (intro build_message_run) simp
  finally show ?thesis using assms by (simp add: sendable_def set_data_def i32_id MsgDataHeaderSize_def)
qed

text \<open>A batch arrives: it becomes the current one.\<close>

lemma dataReceived_batch:
  assumes "cursor_static cu" and "batch_ok b" and "chain (ba_cursor b) bs" and "\<not> cn_clientSet c"
    and "port_ok (cn_port c)" and "p_in (cn_port c) = replies (p_next_id (cn_port c)) bs"
  shows "\<exists>cu'. dataReceived (Some (reply_message i b)) (cu, c) = (Inr (), (cu', c)) \<and> cursor_at (ba_docs b) bs (cu', c) \<and>
    cu_pos cu' = 0 \<and> cu_haveLimit cu' = cu_haveLimit cu \<and> cu_nToReturn cu' = cu_nToReturn cu"
  using assms batch_count [OF assms(2)]
  by (simp add: dataReceived_def bind_act_def read_reply set_cursor_def cursor_lost_def on_conn_def
      checkResponse_def cursor_static_def tailable_def batch_ok_def)

lemma requestMore_run:
  assumes at: "cursor_at [] (b # bs) (cu, c)" and l: "limit_left cu \<noteq> Some 0"
  shows "\<exists>cu' c'. requestMore (cu, c) = (Inr (), (cu', c')) \<and> cursor_at (ba_docs b) bs (cu', c') \<and>
    limit_left cu' = limit_left cu"
proof -
  have st: "cursor_static cu" and pos: "cu_nReturned cu = cu_pos cu" and cid: "cu_cursorId cu \<noteq> 0" and b: "batch_ok b"
      and ch: "chain (ba_cursor b) bs" and c: "\<not> cn_clientSet c" "port_ok (cn_port c)"
      "p_in (cn_port c) = replies (p_next_id (cn_port c)) (b # bs)"
    using at by auto
  define cu1 where "cu1 = (if cu_haveLimit cu then cu\<lparr>cu_nToReturn := i32 (cu_nToReturn cu - cu_nReturned cu)\<rparr> else cu)"
  have lim: "cu_haveLimit cu \<Longrightarrow> 0 < cu_nToReturn cu - cu_pos cu"
    using l by (auto simp: limit_left_def split: if_splits)
  have i: "cu_haveLimit cu \<Longrightarrow> i32 (cu_nToReturn cu - cu_pos cu) = cu_nToReturn cu - cu_pos cu"
    using lim st by (intro i32_id) (auto simp: cursor_static_def)
  have st1: "cursor_static cu1" and cid1: "cu_cursorId cu1 = cu_cursorId cu"
    using st i lim pos by (auto simp: cu1_def cursor_static_def tailable_def)
  obtain n where n: "nextBatchSize cu1 = Inr n"
    using st1 by (auto simp: nextBatchSize_def cursor_static_def)
  obtain m where m: "getmore_request (cu_opts cu1) (cu_ns cu1) n (cu_cursorId cu1) = Inr m" "sendable m"
    using getmore_sendable [of "cu_ns cu1"] st1 unfolding cursor_static_def by blast
  obtain p where p: "conn_call m True c = (Inr (Some (reply_message (p_next_id (cn_port c)) b)), c\<lparr>cn_port := p\<rparr>)"
      "port_ok p" "p_in p = replies (p_next_id p) bs"
    using conn_call_answered [OF c(2) m(2) b c(3)] by blast
  obtain cu' where cu': "dataReceived (Some (reply_message (p_next_id (cn_port c)) b)) (cu1, c\<lparr>cn_port := p\<rparr>) =
        (Inr (), (cu', c\<lparr>cn_port := p\<rparr>))" "cursor_at (ba_docs b) bs (cu', c\<lparr>cn_port := p\<rparr>)"
      "cu_pos cu' = 0" "cu_haveLimit cu' = cu_haveLimit cu1" "cu_nToReturn cu' = cu_nToReturn cu1"
    using dataReceived_batch [OF st1 b ch, where c = "c\<lparr>cn_port := p\<rparr>" and i = "p_next_id (cn_port c)"] c(1) p(2,3)
    by (auto simp del: cursor_at.simps)
  have g: "\<not> cu_haveLimit cu1 \<or> 0 < cu_nToReturn cu1" using i lim pos by (auto simp: cu1_def)
  have "requestMore (cu, c) = (Inr (), (cu', c\<lparr>cn_port := p\<rparr>))"
    using cid pos n m(1) p(1) cu'(1) g
    by (simp add: requestMore_def bind_act_def with_cursor_def set_cursor_def on_conn_def flip: cu1_def)
  moreover have "limit_left cu' = limit_left cu"
    using cu'(3-5) i pos by (auto simp: limit_left_def cu1_def)
  ultimately show ?thesis using cu'(2) by blast
qed

text \<open>
  \<open>more()\<close> says whether a document is still expected, fetching the next batch if it must;
  \<open>next()\<close> returns the first of them.
\<close>

lemma cut_simps [simp]:
  "cut l [] = []" "cut (Some 0) xs = []" "cut l (x # xs) = [] \<longleftrightarrow> l = Some 0"
  by (auto simp: cut_def split: option.splits nat.splits)

lemma more_run:
  assumes "cursor_at ds bs s"
  shows "\<exists>s' ds' bs'. cursor_more s = (Inr (expected ds bs s \<noteq> []), s') \<and> cursor_at ds' bs' s' \<and>
    expected ds' bs' s' = expected ds bs s \<and> (expected ds bs s \<noteq> [] \<longrightarrow> ds' \<noteq> [])"
proof -
  obtain cu c where s: "s = (cu, c)" by (cases s)
  have pb: "cu_putBack cu = []" and n: "cu_nReturned cu = cu_pos cu + int (length ds)"
    using assms s by (auto simp: cursor_static_def)
  have lim: "limit_left cu = Some 0 \<longleftrightarrow> cu_haveLimit cu \<and> cu_pos cu \<ge> cu_nToReturn cu"
    by (auto simp: limit_left_def)
  show ?thesis
  proof (cases "limit_left cu = Some 0")
    case True
    then show ?thesis using assms s pb lim by (intro exI [of _ s] exI [of _ ds] exI [of _ bs]) (simp add: cursor_more_def)
  next
    case False
    show ?thesis
    proof (cases ds)
      case (Cons d ds')
      then show ?thesis
        using assms s pb lim False n
        by (intro exI [of _ s] exI [of _ ds] exI [of _ bs]) (auto simp: cursor_more_def)
    next
      case Nil
      show ?thesis
      proof (cases bs)
        case Nil': Nil
        then show ?thesis
          using assms s pb lim False n Nil
          by (intro exI [of _ s] exI [of _ ds] exI [of _ bs]) (auto simp: cursor_more_def)
      next
        case (Cons b bs')
        then have at: "cursor_at [] (b # bs') (cu, c)" using assms s Nil by simp
        then have cid: "cu_cursorId cu \<noteq> 0" and ne: "ba_docs b \<noteq> []" by auto
        obtain cu' c' where r: "requestMore (cu, c) = (Inr (), (cu', c'))" "cursor_at (ba_docs b) bs' (cu', c')"
            "limit_left cu' = limit_left cu"
          using requestMore_run [OF at False] by blast
        have "cu_pos cu' < cu_nReturned cu'" using r(2) ne by simp
        then have "cursor_more s = (Inr True, (cu', c'))"
          using s pb lim False n Nil cid r(1) by (simp add: cursor_more_def with_cursor_def)
        moreover have "expected ds bs s \<noteq> []" using s Nil Cons ne False by (cases "ba_docs b") simp_all
        ultimately show ?thesis
          using r(2,3) s Nil Cons ne by (intro exI [of _ "(cu', c')"] exI [of _ "ba_docs b"] exI [of _ bs']) simp
      qed
    qed
  qed
qed

lemma next_run:
  assumes "cursor_at (d # ds) bs s" and "expected (d # ds) bs s \<noteq> []"
  shows "\<exists>s'. cursor_next s = (Inr (enc_doc d @ enc_docs ds), s') \<and> cursor_at ds bs s' \<and>
    expected (d # ds) bs s = d # expected ds bs s'"
proof -
  obtain cu c where s: "s = (cu, c)" by (cases s)
  have fits: "fits d" using assms(1) s by simp
  have "bsonobj_init (enc_doc d @ enc_docs ds) = Inr (enc_doc d @ enc_docs ds)"
    using fits by (intro bsonobj_init_enc) (simp add: fits_def)
  moreover have "rd_int (enc_doc d @ enc_docs ds) = Inr (int (length (enc_doc d)))"
    using rd_int_enc_doc [OF fits_small [OF fits]] .
  moreover have "at (enc_doc d @ enc_docs ds) (int (length (enc_doc d))) = Inr (enc_docs ds)"
    by (rule at_append) simp
  ultimately have nx: "cursor_next s = (Inr (enc_doc d @ enc_docs ds),
      (cu\<lparr>cu_pos := cu_pos cu + 1, cu_data := enc_docs ds\<rparr>, c))"
    using assms(1) s by (simp add: cursor_next_def cursor_static_def del: length_enc_doc)
  have "limit_left cu \<noteq> Some 0" using assms(2) s by auto
  then have "limit_left cu = map_option Suc (limit_left (cu\<lparr>cu_pos := cu_pos cu + 1, cu_data := enc_docs ds\<rparr>))"
    by (auto simp: limit_left_def nat_diff_distrib')
  then have "expected (d # ds) bs s = d # expected ds bs (cu\<lparr>cu_pos := cu_pos cu + 1, cu_data := enc_docs ds\<rparr>, c)"
    using s by (auto simp: cut_def split: option.split)
  moreover have "cursor_at ds bs (cu\<lparr>cu_pos := cu_pos cu + 1, cu_data := enc_docs ds\<rparr>, c)"
    using assms(1) s by (simp add: cursor_static_def tailable_def)
  ultimately show ?thesis using nx by blast
qed

definition holds_doc :: "bytes \<Rightarrow> doc \<Rightarrow> bool" where
  "holds_doc o' d \<longleftrightarrow> fits d \<and> (\<exists>mem. o' = enc_doc d @ mem)"

lemma drain_run:
  "cursor_at ds bs s \<Longrightarrow> length (expected ds bs s) < fuel \<Longrightarrow>
   \<exists>os s' ds' bs'. drain fuel s = Some (Inr os, s') \<and> list_all2 holds_doc os (expected ds bs s) \<and>
     cursor_at ds' bs' s' \<and> expected ds' bs' s' = []"
proof (induction fuel arbitrary: ds bs s)
  case (Suc fuel)
  obtain s1 ds1 bs1 where m: "cursor_more s = (Inr (expected ds bs s \<noteq> []), s1)" "cursor_at ds1 bs1 s1"
      "expected ds1 bs1 s1 = expected ds bs s" "expected ds bs s \<noteq> [] \<longrightarrow> ds1 \<noteq> []"
    using more_run [OF Suc.prems(1)] by blast
  show ?case
  proof (cases "expected ds bs s = []")
    case True
    then show ?thesis using m by auto
  next
    case False
    then obtain d ds2 where ds1: "ds1 = d # ds2" using m(4) by (cases ds1) auto
    have at1: "cursor_at (d # ds2) bs1 s1" and ex1: "expected (d # ds2) bs1 s1 = expected ds bs s"
      using m(2,3) ds1 by auto
    obtain s2 where n: "cursor_next s1 = (Inr (enc_doc d @ enc_docs ds2), s2)" "cursor_at ds2 bs1 s2"
        "expected ds bs s = d # expected ds2 bs1 s2"
      using next_run [OF at1] ex1 False by auto
    have "holds_doc (enc_doc d @ enc_docs ds2) d" using at1 by (cases s1) (auto simp: holds_doc_def)
    moreover obtain os s' ds' bs' where "drain fuel s2 = Some (Inr os, s')" "list_all2 holds_doc os (expected ds2 bs1 s2)"
        "cursor_at ds' bs' s'" "expected ds' bs' s' = []"
      using Suc.IH [OF n(2)] Suc.prems(2) n(3) by auto
    ultimately show ?thesis
      using m(1) False n(1,3) by auto
  qed
qed simp

section \<open>Opening a query\<close>

lemma query_sendable:
  assumes "length ns \<le> 1024" and "list_all fits (q # option_docs f)"
    and "length (enc_docs (q # option_docs f)) \<le> 31 * 1024 * 1024"
  shows "\<exists>m. assembleRequest ns (enc_doc q) n skip (map_option enc_doc f) opts = Inr m \<and> sendable m"
proof -
  let ?xss = "[le_int opts, ns @ [NUL], le_int skip, le_int n]"
  let ?d = "concat ?xss @ enc_docs (q # option_docs f)"
  have len: "length ?d \<le> 32 * 1024 * 1024" using assms(1,3) by simp
  have "assembleRequest ns (enc_doc q) n skip (map_option enc_doc f) opts =
      build_message dbQuery (map appendBuf ?xss @ map appendSelf (map enc_doc (q # option_docs f)))"
    by (simp add: assembleRequest_def buf_ops option_docs_def split: option.split)
  also have "\<dots> = Inr (set_data dbQuery ?d)"
    using assms(2) len by (intro build_request) simp_all
  finally show ?thesis
    using len by (simp add: sendable_def set_data_def i32_id MsgDataHeaderSize_def del: length_enc_doc)
qed

text \<open>The connection is in order and the server will answer with these batches.\<close>

definition serves :: "connection \<Rightarrow> batch list \<Rightarrow> bool" where
  "serves c bs \<longleftrightarrow> \<not> cn_failed c \<and> \<not> cn_clientSet c \<and> port_ok (cn_port c) \<and>
     p_in (cn_port c) = replies (p_next_id (cn_port c)) bs \<and>
     bs \<noteq> [] \<and> batch_ok (hd bs) \<and> chain (ba_cursor (hd bs)) (tl bs)"

definition query_ok :: "bytes \<Rightarrow> doc \<Rightarrow> doc option \<Rightarrow> int \<Rightarrow> int \<Rightarrow> bool" where
  "query_ok ns q f nret opts \<longleftrightarrow> length ns \<le> 1024 \<and> list_all fits (q # option_docs f) \<and>
     length (enc_docs (q # option_docs f)) \<le> 31 * 1024 * 1024 \<and> - (2 ^ 31) \<le> nret \<and> nret < 2 ^ 31 \<and>
     \<not> has_flag opts QueryOption_CursorTailable"

lemma db_query_run:
  assumes "serves c bs" and "query_ok ns q f nret opts"
  shows "\<exists>cu c' ds bs'. db_query ns (enc_doc q) nret skip (map_option enc_doc f) opts bsz c = (Inr (Some cu), c') \<and>
    cursor_at ds bs' (cu, c') \<and>
    expected ds bs' (cu, c') = (if nret > 0 then take (nat nret) (batch_docs bs) else batch_docs bs)"
proof -
  obtain b bs' where bs: "bs = b # bs'" using assms(1) by (cases bs) (auto simp: serves_def)
  let ?cu = "cursor_new ns (enc_doc q) nret skip (map_option enc_doc f) opts bsz"
  have st: "cursor_static ?cu"
    using assms(2) by (simp add: cursor_static_def cursor_new_def tailable_def query_ok_def)
  obtain n where n: "nextBatchSize ?cu = Inr n" by (simp add: nextBatchSize_def cursor_new_def)
  obtain m where m: "assembleRequest ns (enc_doc q) n skip (map_option enc_doc f) opts = Inr m" "sendable m"
    using query_sendable [of ns q f] assms(2) unfolding query_ok_def by blast
  have req: "cursor_request ?cu = Inr m" using n m(1) by (simp add: cursor_request_def) (simp add: cursor_new_def)
  have c: "port_ok (cn_port c)" "\<not> cn_failed c" "\<not> cn_clientSet c" "batch_ok b" "chain (ba_cursor b) bs'"
      "p_in (cn_port c) = replies (p_next_id (cn_port c)) (b # bs')"
    using assms(1) bs by (auto simp: serves_def)
  obtain p where p: "conn_call m False c = (Inr (Some (reply_message (p_next_id (cn_port c)) b)), c\<lparr>cn_port := p\<rparr>)"
      "port_ok p" "p_in p = replies (p_next_id p) bs'"
    using conn_call_answered [OF c(1) m(2) c(4,6)] by blast
  obtain cu' where cu': "dataReceived (Some (reply_message (p_next_id (cn_port c)) b)) (?cu, c\<lparr>cn_port := p\<rparr>) =
        (Inr (), (cu', c\<lparr>cn_port := p\<rparr>))" "cursor_at (ba_docs b) bs' (cu', c\<lparr>cn_port := p\<rparr>)"
      "cu_pos cu' = 0" "cu_haveLimit cu' = cu_haveLimit ?cu" "cu_nToReturn cu' = cu_nToReturn ?cu"
    using dataReceived_batch [OF st c(4,5), where c = "c\<lparr>cn_port := p\<rparr>" and i = "p_next_id (cn_port c)"] c(3) p(2,3)
    by (auto simp del: cursor_at.simps)
  have "db_query ns (enc_doc q) nret skip (map_option enc_doc f) opts bsz c = (Inr (Some cu'), c\<lparr>cn_port := p\<rparr>)"
    using req p(1) cu'(1) c(2)
    by (simp add: db_query_def checkConnection_def cursor_init_def bind_act_def with_cursor_def on_conn_def)
  moreover have "expected (ba_docs b) bs' (cu', c\<lparr>cn_port := p\<rparr>) =
      (if nret > 0 then take (nat nret) (batch_docs bs) else batch_docs bs)"
    using cu'(3-5) assms(2) bs by (simp add: limit_left_def cut_def cursor_new_def query_ok_def)
  ultimately show ?thesis using cu'(2) by blast
qed

section \<open>Properties\<close>


definition demo_batches :: "batch list" where
  "demo_batches =
     [\<lparr>ba_msgid = 90, ba_cursor = 5, ba_flags = 8, ba_docs = [[(''a'', VInt 1)], [(''a'', VInt 2)]]\<rparr>,
      \<lparr>ba_msgid = 91, ba_cursor = 0, ba_flags = 8, ba_docs = [[(''a'', VInt 3)]]\<rparr>]"

definition demo_connection :: connection where
  "demo_connection =
     \<lparr>cn_port = \<lparr>p_in = replies 1 demo_batches, p_out = [], p_up = True, p_next_id = 1, p_piggy = None\<rparr>,
      cn_failed = False, cn_clientSet = False, cn_isntMaster = 0\<rparr>"

lemma demo_serves: "serves demo_connection demo_batches"
  by (simp add: serves_def demo_connection_def demo_batches_def port_ok_def pending_def batch_ok_def
      fits_def has_flag_def ResultFlag_CursorNotFound_def length_enc_elem)

lemma demo_query: "query_ok ''db.c'' [] None 0 0"
  by (simp add: query_ok_def option_docs_def fits_def has_flag_def)


text \<open>
  Destroying a cursor that still has a server cursor sends exactly one killCursors message
  for it (as a piggy-back, so it may wait for the next message), and destroying any other
  cursor, or one that was decoupled, sends nothing.
\<close>

theorem destroy_kills_open_cursor:
  assumes "port_ok (cn_port c)"
  shows "let c' = cursor_destroy (cu, c) in
    port_ok (cn_port c') \<and>
    p_out (cn_port c') @ pending (cn_port c') = p_out (cn_port c) @ pending (cn_port c) @
      (if cu_cursorId cu \<noteq> 0 \<and> cu_own cu
       then wire_bytes (stamp (set_data dbKillCursors (le_int 0 @ le_int 1 @ le64 (cu_cursorId cu))) (p_next_id (cn_port c)) (- 1))
       else [])"
proof (cases "cu_cursorId cu \<noteq> 0 \<and> cu_own cu")
  case True
  let ?m = "set_data dbKillCursors (le_int 0 @ le_int 1 @ le64 (cu_cursorId cu))"
  have "kill_request (cu_cursorId cu) = build_message dbKillCursors (map appendBuf [le_int 0, le_int 1, le64 (cu_cursorId cu)])"
    by (simp add: kill_request_def buf_ops)
  also have "\<dots> = Inr ?m" by (subst build_message_run) simp_all
  finally have k: "kill_request (cu_cursorId cu) = Inr ?m" .
  have "sendable ?m" by (simp add: sendable_def set_data_def i32_id MsgDataHeaderSize_def)
  from port_piggyBack_run [OF assms this, of "- 1"] True k
  show ?thesis by (auto simp: cursor_destroy_def bind_act_def sayPiggyBack_def)
next
  case False
  then have "cursor_destroy (cu, c) = c" by (auto simp: cursor_destroy_def)
  then show ?thesis using False assms by auto
qed

theorem destroy_kills_open_cursor_witness:
  "let c' = cursor_destroy (cursor_of_id ''db.c'' 5 0 0, demo_connection) in
    port_ok (cn_port c') \<and>
    p_out (cn_port c') @ pending (cn_port c') = p_out (cn_port demo_connection) @ pending (cn_port demo_connection) @
      wire_bytes (stamp (set_data dbKillCursors (le_int 0 @ le_int 1 @ le64 5)) (p_next_id (cn_port demo_connection)) (- 1))"
proof -
  have "port_ok (cn_port demo_connection)" using demo_serves by (simp add: serves_def)
  from destroy_kills_open_cursor [OF this, of "cursor_of_id ''db.c'' 5 0 0"]
  show ?thesis by (simp add: cursor_of_id_def)
qed

text \<open>
  \<open>putBack\<close> undoes \<open>next\<close>: the document put back is the one \<open>next\<close> returns then, \<open>more\<close>
  is true without a network call even at the limit, and the cursor is as it was before.
\<close>

theorem putBack_then_next:
  assumes "fits d"
  shows "\<exists>s'. putBack (enc_doc d @ mem) s = (Inr (), s') \<and> cursor_more s' = (Inr True, s') \<and>
    cursor_next s' = (Inr (enc_doc d), s)"
proof -
  obtain cu c where s: "s = (cu, c)" by (cases s)
  have "bytes_at (enc_doc d @ mem) (int (length (enc_doc d))) = Inr (enc_doc d)" by (rule bytes_at_append) simp
  then have "putBack (enc_doc d @ mem) s = (Inr (), (cu\<lparr>cu_putBack := enc_doc d # cu_putBack cu\<rparr>, c))"
    using rd_int_enc_doc [OF fits_small [OF assms], of mem] s by (simp add: putBack_def bind_act_def set_cursor_def)
  then show ?thesis using s by (simp add: cursor_more_def cursor_next_def)
qed

theorem putBack_then_next_witness:
  "\<exists>s'. putBack (enc_doc [(''a'', VInt 1)] @ ''rest'') (cursor_of_id ''db.c'' 5 0 0, demo_connection) = (Inr (), s') \<and>
    cursor_more s' = (Inr True, s') \<and>
    cursor_next s' = (Inr (enc_doc [(''a'', VInt 1)]), (cursor_of_id ''db.c'' 5 0 0, demo_connection))"
  by (rule putBack_then_next) (simp add: fits_def length_enc_elem)

definition not_found_batch :: batch where
  "not_found_batch = \<lparr>ba_msgid = 7, ba_cursor = 0, ba_flags = 1, ba_docs = []\<rparr>"

lemma not_found_reply:
  "stamped_ok (reply_message i not_found_batch)" "m_responseTo (reply_message i not_found_batch) = Some i"
  "read_query_result (reply_message i not_found_batch) =
    Inr \<lparr>qr_flags = 1, qr_cursorId = 0, qr_startingFrom = 0, qr_nReturned = 0, qr_data = []\<rparr>"
  using rd_int_le_int [of 0 "[]"]
  by (simp_all add: not_found_batch_def reply_message_def stamp_def stamped_ok_def sendable_def set_data_def
      reply_data_def i32_id MsgDataHeaderSize_def read_query_result_def rd_int_le_int)

text \<open>
  When the server answers a getMore with "cursor not found", \<open>more\<close> throws 13127 and the
  cursor is dead: no killCursors will be sent for it.
\<close>

theorem cursor_not_found_is_fatal:
  assumes "port_ok (cn_port c)" and "\<not> tailable cu" and "length (cu_ns cu) \<le> 1024" and "cu_batchSize cu \<noteq> None"
    and "cu_putBack cu = []" and "\<not> cu_haveLimit cu" and "cu_pos cu = cu_nReturned cu" and "cu_cursorId cu \<noteq> 0"
    and "p_in (cn_port c) = wire_bytes (reply_message (p_next_id (cn_port c)) not_found_batch) @ rest"
  shows "\<exists>cu' c'. cursor_more (cu, c) = (Inl (Uassert 13127), (cu', c')) \<and> isDead cu' \<and> cursor_destroy (cu', c') = c'"
proof -
  let ?r = "reply_message (p_next_id (cn_port c)) not_found_batch"
  obtain n where n: "nextBatchSize cu = Inr n" using assms(4) by (auto simp: nextBatchSize_def)
  obtain m where m: "getmore_request (cu_opts cu) (cu_ns cu) n (cu_cursorId cu) = Inr m" "sendable m"
    using getmore_sendable [OF assms(3)] by blast
  obtain p where p: "conn_call m True c = (Inr (Some ?r), c\<lparr>cn_port := p\<rparr>)"
    using conn_call_reply [OF assms(1) m(2) not_found_reply(1,2) assms(9)] by blast
  let ?cu = "cu\<lparr>cu_resultFlags := Some 1, cu_cursorId := 0\<rparr>"
  have "dataReceived (Some ?r) (cu, c\<lparr>cn_port := p\<rparr>) = (Inl (Uassert 13127), (?cu, c\<lparr>cn_port := p\<rparr>))"
    using assms(2)
    by (simp add: dataReceived_def not_found_reply(3) bind_act_def set_cursor_def cursor_lost_def with_cursor_def
        has_flag_def ResultFlag_CursorNotFound_def tailable_def)
  then have "cursor_more (cu, c) = (Inl (Uassert 13127), (?cu, c\<lparr>cn_port := p\<rparr>))"
    using assms(5-8) n m(1) p
    by (simp add: cursor_more_def requestMore_def bind_act_def with_cursor_def set_cursor_def on_conn_def)
  then show ?thesis by (simp add: isDead_def cursor_destroy_def)
qed

definition lost_connection :: connection where
  "lost_connection =
     \<lparr>cn_port = \<lparr>p_in = wire_bytes (reply_message 1 not_found_batch), p_out = [], p_up = True, p_next_id = 1, p_piggy = None\<rparr>,
      cn_failed = False, cn_clientSet = False, cn_isntMaster = 0\<rparr>"

theorem cursor_not_found_is_fatal_witness:
  "\<exists>cu' c'. cursor_more ((cursor_new ''db.c'' (enc_doc []) 0 0 None 0 0)\<lparr>cu_cursorId := 5\<rparr>, lost_connection) =
     (Inl (Uassert 13127), (cu', c')) \<and> isDead cu' \<and> cursor_destroy (cu', c') = c'"
  by (rule cursor_not_found_is_fatal [where rest = "[]"])
     (simp_all add: lost_connection_def cursor_new_def port_ok_def pending_def tailable_def has_flag_def
        QueryOption_CursorTailable_def)

text \<open>
  \<open>next\<close> trusts the count of the reply: after a reply that announces a document and holds
  none, \<open>more\<close> is true and \<open>next\<close> reads past the end of the message.
\<close>

theorem next_trusts_the_count:
  "\<exists>s. dataReceived (Some (stamp (set_data opReply (reply_data 0 0 0 1 [])) 7 i))
        (cursor_new ns q 0 0 None 0 0, demo_connection) = (Inr (), s) \<and>
     cursor_more s = (Inr True, s) \<and> fst (cursor_next s) = Inl OutOfBounds"
proof -
  have "read_query_result (stamp (set_data opReply (reply_data 0 0 0 1 [])) 7 i) =
      Inr \<lparr>qr_flags = 0, qr_cursorId = 0, qr_startingFrom = 0, qr_nReturned = 1, qr_data = []\<rparr>"
    using rd_int_le_int [of 1 "[]"]
    by (simp add: read_query_result_def stamp_def set_data_def reply_data_def rd_int_le_int i32_id)
  then show ?thesis
    by (simp add: dataReceived_def bind_act_def set_cursor_def cursor_lost_def has_flag_def on_conn_def checkResponse_def
        demo_connection_def cursor_more_def cursor_next_def cursor_new_def bsonobj_init_def isValid_def rd_int_short)
qed

text \<open>
  A cursor opened by id without a number to return (\<open>getMore(ns, id)\<close>) reads an
  indeterminate batch size when it has to fetch a second batch.
\<close>

theorem getMore_cursor_reads_indeterminate_batchSize:
  "cursor_more ((cursor_of_id ns cid 0 opts)\<lparr>cu_nReturned := n, cu_pos := n, cu_cursorId := cid\<rparr>, c) =
     (if cid = 0 then Inr False else Inl UB,
      ((cursor_of_id ns cid 0 opts)\<lparr>cu_nReturned := n, cu_pos := n, cu_cursorId := cid\<rparr>, c))"
  by (simp add: cursor_more_def cursor_of_id_def requestMore_def bind_act_def with_cursor_def set_cursor_def
      nextBatchSize_def)

end
