(* ===== verification/Names.thy ===== *)
theory Names
  imports BsonAccess
begin

text \<open>
  Names: namespaces (db/namespace.h, db/namespace-inl.h and the helpers of
  client/dbclient.h), hosts with ports (util/hostandport.h) and connection strings
  (client/dbclient.cpp). A \<open>std::string\<close> is its bytes; what C code sees of it ends at the
  first NUL (\<open>cstr\<close>).
\<close>

section \<open>Splitting at a character\<close>

text \<open>\<open>find(c)\<close> with the two \<open>substr\<close>s around it, and the same for the last occurrence.\<close>

definition split_char :: "char \<Rightarrow> bytes \<Rightarrow> (bytes \<times> bytes) option" where
  "split_char c s =
     (let a = takeWhile (\<lambda>x. x \<noteq> c) s
      in if length a < length s then Some (a, drop (Suc (length a)) s) else None)"

definition split_last :: "char \<Rightarrow> bytes \<Rightarrow> (bytes \<times> bytes) option" where
  "split_last c s = map_option (\<lambda>(a, b). (rev b, rev a)) (split_char c (rev s))"

lemma split_char_Some [simp]: "c \<notin> set a \<Longrightarrow> split_char c (a @ c # b) = Some (a, b)"
  by (simp add: split_char_def takeWhile_append)

lemma split_char_None [simp]: "c \<notin> set a \<Longrightarrow> split_char c a = None"
proof -
  assume "c \<notin> set a"
  then have t: "takeWhile (\<lambda>x. x \<noteq> c) a = a" by (auto simp: takeWhile_eq_all_conv)
  show ?thesis unfolding split_char_def t by simp
qed

lemma split_char_inv: "split_char c s = Some (a, b) \<Longrightarrow> s = a @ c # b \<and> c \<notin> set a"
proof -
  assume h: "split_char c s = Some (a, b)"
  let ?t = "takeWhile (\<lambda>x. x \<noteq> c) s"
  have len: "length ?t < length s" and ab: "a = ?t" "b = drop (Suc (length ?t)) s"
    using h by (auto simp: split_char_def Let_def split: if_splits)
  have "s = ?t @ dropWhile (\<lambda>x. x \<noteq> c) s" by simp
  moreover have "dropWhile (\<lambda>x. x \<noteq> c) s \<noteq> []" using len calculation by (metis append_Nil2 less_irrefl)
  then obtain d where d: "dropWhile (\<lambda>x. x \<noteq> c) s = c # d"
    by (metis (mono_tags, lifting) hd_dropWhile list.collapse)
  ultimately have s: "s = ?t @ c # d" by simp
  then have "drop (Suc (length ?t)) s = d" by (metis append_Cons append_eq_conv_conj append_Nil append_assoc length_append_singleton)
  then show ?thesis using s ab by (metis (mono_tags, lifting) set_takeWhileD)
qed

lemma split_last_Some [simp]: "c \<notin> set b \<Longrightarrow> split_last c (a @ c # b) = Some (a, b)"
  using split_char_Some [of c "rev b" "rev a"] by (simp add: split_last_def)

lemma split_last_None [simp]: "c \<notin> set a \<Longrightarrow> split_last c a = None"
  by (simp add: split_last_def)

section \<open>Namespaces\<close>

definition MaxNsLen :: nat where "MaxNsLen = 128"
definition MaxDatabaseNameLen :: nat where "MaxDatabaseNameLen = 256"

record namespace_string =
  nss_db :: bytes
  nss_coll :: bytes

definition namespace_string_new :: "bytes \<Rightarrow> namespace_string" where
  "namespace_string_new ns =
     (case split_char (CHR ''.'') (cstr ns) of
        None \<Rightarrow> \<lparr>nss_db = '''', nss_coll = ''''\<rparr>
      | Some (db, coll) \<Rightarrow> \<lparr>nss_db = db, nss_coll = coll\<rparr>)"

definition nss_ns :: "namespace_string \<Rightarrow> bytes" where
  "nss_ns n = nss_db n @ CHR ''.'' # nss_coll n"

definition nss_isSystem :: "namespace_string \<Rightarrow> bool" where
  "nss_isSystem n \<longleftrightarrow> take 7 (nss_coll n) = ''system.''"

text \<open>\<open>nsToDatabase\<close> in its C form (the process exits when the buffer is overrun) and for strings.\<close>

definition nsToDatabase_cstr :: "bytes \<Rightarrow> bytes res" where
  "nsToDatabase_cstr ns =
     (let db = takeWhile (\<lambda>c. c \<noteq> CHR ''.'') (cstr ns)
      in if length db \<ge> MaxDatabaseNameLen then Inl OutOfBounds else Inr db)"

definition nsToDatabase :: "bytes \<Rightarrow> bytes" where
  "nsToDatabase ns = (case split_char (CHR ''.'') ns of None \<Rightarrow> ns | Some (db, _) \<Rightarrow> db)"

definition nsGetDB :: "bytes \<Rightarrow> bytes" where
  "nsGetDB ns = (case split_char (CHR ''.'') ns of None \<Rightarrow> ns | Some (db, _) \<Rightarrow> db)"

definition nsGetCollection :: "bytes \<Rightarrow> bytes" where
  "nsGetCollection ns = (case split_char (CHR ''.'') ns of None \<Rightarrow> '''' | Some (_, coll) \<Rightarrow> coll)"

text \<open>A \<open>Namespace\<close>: the C string in its 128-byte buffer (the rest is zero).\<close>

definition Namespace_new :: "bytes \<Rightarrow> bytes res" where
  "Namespace_new ns =
     (let s = cstr ns in if length s < MaxNsLen then Inr s else Inl (Uassert 10080))"

definition ns_hasDollarSign :: "bytes \<Rightarrow> bool" where
  "ns_hasDollarSign buf \<longleftrightarrow> CHR ''$'' \<in> set buf"

definition ns_extraName :: "bytes \<Rightarrow> nat \<Rightarrow> bytes res" where
  "ns_extraName buf i =
     (let s = buf @ cstr (''$extr'' @ [char_of ((97 + i) mod 256)])
      in if length s < MaxNsLen then Inr s else Inl (Massert 10348))"

text \<open>\<open>strstr\<close>: the suffix at the first occurrence.\<close>

fun strstr :: "bytes \<Rightarrow> bytes \<Rightarrow> bytes option" where
  "strstr [] pat = (if pat = [] then Some [] else None)"
| "strstr (c # s) pat = (if take (length pat) (c # s) = pat then Some (c # s) else strstr s pat)"

definition ns_isExtra :: "bytes \<Rightarrow> bool" where
  "ns_isExtra buf = (case strstr buf ''$extr'' of None \<Rightarrow> False | Some p \<Rightarrow> length p = 6)"

definition ns_hash :: "bytes \<Rightarrow> 32 word" where
  "ns_hash buf = (foldl (\<lambda>x c. x * 131 + word_of_int (schar c)) 0 buf AND 0x7fffffff) OR 0x8000000"

definition getSisterNS :: "bytes \<Rightarrow> bytes \<Rightarrow> bytes res" where
  "getSisterNS buf local =
     (if take 1 local = ''.'' then Inl AssertFail else Inr (nsGetDB buf @ CHR ''.'' # local))"

section \<open>Hosts\<close>

record host_and_port =
  hp_host :: bytes
  hp_port :: int

definition DefaultDBPort :: int where "DefaultDBPort = 27017"

definition atoi :: "bytes \<Rightarrow> int" where
  "atoi s = i32 (fst (strtol s))"

definition host_and_port_new :: "bytes \<Rightarrow> host_and_port res" where
  "host_and_port_new s =
     (let p = cstr s
      in if p = '''' then Inl (Uassert 13110)
         else case split_last (CHR '':'') p of
           Some (h, portstr) \<Rightarrow>
             (let port = atoi portstr
              in if port > 0 then Inr \<lparr>hp_host = h, hp_port = port\<rparr> else Inl (Uassert 13095))
         | None \<Rightarrow> Inr \<lparr>hp_host = p, hp_port = - 1\<rparr>)"

definition hp_toString :: "host_and_port \<Rightarrow> bytes" where
  "hp_toString h = hp_host h @ (if hp_port h \<noteq> - 1 then CHR '':'' # show_int (hp_port h) else '''')"

definition hp_effective_port :: "host_and_port \<Rightarrow> int" where
  "hp_effective_port h = (if hp_port h \<ge> 0 then hp_port h else DefaultDBPort)"

definition hp_eq :: "host_and_port \<Rightarrow> host_and_port \<Rightarrow> bool" where
  "hp_eq a b \<longleftrightarrow> hp_host a = hp_host b \<and> hp_effective_port a = hp_effective_port b"

text \<open>\<open>std::string\<close>'s order: bytes as unsigned, a proper prefix first.\<close>

definition string_less :: "bytes \<Rightarrow> bytes \<Rightarrow> bool" where
  "string_less a b \<longleftrightarrow> list_cmp (\<lambda>x y. uchar x - uchar y) a b < 0"

definition hp_less :: "host_and_port \<Rightarrow> host_and_port \<Rightarrow> bool" where
  "hp_less a b \<longleftrightarrow>
     (if string_less (hp_host a) (hp_host b) then True
      else if hp_host a = hp_host b then hp_effective_port a < hp_effective_port b else False)"

definition hp_isLocalHost :: "host_and_port \<Rightarrow> bool" where
  "hp_isLocalHost h \<longleftrightarrow> hp_host h = ''localhost'' \<or> take 4 (cstr (hp_host h)) = ''127.'' \<or> hp_host h = ''::1''"

fun shareCommonPrefix :: "bytes \<Rightarrow> bytes \<Rightarrow> nat" where
  "shareCommonPrefix (x # xs) (y # ys) = (if x = y then Suc (shareCommonPrefix xs ys) else 0)"
| "shareCommonPrefix _ _ = 0"

definition sameHostname :: "bytes \<Rightarrow> bytes \<Rightarrow> bool" where
  "sameHostname a b =
     (let n = shareCommonPrefix (cstr a) (cstr b); at_n = (\<lambda>s. if n < length s then s ! n else NUL)
      in if n = length a then at_n b = CHR ''.'' \<or> at_n b = NUL
         else if n = length b then at_n a = CHR ''.'' else False)"

section \<open>Connection strings\<close>

datatype connection_type = INVALID | MASTER | PAIR | SET | SYNC

record connection_string =
  cs_type :: connection_type
  cs_servers :: "host_and_port list"
  cs_string :: bytes
  cs_setName :: bytes

definition typeToString :: "connection_type \<Rightarrow> bytes" where
  "typeToString t =
     (case t of INVALID \<Rightarrow> ''invalid'' | MASTER \<Rightarrow> ''master'' | PAIR \<Rightarrow> ''pair'' | SET \<Rightarrow> ''set'' | SYNC \<Rightarrow> ''sync'')"

fun fill_loop :: "nat \<Rightarrow> bytes \<Rightarrow> host_and_port list res" where
  "fill_loop 0 s = Inr []"
| "fill_loop (Suc n) s =
     (case split_char (CHR '','') s of
        None \<Rightarrow> bind_res (host_and_port_new s) (\<lambda>h. Inr [h])
      | Some (a, rest) \<Rightarrow> bind_res (host_and_port_new a) (\<lambda>h. bind_res (fill_loop n rest) (\<lambda>hs. Inr (h # hs))))"

definition fillServers :: "bytes \<Rightarrow> connection_string \<Rightarrow> connection_string res" where
  "fillServers s cs =
     (let (cs, s) = (case split_char (CHR ''/'') s of
            None \<Rightarrow> (cs, s) | Some (name, rest) \<Rightarrow> (cs\<lparr>cs_setName := name, cs_type := SET\<rparr>, rest))
      in bind_res (fill_loop (Suc (length s)) s) (\<lambda>hs. Inr (cs\<lparr>cs_servers := cs_servers cs @ hs\<rparr>)))"

fun join_servers :: "host_and_port list \<Rightarrow> bytes" where
  "join_servers [] = ''''"
| "join_servers [h] = hp_toString h"
| "join_servers (h # hs) = hp_toString h @ CHR '','' # join_servers hs"

definition finishInit :: "connection_string \<Rightarrow> connection_string" where
  "finishInit cs =
     cs\<lparr>cs_string := (if cs_type cs = SET then cs_setName cs @ ''/'' else '''') @ join_servers (cs_servers cs)\<rparr>"

definition cs_invalid :: connection_string where
  "cs_invalid = \<lparr>cs_type = INVALID, cs_servers = [], cs_string = '''', cs_setName = ''''\<rparr>"

definition cs_of_host :: "host_and_port \<Rightarrow> connection_string" where
  "cs_of_host h = finishInit (cs_invalid\<lparr>cs_type := MASTER, cs_servers := [h]\<rparr>)"

definition cs_check :: "connection_string \<Rightarrow> bool" where
  "cs_check cs =
     (case cs_type cs of
        MASTER \<Rightarrow> length (cs_servers cs) = 1
      | SET \<Rightarrow> cs_setName cs \<noteq> '''' \<and> length (cs_servers cs) \<ge> 1
      | PAIR \<Rightarrow> length (cs_servers cs) = 2
      | _ \<Rightarrow> length (cs_servers cs) > 0)"

definition cs_of_type :: "connection_type \<Rightarrow> bytes \<Rightarrow> bytes \<Rightarrow> connection_string res" where
  "cs_of_type t s setName =
     bind_res (fillServers s (cs_invalid\<lparr>cs_type := t, cs_setName := setName\<rparr>)) (\<lambda>cs.
     bind_res (guard (cs_check cs) AssertFail) (\<lambda>_. Inr (finishInit cs)))"

definition cs_favoring :: "bytes \<Rightarrow> connection_type \<Rightarrow> connection_string res" where
  "cs_favoring s favoredMultipleType =
     bind_res (fillServers s cs_invalid) (\<lambda>cs.
       if cs_type cs \<noteq> INVALID then Inr (finishInit cs)
       else if length (cs_servers cs) = 1 then Inr (finishInit (cs\<lparr>cs_type := MASTER\<rparr>))
       else bind_res (guard (favoredMultipleType = SET \<or> favoredMultipleType = SYNC) AssertFail) (\<lambda>_.
         Inr (finishInit (cs\<lparr>cs_type := favoredMultipleType\<rparr>))))"

definition cs_isValid :: "connection_string \<Rightarrow> bool" where
  "cs_isValid cs \<longleftrightarrow> cs_type cs \<noteq> INVALID"

definition cs_by_commas :: "bytes \<Rightarrow> connection_string res" where
  "cs_by_commas host =
     (let numCommas = count_list host (CHR '','')
      in if numCommas = 0 then bind_res (host_and_port_new host) (\<lambda>h. Inr (cs_of_host h))
         else if numCommas = 1 then cs_of_type PAIR host ''''
         else if numCommas = 2 then cs_of_type SYNC host ''''
         else Inr cs_invalid)"

definition cs_parse :: "bytes \<Rightarrow> connection_string res" where
  "cs_parse host =
     (case split_char (CHR ''/'') host of
        Some (a, b) \<Rightarrow> if a \<noteq> '''' then cs_of_type SET b a else cs_by_commas host
      | None \<Rightarrow> cs_by_commas host)"

section \<open>Lemmas\<close>

lemma atoi_show: "0 < n \<Longrightarrow> n < 2 ^ 31 \<Longrightarrow> atoi (show_int n) = n"
  using strtol_show_nat [of "nat n"] by (simp add: atoi_def show_int_def i32_id)

lemma show_int_digits: "0 < n \<Longrightarrow> c \<in> set (show_int n) \<Longrightarrow> is_digit c"
  using show_nat_digits [of "nat n"] by (auto simp: show_int_def list_all_iff)

definition host_ok :: "host_and_port \<Rightarrow> bool" where
  "host_ok h \<longleftrightarrow> hp_host h \<noteq> '''' \<and> set (hp_host h) \<inter> {NUL, CHR '','', CHR ''/''} = {} \<and>
     (hp_port h = - 1 \<and> CHR '':'' \<notin> set (hp_host h) \<or> 0 < hp_port h \<and> hp_port h < 2 ^ 31)"

lemma host_text:
  assumes "host_ok h"
  shows "host_and_port_new (hp_toString h) = Inr h"
    and "set (hp_toString h) \<inter> {NUL, CHR '','', CHR ''/''} = {}"
proof -
  have digits: "set (show_int (hp_port h)) \<inter> {NUL, CHR '','', CHR ''/'', CHR '':''} = {}" if "0 < hp_port h"
    using show_int_digits [OF that] by (fastforce simp: is_digit_def uchar_def)
  show "set (hp_toString h) \<inter> {NUL, CHR '','', CHR ''/''} = {}"
    using assms digits by (auto simp: hp_toString_def host_ok_def)
  then have "cstr (hp_toString h) = hp_toString h" by (intro cstr_id) auto
  moreover have "hp_toString h \<noteq> ''''" using assms by (simp add: hp_toString_def host_ok_def)
  moreover have "h = \<lparr>hp_host = hp_host h, hp_port = hp_port h\<rparr>" by simp
  ultimately show "host_and_port_new (hp_toString h) = Inr h"
    using assms digits atoi_show [of "hp_port h"]
    by (auto simp: host_and_port_new_def hp_toString_def host_ok_def)
qed

lemma join_Cons: "hs \<noteq> [] \<Longrightarrow> join_servers (h # hs) = hp_toString h @ CHR '','' # join_servers hs"
  by (cases hs) simp_all

lemma fill_join:
  "list_all host_ok hs \<Longrightarrow> hs \<noteq> [] \<Longrightarrow> length hs \<le> n \<Longrightarrow> fill_loop n (join_servers hs) = Inr hs"
proof (induction hs arbitrary: n)
  case (Cons h hs)
  obtain n' where n: "n = Suc n'" using Cons.prems(3) by (cases n) auto
  have h: "host_and_port_new (hp_toString h) = Inr h" "CHR '','' \<notin> set (hp_toString h)"
    using host_text [of h] Cons.prems(1) by auto
  show ?case
  proof (cases "hs = []")
    case True
    then show ?thesis using h n by simp
  next
    case False
    then show ?thesis using h n Cons.IH [of n'] Cons.prems by (simp add: join_Cons)
  qed
qed simp

lemma join_chars: "list_all host_ok hs \<Longrightarrow> set (join_servers hs) \<inter> {NUL, CHR ''/''} = {}"
proof (induction hs)
  case (Cons h hs)
  then show ?case using host_text(2) [of h] by (cases hs) auto
qed simp

lemma join_length: "list_all host_ok hs \<Longrightarrow> length hs \<le> Suc (length (join_servers hs))"
  by (induction hs rule: join_servers.induct) auto

lemma count_commas: "list_all host_ok hs \<Longrightarrow> hs \<noteq> [] \<Longrightarrow> count_list (join_servers hs) (CHR '','') = length hs - 1"
proof (induction hs)
  case (Cons h hs)
  have "count_list (hp_toString h) (CHR '','') = 0"
    using host_text(2) [of h] Cons.prems(1) by (auto intro: count_notin)
  then show ?case using Cons by (cases hs) (simp_all add: join_Cons)
qed simp

lemma fillServers_join:
  assumes "list_all host_ok hs" and "hs \<noteq> []" and "cs_servers cs = []"
  shows "fillServers (join_servers hs) cs = Inr (cs\<lparr>cs_servers := hs\<rparr>)"
proof -
  have "CHR ''/'' \<notin> set (join_servers hs)" using join_chars [OF assms(1)] by auto
  then show ?thesis
    using fill_join [OF assms(1,2), of "Suc (length (join_servers hs))"] join_length [OF assms(1)] assms(3)
    by (simp add: fillServers_def)
qed

lemma share_prefix: "take (shareCommonPrefix a b) a = take (shareCommonPrefix a b) b"
  by (induction a b rule: shareCommonPrefix.induct) auto

lemma share_append: "shareCommonPrefix a (a @ t) = length a" "shareCommonPrefix (a @ t) a = length a"
  by (induction a) (cases t, auto)+

lemma share_le: "shareCommonPrefix a b \<le> length a" "shareCommonPrefix a b \<le> length b"
  by (induction a b rule: shareCommonPrefix.induct) auto

lemma share_whole: "shareCommonPrefix a b = length a \<longleftrightarrow> (\<exists>t. b = a @ t)" "shareCommonPrefix a b = length b \<longleftrightarrow> (\<exists>t. a = b @ t)"
  by (metis append_take_drop_id share_append(1) share_prefix take_all_iff order_refl,
      metis append_take_drop_id share_append(2) share_prefix take_all_iff order_refl)

section \<open>Properties\<close>

text \<open>
  C38: The text of a connection string is parsed back to the same connection: for any list of
  hosts with or without ports, and with a set name or with up to three hosts, \<open>parse\<close>
  finds the same hosts in order, the set name, the type, and the same text.
\<close>

theorem connection_string_roundtrip:
  assumes "list_all host_ok hs" and "hs \<noteq> []" and "CHR ''/'' \<notin> set name" and "name = '''' \<Longrightarrow> length hs \<le> 3"
  shows "cs_parse ((if name = '''' then '''' else name @ ''/'') @ join_servers hs) =
    Inr \<lparr>cs_type = (if name \<noteq> '''' then SET else if length hs = 1 then MASTER else if length hs = 2 then PAIR else SYNC),
         cs_servers = hs, cs_string = (if name = '''' then '''' else name @ ''/'') @ join_servers hs, cs_setName = name\<rparr>"
proof (cases "name = ''''")
  case False
  have split: "split_char (CHR ''/'') (name @ CHR ''/'' # join_servers hs) = Some (name, join_servers hs)"
    by (rule split_char_Some [OF assms(3)])
  have "1 \<le> length hs" using assms(2) by (cases hs) auto
  then show ?thesis
    using False split fillServers_join [OF assms(1,2), of "cs_invalid\<lparr>cs_type := SET, cs_setName := name\<rparr>"]
    by (simp add: cs_parse_def cs_of_type_def cs_invalid_def cs_check_def finishInit_def)
next
  case True
  have slash: "split_char (CHR ''/'') (join_servers hs) = None" using join_chars [OF assms(1)] by auto
  have commas: "count_list (join_servers hs) (CHR '','') = length hs - 1" by (rule count_commas [OF assms(1,2)])
  have fill: "fillServers (join_servers hs) (cs_invalid\<lparr>cs_type := t, cs_setName := ''''\<rparr>) =
      Inr (cs_invalid\<lparr>cs_type := t, cs_setName := '''', cs_servers := hs\<rparr>)" for t
    using fillServers_join [OF assms(1,2), of "cs_invalid\<lparr>cs_type := t, cs_setName := ''''\<rparr>"] by (simp add: cs_invalid_def)
  have "length hs = 1 \<or> length hs = 2 \<or> length hs = 3" using assms(2,4) True
    by (cases hs) (auto simp: numeral_2_eq_2 numeral_3_eq_3 le_Suc_eq)
  then consider h where "hs = [h]" | "length hs = 2" | "length hs = 3"
    by (metis One_nat_def length_0_conv length_Suc_conv)
  then show ?thesis
  proof cases
    case (1 h)
    then show ?thesis
      using True slash commas host_text(1) [of h] assms(1)
      by (simp add: cs_parse_def cs_by_commas_def cs_of_host_def finishInit_def cs_invalid_def)
  next
    case 2
    then show ?thesis
      using True slash commas fill [of PAIR]
      by (simp add: cs_parse_def cs_by_commas_def cs_of_type_def finishInit_def cs_invalid_def cs_check_def)
  next
    case 3
    then show ?thesis
      using True slash commas fill [of SYNC]
      by (simp add: cs_parse_def cs_by_commas_def cs_of_type_def finishInit_def cs_invalid_def cs_check_def)
  qed
qed

theorem connection_string_roundtrip_witness:
  "cs_parse ((if ''rs'' = '''' then '''' else ''rs'' @ ''/'') @ join_servers [\<lparr>hp_host = ''a'', hp_port = - 1\<rparr>, \<lparr>hp_host = ''b'', hp_port = 27018\<rparr>]) =
    Inr \<lparr>cs_type = (if ''rs'' \<noteq> '''' then SET else if (2::nat) = 1 then MASTER else if (2::nat) = 2 then PAIR else SYNC),
         cs_servers = [\<lparr>hp_host = ''a'', hp_port = - 1\<rparr>, \<lparr>hp_host = ''b'', hp_port = 27018\<rparr>],
         cs_string = (if ''rs'' = '''' then '''' else ''rs'' @ ''/'') @ join_servers [\<lparr>hp_host = ''a'', hp_port = - 1\<rparr>, \<lparr>hp_host = ''b'', hp_port = 27018\<rparr>],
         cs_setName = ''rs''\<rparr>"
  using connection_string_roundtrip [of "[\<lparr>hp_host = ''a'', hp_port = - 1\<rparr>, \<lparr>hp_host = ''b'', hp_port = 27018\<rparr>]" "''rs''"]
  by (simp add: host_ok_def)

text \<open>
  \<open>sameHostname\<close> holds exactly when the names are equal or one is the other followed by a
  dot and a domain; so it is symmetric.
\<close>

theorem sameHostname_spec:
  assumes "NUL \<notin> set a" and "NUL \<notin> set b"
  shows "(sameHostname a b \<longleftrightarrow> a = b \<or> (\<exists>t. b = a @ CHR ''.'' # t) \<or> (\<exists>t. a = b @ CHR ''.'' # t)) \<and>
    sameHostname a b = sameHostname b a"
proof -
  have spec: "sameHostname a b \<longleftrightarrow> a = b \<or> (\<exists>t. b = a @ CHR ''.'' # t) \<or> (\<exists>t. a = b @ CHR ''.'' # t)"
    if "NUL \<notin> set a" "NUL \<notin> set b" for a b
  proof -
    let ?n = "shareCommonPrefix a b"
    consider "?n = length a" | "?n \<noteq> length a" "?n = length b" | "?n \<noteq> length a" "?n \<noteq> length b"
      by blast
    then show ?thesis
    proof cases
      case 1
      then obtain t where t: "b = a @ t" using share_whole(1) [of a b] by blast
      have "sameHostname a b \<longleftrightarrow> t = [] \<or> hd t = CHR ''.''"
        using that t share_append(1) [of a t] by (cases t) (auto simp: sameHostname_def Let_def nth_append)
      moreover have "a = b \<longleftrightarrow> t = []" "(\<exists>u. b = a @ CHR ''.'' # u) \<longleftrightarrow> t \<noteq> [] \<and> hd t = CHR ''.''"
          "\<not> (\<exists>u. a = b @ CHR ''.'' # u)"
        unfolding t by (cases t; simp)+
      ultimately show ?thesis by blast
    next
      case 2
      then obtain t where t: "a = b @ t" using share_whole(2) [of a b] by blast
      have ne: "t \<noteq> []" using 2 t by auto
      have "sameHostname a b \<longleftrightarrow> hd t = CHR ''.''"
        using that t ne share_append(2) [of b t] by (cases t) (auto simp: sameHostname_def Let_def nth_append)
      moreover have "a \<noteq> b" "(\<exists>u. a = b @ CHR ''.'' # u) \<longleftrightarrow> hd t = CHR ''.''"
          "\<not> (\<exists>u. b = a @ CHR ''.'' # u)"
        unfolding t using ne by (cases t; simp)+
      ultimately show ?thesis by blast
    next
      case 3
      then have "\<nexists>t. b = a @ t" "\<nexists>t. a = b @ t" using share_whole [of a b] by auto
      then show ?thesis using 3 that by (auto simp: sameHostname_def Let_def)
    qed
  qed
  show ?thesis using spec [OF assms] spec [OF assms(2,1)] by auto
qed

theorem sameHostname_spec_witness:
  "sameHostname ''nyc1'' ''nyc1.acme'' \<longleftrightarrow>
    (\<exists>t. ''nyc1.acme'' = ''nyc1'' @ CHR ''.'' # t) \<and> ''nyc1'' \<noteq> ''nyc1.acme''"
  using sameHostname_spec [of "''nyc1''" "''nyc1.acme''"] by simp

text \<open>
  The hash of a namespace is always a positive \<open>int\<close>, whatever its characters, as the hash
  table that stores it requires.
\<close>

theorem ns_hash_positive: "2 ^ 27 \<le> sint (ns_hash buf) \<and> sint (ns_hash buf) < 2 ^ 31"
proof -
  define x :: "32 word" where "x = foldl (\<lambda>x c. x * 131 + word_of_int (schar c)) 0 buf"
  have h: "ns_hash buf = (x AND 0x7fffffff) OR 0x8000000" by (simp add: ns_hash_def x_def)
  have u: "uint (ns_hash buf) = (uint x AND 0x7fffffff) OR 0x8000000" unfolding h by (simp add: uint_or uint_and)
  have a: "0 \<le> uint x AND 0x7fffffff" "uint x AND 0x7fffffff < 2 ^ 31"
    by simp_all
  have "2 ^ 27 \<le> uint (ns_hash buf)"
    unfolding u using or_greater_eq [where k = "0x8000000" and l = "uint x AND 0x7fffffff"] a(1) by (simp add: or.commute)
  moreover have "uint (ns_hash buf) < 2 ^ 31"
    unfolding u using OR_upper [OF a, where y = "0x8000000"] by simp
  ultimately show ?thesis by (simp add: sint_uint signed_take_bit_int_eq_self)
qed

end
