(* ===== verification/Md5.thy ===== *)
theory Md5
  imports BsonTypes
begin

text \<open>
  MD5 (util/md5.c, util/md5.hpp), which the client uses to digest passwords: the block
  function, the incremental interface with its buffer and its bit count in two words, and
  the padding. The reference is the digest of RFC 1321: the whole message is padded and its
  blocks are processed in order.
\<close>

section \<open>The block function\<close>

definition T_MASK :: "32 word" where "T_MASK = 0xffffffff"

definition ROTATE_LEFT :: "32 word \<Rightarrow> nat \<Rightarrow> 32 word" where
  "ROTATE_LEFT x n = push_bit n x OR drop_bit (32 - n) x"

definition md5_F :: "32 word \<Rightarrow> 32 word \<Rightarrow> 32 word \<Rightarrow> 32 word" where
  "md5_F x y z = (x AND y) OR (NOT x AND z)"

definition md5_G :: "32 word \<Rightarrow> 32 word \<Rightarrow> 32 word \<Rightarrow> 32 word" where
  "md5_G x y z = (x AND z) OR (y AND NOT z)"

definition md5_H :: "32 word \<Rightarrow> 32 word \<Rightarrow> 32 word \<Rightarrow> 32 word" where
  "md5_H x y z = x XOR y XOR z"

definition md5_I :: "32 word \<Rightarrow> 32 word \<Rightarrow> 32 word \<Rightarrow> 32 word" where
  "md5_I x y z = y XOR (x OR NOT z)"

text \<open>The rounds as lists of \<open>k\<close>, \<open>s\<close> and \<open>T\<close>; the registers rotate from one operation to the next.\<close>

definition round1 :: "(nat \<times> nat \<times> 32 word) list" where
  "round1 = [
     (0, 7, T_MASK XOR 0x28955b87), (1, 12, T_MASK XOR 0x173848a9), (2, 17, 0x242070db), (3, 22, T_MASK XOR 0x3e423111),
     (4, 7, T_MASK XOR 0x0a83f050), (5, 12, 0x4787c62a), (6, 17, T_MASK XOR 0x57cfb9ec), (7, 22, T_MASK XOR 0x02b96afe),
     (8, 7, 0x698098d8), (9, 12, T_MASK XOR 0x74bb0850), (10, 17, T_MASK XOR 0x0000a44e), (11, 22, T_MASK XOR 0x76a32841),
     (12, 7, 0x6b901122), (13, 12, T_MASK XOR 0x02678e6c), (14, 17, T_MASK XOR 0x5986bc71), (15, 22, 0x49b40821)]"

definition round2 :: "(nat \<times> nat \<times> 32 word) list" where
  "round2 = [
     (1, 5, T_MASK XOR 0x09e1da9d), (6, 9, T_MASK XOR 0x3fbf4cbf), (11, 14, 0x265e5a51), (0, 20, T_MASK XOR 0x16493855),
     (5, 5, T_MASK XOR 0x29d0efa2), (10, 9, 0x02441453), (15, 14, T_MASK XOR 0x275e197e), (4, 20, T_MASK XOR 0x182c0437),
     (9, 5, 0x21e1cde6), (14, 9, T_MASK XOR 0x3cc8f829), (3, 14, T_MASK XOR 0x0b2af278), (8, 20, 0x455a14ed),
     (13, 5, T_MASK XOR 0x561c16fa), (2, 9, T_MASK XOR 0x03105c07), (7, 14, 0x676f02d9), (12, 20, T_MASK XOR 0x72d5b375)]"

definition round3 :: "(nat \<times> nat \<times> 32 word) list" where
  "round3 = [
     (5, 4, T_MASK XOR 0x0005c6bd), (8, 11, T_MASK XOR 0x788e097e), (11, 16, 0x6d9d6122), (14, 23, T_MASK XOR 0x021ac7f3),
     (1, 4, T_MASK XOR 0x5b4115bb), (4, 11, 0x4bdecfa9), (7, 16, T_MASK XOR 0x0944b49f), (10, 23, T_MASK XOR 0x4140438f),
     (13, 4, 0x289b7ec6), (0, 11, T_MASK XOR 0x155ed805), (3, 16, T_MASK XOR 0x2b10cf7a), (6, 23, 0x04881d05),
     (9, 4, T_MASK XOR 0x262b2fc6), (12, 11, T_MASK XOR 0x1924661a), (15, 16, 0x1fa27cf8), (2, 23, T_MASK XOR 0x3b53a99a)]"

definition round4 :: "(nat \<times> nat \<times> 32 word) list" where
  "round4 = [
     (0, 6, T_MASK XOR 0x0bd6ddbb), (7, 10, 0x432aff97), (14, 15, T_MASK XOR 0x546bdc58), (5, 21, T_MASK XOR 0x036c5fc6),
     (12, 6, 0x655b59c3), (3, 10, T_MASK XOR 0x70f3336d), (10, 15, T_MASK XOR 0x00100b82), (1, 21, T_MASK XOR 0x7a7ba22e),
     (8, 6, 0x6fa87e4f), (15, 10, T_MASK XOR 0x01d3191f), (6, 15, T_MASK XOR 0x5cfebceb), (13, 21, 0x4e0811a1),
     (4, 6, T_MASK XOR 0x08ac817d), (11, 10, T_MASK XOR 0x42c50dca), (2, 15, 0x2ad7d2bb), (9, 21, T_MASK XOR 0x14792c6e)]"

type_synonym registers = "32 word \<times> 32 word \<times> 32 word \<times> 32 word"

definition md5_SET :: "(32 word \<Rightarrow> 32 word \<Rightarrow> 32 word \<Rightarrow> 32 word) \<Rightarrow> 32 word list \<Rightarrow> nat \<times> nat \<times> 32 word \<Rightarrow>
    registers \<Rightarrow> registers" where
  "md5_SET f X = (\<lambda>(k, s, Ti) (a, b, c, d).
     (let t = a + f b c d + X ! k + Ti in (d, ROTATE_LEFT t s + b, b, c)))"

text \<open>The sixteen little-endian words of a block.\<close>

definition block_words :: "bytes \<Rightarrow> 32 word list" where
  "block_words data = map (\<lambda>i. word_of_nat (le_val (take 4 (drop (4 * i) data)))) [0..<16]"

definition md5_process :: "bytes \<Rightarrow> registers \<Rightarrow> registers" where
  "md5_process data abcd =
     (let X = block_words data;
          (a, b, c, d) = fold (md5_SET md5_I X) round4 (fold (md5_SET md5_H X) round3
             (fold (md5_SET md5_G X) round2 (fold (md5_SET md5_F X) round1 abcd)));
          (a0, b0, c0, d0) = abcd
      in (a0 + a, b0 + b, c0 + c, d0 + d))"

section \<open>The incremental interface\<close>

text \<open>\<open>md_buf\<close>: the 64 bytes of the buffer, indeterminate until written.\<close>

record md5_state =
  md_count0 :: "32 word"
  md_count1 :: "32 word"
  md_abcd :: registers
  md_buf :: "char option list"

definition md5_init :: md5_state where
  "md5_init =
     \<lparr>md_count0 = 0, md_count1 = 0,
      md_abcd = (0x67452301, T_MASK XOR 0x10325476, T_MASK XOR 0x67452301, 0x10325476),
      md_buf = replicate 64 None\<rparr>"

definition buf_put :: "nat \<Rightarrow> bytes \<Rightarrow> char option list \<Rightarrow> char option list" where
  "buf_put ofs xs b = take ofs b @ map Some xs @ drop (ofs + length xs) b"

text \<open>The loop over full blocks and the final partial block.\<close>

function md5_blocks :: "bytes \<Rightarrow> md5_state \<Rightarrow> md5_state" where
  "md5_blocks p st =
     (if 64 \<le> length p then md5_blocks (drop 64 p) (st\<lparr>md_abcd := md5_process (take 64 p) (md_abcd st)\<rparr>)
      else if p \<noteq> [] then st\<lparr>md_buf := buf_put 0 p (md_buf st)\<rparr> else st)"
  by pat_completeness auto
termination
  by (relation "measure (\<lambda>(p, st). length p)") auto

declare md5_blocks.simps [simp del]

text \<open>The message length in bits, in two words.\<close>

definition md5_count :: "nat \<Rightarrow> md5_state \<Rightarrow> md5_state" where
  "md5_count nbytes st =
     (let nbits = (word_of_nat (8 * nbytes) :: 32 word);
          st = st\<lparr>md_count1 := md_count1 st + word_of_nat (nbytes div 2 ^ 29), md_count0 := md_count0 st + nbits\<rparr>
      in if md_count0 st < nbits then st\<lparr>md_count1 := md_count1 st + 1\<rparr> else st)"

text \<open>An initial partial block, when the buffer is not empty; then the rest.\<close>

definition md5_data :: "nat \<Rightarrow> bytes \<Rightarrow> md5_state \<Rightarrow> md5_state" where
  "md5_data offset data st =
     (if offset = 0 then md5_blocks data st
      else let copy = (if offset + length data > 64 then 64 - offset else length data);
               st = st\<lparr>md_buf := buf_put offset (take copy data) (md_buf st)\<rparr>
           in if offset + copy < 64 then st
              else md5_blocks (drop copy data)
                     (st\<lparr>md_abcd := md5_process (map the (md_buf st)) (md_abcd st)\<rparr>))"

definition md5_append :: "bytes \<Rightarrow> md5_state \<Rightarrow> md5_state" where
  "md5_append data st =
     (let offset = unat (drop_bit 3 (md_count0 st) AND 63)
      in if data = [] then st else md5_data offset data (md5_count (length data) st))"

text \<open>Bytes of the words, least significant first.\<close>

definition md5_length :: "md5_state \<Rightarrow> bytes" where
  "md5_length st = le32 (md_count0 st) @ le32 (md_count1 st)"

definition md5_pad :: bytes where
  "md5_pad = CHR 0x80 # replicate 63 NUL"

definition md5_finish :: "md5_state \<Rightarrow> bytes" where
  "md5_finish st =
     (let data = md5_length st;
          st = md5_append (take (unat ((55 - drop_bit 3 (md_count0 st)) AND 63) + 1) md5_pad) st;
          st = md5_append data st
      in case md_abcd st of (a, b, c, d) \<Rightarrow> le32 a @ le32 b @ le32 c @ le32 d)"

definition md5 :: "bytes \<Rightarrow> bytes" where
  "md5 buf = md5_finish (md5_append buf md5_init)"

definition digestToString :: "bytes \<Rightarrow> bytes" where
  "digestToString digest =
     concat (map (\<lambda>c. [''0123456789abcdef'' ! (of_char c div 16), ''0123456789abcdef'' ! (of_char c mod 16)]) digest)"

definition md5simpledigest :: "bytes \<Rightarrow> bytes" where
  "md5simpledigest s = digestToString (md5 s)"

section \<open>The digest of RFC 1321\<close>

fun rfc_fold :: "nat \<Rightarrow> bytes \<Rightarrow> registers \<Rightarrow> registers" where
  "rfc_fold 0 p r = r"
| "rfc_fold (Suc n) p r = rfc_fold n (drop 64 p) (md5_process (take 64 p) r)"

definition rfc_initial :: registers where
  "rfc_initial = (0x67452301, 0xefcdab89, 0x98badcfe, 0x10325476)"

definition rfc_pad_zeros :: "nat \<Rightarrow> nat" where
  "rfc_pad_zeros n = nat ((55 - int n) mod 64)"

definition rfc_padded :: "bytes \<Rightarrow> bytes" where
  "rfc_padded bs =
     bs @ CHR 0x80 # replicate (rfc_pad_zeros (length bs)) NUL @
     le32 (word_of_nat (8 * length bs)) @ le32 (word_of_nat (8 * length bs div 2 ^ 32))"

definition md5_rfc :: "bytes \<Rightarrow> bytes" where
  "md5_rfc bs =
     (let p = rfc_padded bs
      in case rfc_fold (length p div 64) p rfc_initial of (a, b, c, d) \<Rightarrow> le32 a @ le32 b @ le32 c @ le32 d)"

section \<open>Blocks\<close>

lemma rfc_fold_split:
  "64 * m \<le> length p \<Longrightarrow> rfc_fold (m + n) p r = rfc_fold n (drop (64 * m) p) (rfc_fold m p r)"
proof (induction m arbitrary: p r)
  case (Suc m)
  then show ?case using Suc.IH [of "drop 64 p"] by (simp add: algebra_simps)
qed simp

lemma rfc_fold_prefix: "64 * n \<le> length p \<Longrightarrow> rfc_fold n (p @ q) r = rfc_fold n p r"
proof (induction n arbitrary: p r)
  case (Suc n)
  then show ?case using Suc.IH [of "drop 64 p"] by simp
qed simp

definition whole :: "bytes \<Rightarrow> nat" where "whole p = 64 * (length p div 64)"

lemma md5_blocks_run:
  "md5_blocks p st = st\<lparr>md_abcd := rfc_fold (length p div 64) p (md_abcd st),
     md_buf := (if drop (whole p) p = [] then md_buf st else buf_put 0 (drop (whole p) p) (md_buf st))\<rparr>"
proof (induction p st rule: md5_blocks.induct)
  case (1 p st)
  show ?case
  proof (cases "64 \<le> length p")
    case True
    then have "length p div 64 = Suc (length (drop 64 p) div 64)" by (simp add: div_nat_eqI le_div_geq)
    moreover from this have "drop (whole p) p = drop (whole (drop 64 p)) (drop 64 p)"
      by (simp add: whole_def add.commute)
    ultimately show ?thesis using True 1(1) by (subst md5_blocks.simps) simp
  next
    case False
    then show ?thesis by (subst md5_blocks.simps) (simp add: whole_def)
  qed
qed

section \<open>The state after appending a message\<close>

definition holds :: "bytes \<Rightarrow> md5_state \<Rightarrow> bool" where
  "holds bs st \<longleftrightarrow> md_abcd st = rfc_fold (length bs div 64) bs rfc_initial \<and> length (md_buf st) = 64 \<and>
     take (length bs mod 64) (md_buf st) = map Some (drop (whole bs) bs) \<and>
     md_count0 st = word_of_nat (8 * length bs) \<and> md_count1 st = word_of_nat (8 * length bs div 2 ^ 32)"

lemma holds_init: "holds [] md5_init"
  by (simp add: holds_def md5_init_def rfc_initial_def T_MASK_def)

lemma count_offset: "unat (drop_bit 3 (word_of_nat (8 * n) :: 32 word) AND 63) = n mod 64"
proof -
  have "unat (drop_bit 3 (word_of_nat (8 * n) :: 32 word)) = (8 * n mod 2 ^ 32) div 8"
    by (simp only: unsigned_drop_bit_eq unsigned_of_nat) (simp add: take_bit_eq_mod drop_bit_eq_div)
  also have "\<dots> = n mod 2 ^ 29" by (simp add: mod_mult_mult1 [of 8 n "2 ^ 29", simplified])
  finally have u: "unat (drop_bit 3 (word_of_nat (8 * n) :: 32 word)) = n mod 2 ^ 29" .
  have "x AND 63 = x mod 64" for x :: nat
    using take_bit_eq_mask [of 6 x] by (simp add: take_bit_eq_mod mask_eq_exp_minus_1)
  then have "unat (drop_bit 3 (word_of_nat (8 * n) :: 32 word) AND 63) = (n mod 2 ^ 29) mod 64"
    using u by (simp add: unsigned_and_eq)
  then show ?thesis by (simp add: mod_mod_cancel)
qed

lemma mod_sum_less: "x < M \<Longrightarrow> y < M \<Longrightarrow> (x + y) mod M < y \<longleftrightarrow> M \<le> x + (y :: nat)"
  by (cases "M \<le> x + y") (auto simp: le_mod_geq)

lemma div_sum: "x < M \<Longrightarrow> y < M \<Longrightarrow> (x + y) div M = (if M \<le> x + (y :: nat) then 1 else 0)"
  by (cases "M \<le> x + y") (auto simp: le_div_geq)

lemma word_carry:
  fixes a b :: nat
  shows "(word_of_nat a + word_of_nat b :: 32 word) < word_of_nat b \<longleftrightarrow> 2 ^ 32 \<le> a mod 2 ^ 32 + b mod 2 ^ 32"
proof -
  let ?a = "a mod 2 ^ 32" and ?b = "b mod 2 ^ 32"
  have "unat (word_of_nat a + word_of_nat b :: 32 word) = (?a + ?b) mod 2 ^ 32"
    unfolding of_nat_add [symmetric] by (simp only: unsigned_of_nat take_bit_eq_mod) (simp add: mod_simps)
  moreover have "unat (word_of_nat b :: 32 word) = ?b" by (simp add: unsigned_of_nat take_bit_eq_mod)
  moreover have "(?a + ?b) mod 2 ^ 32 < ?b \<longleftrightarrow> 2 ^ 32 \<le> ?a + ?b"
    by (rule mod_sum_less) simp_all
  ultimately show ?thesis by (simp add: word_less_nat_alt)
qed

lemma count_high:
  fixes a b :: nat
  shows "word_of_nat (a div 2 ^ 32) + word_of_nat (b div 2 ^ 32) +
      (if 2 ^ 32 \<le> a mod 2 ^ 32 + b mod 2 ^ 32 then 1 else 0) = (word_of_nat ((a + b) div 2 ^ 32) :: 32 word)"
proof -
  have "(a mod 2 ^ 32 + b mod 2 ^ 32) div 2 ^ 32 = (if 2 ^ 32 \<le> a mod 2 ^ 32 + b mod 2 ^ 32 then 1 else 0)"
    by (rule div_sum) simp_all
  then have "(a + b) div 2 ^ 32 = a div 2 ^ 32 + b div 2 ^ 32 + (if 2 ^ 32 \<le> a mod 2 ^ 32 + b mod 2 ^ 32 then 1 else 0)"
    by (subst div_add1_eq) simp
  then show ?thesis by simp
qed

text \<open>What appending does to the registers and the buffer, when \<open>R\<close> waits in the buffer.\<close>

definition absorb :: "bytes \<Rightarrow> registers \<Rightarrow> bytes \<Rightarrow> registers \<Rightarrow> char option list \<Rightarrow> bool" where
  "absorb R abcd xs abcd' buf' \<longleftrightarrow>
     abcd' = rfc_fold (length (R @ xs) div 64) (R @ xs) abcd \<and> length buf' = 64 \<and>
     take (length (R @ xs) mod 64) buf' = map Some (drop (whole (R @ xs)) (R @ xs))"

lemma length_buf_put: "ofs + length xs \<le> length b \<Longrightarrow> length (buf_put ofs xs b) = length b"
  by (simp add: buf_put_def)

lemma take_buf_put: "ofs + length xs \<le> length b \<Longrightarrow> take (ofs + length xs) (buf_put ofs xs b) = take ofs b @ map Some xs"
  by (simp add: buf_put_def)

lemma length_rest: "length (drop (whole p) p) = length p mod 64"
  by (simp add: whole_def minus_mult_div_eq_mod)

lemma absorb_blocks:
  assumes "length (md_buf st) = 64"
  shows "absorb [] (md_abcd st) xs (md_abcd (md5_blocks xs st)) (md_buf (md5_blocks xs st))"
proof -
  have r: "length (drop (whole xs) xs) = length xs mod 64" by (rule length_rest)
  then have le: "0 + length (drop (whole xs) xs) \<le> length (md_buf st)" using assms by simp
  show ?thesis
    using assms length_buf_put [OF le] take_buf_put [OF le] r
    by (auto simp: absorb_def md5_blocks_run)
qed

lemma absorb_data:
  assumes "length R < 64" and "length (md_buf st) = 64" and "take (length R) (md_buf st) = map Some R"
  shows "absorb R (md_abcd st) xs (md_abcd (md5_data (length R) xs st)) (md_buf (md5_data (length R) xs st))"
proof -
  consider "R = []" | "R \<noteq> []" "length R + length xs < 64" | "R \<noteq> []" "64 \<le> length R + length xs" by linarith
  then show ?thesis
  proof cases
    case 1
    then show ?thesis using absorb_blocks [OF assms(2), of xs] by (simp add: md5_data_def)
  next
    case 2
    have app: "md5_data (length R) xs st = st\<lparr>md_buf := buf_put (length R) xs (md_buf st)\<rparr>"
      using 2 by (simp add: md5_data_def Let_def)
    have le: "length R + length xs \<le> length (md_buf st)" using 2 assms(2) by simp
    show ?thesis
      using app assms(2,3) 2 length_buf_put [OF le] take_buf_put [OF le]
      by (simp add: absorb_def whole_def)
  next
    case 3
    let ?c = "64 - length R"
    let ?buf = "buf_put (length R) (take ?c xs) (md_buf st)"
    have c: "length R + length (take ?c xs) = 64" using 3 assms(1) by simp
    have "?buf = map Some (R @ take ?c xs)"
      using take_buf_put [of "length R" "take ?c xs" "md_buf st"] length_buf_put [of "length R" "take ?c xs" "md_buf st"]
        c assms(2,3) by simp
    then have buf: "map the ?buf = R @ take ?c xs" "length ?buf = 64" using c by (simp_all add: comp_def)
    let ?st = "st\<lparr>md_buf := ?buf, md_abcd := md5_process (R @ take ?c xs) (md_abcd st)\<rparr>"
    have cc: "(if length R + length xs > 64 then ?c else length xs) = length (take ?c xs)"
        "take (length (take ?c xs)) xs = take ?c xs" "drop (length (take ?c xs)) xs = drop ?c xs"
      using 3 assms(1) by auto
    have app: "md5_data (length R) xs st = md5_blocks (drop ?c xs) ?st"
      unfolding md5_data_def cc(1) Let_def using 3 c buf(1) cc(2,3) by simp
    have d: "length (R @ xs) div 64 = Suc (length (drop ?c xs) div 64)" "length (R @ xs) mod 64 = length (drop ?c xs) mod 64"
      using 3 assms(1) by (simp_all add: le_div_geq le_mod_geq) (simp add: add.commute)+
    have t: "take 64 (R @ xs) = R @ take ?c xs" "drop 64 (R @ xs) = drop ?c xs" using assms(1) by simp_all
    have w: "drop (whole (R @ xs)) (R @ xs) = drop (whole (drop ?c xs)) (drop ?c xs)"
      unfolding whole_def d(1) using t(2) by (metis drop_drop mult_Suc_right add.commute)
    have "absorb [] (md_abcd ?st) (drop ?c xs) (md_abcd (md5_data (length R) xs st)) (md_buf (md5_data (length R) xs st))"
      unfolding app by (rule absorb_blocks) (simp add: buf)
    then show ?thesis using d w t by (simp add: absorb_def)
  qed
qed

lemma md5_count_other [simp]: "md_abcd (md5_count n st) = md_abcd st" "md_buf (md5_count n st) = md_buf st"
  by (simp_all add: md5_count_def Let_def)

lemma absorb_append:
  assumes "length R < 64" and "length (md_buf st) = 64" and "take (length R) (md_buf st) = map Some R"
    and "unat (drop_bit 3 (md_count0 st) AND 63) = length R"
  shows "absorb R (md_abcd st) xs (md_abcd (md5_append xs st)) (md_buf (md5_append xs st))"
proof (cases "xs = []")
  case True
  then show ?thesis using assms by (simp add: md5_append_def absorb_def whole_def)
next
  case False
  then show ?thesis
    using absorb_data [of R "md5_count (length xs) st" xs] assms by (simp add: md5_append_def)
qed

lemma md5_blocks_counts [simp]: "md_count0 (md5_blocks p st) = md_count0 st" "md_count1 (md5_blocks p st) = md_count1 st"
  by (simp_all add: md5_blocks_run)

lemma md5_data_counts [simp]: "md_count0 (md5_data n p st) = md_count0 st" "md_count1 (md5_data n p st) = md_count1 st"
  by (simp_all add: md5_data_def Let_def)

lemma md5_count_run:
  assumes "md_count0 st = word_of_nat a" and "md_count1 st = word_of_nat (a div 2 ^ 32)"
  shows "md_count0 (md5_count n st) = word_of_nat (a + 8 * n) \<and> md_count1 (md5_count n st) = word_of_nat ((a + 8 * n) div 2 ^ 32)"
proof -
  have "n div 2 ^ 29 = 8 * n div 2 ^ 32" by (simp add: div_mult2_eq [of "8 * n" 8 "2 ^ 29", simplified])
  then show ?thesis
    using assms count_high [of a "8 * n"] word_carry [of a "8 * n"]
    by (cases "2 ^ 32 \<le> a mod 2 ^ 32 + 8 * n mod 2 ^ 32") (simp_all add: md5_count_def Let_def del: of_nat_mult)
qed

lemma drop_shift: "drop (64 * (q + m)) p = drop (64 * m) (drop (64 * q) p)"
  by (simp add: algebra_simps)

lemma holds_append:
  assumes "holds bs st"
  shows "holds (bs @ xs) (md5_append xs st)"
proof -
  let ?R = "drop (whole bs) bs" and ?q = "length bs div 64"
  have r: "length ?R = length bs mod 64" by (rule length_rest)
  have r64: "length ?R < 64" unfolding r by simp
  have h: "md_abcd st = rfc_fold ?q bs rfc_initial" "length (md_buf st) = 64" "take (length ?R) (md_buf st) = map Some ?R"
      "md_count0 st = word_of_nat (8 * length bs)" "md_count1 st = word_of_nat (8 * length bs div 2 ^ 32)"
    using assms r by (simp_all add: holds_def)
  have off: "unat (drop_bit 3 (md_count0 st) AND 63) = length ?R" unfolding h(4) r by (rule count_offset)
  have ab: "absorb ?R (md_abcd st) xs (md_abcd (md5_append xs st)) (md_buf (md5_append xs st))"
    by (rule absorb_append [OF r64 h(2,3) off])
  have cnt: "md_count0 (md5_append xs st) = word_of_nat (8 * length (bs @ xs))"
      "md_count1 (md5_append xs st) = word_of_nat (8 * length (bs @ xs) div 2 ^ 32)"
  proof -
    have e: "8 * length (bs @ xs) = 8 * length bs + 8 * length xs" by simp
    show "md_count0 (md5_append xs st) = word_of_nat (8 * length (bs @ xs))"
      "md_count1 (md5_append xs st) = word_of_nat (8 * length (bs @ xs) div 2 ^ 32)"
      unfolding e using md5_count_run [OF h(4,5), of "length xs"] h(4,5) by (simp_all add: md5_append_def Let_def)
  qed
  have wl: "64 * ?q \<le> length bs" "whole bs = 64 * ?q" by (simp_all add: whole_def)
  have dr: "drop (64 * ?q) (bs @ xs) = ?R @ xs" using wl by simp
  have "length bs = 64 * ?q + length ?R" unfolding r by simp
  then have tot: "length (bs @ xs) = 64 * ?q + length (?R @ xs)" by (metis add.assoc length_append)
  have len: "length (bs @ xs) div 64 = ?q + length (?R @ xs) div 64" "length (bs @ xs) mod 64 = length (?R @ xs) mod 64"
    unfolding tot by simp_all
  have f: "rfc_fold (length (bs @ xs) div 64) (bs @ xs) rfc_initial =
      rfc_fold (length (?R @ xs) div 64) (?R @ xs) (rfc_fold ?q bs rfc_initial)"
    unfolding len(1) using wl(1) rfc_fold_split [of ?q "bs @ xs"] rfc_fold_prefix [OF wl(1)] dr by simp
  have d: "drop (whole (bs @ xs)) (bs @ xs) = drop (whole (?R @ xs)) (?R @ xs)"
    unfolding whole_def len(1) drop_shift dr by (rule refl)
  have ab': "md_abcd (md5_append xs st) = rfc_fold (length (?R @ xs) div 64) (?R @ xs) (md_abcd st)"
      "length (md_buf (md5_append xs st)) = 64"
      "take (length (?R @ xs) mod 64) (md_buf (md5_append xs st)) = map Some (drop (whole (?R @ xs)) (?R @ xs))"
    using ab by (simp_all only: absorb_def)
  show ?thesis unfolding holds_def f d len(2) using ab' cnt h(1) by (simp only: simp_thms)
qed

section \<open>Finishing\<close>

lemma drop_bit_count: "uint (drop_bit 3 (word_of_nat (8 * n) :: 32 word)) = int (n mod 2 ^ 29)"
proof -
  have "unat (drop_bit 3 (word_of_nat (8 * n) :: 32 word)) = (8 * n mod 2 ^ 32) div 8"
    by (simp only: unsigned_drop_bit_eq unsigned_of_nat) (simp add: take_bit_eq_mod drop_bit_eq_div)
  also have "\<dots> = n mod 2 ^ 29" by (simp add: mod_mult_mult1 [of 8 n "2 ^ 29", simplified])
  finally show ?thesis by (metis uint_nat)
qed

lemma pad_count: "unat ((55 - drop_bit 3 (word_of_nat (8 * n) :: 32 word)) AND 63) = rfc_pad_zeros n"
proof -
  let ?w = "drop_bit 3 (word_of_nat (8 * n) :: 32 word)"
  have "uint ((55 - ?w) AND 63) = uint (55 - ?w) AND 63" by (simp add: uint_and)
  also have "\<dots> = uint (55 - ?w) mod 64"
    using take_bit_eq_mask [of 6 "uint (55 - ?w)"] by (simp add: take_bit_eq_mod mask_eq_exp_minus_1)
  also have "uint (55 - ?w) = (55 - uint ?w) mod 2 ^ 32" by (simp add: uint_word_ariths)
  also have "(55 - uint ?w) mod 2 ^ 32 mod 64 = (55 - uint ?w) mod 64" by (simp add: mod_mod_cancel)
  also have "\<dots> = (55 - int n mod 2 ^ 29) mod 64" unfolding drop_bit_count by (simp add: zmod_int)
  also have "\<dots> = (55 - int n mod 2 ^ 29 mod 64) mod 64" by (simp add: mod_diff_right_eq)
  also have "\<dots> = (55 - int n) mod 64" by (simp add: mod_mod_cancel mod_diff_right_eq)
  finally show ?thesis unfolding rfc_pad_zeros_def unat_eq_nat_uint by simp
qed

lemma rfc_pad_zeros_less: "rfc_pad_zeros n < 64"
  by (simp add: rfc_pad_zeros_def nat_less_iff)

lemma md5_finish_run:
  assumes "holds bs st"
  shows "md5_finish st = md5_rfc bs"
proof -
  let ?k = "rfc_pad_zeros (length bs)"
  let ?st1 = "md5_append (CHR 0x80 # replicate ?k NUL) st"
  have c: "md_count0 st = word_of_nat (8 * length bs)" "md_count1 st = word_of_nat (8 * length bs div 2 ^ 32)"
    using assms by (simp_all add: holds_def)
  have k: "unat ((55 - drop_bit 3 (md_count0 st)) AND 63) = ?k" unfolding c(1) by (rule pad_count)
  have pad: "take (?k + 1) md5_pad = CHR 0x80 # replicate ?k NUL"
    using rfc_pad_zeros_less [of "length bs"] by (simp add: md5_pad_def)
  have "holds ((bs @ CHR 0x80 # replicate ?k NUL) @ md5_length st) (md5_append (md5_length st) ?st1)"
    by (intro holds_append assms)
  moreover have "(bs @ CHR 0x80 # replicate ?k NUL) @ md5_length st = rfc_padded bs"
    unfolding rfc_padded_def md5_length_def c by simp
  ultimately have "md_abcd (md5_append (md5_length st) ?st1) = rfc_fold (length (rfc_padded bs) div 64) (rfc_padded bs) rfc_initial"
    by (simp only: holds_def)
  then show ?thesis unfolding md5_finish_def md5_rfc_def Let_def k pad by (simp only:)
qed

lemma md5_pieces: "md5_finish (fold md5_append pieces md5_init) = md5_rfc (concat pieces)"
proof -
  have "holds (bs @ concat pieces) (fold md5_append pieces st)" if "holds bs st" for bs st
    using that
  proof (induction pieces arbitrary: bs st)
    case (Cons p ps)
    then show ?case using holds_append [OF Cons.prems, of p] by fastforce
  qed simp
  from this [OF holds_init] show ?thesis by (simp add: md5_finish_run)
qed

lemma md5_whole: "md5 buf = md5_rfc buf"
  using md5_pieces [of "[buf]"] by (simp add: md5_def)

section \<open>Properties\<close>


end
