(* ===== verification/BsonCompare.thy ===== *)
theory BsonCompare
  imports BsonAccess
begin

unbundle bit_operations_syntax

text \<open>
  The order of BSON values (db/jsobj.cpp, bson/bsonelement.h, bson/ordering.h): canonical
  types, \<open>compareElementValues\<close>, the three forms of \<open>woCompare\<close>, \<open>Ordering\<close> and the
  sort order. From here on an object is the list of its elements: BsonAccess shows that
  iterating the bytes gives exactly these. \<open>None\<close> stands for the \<open>eoo()\<close> element.
\<close>

section \<open>Comparing elements\<close>

definition canonicalType :: "bson_value \<Rightarrow> int" where
  "canonicalType v =
     (case value_type v of
        MinKey \<Rightarrow> type_code MinKey | MaxKey \<Rightarrow> type_code MaxKey
      | EOO \<Rightarrow> 0 | Undefined \<Rightarrow> 0
      | jstNULL \<Rightarrow> 5
      | NumberDouble \<Rightarrow> 10 | NumberInt \<Rightarrow> 10 | NumberLong \<Rightarrow> 10
      | String \<Rightarrow> 15 | Symbol \<Rightarrow> 15
      | Object \<Rightarrow> 20
      | Array \<Rightarrow> 25
      | BinData \<Rightarrow> 30
      | jstOID \<Rightarrow> 35
      | Bool \<Rightarrow> 40
      | Date \<Rightarrow> 45 | Timestamp \<Rightarrow> 45
      | RegEx \<Rightarrow> 50
      | DBRef \<Rightarrow> 55
      | Code \<Rightarrow> 60
      | CodeWScope \<Rightarrow> 65)"

definition is_number :: "bson_value \<Rightarrow> bool" where
  "is_number v \<longleftrightarrow> value_type v \<in> {NumberLong, NumberDouble, NumberInt}"

text \<open>\<open>number()\<close>, as in BsonAccess but on values.\<close>

fun number :: "bson_value \<Rightarrow> 64 word" where
  "number (VDouble d) = d"
| "number (VInt n) = dbl_of_int (sint n)"
| "number (VLong n) = dbl_of_int (sint n)"
| "number _ = 0"

text \<open>\<open>!( x <= max && x >= -max )\<close>: not only NaN but both infinities too.\<close>

definition nan_test :: "64 word \<Rightarrow> bool" where
  "nan_test d \<longleftrightarrow> \<not> (dbl_le d dbl_max \<and> dbl_le dbl_min_neg d)"

definition compare_doubles :: "64 word \<Rightarrow> 64 word \<Rightarrow> int" where
  "compare_doubles left right =
     (if nan_test left then (if nan_test right then 0 else - 1)
      else if nan_test right then 1
      else let x = dbl_diff_sign left right in if x < 0 then - 1 else if x = 0 then 0 else 1)"

definition sign3 :: "bool \<Rightarrow> bool \<Rightarrow> int" where
  "sign3 lt eq = (if lt then - 1 else if eq then 0 else 1)"

text \<open>
  \<open>compareElementValues\<close>. \<open>UB\<close>: the right value has another type and its bytes would be
  read as if it had the left one's. \<open>woCompare\<close> on objects (no ordering, names
  considered) is the recursive case.
\<close>

fun compareElementValues :: "bson_value \<Rightarrow> bson_value \<Rightarrow> int res"
  and woCompare_obj :: "doc \<Rightarrow> doc \<Rightarrow> int res" where
  "compareElementValues (VBool a) r = (case r of VBool b \<Rightarrow> Inr (of_bool a - of_bool b) | _ \<Rightarrow> Inl UB)"
| "compareElementValues (VTimestamp a) r =
     (case r of VTimestamp b \<Rightarrow> Inr (sign3 (a < b) (a = b)) | VDate b \<Rightarrow> Inr (sign3 (a < b) (a = b)) | _ \<Rightarrow> Inl UB)"
| "compareElementValues (VDate a) r =
     (case r of VTimestamp b \<Rightarrow> Inr (sign3 (a < b) (a = b)) | VDate b \<Rightarrow> Inr (sign3 (a < b) (a = b)) | _ \<Rightarrow> Inl UB)"
| "compareElementValues (VLong a) r =
     (case r of VLong b \<Rightarrow> Inr (sign3 (sint a < sint b) (sint a = sint b))
      | _ \<Rightarrow> Inr (compare_doubles (number (VLong a)) (number r)))"
| "compareElementValues (VInt a) r = Inr (compare_doubles (number (VInt a)) (number r))"
| "compareElementValues (VDouble a) r = Inr (compare_doubles (number (VDouble a)) (number r))"
| "compareElementValues (VOID a) r = (case r of VOID b \<Rightarrow> Inr (memcmp a b) | _ \<Rightarrow> Inl UB)"
| "compareElementValues (VCode a) r =
     (case r of VCode b \<Rightarrow> Inr (strcmp a b) | VSymbol b \<Rightarrow> Inr (strcmp a b) | VString b \<Rightarrow> Inr (strcmp a b) | _ \<Rightarrow> Inl UB)"
| "compareElementValues (VSymbol a) r =
     (case r of VCode b \<Rightarrow> Inr (strcmp a b) | VSymbol b \<Rightarrow> Inr (strcmp a b) | VString b \<Rightarrow> Inr (strcmp a b) | _ \<Rightarrow> Inl UB)"
| "compareElementValues (VString a) r =
     (case r of VCode b \<Rightarrow> Inr (strcmp a b) | VSymbol b \<Rightarrow> Inr (strcmp a b) | VString b \<Rightarrow> Inr (strcmp a b) | _ \<Rightarrow> Inl UB)"
| "compareElementValues (VObject a) r =
     (case r of VObject b \<Rightarrow> woCompare_obj a b | VArray b \<Rightarrow> woCompare_obj a b | _ \<Rightarrow> Inl AssertFail)"
| "compareElementValues (VArray a) r =
     (case r of VObject b \<Rightarrow> woCompare_obj a b | VArray b \<Rightarrow> woCompare_obj a b | _ \<Rightarrow> Inl AssertFail)"
| "compareElementValues (VDBRef a d) r =
     (let lv = enc_value (VDBRef a d); rv = enc_value r; n = int (length lv) - int (length rv)
      in Inr (if n \<noteq> 0 then n else memcmp lv rv))"
| "compareElementValues (VBinData s a) r =
     (case r of VBinData t b \<Rightarrow>
        (let n = int (length a) - int (length b)
         in Inr (if n \<noteq> 0 then n else memcmp (chr8 s # a) (chr8 t # b)))
      | _ \<Rightarrow> Inl UB)"
| "compareElementValues (VRegEx a s) r =
     (case r of VRegEx b t \<Rightarrow> Inr (let c = strcmp a b in if c \<noteq> 0 then c else strcmp s t) | _ \<Rightarrow> Inl AssertFail)"
| "compareElementValues (VCodeWScope a s) r =
     (let f = canonicalType (VCodeWScope a s) - canonicalType r
      in if f \<noteq> 0 then Inr f
         else case r of VCodeWScope b t \<Rightarrow>
             Inr (let f = strcmp a b in if f \<noteq> 0 then f else strcmp (enc_doc s) (enc_doc t))
           | _ \<Rightarrow> Inl UB)"
| "compareElementValues l r =
     (let f = canonicalType l - canonicalType r in Inr (if f < 0 then - 1 else if f = 0 then 0 else 1))"
| "woCompare_obj [] [] = Inr 0"
| "woCompare_obj [] (_ # _) = Inr (- 1)"
| "woCompare_obj (_ # _) [] = Inr 1"
| "woCompare_obj ((n, v) # ls) ((m, w) # rs) =
     bind_res
       (let x = canonicalType v - canonicalType w
        in if x \<noteq> 0 \<and> (\<not> is_number v \<or> \<not> is_number w) then Inr x
           else let x = strcmp n m in if x \<noteq> 0 then Inr x else compareElementValues v w)
       (\<lambda>x. if x \<noteq> 0 then Inr x else woCompare_obj ls rs)"

definition woCompare_elem :: "bool \<Rightarrow> elem \<Rightarrow> elem \<Rightarrow> int res" where
  "woCompare_elem considerFieldName l r =
     (let x = canonicalType (snd l) - canonicalType (snd r)
      in if x \<noteq> 0 \<and> (\<not> is_number (snd l) \<or> \<not> is_number (snd r)) then Inr x
         else let x = strcmp (fst l) (fst r)
              in if considerFieldName \<and> x \<noteq> 0 then Inr x else compareElementValues (snd l) (snd r))"

section \<open>Comparing objects under a key pattern\<close>

text \<open>
  \<open>BSONObj::woCompare(r, idxKey, considerFieldName)\<close>. The third iterator walks the key
  pattern; past its EOO, \<open>next\<close> asserts. \<open>None\<close>: the pattern is empty, so unordered.
\<close>

fun woCompare_loop :: "bool \<Rightarrow> doc option \<Rightarrow> bool \<Rightarrow> doc \<Rightarrow> doc \<Rightarrow> int res" where
  "woCompare_loop c k past ls rs =
     (if k \<noteq> None \<and> past then Inl AssertFail
      else case ls of
        [] \<Rightarrow> Inr (if rs = [] then 0 else - 1)
      | l # ls' \<Rightarrow>
         (case rs of
            [] \<Rightarrow> Inr 1
          | r # rs' \<Rightarrow>
             bind_res (woCompare_elem c l r) (\<lambda>x.
               let desc = (case k of Some (ke # _) \<Rightarrow> dbl_lt (number (snd ke)) 0 | _ \<Rightarrow> False);
                   x = (if desc then - x else x)
               in if x \<noteq> 0 then Inr x
                  else woCompare_loop c (map_option tl k) (k = Some []) ls' rs')))"

definition woCompare :: "bool \<Rightarrow> doc \<Rightarrow> doc \<Rightarrow> doc \<Rightarrow> int res" where
  "woCompare considerFieldName idxKey l r =
     (if l = [] then Inr (if r = [] then 0 else - 1)
      else if r = [] then Inr 1
      else woCompare_loop considerFieldName (if idxKey = [] then None else Some idxKey) False l r)"

text \<open>\<open>Ordering\<close>: the key pattern as one bit per key. \<open>1 << n\<close> and the masks are 32 bits wide.\<close>

record ordering =
  ord_bits :: "32 word"
  ord_nkeys :: "32 word"

definition ordering_get :: "ordering \<Rightarrow> nat \<Rightarrow> int" where
  "ordering_get o' i = (if bit (ord_bits o') i then - 1 else 1)"

definition ordering_descending :: "ordering \<Rightarrow> 32 word \<Rightarrow> bool" where
  "ordering_descending o' msk \<longleftrightarrow> ord_bits o' AND msk \<noteq> 0"

fun make_loop :: "doc \<Rightarrow> 32 word \<Rightarrow> nat \<Rightarrow> ordering res" where
  "make_loop [] b n = Inr \<lparr>ord_bits = b, ord_nkeys = word_of_nat n\<rparr>"
| "make_loop ((_, v) # ks) b n =
     bind_res (guard (n \<le> 31) (Uassert 13103)) (\<lambda>_.
       make_loop ks (if dbl_lt (number v) 0 then b OR push_bit n 1 else b) (Suc n))"

definition ordering_make :: "doc \<Rightarrow> ordering res" where
  "ordering_make keyPattern = make_loop keyPattern 0 0"

definition ordering_string :: "ordering \<Rightarrow> bytes" where
  "ordering_string o' = map (\<lambda>i. if ordering_get o' i > 0 then CHR ''+'' else CHR ''-'') [0..<unat (ord_nkeys o')]"

fun woCompare_mask :: "ordering \<Rightarrow> bool \<Rightarrow> 32 word \<Rightarrow> doc \<Rightarrow> doc \<Rightarrow> int res" where
  "woCompare_mask o' c msk [] rs = Inr (if rs = [] then 0 else - 1)"
| "woCompare_mask o' c msk (l # ls) [] = Inr 1"
| "woCompare_mask o' c msk (l # ls) (r # rs) =
     bind_res (woCompare_elem c l r) (\<lambda>x.
       let x = (if ordering_descending o' msk then - x else x)
       in if x \<noteq> 0 then Inr x else woCompare_mask o' c (push_bit 1 msk) ls rs)"

definition woCompare_ordering :: "bool \<Rightarrow> ordering \<Rightarrow> doc \<Rightarrow> doc \<Rightarrow> int res" where
  "woCompare_ordering considerFieldName o' l r =
     (if l = [] then Inr (if r = [] then 0 else - 1)
      else if r = [] then Inr 1
      else woCompare_mask o' considerFieldName 1 l r)"

section \<open>Every comparison returns\<close>

text \<open>The results as plain integers.\<close>

definition vcmp :: "bson_value \<Rightarrow> bson_value \<Rightarrow> int" where
  "vcmp v w = (case compareElementValues v w of Inr x \<Rightarrow> x | Inl _ \<Rightarrow> 0)"

definition canon_cmp :: "elem \<Rightarrow> elem \<Rightarrow> int" where
  "canon_cmp l r = canonicalType (snd l) - canonicalType (snd r)"

definition ecmp :: "bool \<Rightarrow> elem \<Rightarrow> elem \<Rightarrow> int" where
  "ecmp c = lex_cmp canon_cmp (lex_cmp (\<lambda>l r. if c then strcmp (fst l) (fst r) else 0) (\<lambda>l r. vcmp (snd l) (snd r)))"

lemmas canon_simps = canonicalType_def type_code.simps

lemma canonical_number [simp]: "is_number v \<Longrightarrow> canonicalType v = 10"
  by (cases v) (simp_all add: is_number_def canonicalType_def)

lemma woCompare_elem_eq:
  "woCompare_elem c l r =
     (if canon_cmp l r \<noteq> 0 then Inr (canon_cmp l r)
      else if c \<and> strcmp (fst l) (fst r) \<noteq> 0 then Inr (strcmp (fst l) (fst r))
      else compareElementValues (snd l) (snd r))"
  by (auto simp: woCompare_elem_def canon_cmp_def Let_def)

lemma woCompare_obj_Cons:
  "woCompare_obj (l # ls) (r # rs) =
     bind_res (woCompare_elem True l r) (\<lambda>x. if x \<noteq> 0 then Inr x else woCompare_obj ls rs)"
  by (cases l; cases r) (simp add: woCompare_elem_def Let_def)

lemma woCompare_obj_total_if:
  assumes "\<And>n v w. (n, v) \<in> set ls \<Longrightarrow> canonicalType v = canonicalType w \<Longrightarrow> \<exists>x. compareElementValues v w = Inr x"
  shows "\<exists>x. woCompare_obj ls rs = Inr x"
  using assms
proof (induction ls arbitrary: rs)
  case Nil
  then show ?case by (cases rs) auto
next
  case step: (Cons l ls)
  show ?case
  proof (cases rs)
    case (Cons r rs')
    have "\<exists>x. woCompare_elem True l r = Inr x"
      using step.prems [of "fst l" "snd l" "snd r"] by (auto simp: woCompare_elem_eq canon_cmp_def)
    moreover have "\<exists>x. woCompare_obj ls rs' = Inr x"
      using step.prems by (intro step.IH) auto
    ultimately show ?thesis using Cons by (auto simp: woCompare_obj_Cons)
  qed simp
qed

lemma compare_total: "canonicalType v = canonicalType w \<Longrightarrow> \<exists>x. compareElementValues v w = Inr x"
proof (induction v arbitrary: w rule: bson_value_induct)
  case (scalar v)
  then show ?case by (cases v) (auto simp: canon_simps Let_def split: bson_value.splits)
next
  case (object es)
  then show ?case using woCompare_obj_total_if [of es]
    by (cases w) (auto simp: canon_simps)
next
  case (array es)
  then show ?case using woCompare_obj_total_if [of es]
    by (cases w) (auto simp: canon_simps)
next
  case (code_w_scope c es)
  then show ?case by (cases w) (auto simp: canon_simps Let_def)
qed

lemma compare_Inr: "canonicalType v = canonicalType w \<Longrightarrow> compareElementValues v w = Inr (vcmp v w)"
  using compare_total [of v w] by (auto simp: vcmp_def)

lemma woCompare_elem_Inr: "woCompare_elem c l r = Inr (ecmp c l r)"
  using compare_Inr [of "snd l" "snd r"] by (auto simp: woCompare_elem_eq ecmp_def lex_cmp_def canon_cmp_def)

lemma woCompare_obj_Inr: "woCompare_obj ls rs = Inr (list_cmp (ecmp True) ls rs)"
proof (induction ls arbitrary: rs)
  case Nil
  then show ?case by (cases rs) auto
next
  case (Cons l ls)
  then show ?case by (cases rs) (simp_all only: woCompare_obj_Cons woCompare_elem_Inr, simp_all)
qed

lemma woCompare_loop_unordered: "woCompare_loop c None p ls rs = Inr (list_cmp (ecmp c) ls rs)"
proof (induction ls arbitrary: rs p)
  case Nil
  then show ?case by (cases rs) auto
next
  case (Cons l ls)
  then show ?case by (cases rs) (simp_all add: woCompare_elem_Inr)
qed

lemma woCompare_unordered: "woCompare c [] l r = Inr (list_cmp (ecmp c) l r)"
  by (cases l; cases r) (simp_all add: woCompare_def woCompare_loop_unordered del: woCompare_loop.simps)

section \<open>A total preorder\<close>

text \<open>
  Where the comparison is an order: integers that a double represents exactly. (For
  larger ones, longs compare with each other as integers but with other numbers as
  doubles.)
\<close>

fun exact_value :: "bson_value \<Rightarrow> bool" where
  "exact_value (VLong n) \<longleftrightarrow> \<bar>sint n\<bar> \<le> 2 ^ 53"
| "exact_value (VObject es) \<longleftrightarrow> (\<forall>(n, v) \<in> set es. exact_value v)"
| "exact_value (VArray es) \<longleftrightarrow> (\<forall>(n, v) \<in> set es. exact_value v)"
| "exact_value _ \<longleftrightarrow> True"

definition comparable :: "bson_value \<Rightarrow> bool" where
  "comparable v \<longleftrightarrow> wf_value v \<and> exact_value v"

definition comparable_doc :: "doc \<Rightarrow> bool" where
  "comparable_doc d \<longleftrightarrow> (\<forall>e \<in> set d. wf_elem e \<and> exact_value (snd e))"

lemma comparable_nested [simp]:
  "comparable (VObject d) \<longleftrightarrow> comparable_doc d" "comparable (VArray d) \<longleftrightarrow> comparable_doc d"
  by (auto simp: comparable_def comparable_doc_def wf_doc_def list_all_iff)

text \<open>Numbers: those that are not finite first, then by value.\<close>

lemma nan_test_finite: "nan_test d \<longleftrightarrow> \<not> dbl_finite d"
  by (simp add: nan_test_def dbl_range_test)

definition num_cmp :: "bson_value \<Rightarrow> bson_value \<Rightarrow> int" where
  "num_cmp = lex_cmp (\<lambda>v w. of_bool (dbl_finite (number v)) - of_bool (dbl_finite (number w)))
     (\<lambda>v w. (if dbl_finite (number v) then dbl_scaled (number v) else 0) - (if dbl_finite (number w) then dbl_scaled (number w) else 0))"

lemma three_way_num: "three_way num_cmp D"
  unfolding num_cmp_def
  by (rule three_way_lex_all)
     (rule three_way_key [where f = "\<lambda>v. of_bool (dbl_finite (number v))"],
      rule three_way_key [where f = "\<lambda>v. if dbl_finite (number v) then dbl_scaled (number v) else 0"])

lemma compare_doubles_num: "compare_doubles (number v) (number w) = sgn (num_cmp v w)"
  by (auto simp: compare_doubles_def nan_test_finite num_cmp_def lex_cmp_def dbl_diff_sign_def Let_def sgn_if)

lemma int_dbl_unit_pos: "0 < int dbl_unit"
  by (simp add: dbl_unit_def)

lemma vcmp_numbers:
  assumes "is_number v" "is_number w" "exact_value v" "exact_value w"
  shows "sgn (vcmp v w) = sgn (num_cmp v w)"
proof (cases "\<exists>a b. v = VLong a \<and> w = VLong b")
  case True
  then obtain a b where vw: "v = VLong a" "w = VLong b" by blast
  have e: "dbl_scaled (dbl_of_int (sint a)) = sint a * int dbl_unit" "dbl_finite (dbl_of_int (sint a))"
      "dbl_scaled (dbl_of_int (sint b)) = sint b * int dbl_unit" "dbl_finite (dbl_of_int (sint b))"
    using assms(3,4) vw dbl_of_int_exact [of "sint a"] dbl_of_int_exact [of "sint b"] by auto
  have "sgn (num_cmp v w) = sgn ((sint a - sint b) * int dbl_unit)"
    using vw e by (simp add: num_cmp_def lex_cmp_def algebra_simps)
  also have "\<dots> = sgn (sint a - sint b)" using int_dbl_unit_pos by (simp add: sgn_mult)
  finally show ?thesis using vw by (auto simp: vcmp_def sign3_def sgn_if)
next
  case False
  then have "vcmp v w = compare_doubles (number v) (number w)"
    using assms(1,2) by (cases v; cases w) (auto simp: vcmp_def is_number_def)
  then show ?thesis by (simp add: compare_doubles_num)
qed

text \<open>The other types, one at a time: the values of the canonical type of \<open>v\<close>.\<close>

lemma vcmp_by_key:
  assumes "\<And>x y. x \<in> D \<Longrightarrow> y \<in> D \<Longrightarrow> sgn (vcmp x y) = sgn (c (f x) (f y))" and "three_way c (f ` D)"
  shows "three_way vcmp D"
  by (rule three_way_sgn_cong [OF three_way_image [OF assms(2)]]) (rule assms(1))

fun val_bytes :: "bson_value \<Rightarrow> bytes" where
  "val_bytes (VString s) = s" | "val_bytes (VSymbol s) = s" | "val_bytes (VCode s) = s"
| "val_bytes (VOID d) = d" | "val_bytes (VBinData t d) = chr8 t # d" | "val_bytes (VRegEx r _) = r"
| "val_bytes (VCodeWScope c _) = c" | "val_bytes v = enc_value v"

fun val_rest :: "bson_value \<Rightarrow> bytes" where
  "val_rest (VRegEx _ opts) = opts" | "val_rest (VCodeWScope _ d) = enc_doc d" | "val_rest _ = []"

fun val_word :: "bson_value \<Rightarrow> int" where
  "val_word (VBool b) = of_bool b" | "val_word (VDate w) = uint w" | "val_word (VTimestamp w) = uint w"
| "val_word _ = 0"

fun val_doc :: "bson_value \<Rightarrow> doc" where
  "val_doc (VObject d) = d" | "val_doc (VArray d) = d" | "val_doc _ = []"

text \<open>What the comparison of two values of the same canonical type amounts to.\<close>

definition sized_memcmp :: "bytes \<Rightarrow> bytes \<Rightarrow> int" where
  "sized_memcmp = lex_cmp (\<lambda>a b. int (length a) - int (length b)) memcmp"

definition pair_strcmp :: "bytes \<times> bytes \<Rightarrow> bytes \<times> bytes \<Rightarrow> int" where
  "pair_strcmp = lex_cmp (\<lambda>a b. strcmp (fst a) (fst b)) (\<lambda>a b. strcmp (snd a) (snd b))"

lemma three_way_sized: "three_way sized_memcmp D"
  unfolding sized_memcmp_def
proof (rule three_way_lex)
  show "three_way (\<lambda>a b. int (length a) - int (length b)) D" by (rule three_way_key)
  show "three_way memcmp {y \<in> D. int (length x) - int (length y) = 0}" for x :: bytes
    by (rule three_way_subset [OF three_way_memcmp [of "length x"]]) auto
qed

lemma three_way_pair: "three_way pair_strcmp D"
  unfolding pair_strcmp_def
  by (rule three_way_lex_all)
     (rule three_way_image [where f = fst], rule three_way_subset [OF strc.three_way_axioms], simp,
      rule three_way_image [where f = snd], rule three_way_subset [OF strc.three_way_axioms], simp)

lemma strcmp_three_way: "three_way strcmp D"
  by (rule three_way_subset [OF strc.three_way_axioms]) simp

lemma vcmp_same:
  assumes "canonicalType v = canonicalType w"
  shows "value_type v \<in> {MinKey, MaxKey, Undefined, jstNULL} \<Longrightarrow> vcmp v w = 0"
    and "value_type v \<in> {Bool, Date, Timestamp} \<Longrightarrow> sgn (vcmp v w) = sgn (val_word v - val_word w)"
    and "value_type v \<in> {String, Symbol, Code} \<Longrightarrow> vcmp v w = strcmp (val_bytes v) (val_bytes w)"
    and "value_type v = jstOID \<Longrightarrow> vcmp v w = memcmp (val_bytes v) (val_bytes w)"
    and "value_type v \<in> {DBRef, BinData} \<Longrightarrow> vcmp v w = sized_memcmp (val_bytes v) (val_bytes w)"
    and "value_type v \<in> {RegEx, CodeWScope} \<Longrightarrow>
       vcmp v w = pair_strcmp (val_bytes v, val_rest v) (val_bytes w, val_rest w)"
    and "value_type v \<in> {Object, Array} \<Longrightarrow> vcmp v w = list_cmp (ecmp True) (val_doc v) (val_doc w)"
  using assms
  by (cases v; (simp; fail | (cases w; simp add: canon_simps vcmp_def Let_def sign3_def word_less_def word_uint_eq_iff
      sized_memcmp_def pair_strcmp_def lex_cmp_def woCompare_obj_Inr; fail)))+

text \<open>One canonical type.\<close>

lemma canonical_class:
  assumes "canonicalType v = canonicalType w"
  shows "value_type v = value_type w \<or> (is_number v \<and> is_number w) \<or>
    {value_type v, value_type w} \<subseteq> {String, Symbol} \<or> {value_type v, value_type w} \<subseteq> {Date, Timestamp}"
  using assms by (cases "value_type v"; cases "value_type w"; simp add: canon_simps is_number_def)

definition class_of :: "bson_value set \<Rightarrow> bson_value \<Rightarrow> bson_value set" where
  "class_of D v = {w \<in> D. canonicalType v = canonicalType w}"

lemma class_three_way:
  assumes D: "\<And>v. v \<in> D \<Longrightarrow> comparable v"
    and docs: "three_way (ecmp True) (\<Union>v \<in> D. set (val_doc v))" and v: "v \<in> D"
  shows "three_way vcmp (class_of D v)"
proof -
  have same: "canonicalType x = canonicalType y" if "x \<in> class_of D v" "y \<in> class_of D v" for x y
    using that by (simp add: class_of_def)
  have ty: "value_type x = value_type v \<or> (is_number v \<and> is_number x) \<or>
      {value_type v, value_type x} \<subseteq> {String, Symbol} \<or> {value_type v, value_type x} \<subseteq> {Date, Timestamp}"
    if "x \<in> class_of D v" for x
    using canonical_class [of v x] that by (auto simp: class_of_def)
  consider "is_number v" | "value_type v \<in> {MinKey, MaxKey, Undefined, jstNULL}"
    | "value_type v \<in> {Bool, Date, Timestamp}" | "value_type v \<in> {String, Symbol, Code}"
    | "value_type v = jstOID" | "value_type v \<in> {DBRef, BinData}" | "value_type v \<in> {RegEx, CodeWScope}"
    | "value_type v \<in> {Object, Array}"
    by (cases v) (simp_all add: is_number_def)
  then show ?thesis
  proof cases
    case 1
    then have num: "is_number x" if "x \<in> class_of D v" for x
      using ty [OF that] by (auto simp: is_number_def)
    have "exact_value x" if "x \<in> class_of D v" for x
      using that D by (simp add: class_of_def comparable_def)
    with num show ?thesis by (intro three_way_sgn_cong [OF three_way_num] vcmp_numbers)
  next
    case 2
    then have "vcmp x y = 0" if "x \<in> class_of D v" "y \<in> class_of D v" for x y
      using vcmp_same(1) [OF same [OF that]] ty [OF that(1)] by (auto simp: is_number_def)
    then show ?thesis by (intro three_way_sgn_cong [OF three_way_key [of "\<lambda>_. 0"]]) simp
  next
    case 3
    then have "sgn (vcmp x y) = sgn (val_word x - val_word y)" if "x \<in> class_of D v" "y \<in> class_of D v" for x y
      using vcmp_same(2) [OF same [OF that]] ty [OF that(1)] by (auto simp: is_number_def)
    then show ?thesis by (intro three_way_sgn_cong [OF three_way_key])
  next
    case 4
    then have "sgn (vcmp x y) = sgn (strcmp (val_bytes x) (val_bytes y))" if "x \<in> class_of D v" "y \<in> class_of D v" for x y
      using vcmp_same(3) [OF same [OF that]] ty [OF that(1)] by (auto simp: is_number_def)
    then show ?thesis using strcmp_three_way by (rule vcmp_by_key)
  next
    case 5
    then have t: "value_type x = jstOID" if "x \<in> class_of D v" for x
      using ty [OF that] by (auto simp: is_number_def)
    then have "sgn (vcmp x y) = sgn (memcmp (val_bytes x) (val_bytes y))" if "x \<in> class_of D v" "y \<in> class_of D v" for x y
      using vcmp_same(4) [OF same [OF that]] that by auto
    moreover have "length (val_bytes x) = 12" if "x \<in> class_of D v" for x
      using t [OF that] that D [of x] by (cases x) (auto simp: class_of_def comparable_def)
    then have "three_way memcmp (val_bytes ` class_of D v)"
      by (intro three_way_subset [OF oidc.three_way_axioms]) auto
    ultimately show ?thesis by (rule vcmp_by_key)
  next
    case 6
    then have "sgn (vcmp x y) = sgn (sized_memcmp (val_bytes x) (val_bytes y))" if "x \<in> class_of D v" "y \<in> class_of D v" for x y
      using vcmp_same(5) [OF same [OF that]] ty [OF that(1)] by (auto simp: is_number_def)
    then show ?thesis using three_way_sized by (rule vcmp_by_key)
  next
    case 7
    then have "sgn (vcmp x y) = sgn (pair_strcmp (val_bytes x, val_rest x) (val_bytes y, val_rest y))"
      if "x \<in> class_of D v" "y \<in> class_of D v" for x y
      using vcmp_same(6) [OF same [OF that]] ty [OF that(1)] by (auto simp: is_number_def)
    then show ?thesis using three_way_pair by (rule vcmp_by_key [where f = "\<lambda>x. (val_bytes x, val_rest x)"])
  next
    case 8
    then have "sgn (vcmp x y) = sgn (list_cmp (ecmp True) (val_doc x) (val_doc y))" if "x \<in> class_of D v" "y \<in> class_of D v" for x y
      using vcmp_same(7) [OF same [OF that]] ty [OF that(1)] by (auto simp: is_number_def)
    moreover have "val_doc ` class_of D v \<subseteq> lists (\<Union>v \<in> D. set (val_doc v))" by (auto simp: class_of_def)
    then have "three_way (list_cmp (ecmp True)) (val_doc ` class_of D v)"
      by (rule three_way_subset [OF three_way_list [OF docs]])
    ultimately show ?thesis by (rule vcmp_by_key)
  qed
qed

lemma ecmp_three_way:
  assumes "\<And>v. v \<in> snd ` E \<Longrightarrow> three_way vcmp (class_of (snd ` E) v)"
  shows "three_way (ecmp c) E"
  unfolding ecmp_def
proof (rule three_way_lex)
  show "three_way canon_cmp E"
    using three_way_key [of "\<lambda>e. canonicalType (snd e)" E] by (simp add: canon_cmp_def [abs_def])
  fix l assume l: "l \<in> E"
  let ?C = "{r \<in> E. canon_cmp l r = 0}"
  have "three_way (\<lambda>l r. if c then strcmp (fst l) (fst r) else 0) ?C"
    using three_way_image [OF strcmp_three_way, of fst] three_way_key [of "\<lambda>_. 0"] by (cases c) auto
  moreover have "snd ` ?C \<subseteq> class_of (snd ` E) (snd l)" by (auto simp: class_of_def canon_cmp_def)
  then have "three_way (\<lambda>l r. vcmp (snd l) (snd r)) ?C"
    using assms l by (intro three_way_image [where f = snd] three_way_subset [OF assms [of "snd l"]]) auto
  ultimately show "three_way (lex_cmp (\<lambda>l r. if c then strcmp (fst l) (fst r) else 0) (\<lambda>l r. vcmp (snd l) (snd r))) ?C"
    by (rule three_way_lex_all)
qed

text \<open>By induction on the nesting of the values compared.\<close>

definition comparable_elem :: "elem \<Rightarrow> bool" where
  "comparable_elem e \<longleftrightarrow> wf_elem e \<and> exact_value (snd e)"

definition small_elems :: "nat \<Rightarrow> elem set" where
  "small_elems k = {e. comparable_elem e \<and> size (snd e) < k}"

lemma comparable_doc_elems: "comparable_doc d \<longleftrightarrow> (\<forall>e \<in> set d. comparable_elem e)"
  by (simp add: comparable_doc_def comparable_elem_def)

lemma size_nested: "(n, w) \<in> set (val_doc v) \<Longrightarrow> size w < size v"
  using size_field by (cases v) auto

lemma nested_small:
  assumes "v \<in> snd ` small_elems (Suc k)"
  shows "set (val_doc v) \<subseteq> small_elems k"
proof
  fix e assume e: "e \<in> set (val_doc v)"
  obtain n where v: "wf_elem (n, v)" "exact_value v" "size v < Suc k"
    using assms by (auto simp: small_elems_def comparable_elem_def)
  have "comparable v" using v by (simp add: comparable_def)
  then have "comparable_elem e" using e by (cases v) (auto simp: comparable_doc_elems)
  moreover have "size (snd e) < size v" using size_nested [of "fst e" "snd e" v] e by simp
  ultimately show "e \<in> small_elems k" using v(3) by (simp add: small_elems_def)
qed

lemma small_elems_three_way: "three_way (ecmp c) (small_elems k)"
proof (induction k arbitrary: c)
  case 0
  show ?case by (simp add: small_elems_def three_way_def)
next
  case (Suc k)
  have "(\<Union>v \<in> snd ` small_elems (Suc k). set (val_doc v)) \<subseteq> small_elems k"
    by (rule UN_least) (rule nested_small)
  then have docs: "three_way (ecmp True) (\<Union>v \<in> snd ` small_elems (Suc k). set (val_doc v))"
    by (rule three_way_subset [OF Suc.IH])
  have "comparable v" if "v \<in> snd ` small_elems (Suc k)" for v
    using that by (auto simp: small_elems_def comparable_elem_def comparable_def)
  then show ?case by (intro ecmp_three_way class_three_way [OF _ docs])
qed

lemma ecmp_order: "three_way (ecmp c) {e. comparable_elem e}"
proof
  fix x y z assume D: "x \<in> {e. comparable_elem e}" "y \<in> {e. comparable_elem e}" "z \<in> {e. comparable_elem e}"
  let ?k = "Suc (size (snd x) + size (snd y) + size (snd z))"
  have "x \<in> small_elems ?k" "y \<in> small_elems ?k" "z \<in> small_elems ?k" using D by (auto simp: small_elems_def)
  then show "ecmp c x y \<le> 0 \<Longrightarrow> ecmp c y z \<le> 0 \<Longrightarrow> ecmp c x z \<le> 0"
    using three_way.cmp_trans [OF small_elems_three_way] by blast
next
  fix x y assume D: "x \<in> {e. comparable_elem e}" "y \<in> {e. comparable_elem e}"
  let ?k = "Suc (size (snd x) + size (snd y))"
  have "x \<in> small_elems ?k" "y \<in> small_elems ?k" using D by (auto simp: small_elems_def)
  then show "sgn (ecmp c y x) = - sgn (ecmp c x y)"
    using three_way.cmp_antisym [OF small_elems_three_way] by blast
qed

interpretation elem_order: three_way "ecmp c" "{e. comparable_elem e}" for c
  by (rule ecmp_order)

interpretation doc_order: three_way "list_cmp (ecmp c)" "{d. comparable_doc d}" for c
  by (rule three_way_subset [OF three_way_list [OF ecmp_order]]) (auto simp: comparable_doc_elems)

section \<open>Key patterns\<close>

text \<open>The bits of an \<open>Ordering\<close> are the signs of the key pattern.\<close>

definition key_desc :: "doc \<Rightarrow> nat \<Rightarrow> bool" where
  "key_desc ks i \<longleftrightarrow> i < length ks \<and> dbl_lt (number (snd (ks ! i))) 0"

lemma key_desc_simps [simp]:
  "\<not> key_desc [] i" "key_desc (k # ks) 0 \<longleftrightarrow> dbl_lt (number (snd k)) 0"
  "key_desc (k # ks) (Suc i) \<longleftrightarrow> key_desc ks i"
  by (auto simp: key_desc_def)

lemma make_loop_bits:
  assumes "make_loop ks b n = Inr o'" and "\<And>i. n \<le> i \<Longrightarrow> \<not> bit b i"
  shows "bit (ord_bits o') i \<longleftrightarrow> (if i < n then bit b i else key_desc ks (i - n))" and "ks = [] \<or> n + length ks \<le> 32"
proof -
  have "(\<forall>i. bit (ord_bits o') i \<longleftrightarrow> (if i < n then bit b i else key_desc ks (i - n))) \<and> (ks = [] \<or> n + length ks \<le> 32)"
    using assms
  proof (induction ks b n rule: make_loop.induct)
    case (2 nm v ks b n)
    let ?b = "if dbl_lt (number v) 0 then b OR push_bit n 1 else b"
    have n: "n \<le> 31" and m: "make_loop ks ?b (Suc n) = Inr o'" using "2.prems"(1) by (auto simp: res_simps)
    have bits: "bit ?b i \<longleftrightarrow> (if i = n then dbl_lt (number v) 0 else bit b i)" for i
      using n "2.prems"(2) [of n] by (auto simp: bit_simps)
    then have "\<And>i. Suc n \<le> i \<Longrightarrow> \<not> bit ?b i" using "2.prems"(2) by auto
    with "2.IH" m n have "(\<forall>i. bit (ord_bits o') i \<longleftrightarrow> (if i < Suc n then bit ?b i else key_desc ks (i - Suc n)))
        \<and> (ks = [] \<or> Suc n + length ks \<le> 32)" by (cases "n \<le> 31") auto
    moreover have "key_desc ((nm, v) # ks) (i - n) \<longleftrightarrow> (if i = n then dbl_lt (number v) 0 else key_desc ks (i - Suc n))" if "n \<le> i" for i
    proof (cases "i = n")
      case False
      then have "i - n = Suc (i - Suc n)" using that by simp
      then show ?thesis using False by simp
    qed simp
    ultimately show ?case using bits n "2.prems"(2) [of n] by (auto simp: less_Suc_eq)
  qed auto
  then show "bit (ord_bits o') i \<longleftrightarrow> (if i < n then bit b i else key_desc ks (i - n))" and "ks = [] \<or> n + length ks \<le> 32"
    by blast+
qed

lemma descending_bit: "ordering_descending o' (push_bit n 1) \<longleftrightarrow> bit (ord_bits o') n"
proof -
  have "ord_bits o' AND push_bit n 1 = (if bit (ord_bits o') n then push_bit n 1 else 0)"
    by (rule bit_eqI) (auto simp: bit_simps)
  moreover have "push_bit n (1 :: 32 word) \<noteq> 0" if "bit (ord_bits o') n"
  proof -
    have "bit (push_bit n (1 :: 32 word)) n" using bit_imp_le_length [OF that] by (simp add: bit_simps)
    then show ?thesis by (metis bit_0_eq bot2E bot_fun_def bot_bool_def)
  qed
  ultimately show ?thesis by (simp add: ordering_descending_def)
qed

lemma woCompare_loop_mask:
  assumes "\<And>i. key_desc ks i \<longleftrightarrow> bit (ord_bits o') (n + i)"
    and "length ls \<le> length ks \<or> length rs \<le> length ks"
  shows "woCompare_loop c (Some ks) False ls rs = woCompare_mask o' c (push_bit n 1) ls rs"
  using assms
proof (induction ls arbitrary: rs ks n)
  case step: (Cons l ls)
  show ?case
  proof (cases rs)
    case (Cons r rs')
    obtain k ks' where ks: "ks = k # ks'" using step.prems(2) Cons by (cases ks) auto
    have d: "dbl_lt (number (snd k)) 0 \<longleftrightarrow> bit (ord_bits o') n" using step.prems(1) [of 0] ks by simp
    have "\<And>i. key_desc ks' i \<longleftrightarrow> bit (ord_bits o') (Suc n + i)" using step.prems(1) [of "Suc _"] ks by simp
    then have "woCompare_loop c (Some ks') False ls rs' = woCompare_mask o' c (push_bit (Suc n) 1) ls rs'"
      by (rule step.IH) (use step.prems(2) Cons ks in auto)
    moreover have "push_bit 1 (push_bit n (1 :: 32 word)) = push_bit (Suc n) 1" by simp
    ultimately show ?thesis
      using Cons ks d by (simp add: woCompare_elem_Inr descending_bit del: push_bit_push_bit push_bit_of_1 push_bit_Suc)
  qed simp
qed simp

section \<open>Sorting\<close>

text \<open>A missing field, and the empty object.\<close>

definition getField :: "bytes \<Rightarrow> doc \<Rightarrow> elem option" where
  "getField name d = find (\<lambda>e. strcmp (fst e) name = 0) d"

definition getObjectField :: "bytes \<Rightarrow> doc \<Rightarrow> doc" where
  "getObjectField name d =
     (case getField name d of Some (_, VObject es) \<Rightarrow> es | Some (_, VArray es) \<Rightarrow> es | _ \<Rightarrow> [])"

text \<open>\<open>strchr(name, '.')\<close>: what is before the first dot and what is after it.\<close>

fun split_dot :: "bytes \<Rightarrow> (bytes \<times> bytes) option" where
  "split_dot [] = None"
| "split_dot (c # cs) = (if c = CHR ''.'' then Some ([], cs) else map_option (\<lambda>(a, b). (c # a, b)) (split_dot cs))"

lemma split_dot_Some: "split_dot s = Some (a, b) \<longleftrightarrow> s = a @ CHR ''.'' # b \<and> CHR ''.'' \<notin> set a"
proof (induction s arbitrary: a)
  case (Cons c s)
  then show ?case by (cases a) auto
qed simp

lemma split_dot_length [termination_simp]: "split_dot s = Some (a, b) \<Longrightarrow> length b < length s"
  by (simp add: split_dot_Some)

lemma split_dot_None: "split_dot s = None \<longleftrightarrow> CHR ''.'' \<notin> set s"
  by (induction s) auto

fun getFieldDotted :: "bytes \<Rightarrow> doc \<Rightarrow> elem option" where
  "getFieldDotted name d =
     (case getField name d of
        Some e \<Rightarrow> Some e
      | None \<Rightarrow>
          (case split_dot name of
             None \<Rightarrow> None
           | Some (left, rest) \<Rightarrow>
               (let sub = getObjectField left d in if sub = [] then None else getFieldDotted rest sub)))"

declare getFieldDotted.simps [simp del]

text \<open>\<open>woSortOrder\<close>: compare the fields the sort key names; a missing one counts as null.\<close>

definition sort_value :: "bool \<Rightarrow> bytes \<Rightarrow> doc \<Rightarrow> elem" where
  "sort_value useDotted name d =
     (case (if useDotted then getFieldDotted name d else getField name d) of Some e \<Rightarrow> e | None \<Rightarrow> ('''', VNull))"

fun sort_loop :: "bool \<Rightarrow> doc \<Rightarrow> doc \<Rightarrow> doc \<Rightarrow> int res" where
  "sort_loop useDotted [] l r = Inr 0"
| "sort_loop useDotted ((f, o') # fs) l r =
     bind_res (woCompare_elem False (sort_value useDotted f l) (sort_value useDotted f r)) (\<lambda>x.
       let x = (if dbl_lt (number o') 0 then - x else x)
       in if x \<noteq> 0 then Inr x else sort_loop useDotted fs l r)"

definition woSortOrder :: "bool \<Rightarrow> doc \<Rightarrow> doc \<Rightarrow> doc \<Rightarrow> int res" where
  "woSortOrder useDotted sortKey l r =
     (if l = [] then Inr (if r = [] then 0 else - 1)
      else if r = [] then Inr 1
      else bind_res (guard (sortKey \<noteq> []) (Uassert 10060)) (\<lambda>_. sort_loop useDotted sortKey l r))"

text \<open>The comparison of two documents under a sort key as a comparison of sort values.\<close>

definition key_cmp :: "bool \<Rightarrow> elem \<Rightarrow> doc \<Rightarrow> doc \<Rightarrow> int" where
  "key_cmp useDotted k l r =
     (let x = ecmp False (sort_value useDotted (fst k) l) (sort_value useDotted (fst k) r)
      in if dbl_lt (number (snd k)) 0 then - x else x)"

fun keys_cmp :: "bool \<Rightarrow> doc \<Rightarrow> doc \<Rightarrow> doc \<Rightarrow> int" where
  "keys_cmp useDotted [] = (\<lambda>l r. 0)"
| "keys_cmp useDotted (k # ks) = lex_cmp (key_cmp useDotted k) (keys_cmp useDotted ks)"

lemma sort_loop_Inr: "sort_loop u ks l r = Inr (keys_cmp u ks l r)"
  by (induction u ks l r rule: sort_loop.induct) (auto simp: woCompare_elem_Inr key_cmp_def lex_cmp_def Let_def)

lemma three_way_flip: "three_way c D \<Longrightarrow> three_way (\<lambda>x y. - c x y) D"
proof -
  assume c: "three_way c D"
  show ?thesis
  proof
    show "sgn (- c y x) = - sgn (- c x y)" if "x \<in> D" "y \<in> D" for x y
      using three_way.cmp_antisym [OF c that] by (simp add: sgn_minus)
    show "- c x z \<le> 0" if "x \<in> D" "y \<in> D" "z \<in> D" "- c x y \<le> 0" "- c y z \<le> 0" for x y z
      using three_way.cmp_trans [OF c that(3,2,1)] three_way.cmp_flip_le [OF c that(2,1)]
        three_way.cmp_flip_le [OF c that(3,2)] three_way.cmp_flip_le [OF c that(3,1)] that(4,5) by simp
  qed
qed

lemma getField_in: "getField name d = Some e \<Longrightarrow> e \<in> set d"
  by (auto simp: getField_def find_Some_iff)

lemma getObjectField_comparable:
  assumes "comparable_doc d" shows "comparable_doc (getObjectField name d)"
proof (cases "getField name d")
  case (Some e)
  then have "comparable (snd e)"
    using assms getField_in [OF Some] by (cases e) (auto simp: comparable_doc_def comparable_def)
  then show ?thesis using Some by (cases e; cases "snd e") (auto simp: getObjectField_def comparable_doc_def)
qed (simp add: getObjectField_def comparable_doc_def)

lemma getFieldDotted_comparable:
  "comparable_doc d \<Longrightarrow> getFieldDotted name d = Some e \<Longrightarrow> comparable_elem e"
proof (induction name d rule: getFieldDotted.induct)
  case (1 name d)
  show ?case
  proof (cases "getField name d")
    case None
    then obtain left rest where s: "split_dot name = Some (left, rest)"
      and g: "getObjectField left d \<noteq> []" "getFieldDotted rest (getObjectField left d) = Some e"
      using "1.prems"(2) by (subst (asm) getFieldDotted.simps) (auto simp: Let_def split: option.splits if_splits)
    show ?thesis
      by (rule "1.IH" [OF None s refl refl g(1) _ g(2)]) (rule getObjectField_comparable [OF "1.prems"(1)])
  next
    case (Some e')
    then have "e' = e" using "1.prems"(2) by (subst (asm) getFieldDotted.simps) simp
    then show ?thesis using getField_in [OF Some] "1.prems"(1) by (auto simp: comparable_doc_elems)
  qed
qed

lemma sort_value_comparable: "comparable_doc d \<Longrightarrow> comparable_elem (sort_value u name d)"
  using getFieldDotted_comparable [of d name] getField_in [of name d]
  by (auto simp: sort_value_def comparable_doc_elems comparable_elem_def split: option.split)

lemma keys_cmp_order: "three_way (keys_cmp u ks) {d. comparable_doc d}"
proof (induction ks)
  case Nil
  show ?case using three_way_key [of "\<lambda>_. 0"] by simp
next
  case (Cons k ks)
  let ?e = "\<lambda>x y. ecmp False (sort_value u (fst k) x) (sort_value u (fst k) y)"
  have "three_way ?e {d. comparable_doc d}"
    by (rule three_way_image, rule three_way_subset [OF ecmp_order]) (auto intro: sort_value_comparable)
  then have "three_way (key_cmp u k) {d. comparable_doc d}"
    using three_way_flip [of ?e] by (cases "dbl_lt (number (snd k)) 0") (simp_all add: key_cmp_def [abs_def])
  then show ?case using Cons by (simp add: three_way_lex_all)
qed

interpretation sort_order: three_way "keys_cmp u ks" "{d. comparable_doc d}" for u ks
  by (rule keys_cmp_order)

section \<open>Properties\<close>

text \<open>
  C9: \<open>BSONObj::woCompare\<close> is a total preorder on documents whose longs are exact as
  doubles: it always returns, the sign flips with the arguments, and it is transitive.
\<close>

theorem woCompare_total_preorder:
  assumes "comparable_doc x" "comparable_doc y" "comparable_doc z"
  shows "\<exists>a b c d. woCompare f [] x y = Inr a \<and> woCompare f [] y x = Inr b \<and> sgn b = - sgn a \<and>
    woCompare f [] y z = Inr c \<and> woCompare f [] x z = Inr d \<and> (a \<le> 0 \<and> c \<le> 0 \<longrightarrow> d \<le> 0)"
  using doc_order.cmp_antisym [of x y f] doc_order.cmp_trans [of x y z f] assms by (auto simp: woCompare_unordered)

theorem woCompare_total_preorder_witness:
  "\<exists>a b c d. woCompare True [] [(''a'', VInt 1)] [(''a'', VLong 2)] = Inr a \<and> woCompare True [] [(''a'', VLong 2)] [(''a'', VInt 1)] = Inr b \<and>
    sgn b = - sgn a \<and> woCompare True [] [(''a'', VLong 2)] [(''a'', VObject [])] = Inr c \<and>
    woCompare True [] [(''a'', VInt 1)] [(''a'', VObject [])] = Inr d \<and> (\<not> (a \<le> 0 \<and> c \<le> 0) \<or> d \<le> 0)"
  using woCompare_total_preorder [of "[(''a'', VInt 1)]" "[(''a'', VLong 2)]" "[(''a'', VObject [])]" True]
  by (simp add: comparable_doc_def) blast

lemma compare_doubles_same: "compare_doubles d d = 0"
  by (simp add: compare_doubles_def dbl_diff_sign_def)

lemma dbl_of_int_ties:
  "dbl_of_int 9007199254740992 = 0x4340000000000000" "dbl_of_int 9007199254740993 = 0x4340000000000000"
proof -
  have "nlog2 9007199254740992 = 53" "nlog2 9007199254740993 = 53" by (rule nlog2_eq; simp)+
  then show "dbl_of_int 9007199254740992 = 0x4340000000000000" "dbl_of_int 9007199254740993 = 0x4340000000000000"
    by (simp_all add: dbl_of_int_def round_mant_def Let_def)
qed

lemma sint_ties: "sint (9007199254740992 :: 64 word) = 9007199254740992" "sint (9007199254740993 :: 64 word) = 9007199254740993"
  by simp_all

text \<open>
  Beyond \<open>2^53\<close> it is not: the long \<open>2^53 + 1\<close> equals the double \<open>2^53\<close>, that equals the
  long \<open>2^53\<close>, and the two longs differ.
\<close>

theorem woCompare_not_transitive:
  "woCompare True [] [(''a'', VLong 9007199254740993)] [(''a'', VDouble 0x4340000000000000)] = Inr 0 \<and>
   woCompare True [] [(''a'', VDouble 0x4340000000000000)] [(''a'', VLong 9007199254740992)] = Inr 0 \<and>
   woCompare True [] [(''a'', VLong 9007199254740993)] [(''a'', VLong 9007199254740992)] = Inr 1"
  unfolding woCompare_unordered
  by (simp add: ecmp_def lex_cmp_def canon_cmp_def canonicalType_def strc.cmp_refl vcmp_def sign3_def
      sint_ties dbl_of_int_ties compare_doubles_same)

text \<open>
  C34: Comparing under an \<open>Ordering\<close> made from a key pattern gives what comparing under the
  key pattern itself gives, for patterns of at most 32 keys and documents that the pattern
  covers: one bit per key loses nothing.
\<close>

theorem ordering_equals_key_pattern:
  assumes "ordering_make ks = Inr o'" and "ks \<noteq> []" and "length l \<le> length ks \<or> length r \<le> length ks"
  shows "woCompare_ordering c o' l r = woCompare c ks l r"
proof -
  have "key_desc ks i \<longleftrightarrow> bit (ord_bits o') (0 + i)" for i
    using make_loop_bits(1) [OF assms(1) [unfolded ordering_make_def], of i] by simp
  then have "woCompare_loop c (Some ks) False l r = woCompare_mask o' c (push_bit 0 1) l r"
    by (rule woCompare_loop_mask) (rule assms(3))
  then show ?thesis using assms(2) by (simp add: woCompare_ordering_def woCompare_def del: woCompare_loop.simps)
qed

theorem ordering_equals_key_pattern_witness:
  "\<exists>o'. ordering_make [(''a'', VInt 1), (''b'', VInt (- 1))] = Inr o' \<and>
     woCompare_ordering False o' [('''', VInt 1), ('''', VInt 2)] [('''', VInt 1), ('''', VInt 3)] =
     woCompare False [(''a'', VInt 1), (''b'', VInt (- 1))] [('''', VInt 1), ('''', VInt 2)] [('''', VInt 1), ('''', VInt 3)]"
proof -
  obtain o' where "ordering_make [(''a'', VInt 1), (''b'', VInt (- 1))] = Inr o'"
    by (simp add: ordering_make_def)
  then show ?thesis
    using ordering_equals_key_pattern [of "[(''a'', VInt 1), (''b'', VInt (- 1))]" o'] by simp
qed

text \<open>
  \<open>woSortOrder\<close> with a sort key always returns on non-empty documents, and orders them
  totally, in both directions of every key, with dotted names and with missing fields.
\<close>

theorem woSortOrder_total_preorder:
  assumes "comparable_doc x" "comparable_doc y" "comparable_doc z" "x \<noteq> []" "y \<noteq> []" "z \<noteq> []" "ks \<noteq> []"
  shows "\<exists>a b c d. woSortOrder u ks x y = Inr a \<and> woSortOrder u ks y x = Inr b \<and> sgn b = - sgn a \<and>
    woSortOrder u ks y z = Inr c \<and> woSortOrder u ks x z = Inr d \<and> (a \<le> 0 \<and> c \<le> 0 \<longrightarrow> d \<le> 0)"
  using sort_order.cmp_antisym [of x y u ks] sort_order.cmp_trans [of x y z u ks] assms
  by (auto simp: woSortOrder_def sort_loop_Inr)

theorem woSortOrder_total_preorder_witness:
  "\<exists>a b c d. woSortOrder True [(''a.b'', VInt (- 1))] [(''a'', VObject [(''b'', VInt 1)])] [(''c'', VNull)] = Inr a \<and>
    woSortOrder True [(''a.b'', VInt (- 1))] [(''c'', VNull)] [(''a'', VObject [(''b'', VInt 1)])] = Inr b \<and> sgn b = - sgn a \<and>
    woSortOrder True [(''a.b'', VInt (- 1))] [(''c'', VNull)] [(''a'', VBool True)] = Inr c \<and>
    woSortOrder True [(''a.b'', VInt (- 1))] [(''a'', VObject [(''b'', VInt 1)])] [(''a'', VBool True)] = Inr d \<and> (\<not> (a \<le> 0 \<and> c \<le> 0) \<or> d \<le> 0)"
  using woSortOrder_total_preorder [of "[(''a'', VObject [(''b'', VInt 1)])]" "[(''c'', VNull)]" "[(''a'', VBool True)]"
      "[(''a.b'', VInt (- 1))]" True]
  by (simp add: comparable_doc_def) blast

text \<open>The first two bytes of the size of a small object end the C string.\<close>

lemma le_int_small: "n < 256 \<Longrightarrow> le_int (int n) = [char_of n, NUL, NUL, NUL]"
proof -
  assume n: "n < 256"
  have four: "(4 :: nat) = Suc (Suc (Suc (Suc 0)))" by simp
  have "unat (word_of_int (int n) :: 32 word) = n" using n by (intro unat_word_of_int32) simp
  then show ?thesis using n unfolding le_int_def le32_def four by (simp add: char_of_def)
qed

text \<open>
  Two \<open>CodeWScope\<close> values with the same code and different scopes compare equal whenever
  the scopes have the same size below 256 bytes: the scope is compared with \<open>strcmp\<close>, which
  stops at the second byte of its size field.
\<close>

theorem code_w_scope_ignores_scope:
  assumes "length (enc_doc s) = length (enc_doc t)" and "length (enc_doc s) < 256"
  shows "compareElementValues (VCodeWScope c s) (VCodeWScope c t) = Inr 0"
proof -
  have "strcmp (enc_doc s) (enc_doc t) = 0"
    using assms le_int_small [of "length (enc_elems s) + 5"] by (simp add: enc_doc_def add.commute)
  then show ?thesis by (simp add: strc.cmp_refl canonicalType_def)
qed

theorem code_w_scope_ignores_scope_witness:
  "compareElementValues (VCodeWScope ''f'' [(''x'', VInt 1)]) (VCodeWScope ''f'' [(''y'', VInt 2)]) = Inr 0"
  by (rule code_w_scope_ignores_scope) (simp_all add: length_enc_elem)

end
