(* ===== verification/BsonFields.thy ===== *)
theory BsonFields
  imports BsonCompare
begin

text \<open>
  Operations of \<open>BSONObj\<close> on the fields of an object (bson/bson-inl.h, db/jsobj.cpp,
  util/embedded_builder.h): lookup by name and by path, projection to a pattern, the
  conversions between nested and dotted form, the storage check.
\<close>

section \<open>Lookup\<close>

text \<open>\<open>hasElement\<close> also visits the EOO element, whose name is empty.\<close>

definition hasElement :: "bytes \<Rightarrow> doc \<Rightarrow> bool" where
  "hasElement name d \<longleftrightarrow> d \<noteq> [] \<and> (\<exists>n \<in> set (map fst d @ [[]]). strcmp name n = 0)"

definition nFields :: "doc \<Rightarrow> nat" where
  "nFields d = length d"

definition is_object :: "bson_value \<Rightarrow> bool" where
  "is_object v \<longleftrightarrow> value_type v = Object"

definition getIntField :: "bytes \<Rightarrow> doc \<Rightarrow> int res" where
  "getIntField name d =
     (case getField name d of
        Some (_, v) \<Rightarrow> if is_number v then dbl_to_int (number v) else Inr (- (2 ^ 31))
      | None \<Rightarrow> Inr (- (2 ^ 31)))"

definition getBoolField :: "bytes \<Rightarrow> doc \<Rightarrow> bool" where
  "getBoolField name d = (case getField name d of Some (_, VBool b) \<Rightarrow> b | _ \<Rightarrow> False)"

definition getStringField :: "bytes \<Rightarrow> doc \<Rightarrow> bytes" where
  "getStringField name d = (case getField name d of Some (_, VString s) \<Rightarrow> cstr s | _ \<Rightarrow> [])"

definition getFieldNames :: "doc \<Rightarrow> bytes set \<Rightarrow> bytes set \<times> nat" where
  "getFieldNames d flds = (flds \<union> fst ` set d, length d)"

text \<open>\<open>getFieldDottedOrArray\<close> also moves the caller's \<open>name\<close> pointer.\<close>

function getFieldDottedOrArray :: "bytes \<Rightarrow> doc \<Rightarrow> elem option \<times> bytes" where
  "getFieldDottedOrArray name d =
     (let (sub, name') = (case split_dot name of
            Some (left, rest) \<Rightarrow> (getField left d, rest) | None \<Rightarrow> (getField name d, []))
      in case sub of
           None \<Rightarrow> (None, name')
         | Some (n, v) \<Rightarrow>
             if value_type v = Array \<or> name' = [] then (Some (n, v), name')
             else (case v of VObject es \<Rightarrow> getFieldDottedOrArray name' es | _ \<Rightarrow> (None, name')))"
  by pat_completeness auto
termination
  by (relation "measure (\<lambda>(name, d). length name)") (auto split: option.splits dest: split_dot_length)

declare getFieldDottedOrArray.simps [simp del]

section \<open>All values on a path\<close>

text \<open>\<open>BSONElementSet\<close>: ordered by \<open>BSONElementCmpWithoutField\<close>, without equivalent elements.\<close>

definition lessWithoutField :: "elem \<Rightarrow> elem \<Rightarrow> bool" where
  "lessWithoutField l r = (case woCompare_elem False l r of Inr x \<Rightarrow> x < 0 | Inl _ \<Rightarrow> False)"

definition set_insert :: "elem \<Rightarrow> elem list \<Rightarrow> elem list" where
  "set_insert = ord_insert lessWithoutField"

definition all_digits :: "bytes \<Rightarrow> bool" where
  "all_digits next \<longleftrightarrow> next \<noteq> [] \<and> is_digit (hd next) \<and>
     (let temp = dropWhile is_digit (tl next) in temp = [] \<or> hd temp = CHR ''.'')"

function getFieldsDotted :: "bytes \<Rightarrow> doc \<Rightarrow> elem list \<Rightarrow> elem list" where
  "getFieldsDotted name d ret =
     (case getField name d of
        None \<Rightarrow>
          (case split_dot name of
             None \<Rightarrow> ret
           | Some (left, next) \<Rightarrow>
              (case getField left d of
                 Some (_, VObject es) \<Rightarrow> getFieldsDotted next es ret
               | Some (_, VArray es) \<Rightarrow>
                   if all_digits next then getFieldsDotted next es ret
                   else fold (\<lambda>e2 ret. case snd e2 of
                          VObject es2 \<Rightarrow> getFieldsDotted next es2 ret
                        | VArray es2 \<Rightarrow> getFieldsDotted next es2 ret
                        | _ \<Rightarrow> ret) es ret
               | _ \<Rightarrow> ret))
      | Some (n, VArray es) \<Rightarrow> fold set_insert es ret
      | Some e \<Rightarrow> set_insert e ret)"
  by pat_completeness auto
termination
  by (relation "measure (\<lambda>(name, d, ret). length name)") (auto dest: split_dot_length)

declare getFieldsDotted.simps [simp del]

section \<open>Projections\<close>

definition extractFieldsUnDotted :: "doc \<Rightarrow> doc \<Rightarrow> doc" where
  "extractFieldsUnDotted pattern d =
     List.map_filter (\<lambda>e. map_option (\<lambda>x. ('''', snd x)) (getField (fst e) d)) pattern"

definition extractFields :: "doc \<Rightarrow> bool \<Rightarrow> doc \<Rightarrow> doc" where
  "extractFields pattern fillWithNull d =
     List.map_filter (\<lambda>e. case getFieldDotted (fst e) d of
         Some x \<Rightarrow> Some (fst e, snd x)
       | None \<Rightarrow> if fillWithNull then Some (fst e, VNull) else None) pattern"

definition filterFieldsUndotted :: "doc \<Rightarrow> bool \<Rightarrow> doc \<Rightarrow> doc" where
  "filterFieldsUndotted filt inFilter d =
     filter (\<lambda>e. let x = getField (fst e) filt in (x = None \<and> \<not> inFilter) \<or> (x \<noteq> None \<and> inFilter)) d"

text \<open>The position of a name in the index key, then the field at that position.\<close>

fun index_of_field :: "bytes \<Rightarrow> doc \<Rightarrow> nat \<Rightarrow> nat option" where
  "index_of_field name [] j = None"
| "index_of_field name (f # fs) j = (if strcmp (fst f) name = 0 then Some j else index_of_field name fs (Suc j))"

definition getFieldUsingIndexNames :: "bytes \<Rightarrow> doc \<Rightarrow> doc \<Rightarrow> elem option" where
  "getFieldUsingIndexNames fieldName indexKey d =
     (case index_of_field fieldName indexKey 0 of
        None \<Rightarrow> None | Some j \<Rightarrow> if j < length d then Some (d ! j) else None)"

text \<open>
  \<open>addFields\<close>: the fields named, plus \<open>_id\<close>; stops once all were found. The EOO element
  is visited too (its name is empty), so asking for the empty name hits the assertion of
  \<open>append\<close>.
\<close>

fun add_loop :: "bytes set \<Rightarrow> nat \<Rightarrow> doc \<Rightarrow> nat \<Rightarrow> bool \<Rightarrow> doc \<Rightarrow> (doc \<times> nat) res" where
  "add_loop flds N [] n gotId b = (if [] \<in> flds then Inl AssertFail else Inr (b, n))"
| "add_loop flds N (e # es) n gotId b =
     (if fst e \<in> flds then
        let n = n + 1; gotId = (gotId \<or> strcmp (fst e) ''_id'' = 0)
        in if n = N \<and> gotId then Inr (b @ [e], n) else add_loop flds N es n gotId (b @ [e])
      else if strcmp (fst e) ''_id'' = 0 then
        if n = N then Inr (b @ [e], n) else add_loop flds N es n True (b @ [e])
      else add_loop flds N es n gotId b)"

text \<open>The receiver must be empty; it is replaced only when something was added.\<close>

definition addFields :: "doc \<Rightarrow> doc \<Rightarrow> bytes set \<Rightarrow> (doc \<times> nat) res" where
  "addFields this from' flds =
     bind_res (guard (this = []) AssertFail) (\<lambda>_.
     bind_res (add_loop flds (card flds) from' 0 False []) (\<lambda>(b, n).
       Inr (if n \<noteq> 0 then b else this, n)))"

definition clientReadable :: "doc \<Rightarrow> doc" where
  "clientReadable d =
     map (\<lambda>(n, v). case v of
        VMinKey \<Rightarrow> (n, VObject [(''$minElement'', VInt 1)])
      | VMaxKey \<Rightarrow> (n, VObject [(''$maxElement'', VInt 1)])
      | _ \<Rightarrow> (n, v)) d"

fun replaceFieldNames :: "doc \<Rightarrow> doc \<Rightarrow> doc" where
  "replaceFieldNames names [] = []"
| "replaceFieldNames [] (e # es) = e # replaceFieldNames [] es"
| "replaceFieldNames (f # fs) (e # es) = (fst f, snd e) # replaceFieldNames fs es"

definition appendElementsUnique :: "doc \<Rightarrow> doc \<Rightarrow> doc" where
  "appendElementsUnique x b = b @ filter (\<lambda>e. fst e \<notin> fst ` set b) x"

section \<open>Storage check\<close>

fun okForStorage :: "doc \<Rightarrow> bool" where
  "okForStorage [] = True"
| "okForStorage ((name, v) # es) =
     (if CHR ''.'' \<in> set name \<or> CHR ''$'' \<in> set name
      then strcmp name ''$ref'' = 0 \<or> strcmp name ''$id'' = 0
      else (case v of VObject d \<Rightarrow> okForStorage d | VArray d \<Rightarrow> okForStorage d
            | VCodeWScope _ d \<Rightarrow> okForStorage d | _ \<Rightarrow> True) \<and> okForStorage es)"

section \<open>Nested and dotted form\<close>

fun nested2dotted :: "bytes \<Rightarrow> doc \<Rightarrow> doc" where
  "nested2dotted base [] = []"
| "nested2dotted base ((n, VObject d) # es) = nested2dotted (base @ n @ ''.'') d @ nested2dotted base es"
| "nested2dotted base ((n, v) # es) = (base @ n, v) # nested2dotted base es"

text \<open>\<open>bson2map\<close>: a \<open>std::map\<close> by field name; the last element of a name wins.\<close>

fun map_put :: "bytes \<Rightarrow> elem \<Rightarrow> (bytes \<times> elem) list \<Rightarrow> (bytes \<times> elem) list" where
  "map_put k e [] = [(k, e)]"
| "map_put k e ((k', e') # m) =
     (if strcmp k k' < 0 then (k, e) # (k', e') # m
      else if strcmp k k' = 0 then (k', e) # m else (k', e') # map_put k e m)"

definition bson2map :: "doc \<Rightarrow> (bytes \<times> elem) list" where
  "bson2map d = fold (\<lambda>e. map_put (fst e) e) d []"

text \<open>
  \<open>EmbeddedBuilder\<close>: the root object under construction and the open builders above it,
  the innermost last. Closing one appends it to the one below (BsonBuilder shows that an
  object built in place is an appended object).
\<close>

record embedded =
  em_root :: doc
  em_open :: "(bytes \<times> doc) list"

definition em_append :: "elem \<Rightarrow> embedded \<Rightarrow> embedded" where
  "em_append e b =
     (if em_open b = [] then b\<lparr>em_root := em_root b @ [e]\<rparr>
      else let (n, d) = last (em_open b) in b\<lparr>em_open := butlast (em_open b) @ [(n, d @ [e])]\<rparr>)"

definition popBuilder :: "embedded \<Rightarrow> embedded" where
  "popBuilder b =
     (let (n, d) = last (em_open b) in em_append (n, VObject d) (b\<lparr>em_open := butlast (em_open b)\<rparr>))"

definition addBuilder :: "bytes \<Rightarrow> embedded \<Rightarrow> embedded" where
  "addBuilder name b = b\<lparr>em_open := em_open b @ [(name, [])]\<rparr>"

text \<open>\<open>splitDot\<close>: the part before the first dot, or nothing, and the rest.\<close>

definition splitDot :: "bytes \<Rightarrow> bytes \<times> bytes" where
  "splitDot str = (case split_dot str of None \<Rightarrow> ([], str) | Some p \<Rightarrow> p)"

text \<open>
  The \<open>while\<close> of \<open>prepareContext\<close>: how many of the open builders are a prefix of the
  name. \<open>substr\<close> past the end (the name is the builder's own) throws.
\<close>

fun match_open :: "bytes \<Rightarrow> (bytes \<times> doc) list \<Rightarrow> (bytes \<times> nat) res" where
  "match_open name [] = Inr (name, 0)"
| "match_open name ((f, d) # fs) =
     (if take (length f) name = f then
        if length f = length name then Inl StdException
        else if name ! length f = CHR ''.'' \<or> name ! length f = NUL then
          bind_res (match_open (drop (length f + 1) name) fs) (\<lambda>(name, i). Inr (name, i + 1))
        else Inr (name, 0)
      else Inr (name, 0))"

function add_builders :: "bytes \<Rightarrow> embedded \<Rightarrow> bytes \<times> embedded" where
  "add_builders name b =
     (let (nxt, rest) = splitDot name
      in if nxt = [] then (rest, b) else add_builders rest (addBuilder nxt b))"
  by pat_completeness auto
termination
  by (relation "measure (\<lambda>(name, b). length name)")
     (auto simp: splitDot_def split: option.splits dest: split_dot_length)

declare add_builders.simps [simp del]

definition prepareContext :: "bytes \<Rightarrow> embedded \<Rightarrow> (bytes \<times> embedded) res" where
  "prepareContext name b =
     bind_res (match_open name (em_open b)) (\<lambda>(name, i).
       Inr (add_builders name ((popBuilder ^^ (length (em_open b) - i)) b)))"

definition em_appendAs :: "elem \<Rightarrow> bytes \<Rightarrow> embedded \<Rightarrow> embedded res" where
  "em_appendAs e name b =
     (if snd e = VObject [] then bind_res (prepareContext (name @ ''.foo'') b) (\<lambda>(_, b). Inr b)
      else bind_res (prepareContext name b) (\<lambda>(name, b). Inr (em_append (name, snd e) b)))"

definition em_done :: "embedded \<Rightarrow> doc" where
  "em_done b = em_root ((popBuilder ^^ length (em_open b)) b)"

definition dotted2nested :: "doc \<Rightarrow> doc res" where
  "dotted2nested d =
     bind_res (seq_res (map (\<lambda>(k, e). em_appendAs e k) (bson2map d)) \<lparr>em_root = [], em_open = []\<rparr>)
       (\<lambda>b. Inr (em_done b))"

section \<open>Sort keys\<close>

lemma extractFields_null:
  "extractFields ks True d = map (\<lambda>k. (fst k, snd (sort_value True (fst k) d))) ks"
  by (induction ks) (auto simp: extractFields_def sort_value_def map_filter_simps split: option.split)

lemma ecmp_False: "ecmp False l r = ecmp False ('''', snd l) ('''', snd r)"
  by (simp add: ecmp_def lex_cmp_def canon_cmp_def)

lemma woCompare_loop_keys:
  assumes "\<And>k. k \<in> set ks \<Longrightarrow> snd (f k) = snd (sort_value u (fst k) l) \<and> snd (g k) = snd (sort_value u (fst k) r)"
  shows "woCompare_loop False (Some ks) False (map f ks) (map g ks) = Inr (keys_cmp u ks l r)"
  using assms
proof (induction ks)
  case (Cons k ks)
  have "ecmp False (f k) (g k) = ecmp False (sort_value u (fst k) l) (sort_value u (fst k) r)"
    using Cons.prems [of k] by (metis ecmp_False list.set_intros(1))
  with Cons show ?case
    by (simp add: woCompare_elem_Inr key_cmp_def lex_cmp_def Let_def)
qed simp

section \<open>Properties\<close>



end
