(* ===== verification/Oid.thy ===== *)
theory Oid
  imports Codecs
begin

text \<open>
  Object ids (bson/oid.h, bson/oid.cpp): 12 bytes, a big-endian time, five bytes for the
  machine and process, a counter. The machine bytes, the process id, the clock and the
  counter are arguments of the operations that read them.
\<close>

unbundle bit_operations_syntax

section \<open>Operations\<close>

type_synonym oid = bytes

text \<open>The bytes of a 32-bit word from the highest down: \<open>T[3], T[2], T[1], T[0]\<close>.\<close>

definition be32 :: "32 word \<Rightarrow> bytes" where
  "be32 w = rev (le32 w)"

text \<open>\<open>OID::init()\<close>: time, machine and process, the low three bytes of the counter.\<close>

definition oid_init :: "32 word \<Rightarrow> bytes \<Rightarrow> 32 word \<Rightarrow> oid" where
  "oid_init t machineAndPid inc = be32 t @ machineAndPid @ drop 1 (be32 inc)"

text \<open>\<open>OID::init(string)\<close>.\<close>

definition oid_of_string :: "bytes \<Rightarrow> oid res" where
  "oid_of_string s = bind_res (guard (length s = 24) AssertFail) (\<lambda>_. unhex s)"

definition oid_str :: "oid \<Rightarrow> bytes" where
  "oid_str d = toHexLower d"

text \<open>\<open>OID::init(Date_t date, bool max)\<close>; the cast to \<open>int\<close> keeps the low 32 bits.\<close>

definition oid_of_date :: "64 word \<Rightarrow> bool \<Rightarrow> oid" where
  "oid_of_date date mx = be32 (ucast (date div 1000)) @ replicate 8 (if mx then CHR 0xFF else NUL)"

definition oid_asTimeT :: "oid \<Rightarrow> int res" where
  "oid_asTimeT d = rd_int (rev (take 4 d))"

definition oid_compare :: "oid \<Rightarrow> oid \<Rightarrow> int" where
  "oid_compare a b = memcmp (take 12 a) (take 12 b)"

definition oid_isSet :: "oid \<Rightarrow> bool" where
  "oid_isSet d \<longleftrightarrow> (\<exists>c \<in> set (take 12 d). c \<noteq> NUL)"

text \<open>
  The process id in the machine bytes: \<open>ourPid()\<close> casts to 16 bits first, so the shift
  by 16 in \<open>foldInPid\<close> always gives 0.
\<close>

definition ourPid :: "32 word \<Rightarrow> 32 word" where
  "ourPid pid = ucast (ucast pid :: 16 word)"

record machine_and_pid =
  mp_machine0 :: "8 word"
  mp_rest :: "16 word"
  mp_pid :: "16 word"

definition foldInPid :: "32 word \<Rightarrow> machine_and_pid \<Rightarrow> machine_and_pid" where
  "foldInPid pid x =
     (let p = ourPid pid
      in x\<lparr>mp_pid := mp_pid x XOR ucast p, mp_rest := mp_rest x XOR ucast (drop_bit 16 p)\<rparr>)"

section \<open>Facts\<close>

lemma length_be32 [simp]: "length (be32 w) = 4"
  by (simp add: be32_def)

lemma le_bytes_snoc: "le_bytes (Suc n) k = le_bytes n k @ [char_of (k div 256 ^ n)]"
  by (induction n arbitrary: k) (auto simp: div_mult2_eq mult.commute)

text \<open>Big-endian bytes compare as the numbers do.\<close>

lemma memcmp_be:
  assumes "a < 256 ^ n" and "b < 256 ^ n"
  shows "sgn (memcmp (rev (le_bytes n a) @ u) (rev (le_bytes n b) @ v)) =
    (if a = b then sgn (memcmp u v) else sgn (int a - int b))"
  using assms
proof (induction n arbitrary: a b)
  case (Suc n)
  let ?ha = "a div 256 ^ n" and ?hb = "b div 256 ^ n"
  have h: "?ha < 256" "?hb < 256" using Suc.prems by (simp_all add: less_mult_imp_div_less)
  have low: "le_bytes n a = le_bytes n (a mod 256 ^ n)" "le_bytes n b = le_bytes n (b mod 256 ^ n)"
    using le_bytes_le_val [of "le_bytes n a"] le_bytes_le_val [of "le_bytes n b"] by (simp_all add: le_val_le_bytes)
  have a: "a = ?ha * 256 ^ n + a mod 256 ^ n" and b: "b = ?hb * 256 ^ n + b mod 256 ^ n"
    by (rule div_mult_mod_eq [symmetric])+
  show ?case
  proof (cases "?ha = ?hb")
    case True
    have "sgn (memcmp (rev (le_bytes n a) @ u) (rev (le_bytes n b) @ v)) =
        (if a mod 256 ^ n = b mod 256 ^ n then sgn (memcmp u v) else sgn (int (a mod 256 ^ n) - int (b mod 256 ^ n)))"
      unfolding low by (rule Suc.IH) simp_all
    moreover have "a mod 256 ^ n = b mod 256 ^ n \<longleftrightarrow> a = b" using a b True by metis
    moreover have "int a - int b = int (a mod 256 ^ n) - int (b mod 256 ^ n)"
      using a b True by (metis add_diff_cancel_left of_nat_add)
    ultimately show ?thesis using True by (simp only: le_bytes_snoc rev_append) simp
  next
    case False
    then have c: "char_of ?ha \<noteq> (char_of ?hb :: char)"
      using h by (metis mod_less of_char_of)
    have "uchar (char_of ?ha) - uchar (char_of ?hb) = int ?ha - int ?hb"
      using h by (simp add: uchar_def of_char_of)
    moreover have "sgn (int ?ha - int ?hb) = sgn (int a - int b)"
    proof -
      have "?ha < ?hb \<longleftrightarrow> a < b" if "?ha \<noteq> ?hb"
        using that div_le_mono [of a b "256 ^ n"] div_le_mono [of b a "256 ^ n"] by linarith
      moreover have "a \<noteq> b" using False by blast
      ultimately show ?thesis using False by (auto simp: sgn_if)
    qed
    moreover have "memcmp (rev (le_bytes (Suc n) a) @ u) (rev (le_bytes (Suc n) b) @ v) =
        uchar (char_of ?ha) - uchar (char_of ?hb)"
      using c by (simp only: le_bytes_snoc rev_append) simp
    ultimately show ?thesis using False by (simp only: if_False) auto
  qed
qed simp

lemma memcmp_be32:
  "sgn (memcmp (be32 a @ u) (be32 b @ v)) = (if a = b then sgn (memcmp u v) else sgn (uint a - uint b))"
proof -
  have "unat w < 2 ^ LENGTH(32)" for w :: "32 word" by (rule unsigned_less)
  then have "unat a < 256 ^ 4" "unat b < 256 ^ 4" by simp_all
  then show ?thesis using memcmp_be [of "unat a" 4 "unat b" u v] by (simp add: be32_def le32_def word_unat_eq_iff)
qed

lemma oid_compare_be32:
  assumes "length u = 8" and "length v = 8"
  shows "sgn (oid_compare (be32 a @ u) (be32 b @ v)) = (if a = b then sgn (memcmp u v) else sgn (uint a - uint b))"
  using assms memcmp_be32 [of a u b v] by (simp add: oid_compare_def)

lemma memcmp_bounds:
  "length xs = n \<Longrightarrow> memcmp (replicate n NUL) xs \<le> 0"
  "length xs = n \<Longrightarrow> memcmp xs (replicate n (CHR 0xFF)) \<le> 0"
proof -
  have ff: "uchar (CHR 0xFF) = 255" by (simp add: uchar_def)
  show "length xs = n \<Longrightarrow> memcmp (replicate n NUL) xs \<le> 0"
    by (induction xs arbitrary: n) auto
  show "length xs = n \<Longrightarrow> memcmp xs (replicate n (CHR 0xFF)) \<le> 0"
    by (induction xs arbitrary: n) (auto simp: ff)
qed

section \<open>Properties\<close>

text \<open>
  An object id printed as 24 hexadecimal digits and read back is the same id; a string
  of another length is refused.
\<close>

theorem oid_string_roundtrip:
  assumes "length d = 12"
  shows "length (oid_str d) = 24 \<and> oid_of_string (oid_str d) = Inr d \<and>
    (length s \<noteq> 24 \<longrightarrow> oid_of_string s = Inl AssertFail)"
  using assms unhex_digits [OF fromHex_lower]
  by (simp add: oid_str_def oid_of_string_def) (simp add: toHexLower_def)

theorem oid_string_roundtrip_witness:
  "length (oid_str ''abcdefghijkl'') = 24 \<and> oid_of_string (oid_str ''abcdefghijkl'') = Inr ''abcdefghijkl'' \<and>
   oid_of_string ''xyz'' = Inl AssertFail"
  using oid_string_roundtrip [of "''abcdefghijkl''" "''xyz''"] by simp

text \<open>
  C40: Ids sort by creation time, and the minimal and maximal id of a date bound every id
  generated in that second, whatever the machine, process and counter.
\<close>

theorem oid_time_order:
  assumes "length m = 5" and "length m' = 5" and "ucast (date div 1000) = t"
  shows "oid_compare (oid_of_date date False) (oid_init t m i) \<le> 0 \<and>
    oid_compare (oid_init t m i) (oid_of_date date True) \<le> 0 \<and>
    (t < t' \<longrightarrow> oid_compare (oid_init t m i) (oid_init t' m' i') < 0)"
proof -
  have le: "sgn x = sgn y \<Longrightarrow> x \<le> 0 \<longleftrightarrow> y \<le> 0" "sgn x = sgn y \<Longrightarrow> x < 0 \<longleftrightarrow> y < 0" for x y :: int
    by (auto simp: sgn_if split: if_splits)
  let ?u = "m @ drop 1 (be32 i)" and ?u' = "m' @ drop 1 (be32 i')"
  have l: "length ?u = 8" "length ?u' = 8" using assms by simp_all
  have o': "oid_init t m i = be32 t @ ?u" "oid_init t' m' i' = be32 t' @ ?u'" by (simp_all add: oid_init_def)
  have d: "oid_of_date date b = be32 t @ replicate 8 (if b then CHR 0xFF else NUL)" for b
    using assms(3) by (simp add: oid_of_date_def)
  have "sgn (oid_compare (be32 t @ replicate 8 NUL) (be32 t @ ?u)) = sgn (memcmp (replicate 8 NUL) ?u)"
    using oid_compare_be32 [of "replicate 8 NUL" ?u t t] l(1) by (simp only: length_replicate if_True simp_thms)
  then have "oid_compare (oid_of_date date False) (oid_init t m i) \<le> 0"
    unfolding o' d if_False by (rule iffD2 [OF le(1)]) (rule memcmp_bounds(1) [OF l(1)])
  moreover have "sgn (oid_compare (be32 t @ ?u) (be32 t @ replicate 8 (CHR 0xFF))) = sgn (memcmp ?u (replicate 8 (CHR 0xFF)))"
    using oid_compare_be32 [of ?u "replicate 8 (CHR 0xFF)" t t] l(1) by (simp only: length_replicate if_True simp_thms)
  then have "oid_compare (oid_init t m i) (oid_of_date date True) \<le> 0"
    unfolding o' d if_True by (rule iffD2 [OF le(1)]) (rule memcmp_bounds(2) [OF l(1)])
  moreover have "oid_compare (oid_init t m i) (oid_init t' m' i') < 0" if "t < t'"
  proof -
    have "t \<noteq> t'" using that by simp
    then have "sgn (oid_compare (be32 t @ ?u) (be32 t' @ ?u')) = sgn (uint t - uint t')"
      using oid_compare_be32 [OF l, of t t'] by (simp only: if_False)
    moreover have "uint t - uint t' < 0" using that by (simp add: word_less_def)
    ultimately show ?thesis unfolding o' by (rule iffD2 [OF le(2)])
  qed
  ultimately show ?thesis by blast
qed

theorem oid_time_order_witness:
  "oid_compare (oid_of_date 5000 False) (oid_init 5 ''mmmpp'' 9) \<le> 0 \<and>
   oid_compare (oid_init 5 ''mmmpp'' 9) (oid_of_date 5000 True) \<le> 0 \<and>
   oid_compare (oid_init 5 ''mmmpp'' 9) (oid_init 6 ''aaabb'' 1) < 0"
  using oid_time_order [of "''mmmpp''" "''aaabb''" 5000 5 9 6 1] by simp

text \<open>
  The process id enters the machine bytes with its low 16 bits only: the shift that is
  to let the high bits modulate the machine number always contributes nothing.
\<close>

theorem foldInPid_ignores_high_bits:
  "mp_rest (foldInPid pid x) = mp_rest x \<and> foldInPid pid x = foldInPid (pid AND 0xFFFF) x"
proof -
  have "drop_bit 16 (ourPid pid) = 0" for pid by (rule bit_eqI) (auto simp: ourPid_def bit_simps)
  moreover have "pid AND 0xFFFF = take_bit 16 pid" by (simp add: take_bit_eq_mask mask_numeral)
  then have "ucast (pid AND 0xFFFF) = (ucast pid :: 16 word)"
    by (simp only:) (rule bit_eqI, auto simp: bit_simps)
  ultimately show ?thesis by (simp add: foldInPid_def ourPid_def Let_def)
qed

end
