(* ===== verification/BsonText.thy ===== *)
theory BsonText
  imports BsonFields Oid
begin

text \<open>
  Objects and names as text: the numeric-aware comparison of names (util/goodies.h) and
  of dotted names, the query operators (db/jsobj.cpp), arrays as vectors, JSON output
  (\<open>escape\<close>, \<open>jsonString\<close>) with the string and object-id productions of the JSON
  reader (db/json.cpp) that take it back, and the log format.
\<close>

section \<open>Names\<close>

lemma dropWhile_digits_shorter:
  assumes "is_digit c"
  shows "length (dropWhile is_digit (dropWhile (\<lambda>c. c = CHR ''0'') (c # t))) < Suc (length t)"
proof (cases "c = CHR ''0''")
  case True
  have "length (dropWhile is_digit (dropWhile (\<lambda>c. c = CHR ''0'') t)) \<le> length t"
    by (meson length_dropWhile_le order_trans)
  then show ?thesis using True by simp
next
  case False
  then show ?thesis using assms by (simp add: less_Suc_eq_le length_dropWhile_le)
qed

text \<open>
  \<open>lexNumCmp\<close>: both strings without their terminators. The character 255 is greater than
  everything, a digit greater than any other character, runs of digits are compared as
  numbers.
\<close>

function lexnum_loop :: "bytes \<Rightarrow> bytes \<Rightarrow> int" where
  "lexnum_loop [] [] = 0"
| "lexnum_loop (_ # _) [] = 1"
| "lexnum_loop [] (_ # _) = - 1"
| "lexnum_loop (c1 # t1) (c2 # t2) =
     (let p1 = (c1 = CHR 0xFF); p2 = (c2 = CHR 0xFF); n1 = is_digit c1; n2 = is_digit c2
      in if p1 \<and> \<not> p2 then 1
         else if p2 \<and> \<not> p1 then - 1
         else if n1 \<and> n2 then
           (let s1 = dropWhile (\<lambda>c. c = CHR ''0'') (c1 # t1);
                s2 = dropWhile (\<lambda>c. c = CHR ''0'') (c2 # t2);
                d1 = takeWhile is_digit s1; d2 = takeWhile is_digit s2
            in if length d1 > length d2 then 1
               else if length d2 > length d1 then - 1
               else if memcmp d1 d2 \<noteq> 0 then memcmp d1 d2
               else lexnum_loop (dropWhile is_digit s1) (dropWhile is_digit s2))
         else if n1 then 1
         else if n2 then - 1
         else if schar c1 > schar c2 then 1
         else if schar c2 > schar c1 then - 1
         else lexnum_loop t1 t2)"
  by pat_completeness auto
termination
  by (relation "measure (\<lambda>(a, b). length a)") (auto simp: dropWhile_digits_shorter simp del: dropWhile.simps)

definition lexNumCmp :: "bytes \<Rightarrow> bytes \<Rightarrow> int" where
  "lexNumCmp s1 s2 = lexnum_loop (cstr s1) (cstr s2)"

text \<open>The tokens it compares: a character, a number without leading zeros, or 255.\<close>

function tokens :: "bytes \<Rightarrow> (int \<times> bytes) list" where
  "tokens [] = []"
| "tokens (c # cs) =
     (if is_digit c then
        (let s = dropWhile (\<lambda>c. c = CHR ''0'') (c # cs)
         in (200, takeWhile is_digit s) # tokens (dropWhile is_digit s))
      else (if c = CHR 0xFF then 300 else schar c, []) # tokens cs)"
  by pat_completeness auto
termination
  by (relation "measure length") (auto simp: dropWhile_digits_shorter simp del: dropWhile.simps)

definition token_cmp :: "int \<times> bytes \<Rightarrow> int \<times> bytes \<Rightarrow> int" where
  "token_cmp = lex_cmp (\<lambda>a b. fst a - fst b) (\<lambda>a b. sized_memcmp (snd a) (snd b))"

lemma schar_bounds [simp]: "- 128 \<le> schar c" "schar c < 128"
  using uchar_bounds [of c] by (auto simp: schar_def simp del: uchar_bounds uchar_not_neg)

lemma schar_big [simp]:
  "schar c < 200" "schar c < 300" "\<not> 200 < schar c" "\<not> 300 < schar c" "schar c \<noteq> 200" "schar c \<noteq> 300"
  using schar_bounds(2) [of c] by (linarith | simp del: schar_bounds)+

lemma schar_inj [simp]: "schar c = schar d \<longleftrightarrow> c = d"
  using uchar_bounds [of c] uchar_bounds [of d] by (auto simp: schar_def simp del: uchar_bounds uchar_not_neg split: if_splits)

lemma ff_not_digit [simp]: "\<not> is_digit (CHR 0xFF)"
  by (simp add: is_digit_def uchar_def)

lemma sgn_sized_memcmp:
  "sgn (sized_memcmp a b) =
     (if length a > length b then 1 else if length b > length a then - 1 else sgn (memcmp a b))"
  by (auto simp: sized_memcmp_def lex_cmp_def sgn_if)

lemma sized_memcmp_self [simp]: "sized_memcmp a a = 0"
  by (simp add: sized_memcmp_def lex_cmp_def memcmp_eq_0)

declare tokens.simps(2) [simp del]

lemma sgn_list_cmp_Cons:
  "sgn (list_cmp c (x # xs) (y # ys)) = (if c x y \<noteq> 0 then sgn (c x y) else sgn (list_cmp c xs ys))"
  by simp

lemma token_cmp_simps [simp]:
  "token_cmp t t = 0" "a \<noteq> b \<Longrightarrow> token_cmp (a, x) (b, y) = a - b"
  by (simp_all add: token_cmp_def lex_cmp_def)

lemma digits_step:
  fixes n1 n2 :: nat and L T m r R :: int
  assumes "L = (if n1 > n2 then 1 else if n2 > n1 then - 1 else if m \<noteq> 0 then m else r)"
    and "sgn T = (if n1 > n2 then 1 else if n2 > n1 then - 1 else sgn m)"
    and "T = 0 \<longleftrightarrow> n1 = n2 \<and> m = 0" and "n1 = n2 \<Longrightarrow> m = 0 \<Longrightarrow> sgn r = sgn R"
  shows "sgn L = (if T \<noteq> 0 then sgn T else sgn R)"
  using assms by (cases "n1 = n2") auto

lemma lexnum_tokens: "sgn (lexnum_loop a b) = sgn (list_cmp token_cmp (tokens a) (tokens b))"
proof (induction a b rule: lexnum_loop.induct)
  case (2 c cs)
  then show ?case by (simp add: tokens.simps(2) [of c cs] Let_def)
next
  case (3 c cs)
  then show ?case by (simp add: tokens.simps(2) [of c cs] Let_def)
next
  case (4 c1 t1 c2 t2)
  let ?s1 = "dropWhile (\<lambda>c. c = CHR ''0'') (c1 # t1)" and ?s2 = "dropWhile (\<lambda>c. c = CHR ''0'') (c2 # t2)"
  let ?d1 = "takeWhile is_digit ?s1" and ?d2 = "takeWhile is_digit ?s2"
  have t1: "tokens (c1 # t1) = (if is_digit c1 then (200, ?d1) # tokens (dropWhile is_digit ?s1)
      else (if c1 = CHR 0xFF then 300 else schar c1, []) # tokens t1)"
    by (simp only: tokens.simps(2) Let_def)
  have t2: "tokens (c2 # t2) = (if is_digit c2 then (200, ?d2) # tokens (dropWhile is_digit ?s2)
      else (if c2 = CHR 0xFF then 300 else schar c2, []) # tokens t2)"
    by (simp only: tokens.simps(2) Let_def)
  note b = schar_bounds [of c1] schar_bounds [of c2]
  show ?case
  proof (cases "is_digit c1 \<and> is_digit c2")
    case True
    then have nf: "c1 \<noteq> CHR 0xFF" "c2 \<noteq> CHR 0xFF" by auto
    have "lexnum_loop (c1 # t1) (c2 # t2) =
        (if length ?d1 > length ?d2 then 1 else if length ?d2 > length ?d1 then - 1
         else if memcmp ?d1 ?d2 \<noteq> 0 then memcmp ?d1 ?d2
         else lexnum_loop (dropWhile is_digit ?s1) (dropWhile is_digit ?s2))"
      using True nf by (simp only: lexnum_loop.simps(4) Let_def simp_thms if_False if_True)
    moreover have "sgn (token_cmp (200, ?d1) (200, ?d2)) =
        (if length ?d1 > length ?d2 then 1 else if length ?d2 > length ?d1 then - 1 else sgn (memcmp ?d1 ?d2))"
      by (simp add: token_cmp_def lex_cmp_def sgn_sized_memcmp del: dropWhile.simps takeWhile.simps)
    moreover have "token_cmp (200, ?d1) (200, ?d2) = 0 \<longleftrightarrow> length ?d1 = length ?d2 \<and> memcmp ?d1 ?d2 = 0"
      by (auto simp: token_cmp_def lex_cmp_def sized_memcmp_def simp del: dropWhile.simps takeWhile.simps)
    moreover have "sgn (lexnum_loop (dropWhile is_digit ?s1) (dropWhile is_digit ?s2)) =
        sgn (list_cmp token_cmp (tokens (dropWhile is_digit ?s1)) (tokens (dropWhile is_digit ?s2)))"
      if "length ?d1 = length ?d2" "memcmp ?d1 ?d2 = 0"
      by (rule "4.IH"(1) [OF refl refl refl refl _ _ _ refl refl refl refl])
         (use True nf that in \<open>simp_all only: simp_thms less_irrefl not_False_eq_True\<close>)
    ultimately have "sgn (lexnum_loop (c1 # t1) (c2 # t2)) =
        (if token_cmp (200, ?d1) (200, ?d2) \<noteq> 0 then sgn (token_cmp (200, ?d1) (200, ?d2))
         else sgn (list_cmp token_cmp (tokens (dropWhile is_digit ?s1)) (tokens (dropWhile is_digit ?s2))))"
      by (rule digits_step)
    then show ?thesis
      using True unfolding t1 t2 by (simp only: sgn_list_cmp_Cons simp_thms if_True)
  next
    case False
    let ?k = "\<lambda>c. if is_digit c then 200 else if c = CHR 0xFF then 300 else schar c"
    have d: "is_digit c \<Longrightarrow> c \<noteq> CHR 0xFF" for c by auto
    have loop: "lexnum_loop (c1 # t1) (c2 # t2) =
        (if ?k c1 > ?k c2 then 1 else if ?k c2 > ?k c1 then - 1 else lexnum_loop t1 t2)"
      using False b d [of c1] d [of c2]
      by (cases "is_digit c1"; cases "is_digit c2"; cases "c1 = CHR 0xFF"; cases "c2 = CHR 0xFF";
          simp only: lexnum_loop.simps(4) Let_def simp_thms if_True if_False; simp)
    have tok: "tokens (c # t) = (?k c, if is_digit c then takeWhile is_digit (dropWhile (\<lambda>c. c = CHR ''0'') (c # t)) else []) #
        tokens (if is_digit c then dropWhile is_digit (dropWhile (\<lambda>c. c = CHR ''0'') (c # t)) else t)" for c t
      by (simp only: tokens.simps(2) Let_def split: if_split) simp
    show ?thesis
    proof (cases "?k c1 = ?k c2")
      case True
      then have nd: "\<not> is_digit c1" "\<not> is_digit c2" and eq: "c1 = c2"
        using False b by (auto split: if_splits)
      have "sgn (lexnum_loop t1 t2) = sgn (list_cmp token_cmp (tokens t1) (tokens t2))"
        by (rule "4.IH"(2) [OF refl refl refl refl]) (use nd eq in auto)
      moreover have "lexnum_loop (c1 # t1) (c2 # t2) = lexnum_loop t1 t2" using loop True by simp
      ultimately show ?thesis
        unfolding tok using nd eq by simp
    next
      case False
      then have "sgn (lexnum_loop (c1 # t1) (c2 # t2)) = sgn (?k c1 - ?k c2)"
        unfolding loop by (simp add: sgn_if)
      then show ?thesis
        unfolding tok sgn_list_cmp_Cons using False by simp
    qed
  qed
qed simp

interpretation lexnum: three_way lexNumCmp UNIV
proof -
  have "three_way token_cmp UNIV" unfolding token_cmp_def
    by (rule three_way_lex_all) (rule three_way_key [where f = fst], rule three_way_image [where f = snd], rule three_way_sized)
  then have "three_way (\<lambda>a b. list_cmp token_cmp (tokens (cstr a)) (tokens (cstr b))) UNIV"
    by (intro three_way_image [where f = "\<lambda>a. tokens (cstr a)"] three_way_subset [OF three_way_list]) auto
  then show "three_way lexNumCmp UNIV"
    by (rule three_way_sgn_cong) (simp add: lexNumCmp_def lexnum_tokens)
qed

text \<open>
  \<open>compareDottedFieldNames\<close>, component by component; an exhausted string is \<open>[]\<close> (a
  trailing dot leaves nothing either). At most \<open>maxLoops\<close> components are looked at.
\<close>

datatype field_compare = LEFT_SUBFIELD | LEFT_BEFORE | SAME | RIGHT_BEFORE | RIGHT_SUBFIELD

definition component :: "bytes \<Rightarrow> bytes" where
  "component s = takeWhile (\<lambda>c. c \<noteq> CHR ''.'') s"

definition after_component :: "bytes \<Rightarrow> bytes" where
  "after_component s = drop (length (component s) + 1) s"

fun dotted_loop :: "nat \<Rightarrow> bytes \<Rightarrow> bytes \<Rightarrow> field_compare res" where
  "dotted_loop 0 l r = Inl AssertFail"
| "dotted_loop (Suc n) l r =
     (if l = [] then (if r = [] then Inr SAME else Inr RIGHT_SUBFIELD)
      else if r = [] then Inr LEFT_SUBFIELD
      else let x = lexNumCmp (component l) (component r)
           in if x < 0 then Inr LEFT_BEFORE
              else if x > 0 then Inr RIGHT_BEFORE
              else dotted_loop n (after_component l) (after_component r))"

definition maxLoops :: nat where "maxLoops = 1024 * 1024"

definition compareDottedFieldNames :: "bytes \<Rightarrow> bytes \<Rightarrow> field_compare res" where
  "compareDottedFieldNames l r = dotted_loop maxLoops l r"

section \<open>Arrays as vectors\<close>

text \<open>\<open>stringToNum\<close>: 32-bit arithmetic; anything that is not all digits throws the number 0.\<close>

fun num_loop :: "bytes \<Rightarrow> 32 word \<Rightarrow> (32 word) res" where
  "num_loop [] x = Inr x"
| "num_loop (c # cs) x = (if is_digit c then num_loop cs (x * 10 + word_of_nat (digit_val c)) else Inl (ThrownInt 0))"

definition stringToNum :: "bytes \<Rightarrow> (32 word) res" where
  "stringToNum str = (if str = [] then Inl (ThrownInt 0) else num_loop str 0)"

text \<open>\<open>v.resize(u+1); v[u] = e\<close>: new places hold the \<open>eoo()\<close> element.\<close>

definition vector_put :: "nat \<Rightarrow> elem \<Rightarrow> elem option list \<Rightarrow> elem option list" where
  "vector_put u e v = (if u \<ge> length v then v @ replicate (u + 1 - length v) None else v)[u := Some e]"

text \<open>
  \<open>BSONElement::Array()\<close>. The handler catches \<open>unsigned\<close>; what \<open>stringToNum\<close> throws is
  an \<open>int\<close>, so it is not caught here.
\<close>

fun array_loop :: "doc \<Rightarrow> elem option list \<Rightarrow> elem option list res" where
  "array_loop [] v = Inr v"
| "array_loop (e # es) v =
     bind_res (stringToNum (fst e)) (\<lambda>u.
     bind_res (guard (u < 1000000) AssertFail) (\<lambda>_. array_loop es (vector_put (unat u) e v)))"

definition element_Array :: "bson_value \<Rightarrow> elem option list res" where
  "element_Array v = (case v of VArray es \<Rightarrow> array_loop es [] | _ \<Rightarrow> Inl (Uassert 13111))"

section \<open>Query operators\<close>

datatype MatchType =
    Equality | LT | LTE | GTE | GT | opIN | NE | opSIZE | opALL | NIN | opEXISTS | opMOD | opTYPE
  | opREGEX | opOPTIONS | opELEM_MATCH | opNEAR | opWITHIN | opMAX_DISTANCE

text \<open>The characters of \<open>fn\<close> from position \<open>i\<close> on are \<open>s\<close>; \<open>ends\<close>: and then its terminator.\<close>

definition has :: "bytes \<Rightarrow> nat \<Rightarrow> bytes \<Rightarrow> bool" where
  "has fn i s \<longleftrightarrow> take (length s) (drop i fn) = s"

definition ends :: "bytes \<Rightarrow> nat \<Rightarrow> bytes \<Rightarrow> bool" where
  "ends fn i s \<longleftrightarrow> drop i fn = s"

definition getGtLtOp :: "bytes \<Rightarrow> MatchType \<Rightarrow> MatchType" where
  "getGtLtOp fn dflt =
     (if has fn 0 ''$'' \<and> length fn > 1 then
        (if has fn 2 ''t'' then
           (if has fn 1 ''g'' then (if ends fn 3 '''' then GT else if ends fn 3 ''e'' then GTE else dflt)
            else if has fn 1 ''l'' then (if ends fn 3 '''' then LT else if ends fn 3 ''e'' then LTE else dflt)
            else dflt)
         else if has fn 1 ''ne'' then
           (if ends fn 3 '''' then NE else if has fn 3 ''ar'' then opNEAR else dflt)
         else if has fn 1 ''m'' then
           (if ends fn 2 ''od'' then opMOD else if ends fn 2 ''axDistance'' then opMAX_DISTANCE else dflt)
         else if ends fn 1 ''type'' then opTYPE
         else if ends fn 1 ''in'' then opIN
         else if ends fn 1 ''nin'' then NIN
         else if ends fn 1 ''all'' then opALL
         else if ends fn 1 ''size'' then opSIZE
         else if has fn 1 ''e'' then
           (if ends fn 2 ''xists'' then opEXISTS else if ends fn 2 ''lemMatch'' then opELEM_MATCH else dflt)
         else if ends fn 1 ''regex'' then opREGEX
         else if ends fn 1 ''options'' then opOPTIONS
         else if ends fn 1 ''within'' then opWITHIN
         else dflt)
      else dflt)"

text \<open>\<open>getGtLtOp(const BSONElement&)\<close>: the operator of a query value such as \<open>{ $gt : 3 }\<close>.\<close>

definition element_getGtLtOp :: "bson_value \<Rightarrow> MatchType" where
  "element_getGtLtOp v =
     (case v of VObject [] \<Rightarrow> Equality | VObject ((n, _) # _) \<Rightarrow> getGtLtOp n Equality | _ \<Rightarrow> Equality)"

definition elementHandlingGtLt :: "elem \<Rightarrow> elem" where
  "elementHandlingGtLt e =
     (case e of
        (n, VObject ((fn, w) # es)) \<Rightarrow> if has fn 0 ''$'' \<and> has fn 2 ''t'' then (n, w) else e
      | _ \<Rightarrow> e)"

section \<open>Facts and properties\<close>

lemma after_component_shorter: "l \<noteq> [] \<Longrightarrow> length (after_component l) < length l"
  by (simp add: after_component_def)

text \<open>The mirror image of a result.\<close>

fun mirrored :: "field_compare \<Rightarrow> field_compare" where
  "mirrored LEFT_SUBFIELD = RIGHT_SUBFIELD" | "mirrored LEFT_BEFORE = RIGHT_BEFORE" | "mirrored SAME = SAME"
| "mirrored RIGHT_BEFORE = LEFT_BEFORE" | "mirrored RIGHT_SUBFIELD = LEFT_SUBFIELD"

lemma dotted_loop_returns:
  "length l < n \<or> length r < n \<Longrightarrow> \<exists>c. dotted_loop n l r = Inr c \<and> dotted_loop n r l = Inr (mirrored c)"
proof (induction n arbitrary: l r)
  case (Suc n)
  let ?l = "after_component l" and ?r = "after_component r"
  have IH: "\<exists>c. dotted_loop n ?l ?r = Inr c \<and> dotted_loop n ?r ?l = Inr (mirrored c)" if "l \<noteq> []" "r \<noteq> []"
    using Suc.IH [of ?l ?r] Suc.prems after_component_shorter [OF that(1)] after_component_shorter [OF that(2)] by auto
  have flip: "lexNumCmp (component r) (component l) < 0 \<longleftrightarrow> 0 < lexNumCmp (component l) (component r)"
    "0 < lexNumCmp (component r) (component l) \<longleftrightarrow> lexNumCmp (component l) (component r) < 0"
    using lexnum.cmp_flip_less [of "component l" "component r"] lexnum.cmp_flip_less [of "component r" "component l"] by auto
  show ?case
  proof (cases "l = [] \<or> r = []")
    case True
    then show ?thesis by auto
  next
    case False
    then show ?thesis using IH flip by (auto simp: Let_def)
  qed
qed simp

lemma has_simps [simp]:
  "has fn i [] \<longleftrightarrow> True" "has (c # cs) (Suc i) s \<longleftrightarrow> has cs i s" "has [] i (d # s) \<longleftrightarrow> False"
  "has (c # cs) 0 (d # s) \<longleftrightarrow> c = d \<and> has cs 0 s"
  by (auto simp: has_def)

lemma ends_simps [simp]:
  "ends (c # cs) (Suc i) s \<longleftrightarrow> ends cs i s" "ends [] i s \<longleftrightarrow> s = []" "ends cs 0 s \<longleftrightarrow> cs = s"
  by (auto simp: ends_def)

lemma num_loop_digits:
  "list_all is_digit s \<Longrightarrow> num_loop s (word_of_nat k) = Inr (word_of_nat (digits_val k s))"
proof (induction s arbitrary: k)
  case (Cons c s)
  then show ?case using Cons.IH [of "k * 10 + digit_val c"] by simp
qed simp

lemma stringToNum_show: "stringToNum (show_nat n) = Inr (word_of_nat n)"
  using num_loop_digits [OF show_nat_digits [of n], of 0] digits_val_show_nat [of n]
  by (simp add: stringToNum_def)

lemma num_loop_other: "\<not> list_all is_digit s \<Longrightarrow> num_loop s x = Inl (ThrownInt 0)"
  by (induction s arbitrary: x) auto

text \<open>An array whose names are \<open>0, 1, 2, \<dots>\<close>, as the array builder makes them.\<close>

definition numbered :: "nat \<Rightarrow> bson_value list \<Rightarrow> doc" where
  "numbered k vs = map (\<lambda>i. (show_nat (k + i), vs ! i)) [0..<length vs]"

lemma numbered_Cons: "numbered k (v # vs) = (show_nat k, v) # numbered (Suc k) vs"
  by (simp add: numbered_def upt_conv_Cons map_Suc_upt [symmetric] del: upt_Suc)

lemma array_loop_numbered:
  "k + length vs \<le> 1000000 \<Longrightarrow> length v = k \<Longrightarrow>
   array_loop (numbered k vs) v = Inr (v @ map Some (numbered k vs))"
proof (induction vs arbitrary: k v)
  case Nil
  then show ?case by (simp add: numbered_def)
next
  case (Cons x vs)
  have u: "unat (word_of_nat k :: 32 word) = k"
    using Cons.prems unat_word_of_int32 [of k] by simp
  then have "(word_of_nat k :: 32 word) < 1000000"
    using Cons.prems by (simp add: word_less_nat_alt)
  moreover have "vector_put k (show_nat k, x) v = v @ [Some (show_nat k, x)]"
    using Cons.prems(2) by (auto simp: vector_put_def list_update_append)
  ultimately show ?case
    using Cons.IH [of "Suc k" "v @ [Some (show_nat k, x)]"] Cons.prems u
    by (simp add: numbered_Cons stringToNum_show)
qed

text \<open>
  \<open>lexNumCmp\<close> compares two names as sequences of tokens, where a token is a run of
  digits taken as a number or a single other character; so it is a total preorder, as the
  sorts and ordered containers that use it need.
\<close>

theorem lexNumCmp_total_preorder:
  "sgn (lexNumCmp a b) = sgn (list_cmp token_cmp (tokens (cstr a)) (tokens (cstr b))) \<and>
   sgn (lexNumCmp b a) = - sgn (lexNumCmp a b) \<and>
   (lexNumCmp a b \<le> 0 \<and> lexNumCmp b c \<le> 0 \<longrightarrow> lexNumCmp a c \<le> 0)"
  using lexnum.cmp_antisym [of a b] lexnum.cmp_trans [of a b c] by (auto simp: lexNumCmp_def lexnum_tokens)

theorem lexNumCmp_total_preorder_witness:
  "sgn (lexNumCmp ''a007'' ''a10'') = sgn (list_cmp token_cmp (tokens (cstr ''a007'')) (tokens (cstr ''a10''))) \<and>
   sgn (lexNumCmp ''a10'' ''a007'') = - sgn (lexNumCmp ''a007'' ''a10'') \<and> lexNumCmp ''a007'' ''b'' \<le> 0"
proof -
  have "lexNumCmp ''a007'' ''a10'' \<le> 0 \<and> lexNumCmp ''a10'' ''b'' \<le> 0"
    by (simp add: lexNumCmp_def cstr_def is_digit_def uchar_def schar_def)
  then show ?thesis using lexNumCmp_total_preorder [of "''a007''" "''a10''" "''b''"] by blast
qed

text \<open>
  \<open>compareDottedFieldNames\<close> never reaches its loop limit on names shorter than it, and
  swapping the arguments mirrors the result.
\<close>

theorem dotted_names_mirror:
  assumes "length l < maxLoops \<or> length r < maxLoops"
  shows "\<exists>c. compareDottedFieldNames l r = Inr c \<and> compareDottedFieldNames r l = Inr (mirrored c)"
  using dotted_loop_returns [OF assms] by (simp add: compareDottedFieldNames_def)

theorem dotted_names_mirror_witness:
  "\<exists>c. compareDottedFieldNames ''a.b'' ''a.b.c'' = Inr c \<and> compareDottedFieldNames ''a.b.c'' ''a.b'' = Inr (mirrored c)"
  by (rule dotted_names_mirror) (simp add: maxLoops_def)

text \<open>
  An array with the element names \<open>0, 1, 2, \<dots>\<close> (up to a million) becomes the vector of
  its elements in order.
\<close>

theorem Array_of_numbered:
  assumes "length vs \<le> 1000000"
  shows "element_Array (VArray (numbered 0 vs)) = Inr (map Some (numbered 0 vs))"
  using array_loop_numbered [of 0 vs "[]"] assms by (simp add: element_Array_def)

theorem Array_of_numbered_witness:
  "element_Array (VArray (numbered 0 [VInt 1, VNull])) = Inr (map Some (numbered 0 [VInt 1, VNull]))"
  by (rule Array_of_numbered) simp

text \<open>
  A field name that is not a number makes \<open>Array()\<close> throw, although its comment says
  that such fields are ignored: the handler is for another type than the one thrown.
\<close>

theorem Array_throws_on_other_names:
  assumes "n = [] \<or> \<not> list_all is_digit n"
  shows "element_Array (VArray (numbered 0 [] @ (n, v) # es)) = Inl (ThrownInt 0)"
  using assms num_loop_other [of n 0] by (auto simp: element_Array_def numbered_def stringToNum_def)

theorem Array_throws_on_other_names_witness:
  "element_Array (VArray (numbered 0 [] @ (''x'', VNull) # [])) = Inl (ThrownInt 0)"
  by (rule Array_throws_on_other_names) (simp add: is_digit_def uchar_def)

text \<open>The operators by name.\<close>

definition operators :: "(bytes \<times> MatchType) list" where
  "operators = [(''$gt'', GT), (''$gte'', GTE), (''$lt'', LT), (''$lte'', LTE), (''$ne'', NE), (''$mod'', opMOD),
     (''$maxDistance'', opMAX_DISTANCE), (''$type'', opTYPE), (''$in'', opIN), (''$nin'', NIN), (''$all'', opALL),
     (''$size'', opSIZE), (''$exists'', opEXISTS), (''$elemMatch'', opELEM_MATCH), (''$regex'', opREGEX),
     (''$options'', opOPTIONS), (''$within'', opWITHIN)]"

text \<open>
  The nested character tests of \<open>getGtLtOp\<close> recognise exactly the operators of the
  table, and every name that starts with \<open>$near\<close>; any other name gives the default.
\<close>

theorem getGtLtOp_table:
  "getGtLtOp fn d = (case map_of operators fn of Some t \<Rightarrow> t | None \<Rightarrow> if has fn 0 ''$near'' then opNEAR else d)"
proof (cases fn)
  case (Cons c0 f1)
  then show ?thesis
  proof (cases f1)
    case f1: (Cons c1 f2)
    then show ?thesis
    proof (cases f2)
      case f2: (Cons c2 f3)
      then show ?thesis
        using Cons f1 by (simp add: getGtLtOp_def operators_def eval_nat_numeral)
    qed (use Cons f1 in \<open>simp add: getGtLtOp_def operators_def eval_nat_numeral\<close>)
  qed (use Cons in \<open>simp add: getGtLtOp_def operators_def\<close>)
qed (simp add: getGtLtOp_def operators_def)

end
