(* ===== verification/BsonJson.thy ===== *)
theory BsonJson
  imports BsonText
begin

unbundle bit_operations_syntax

text \<open>
  Objects as JSON text (\<open>escape\<close> and \<open>jsonString\<close> of db/jsobj.cpp, which mongoR.cc hands to
  R), the string and object-id productions of the reader (db/json.cpp), and the log
  format (\<open>toString\<close> of bson/bson-inl.h). How a double is printed and how a date is
  spelled are parameters (\<open>pr_double\<close>, \<open>pr_nice\<close>, \<open>pr_date\<close>): both are library code.
\<close>

section \<open>Output\<close>

definition escape :: "bytes \<Rightarrow> bool \<Rightarrow> bytes" where
  "escape s escape_slash = concat (map (\<lambda>c.
     if c = CHR 0x22 then [CHR 0x5C, CHR 0x22]
     else if c = CHR 0x5C then [CHR 0x5C, CHR 0x5C]
     else if c = CHR ''/'' then (if escape_slash then [CHR 0x5C, CHR ''/''] else ''/'')
     else if c = CHR 0x08 then [CHR 0x5C, CHR ''b'']
     else if c = CHR 0x0C then [CHR 0x5C, CHR ''f'']
     else if c = CHR 0x0A then [CHR 0x5C, CHR ''n'']
     else if c = CHR 0x0D then [CHR 0x5C, CHR ''r'']
     else if c = CHR 0x09 then [CHR 0x5C, CHR ''t'']
     else if 0 \<le> schar c \<and> schar c \<le> 0x1f then [CHR 0x5C, CHR ''u'', CHR ''0'', CHR ''0''] @ toHexLower [c]
     else [c]) s)"

datatype json_format = Strict | TenGen | JS

record printers =
  pr_double :: "64 word \<Rightarrow> bytes"
  pr_nice :: "64 word \<Rightarrow> bytes"
  pr_date :: "64 word \<Rightarrow> bytes"

definition quoted :: "bytes \<Rightarrow> bytes" where
  "quoted s = CHR 0x22 # s @ [CHR 0x22]"

definition indent :: "int \<Rightarrow> bytes" where
  "indent pretty = concat (replicate (nat pretty) ''  '')"

text \<open>Hexadecimal output of a small number, two characters wide.\<close>

definition show_hex2 :: "8 word \<Rightarrow> bytes" where
  "show_hex2 w = toHexLower [chr8 w]"

definition deeper :: "int \<Rightarrow> int" where
  "deeper pretty = (if pretty \<noteq> 0 then pretty + 1 else 0)"

text \<open>
  \<open>BSONElement::jsonString\<close> (the element), \<open>BSONObj::jsonString\<close> (the object) and their
  loops over the fields. An \<open>Undefined\<close> element is the empty string, in the loops too.
\<close>

fun json_elem :: "printers \<Rightarrow> json_format \<Rightarrow> bool \<Rightarrow> int \<Rightarrow> bytes \<Rightarrow> bson_value \<Rightarrow> bytes res"
  and json_items :: "printers \<Rightarrow> json_format \<Rightarrow> int \<Rightarrow> doc \<Rightarrow> bytes res"
  and json_fields :: "printers \<Rightarrow> json_format \<Rightarrow> int \<Rightarrow> doc \<Rightarrow> bytes res" where
  "json_elem P fmt names pretty n v =
     (let s = (if names then quoted (escape n False) @ '' : '' else '''')
      in case v of
        VUndefined \<Rightarrow> Inr ''''
      | VString x \<Rightarrow> Inr (s @ quoted (escape x False))
      | VSymbol x \<Rightarrow> Inr (s @ quoted (escape x False))
      | VLong x \<Rightarrow> Inr (s @ show_int (sint x))
      | VInt x \<Rightarrow> Inr (s @ pr_double P (dbl_of_int (sint x)))
      | VDouble d \<Rightarrow> if nan_test d then Inl (Massert 10311) else Inr (s @ pr_double P d)
      | VBool b \<Rightarrow> Inr (s @ (if b then ''true'' else ''false''))
      | VNull \<Rightarrow> Inr (s @ ''null'')
      | VObject [] \<Rightarrow> Inr (s @ ''{}'')
      | VObject es \<Rightarrow> bind_res (json_fields P fmt pretty es) (\<lambda>t. Inr (s @ ''{ '' @ t @ '' }''))
      | VArray [] \<Rightarrow> Inr (s @ ''[]'')
      | VArray es \<Rightarrow> bind_res (json_items P fmt pretty es) (\<lambda>t. Inr (s @ ''[ '' @ t @ '' ]''))
      | VDBRef ns d \<Rightarrow> Inr (s @
          (if fmt = TenGen then ''Dbref( '' else ''{ '' @ quoted ''$ref'' @ '' : '') @ quoted (cstr ns) @ '', '' @
          (if fmt \<noteq> TenGen then quoted ''$id'' @ '' : '' else '''') @ quoted (oid_str d) @ '' '' @
          (if fmt = TenGen then '')'' else ''}''))
      | VOID d \<Rightarrow> Inr (s @
          (if fmt = TenGen then ''ObjectId( '' else ''{ '' @ quoted ''$oid'' @ '' : '') @ quoted (oid_str d) @
          (if fmt = TenGen then '' )'' else '' }''))
      | VBinData t d \<Rightarrow> Inr (s @ ''{ '' @ quoted ''$binary'' @ '' : '' @ quoted (base64_encode d) @ '', '' @
          quoted ''$type'' @ '' : '' @ quoted (show_hex2 t) @ '' }'')
      | VDate d \<Rightarrow> Inr (s @ (if fmt = Strict then ''{ '' @ quoted ''$date'' @ '' : '' else ''Date( '') @
          (if pretty \<noteq> 0 then (if d = 0 then ''0'' else quoted (pr_date P d)) else show_nat (unat d)) @
          (if fmt = Strict then '' }'' else '' )''))
      | VRegEx r opts \<Rightarrow> Inr (s @
          (if fmt = Strict
           then ''{ '' @ quoted ''$regex'' @ '' : '' @ quoted (escape r False) @ '', '' @
                quoted ''$options'' @ '' : '' @ quoted opts @ '' }''
           else ''/'' @ escape r True @ ''/'' @ filter (\<lambda>f. f \<in> {CHR ''g'', CHR ''i'', CHR ''m''}) opts))
      | VCodeWScope c [] \<Rightarrow> Inr (s @ c)
      | VCodeWScope c es \<Rightarrow> bind_res (json_fields P Strict 0 es) (\<lambda>t.
          Inr (s @ ''{ '' @ quoted ''$code'' @ '' : '' @ c @ '' ,  '' @ quoted ''$scope'' @ '' : { '' @ t @ '' } }''))
      | VCode c \<Rightarrow> Inr (s @ c)
      | VTimestamp w \<Rightarrow> Inr (s @ ''{ '' @ quoted ''t'' @ '' : '' @ show_nat (unat w div 2 ^ 32 * 1000) @ '' , '' @
          quoted ''i'' @ '' : '' @ show_nat (unat w mod 2 ^ 32) @ '' }'')
      | VMinKey \<Rightarrow> Inr (s @ ''{ '' @ quoted ''$minKey'' @ '' : 1 }'')
      | VMaxKey \<Rightarrow> Inr (s @ ''{ '' @ quoted ''$maxKey'' @ '' : 1 }''))"
| "json_items P fmt pretty [] = Inr ''''"
| "json_items P fmt pretty ((n, v) # es) =
     bind_res (json_elem P fmt False (deeper pretty) n v) (\<lambda>t.
     bind_res (json_items P fmt pretty es) (\<lambda>u.
       Inr ((if pretty \<noteq> 0 then CHR 0x0A # indent pretty else '''') @ t @
            (if es = [] then '''' else '', '' @ u))))"
| "json_fields P fmt pretty [] = Inr ''''"
| "json_fields P fmt pretty ((n, v) # es) =
     bind_res (json_elem P fmt True (deeper pretty) n v) (\<lambda>t.
     bind_res (json_fields P fmt pretty es) (\<lambda>u.
       Inr (t @ (if es = [] then ''''
                 else '','' @ (if pretty \<noteq> 0 then CHR 0x0A # indent pretty else '' '') @ u))))"

definition jsonString :: "printers \<Rightarrow> json_format \<Rightarrow> int \<Rightarrow> doc \<Rightarrow> bytes res" where
  "jsonString P fmt pretty d =
     (if d = [] then Inr ''{}'' else bind_res (json_fields P fmt pretty d) (\<lambda>t. Inr (''{ '' @ t @ '' }'')))"

section \<open>The log format\<close>

definition clipped :: "bool \<Rightarrow> bytes \<Rightarrow> bytes" where
  "clipped full s = (if \<not> full \<and> length s + 1 > 80 then take 70 s @ ''...'' else s)"

text \<open>
  \<open>toString(includeFieldName, full)\<close>; the structural checks its loop makes on the memory
  hold for encoded objects (BsonReader). \<open>binDataClean\<close> drops the inner length of subtype 2.
\<close>

fun str_elem :: "printers \<Rightarrow> bool \<Rightarrow> bool \<Rightarrow> bytes \<Rightarrow> bson_value \<Rightarrow> bytes"
  and str_list :: "printers \<Rightarrow> bool \<Rightarrow> bool \<Rightarrow> doc \<Rightarrow> bytes" where
  "str_elem P names full n v =
     (if names then n @ '': '' else '''') @
     (case v of
        VDate d \<Rightarrow> ''new Date('' @ show_nat (unat d) @ '')''
      | VRegEx r opts \<Rightarrow> ''/'' @ r @ ''/'' @ opts
      | VDouble d \<Rightarrow> pr_nice P d
      | VLong x \<Rightarrow> show_int (sint x)
      | VInt x \<Rightarrow> show_int (sint x)
      | VBool b \<Rightarrow> (if b then ''true'' else ''false'')
      | VObject [] \<Rightarrow> ''{}''
      | VObject es \<Rightarrow> ''{ '' @ str_list P True full es @ '' }''
      | VArray [] \<Rightarrow> ''{}''
      | VArray es \<Rightarrow> ''[ '' @ str_list P False full es @ '' ]''
      | VUndefined \<Rightarrow> ''undefined''
      | VNull \<Rightarrow> ''null''
      | VMaxKey \<Rightarrow> ''MaxKey''
      | VMinKey \<Rightarrow> ''MinKey''
      | VCodeWScope c [] \<Rightarrow> ''CodeWScope( '' @ c @ '', {})''
      | VCodeWScope c es \<Rightarrow> ''CodeWScope( '' @ c @ '', { '' @ str_list P True full es @ '' })''
      | VCode c \<Rightarrow> clipped full c
      | VSymbol s \<Rightarrow> quoted (clipped full s)
      | VString s \<Rightarrow> quoted (clipped full s)
      | VDBRef ns d \<Rightarrow> ''DBRef('' @ CHR 0x27 # cstr ns @ CHR 0x27 # '','' @ oid_str d @ '')''
      | VOID d \<Rightarrow> ''ObjectId('' @ CHR 0x27 # oid_str d @ CHR 0x27 # '')''
      | VBinData t d \<Rightarrow> ''BinData'' @
          (if full then ''('' @ show_nat (unat t) @ '', '' @ toHex (if t = 2 then drop 4 d else d) @ '')'' else '''')
      | VTimestamp w \<Rightarrow> ''Timestamp '' @ show_nat (unat w div 2 ^ 32 * 1000) @ ''|'' @ show_nat (unat w mod 2 ^ 32))"
| "str_list P names full [] = ''''"
| "str_list P names full ((n, v) # es) =
     str_elem P names full n v @ (if es = [] then '''' else '', '' @ str_list P names full es)"

definition doc_toString :: "printers \<Rightarrow> bool \<Rightarrow> bool \<Rightarrow> doc \<Rightarrow> bytes" where
  "doc_toString P isArray full d =
     (if d = [] then ''{}''
      else (if isArray then ''[ '' else ''{ '') @ str_list P (\<not> isArray) full d @ (if isArray then '' ]'' else '' }''))"

text \<open>\<open>hexDump\<close>: two digits a byte, and the character itself after some of them.\<close>

definition hexDump :: "bytes \<Rightarrow> bytes" where
  "hexDump data =
     concat (map (\<lambda>i. let c = data ! i in
       toHexLower [c] @
       (if is_digit c \<or> (schar (CHR ''A'') \<le> schar c \<and> schar c \<le> schar (CHR ''z''))
        then [CHR 0x27, c, CHR 0x27] else '''') @
       (if i \<noteq> length data - 1 then '' '' else '''')) [0..<length data])"

section \<open>The string productions of the reader\<close>

text \<open>\<open>chE\<close>: the character an escape letter stands for.\<close>

definition chE :: "char \<Rightarrow> char res" where
  "chE c =
     (if c = CHR 0x22 then Inr (CHR 0x22) else if c = CHR 0x27 then Inr (CHR 0x27)
      else if c = CHR 0x5C then Inr (CHR 0x5C) else if c = CHR ''/'' then Inr (CHR ''/'')
      else if c = CHR ''b'' then Inr (CHR 0x08) else if c = CHR ''f'' then Inr (CHR 0x0C)
      else if c = CHR ''n'' then Inr (CHR 0x0A) else if c = CHR ''r'' then Inr (CHR 0x0D)
      else if c = CHR ''t'' then Inr (CHR 0x09) else if c = CHR ''v'' then Inr (CHR 0x0B)
      else Inl AssertFail)"

definition is_xdigit :: "char \<Rightarrow> bool" where
  "is_xdigit c = (case fromHex c of Inr _ \<Rightarrow> True | Inl _ \<Rightarrow> False)"

text \<open>\<open>chU\<close>: a 16-bit code point to UTF-8.\<close>

definition chU :: "8 word \<Rightarrow> 8 word \<Rightarrow> bytes" where
  "chU first' second =
     (if first' = 0 \<and> second < 0x80 then [chr8 second]
      else if first' < 0x08 then
        [chr8 (0xC0 OR (push_bit 2 first' OR drop_bit 6 second)), chr8 (0x80 OR (NOT 0xC0 AND second))]
      else
        [chr8 (0xE0 OR drop_bit 4 first'),
         chr8 (0x80 OR (NOT 0xC0 AND (push_bit 2 first' OR drop_bit 6 second))),
         chr8 (0x80 OR (NOT 0xC0 AND second))])"

text \<open>
  One round of the repetition in \<open>str\<close> and \<open>singleQuoteStr\<close>, which differ in the quote
  \<open>q\<close>: an escape or a plain character, with the bytes it appends; \<open>None\<close> when neither matches.
\<close>

definition str_step :: "char \<Rightarrow> bytes \<Rightarrow> (bytes \<times> bytes) option" where
  "str_step q s =
     (case s of
        [] \<Rightarrow> None
      | c # cs \<Rightarrow>
          if c = CHR 0x5C then
            (case cs of
               [] \<Rightarrow> None
             | d # ds \<Rightarrow>
                 if d \<in> {CHR ''b'', CHR ''f'', CHR ''n'', CHR ''r'', CHR ''t'', CHR ''v''} then
                   (case chE d of Inr o' \<Rightarrow> Some ([o'], ds) | Inl _ \<Rightarrow> None)
                 else if d = CHR ''u'' \<and> length ds \<ge> 4 \<and> list_all is_xdigit (take 4 ds) then
                   (case (fromHex2 (ds ! 0) (ds ! 1), fromHex2 (ds ! 2) (ds ! 3)) of
                      (Inr a, Inr b) \<Rightarrow> Some (chU (u8 a) (u8 b), drop 4 ds) | _ \<Rightarrow> None)
                 else if d \<noteq> CHR ''x'' \<and> \<not> is_digit d then Some ([d], ds)
                 else None)
          else if \<not> (0 \<le> schar c \<and> schar c \<le> 0x1f) \<and> c \<noteq> q then Some ([c], cs)
          else None)"

text \<open>The production after its opening quote: the value and the rest of the input after the closing one.\<close>

function read_str :: "char \<Rightarrow> bytes \<Rightarrow> bytes \<Rightarrow> (bytes \<times> bytes) option" where
  "read_str q acc s =
     (case str_step q s of
        Some (out, rest) \<Rightarrow> if length rest < length s then read_str q (acc @ out) rest else None
      | None \<Rightarrow> (case s of c # cs \<Rightarrow> if c = q then Some (acc, cs) else None | [] \<Rightarrow> None))"
  by pat_completeness auto
termination
  by (relation "measure (\<lambda>(q, acc, s). length s)") auto

declare read_str.simps [simp del]

text \<open>\<open>quotedOid\<close>: exactly 24 hexadecimal digits in quotes.\<close>

definition read_quotedOid :: "bytes \<Rightarrow> (oid \<times> bytes) option" where
  "read_quotedOid s =
     (case s of
        c # cs \<Rightarrow>
          if c = CHR 0x22 \<and> length cs > 24 \<and> list_all is_xdigit (take 24 cs) \<and> cs ! 24 = CHR 0x22
          then (case unhex (take 24 cs) of Inr d \<Rightarrow> Some (d, drop 25 cs) | Inl _ \<Rightarrow> None)
          else None
      | [] \<Rightarrow> None)"

text \<open>\<open>fieldNameEnd\<close>: the reserved names are refused; \<open>intValue\<close>: an int if it fits.\<close>

definition fieldNameEnd :: "bytes \<Rightarrow> bytes res" where
  "fieldNameEnd name =
     (if name \<in> {''$oid'', ''$binary'', ''$type'', ''$date'', ''$regex'', ''$options''} then Inl (Massert 10338) else Inr name)"

definition intValue :: "64 word \<Rightarrow> bson_value" where
  "intValue num = (if - (2 ^ 31) \<le> sint num \<and> sint num \<le> 2 ^ 31 - 1 then VInt (ucast num) else VLong num)"

section \<open>Facts\<close>

lemma fromHex_digits_lower:
  "k < 16 \<Longrightarrow> is_xdigit (hexchars_lower ! k)"
  using fromHex_lower [of k] by (simp add: is_xdigit_def)

lemma toHexLower_one: "toHexLower [c] = [hex_digits hexchars_lower c ! 0, hex_digits hexchars_lower c ! 1]"
  by (simp add: toHexLower_def hex_digits_def)

lemma hex_digits_xdigit: "is_xdigit (hex_digits hexchars_lower c ! 0)" "is_xdigit (hex_digits hexchars_lower c ! 1)"
proof -
  have "of_char c div 16 < (16 :: nat)" "of_char c mod 16 < (16 :: nat)"
    using of_char_less [of c] by (simp_all add: less_mult_imp_div_less del: of_char_less)
  then show "is_xdigit (hex_digits hexchars_lower c ! 0)" "is_xdigit (hex_digits hexchars_lower c ! 1)"
    by (simp_all only: hex_digits_def unat_high_nibble unat_low_nibble nth_Cons_0 nth_Cons_Suc One_nat_def)
       (simp_all add: fromHex_digits_lower)
qed

lemma fromHex_0: "fromHex (CHR ''0'') = Inr 0"
  by (simp add: fromHex_def schar_def uchar_def)

lemma control_step:
  assumes "0 \<le> schar c" and "schar c \<le> 0x1f"
  shows "str_step (CHR 0x22) ([CHR 0x5C, CHR ''u'', CHR ''0'', CHR ''0''] @ toHexLower [c] @ t) = Some ([c], t)"
proof -
  have z: "fromHex2 (CHR ''0'') (CHR ''0'') = Inr NUL" "is_xdigit (CHR ''0'')"
    by (simp_all add: fromHex2_def fromHex_0 is_xdigit_def char_of_def)
  have h: "fromHex2 (hex_digits hexchars_lower c ! 0) (hex_digits hexchars_lower c ! 1) = Inr c"
    by (rule fromHex2_digits) (rule fromHex_lower)
  have "uchar c < 128" using assms uchar_bounds(2) [of c]
    by (auto simp: schar_def simp del: uchar_bounds split: if_splits)
  then have "u8 c < 0x80" by (simp add: word_less_nat_alt unat_u8 uchar_def)
  moreover have "u8 NUL = 0" by (simp add: u8_def)
  ultimately have "chU (u8 NUL) (u8 c) = [c]" by (simp add: chU_def)
  then show ?thesis
    using z h hex_digits_xdigit [of c] by (simp add: str_step_def toHexLower_one eval_nat_numeral)
qed

lemma escape_step: "str_step (CHR 0x22) (escape [c] False @ t) = Some ([c], t)"
proof (cases "c \<in> {CHR 0x22, CHR 0x5C, CHR ''/'', CHR 0x08, CHR 0x0C, CHR 0x0A, CHR 0x0D, CHR 0x09}")
  case True
  have nd: "\<not> is_digit (CHR 0x22)" "\<not> is_digit (CHR 0x5C)" by (simp_all add: is_digit_def uchar_def)
  have sl: "\<not> (0 \<le> schar (CHR ''/'') \<and> schar (CHR ''/'') \<le> 0x1f)" by (simp add: schar_def uchar_def)
  show ?thesis
    using True by (elim insertE emptyE) (simp_all add: escape_def str_step_def chE_def nd sl)
next
  case False
  then show ?thesis
  proof (cases "0 \<le> schar c \<and> schar c \<le> 0x1f")
    case True
    then have "escape [c] False = [CHR 0x5C, CHR ''u'', CHR ''0'', CHR ''0''] @ toHexLower [c]"
      using False by (simp add: escape_def)
    then show ?thesis using control_step [of c t] True by simp
  next
    case plain: False
    then have "escape [c] False = [c]" using False by (auto simp: escape_def)
    then show ?thesis using False plain by (simp add: str_step_def)
  qed
qed

lemma escape_Cons: "escape (c # s) b = escape [c] b @ escape s b"
  by (simp add: escape_def)

lemma read_str_escape: "read_str (CHR 0x22) acc (escape s False @ CHR 0x22 # rest) = Some (acc @ s, rest)"
proof (induction s arbitrary: acc)
  case Nil
  have "str_step (CHR 0x22) (CHR 0x22 # rest) = None" by (simp add: str_step_def)
  then show ?case by (simp add: read_str.simps [of _ _ "CHR 0x22 # rest"] escape_def)
next
  case (Cons c s)
  have "escape [c] False \<noteq> []" by (simp add: escape_def)
  then have "length (escape s False @ CHR 0x22 # rest) < length (escape (c # s) False @ CHR 0x22 # rest)"
    by (simp add: escape_Cons [of c s])
  moreover have "str_step (CHR 0x22) (escape (c # s) False @ CHR 0x22 # rest) = Some ([c], escape s False @ CHR 0x22 # rest)"
    using escape_step [of c "escape s False @ CHR 0x22 # rest"] by (simp add: escape_Cons [of c s])
  ultimately show ?case
    using Cons.IH [of "acc @ [c]"] by (subst read_str.simps) simp
qed

lemma read_oid_quoted:
  assumes "length d = 12"
  shows "read_quotedOid (quoted (oid_str d) @ rest) = Some (d, rest)"
proof -
  have l: "length (oid_str d) = 24" using assms by (simp add: oid_str_def)
  have "list_all is_xdigit (oid_str d)"
    using hex_digits_xdigit by (auto simp: oid_str_def toHexLower_def list_all_iff hex_digits_def)
  moreover have "unhex (oid_str d) = Inr d"
    using unhex_digits [OF fromHex_lower] by (simp add: oid_str_def toHexLower_def)
  ultimately show ?thesis using l by (simp add: read_quotedOid_def quoted_def nth_append)
qed

section \<open>Properties\<close>

text \<open>
  A string written by \<open>jsonString\<close> between quotes is read back unchanged by the
  \<open>str\<close> production of the JSON reader, which stops exactly behind the closing quote, for
  every string of bytes, with quotes, backslashes and control characters in it.
\<close>

theorem json_string_roundtrip:
  "json_elem P fmt False pretty n (VString s) = Inr (quoted (escape s False)) \<and>
   read_str (CHR 0x22) '''' (tl (quoted (escape s False)) @ rest) = Some (s, rest)"
  using read_str_escape [of "''''" s rest] by (simp add: quoted_def)

text \<open>
  An object id written by \<open>jsonString\<close> is read back unchanged by the \<open>quotedOid\<close>
  production of the JSON reader.
\<close>

theorem json_oid_roundtrip:
  assumes "length d = 12"
  shows "read_quotedOid (quoted (oid_str d) @ rest) = Some (d, rest)"
  using assms by (rule read_oid_quoted)

theorem json_oid_roundtrip_witness:
  "read_quotedOid (quoted (oid_str ''0123456789ab'') @ '' }'') = Some (''0123456789ab'', '' }'')"
  by (rule json_oid_roundtrip) simp

text \<open>
  An undefined element next to another field makes \<open>jsonString\<close> write an object that
  is not JSON: nothing stands before or after the comma.
\<close>

theorem json_undefined_breaks_object:
  "jsonString P fmt 0 [(n, VUndefined), (m, VNull)] = Inr (''{ , '' @ quoted (escape m False) @ '' : null }'') \<and>
   jsonString P fmt 0 [(m, VNull), (n, VUndefined)] = Inr (''{ '' @ quoted (escape m False) @ '' : null,  }'')"
  by (simp add: jsonString_def deeper_def)

text \<open>Printers for the examples.\<close>

definition demo_printers :: printers where
  "demo_printers = \<lparr>pr_double = \<lambda>_. '''', pr_nice = \<lambda>_. '''', pr_date = \<lambda>_. ''''\<rparr>"

end
