(* ===== verification/BsonLog.thy ===== *)
theory BsonLog
  imports BsonJson
begin

text \<open>
  The log format read from memory: \<open>BSONObj::toString\<close> and \<open>BSONElement::toString\<close>
  (bson/bson-inl.h) with the structural checks of their loop. On every encoded document
  it is the text \<open>doc_toString\<close> gives the document (\<open>log_text_of_encoded\<close>).
\<close>

section \<open>The loop\<close>

text \<open>
  One round of the loop: the next element with the iterator behind it, or \<open>None\<close> at the
  EOO. The element's size is how far \<open>next\<close> moved.
\<close>

definition text_step :: "bytes \<Rightarrow> int \<Rightarrow> iterator \<Rightarrow> (belement \<times> iterator) option res" where
  "text_step mem objsize it =
     bind_res (guard (moreWithEOO it) (Massert 10327)) (\<lambda>_.
     bind_res (iter_next mem True it) (\<lambda>(e, it').
     let sz = it_pos it' - it_pos it
     in bind_res (guard (sz > 0) (Massert 10328)) (\<lambda>_.
        bind_res (guard (sz < 2 ^ 30) (Massert 10329)) (\<lambda>_.
        bind_res (guard (sz + it_pos it \<le> objsize) (Massert 10330)) (\<lambda>_.
        bind_res (el_validate e) (\<lambda>_.
        bind_res (el_eoo (el_data e)) (\<lambda>eoo.
          if eoo then bind_res (guard (sz + it_pos it = objsize) (Massert 10331)) (\<lambda>_. Inr None)
          else Inr (Some (e, it')))))))))"

text \<open>An element that holds no object. Without \<open>full\<close>, binary data is not looked at.\<close>

definition scalar_text :: "printers \<Rightarrow> bool \<Rightarrow> belement \<Rightarrow> bytes res" where
  "scalar_text P full e =
     bind_res (el_type (el_data e)) (\<lambda>t.
       if t = type_code EOO then Inr ''EOO''
       else if t = type_code BinData \<and> \<not> full then Inr ''BinData''
       else bind_res (read_scalar e) (\<lambda>v. Inr (str_elem P False full [] v)))"

definition name_text :: "bool \<Rightarrow> belement \<Rightarrow> bytes res" where
  "name_text names e =
     bind_res (el_eoo (el_data e)) (\<lambda>eoo.
       if names \<and> \<not> eoo then bind_res (el_fieldName e) (\<lambda>n. Inr (n @ '': '')) else Inr '''')"

text \<open>\<open>None\<close> means that the fuel is used up.\<close>

fun obj_text :: "printers \<Rightarrow> nat \<Rightarrow> bool \<Rightarrow> bool \<Rightarrow> bytes \<Rightarrow> bytes res option"
  and text_loop :: "printers \<Rightarrow> nat \<Rightarrow> bool \<Rightarrow> bool \<Rightarrow> bool \<Rightarrow> bytes \<Rightarrow> int \<Rightarrow> iterator \<Rightarrow> bytes res option"
  and el_text :: "printers \<Rightarrow> nat \<Rightarrow> bool \<Rightarrow> bool \<Rightarrow> belement \<Rightarrow> bytes res option" where
  "obj_text P 0 isArray full mem = None"
| "obj_text P (Suc n) isArray full mem =
     (case rd_int mem of
        Inl err \<Rightarrow> Some (Inl err)
      | Inr sz \<Rightarrow>
          if sz \<le> 5 then Some (Inr ''{}'')
          else case iter_new mem of
                 Inl err \<Rightarrow> Some (Inl err)
               | Inr it \<Rightarrow> map_option (\<lambda>r. bind_res r (\<lambda>t.
                   Inr ((if isArray then ''[ '' else ''{ '') @ t @ (if isArray then '' ]'' else '' }''))))
                   (text_loop P n (\<not> isArray) full True mem sz it))"
| "text_loop P 0 names full first mem objsize it = None"
| "text_loop P (Suc n) names full first mem objsize it =
     (case text_step mem objsize it of
        Inl err \<Rightarrow> Some (Inl err)
      | Inr None \<Rightarrow> Some (Inr '''')
      | Inr (Some (e, it')) \<Rightarrow>
          (case el_text P n names full e of
             None \<Rightarrow> None
           | Some (Inl err) \<Rightarrow> Some (Inl err)
           | Some (Inr t) \<Rightarrow> map_option (\<lambda>r. bind_res r (\<lambda>u. Inr ((if first then '''' else '', '') @ t @ u)))
               (text_loop P n names full False mem objsize it')))"
| "el_text P 0 names full e = None"
| "el_text P (Suc n) names full e =
     (case bind_res (name_text names e) (\<lambda>nm. bind_res (el_type (el_data e)) (\<lambda>t. Inr (nm, t))) of
        Inl err \<Rightarrow> Some (Inl err)
      | Inr (nm, t) \<Rightarrow>
          map_option (\<lambda>r. bind_res r (\<lambda>x. Inr (nm @ x)))
           (if t = type_code Object \<or> t = type_code Array then
              (case embeddedObject e of
                 Inl err \<Rightarrow> Some (Inl err)
               | Inr o' \<Rightarrow> obj_text P n (t = type_code Array) full o')
            else if t = type_code CodeWScope then
              (case bind_res (bind_res (codeWScopeCode e) cstr_at) (\<lambda>c. bind_res (codeWScopeObject e) (\<lambda>o'. Inr (c, o'))) of
                 Inl err \<Rightarrow> Some (Inl err)
               | Inr (c, o') \<Rightarrow> map_option (\<lambda>r. bind_res r (\<lambda>x.
                   Inr (''CodeWScope( '' @ c @ '', '' @ x @ '')''))) (obj_text P n False full o'))
            else Some (scalar_text P full e)))"

section \<open>Text of encoded documents\<close>

lemma str_elem_named: "str_elem P True full n v = n @ '': '' @ str_elem P False full [] v"
  by (cases v) simp_all

lemma str_elem_unnamed: "str_elem P False full n v = str_elem P False full [] v"
  by (cases v) simp_all

lemma text_step_enc:
  assumes "wf_elem (n, v)" and "it_pos it = int (length pre)"
    and "it_pos it + int (length (enc_elem (n, v))) < it_end it" and "it_end it \<le> BSONObjMaxInternalSize"
  shows "\<exists>f. text_step (pre @ enc_elem (n, v) @ post) (it_end it) it =
      Inr (Some (elem_at n v post f, it\<lparr>it_pos := int (length (pre @ enc_elem (n, v)))\<rparr>)) \<and>
      (f = - 1 \<or> f = int (length n) + 1)"
proof -
  have L: "0 < int (length (enc_elem (n, v)))" "int (length (enc_elem (n, v))) < 2 ^ 30" using assms(2-4) by simp_all
  obtain f where nx: "iter_next (pre @ enc_elem (n, v) @ post) True it =
        Inr (elem_at n v post f, it\<lparr>it_pos := int (length (pre @ enc_elem (n, v)))\<rparr>)" "f = - 1 \<or> f = int (length n) + 1"
    using iter_next_enc [OF assms(1), of it pre post True] assms(2-4) L by auto
  have w: "NUL \<notin> set n" "wf_value v" using assms(1) by auto
  have "validate_value (type_code (value_type v)) (enc_value v @ post) = Inr ()"
    by (rule validate_value_enc [OF w(2)]) (use assms(2-4) in \<open>simp add: length_enc_elem\<close>)
  then have "el_validate (elem_at n v post f) = Inr ()"
    using el_value_enc [OF w(1) nx(2)] by (simp add: el_validate_def)
  moreover have "moreWithEOO it" using assms(3) L(1) by (simp add: moreWithEOO_def)
  ultimately show ?thesis using nx L assms(2,3) by (simp add: text_step_def Let_def)
qed

lemma text_step_eoo:
  assumes "it_pos it = int (length pre)" and "it_end it = it_pos it + 1"
  shows "text_step (pre @ NUL # post) (it_end it) it = Inr None"
proof -
  have "el_validate \<lparr>el_data = NUL # post, el_fns = 0\<rparr> = Inr ()" "el_eoo (NUL # post) = Inr True"
    by (simp_all add: el_validate_def el_eoo_def el_type_def schar_def type_code.simps el_value_def el_fieldNameSize_def
        validate_value_def split: option.split)
       (simp add: type_of_code_def all_types_def type_code.simps)
  then show ?thesis
    using assms iter_next_eoo [of it pre post True] by (simp add: text_step_def moreWithEOO_def)
qed

lemma scalar_text_enc:
  assumes "wf_value v" and "value_type v \<notin> {Object, Array, CodeWScope}"
    and "int (length (enc_value v)) < 2 ^ 31" and "el_value (elem_at n v p f) = Inr (enc_value v @ p)"
  shows "scalar_text P full (elem_at n v p f) = Inr (str_elem P False full [] v)"
  using read_scalar_enc [OF assms] assms(1,2) by (cases v) (simp_all add: scalar_text_def)

lemma text_loop_enc:
  assumes "wf_doc d" and "length (enc_elems d) < fuel"
    and "int (length pre) = it_pos it" and "it_end it = it_pos it + int (length (enc_elems d)) + 1"
    and "it_end it \<le> BSONObjMaxInternalSize"
  shows "text_loop P fuel names full first (pre @ enc_elems d @ NUL # post) (it_end it) it =
    Some (Inr (if d = [] then '''' else (if first then '''' else '', '') @ str_list P names full d))"
  using assms
proof (induction fuel arbitrary: d names first pre post it rule: less_induct)
  case (less fuel)
  then obtain k where k: "fuel = Suc k" by (cases fuel) auto
  show ?case
  proof (cases d)
    case Nil
    with less.prems k text_step_eoo [of it pre post] show ?thesis by simp
  next
    case (Cons e d')
    obtain n v where e: "e = (n, v)" by (cases e)
    have wf: "wf_elem (n, v)" "wf_doc d'" and w: "NUL \<notin> set n" "wf_value v"
      using less.prems(1) Cons e by auto
    have len: "length (enc_elems d) = length (enc_elem (n, v)) + length (enc_elems d')" using Cons e by simp
    let ?post = "enc_elems d' @ NUL # post" and ?it = "it\<lparr>it_pos := int (length (pre @ enc_elem (n, v)))\<rparr>"
    have mem: "pre @ enc_elems d @ NUL # post = pre @ enc_elem (n, v) @ ?post" using Cons e by simp
    obtain f where st: "text_step (pre @ enc_elem (n, v) @ ?post) (it_end it) it = Inr (Some (elem_at n v ?post f, ?it))"
        and f: "f = - 1 \<or> f = int (length n) + 1"
      using text_step_enc [OF wf(1), of it pre "?post"] less.prems(3-5) len by auto
    have val: "el_value (elem_at n v ?post f) = Inr (enc_value v @ ?post)" by (rule el_value_enc [OF w(1) f])
    have nm: "name_text names (elem_at n v ?post f) = Inr (if names then n @ '': '' else '''')"
      using el_fieldName_enc [OF w(1)] by (simp add: name_text_def)
    have rest: "text_loop P k names full False (pre @ enc_elem (n, v) @ ?post) (it_end it) ?it =
        Some (Inr (if d' = [] then '''' else '', '' @ str_list P names full d'))"
      using less.IH [of k d' "pre @ enc_elem (n, v)" ?it names False post] less.prems len wf(2) k by (simp add: length_enc_elem)
    have sub: "obj_text P (k - 1) isA full (enc_doc es @ q) = Some (Inr (doc_toString P isA full es))"
      if "wf_doc es" and "length (enc_doc es) \<le> length (enc_value v)" for es q isA
    proof -
      note small = that(2)
      obtain j where j: "k = Suc (Suc j)" using less.prems(2) k len small
        by (cases k; cases "k - 1") (auto simp: length_enc_elem)
      have sm: "int (length (enc_doc es)) \<le> BSONObjMaxInternalSize"
        using that(2) less.prems(3-5) len by (simp add: length_enc_elem)
      have "text_loop P j names' full True (enc_doc es @ q) (int (length (enc_doc es))) \<lparr>it_pos = 4, it_end = int (length (enc_doc es))\<rparr> =
          Some (Inr (if es = [] then '''' else str_list P names' full es))" for names'
        using less.IH [of j es "le_int (int (length (enc_elems es)) + 5)" "\<lparr>it_pos = 4, it_end = int (length (enc_doc es))\<rparr>" names' True q]
          that sm less.prems(2) len k j unfolding enc_doc_split by (simp add: length_enc_elem)
      then show ?thesis
        using j sm rd_int_enc_doc [of es q] iter_new_enc [of es q]
        by (cases es) (auto simp: doc_toString_def length_enc_elem)
    qed
    have small: "int (length (enc_doc es)) \<le> BSONObjMaxInternalSize" if "length (enc_doc es) \<le> length (enc_value v)" for es
      using that less.prems(3-5) len by (simp add: length_enc_elem)
    have "el_text P k names full (elem_at n v ?post f) = Some (Inr (str_elem P names full n v))"
    proof -
      obtain j where j: "k = Suc j" using less.prems(2) k len by (cases k) (auto simp: length_enc_elem)
      have un: "str_elem P names full n v = (if names then n @ '': '' else '''') @ str_elem P False full [] v"
        using str_elem_named str_elem_unnamed by (cases names) simp_all
      show ?thesis
      proof (cases "value_type v \<in> {Object, Array, CodeWScope}")
        case False
        then have "scalar_text P full (elem_at n v ?post f) = Inr (str_elem P False full [] v)"
          by (intro scalar_text_enc [OF w(2) _ _ val]) (use less.prems(3-5) len in \<open>auto simp: length_enc_elem\<close>)
        then show ?thesis using False j nm un by simp
      next
        case True
        then consider es where "v = VObject es" | es where "v = VArray es" | c es where "v = VCodeWScope c es"
          by (cases v) auto
        then show ?thesis
        proof cases
          case (1 es)
          then show ?thesis
            using j nm val un w(2) sub [of es False ?post] small [of es]
            by (cases es) (simp_all add: embeddedObject_def isABSONObj_def bsonobj_init_enc doc_toString_def)
        next
          case (2 es)
          then show ?thesis
            using j nm val un w(2) sub [of es True ?post] small [of es]
            by (cases es) (simp_all add: embeddedObject_def isABSONObj_def bsonobj_init_enc doc_toString_def)
        next
          case (3 c es)
          let ?q = "enc_doc es @ ?post" and ?n = "int (length c) + 1"
          have sm: "int (length (enc_doc es)) + int (length c) + 9 < 2 ^ 31"
            using less.prems(3-5) len 3 by (simp add: length_enc_elem)
          have "rd_int (drop 4 (enc_value v @ ?post)) = Inr ?n" using sm 3 by (simp add: rd_int_le_int i32_id)
          moreover have "at (enc_value v @ ?post) (4 + 4 + ?n) = Inr ?q" using 3 by (simp add: at_def nat_add_distrib)
          moreover have "at (enc_value v @ ?post) 8 = Inr (c @ NUL # ?q)" using 3 by (simp add: at_def)
          ultimately show ?thesis
            using 3 j nm val un w(2) sub [of es False ?post] small [of es]
            by (cases es) (simp_all add: codeWScopeCode_def codeWScopeObject_def bsonobj_init_enc doc_toString_def)
        qed
      qed
    qed
    then show ?thesis unfolding mem using Cons e k st rest by (simp del: str_elem.simps)
  qed
qed

lemma obj_text_enc:
  assumes d: "wf_doc d" "int (length (enc_doc d)) \<le> BSONObjMaxInternalSize" and "length (enc_doc d) \<le> fuel"
  shows "obj_text P fuel isArray full (enc_doc d @ p) = Some (Inr (doc_toString P isArray full d))"
proof -
  obtain j where j: "fuel = Suc j" using assms(3) by (cases fuel) auto
  have "text_loop P j (\<not> isArray) full True (enc_doc d @ p) (int (length (enc_doc d))) \<lparr>it_pos = 4, it_end = int (length (enc_doc d))\<rparr> =
      Some (Inr (if d = [] then '''' else str_list P (\<not> isArray) full d))"
    unfolding enc_doc_split
    using text_loop_enc [OF d(1), of j "le_int (int (length (enc_elems d)) + 5)" "\<lparr>it_pos = 4, it_end = int (length (enc_doc d))\<rparr>"
        P "\<not> isArray" full True p] d(2) assms(3) j by simp
  then show ?thesis
    using j d(2) rd_int_enc_doc [of d p] iter_new_enc [of d p]
    by (cases d) (auto simp: doc_toString_def length_enc_elem)
qed

text \<open>\<open>BSONObj::toString()\<close> of the object at \<open>mem\<close>: at most one step per byte.\<close>

definition mem_toString :: "printers \<Rightarrow> bool \<Rightarrow> bool \<Rightarrow> bytes \<Rightarrow> bytes res" where
  "mem_toString P isArray full mem =
     (case obj_text P (2 * length mem + 2) isArray full mem of Some r \<Rightarrow> r | None \<Rightarrow> Inl UB)"

definition element_toString :: "printers \<Rightarrow> bool \<Rightarrow> bool \<Rightarrow> belement \<Rightarrow> bytes res" where
  "element_toString P names full e =
     (case el_text P (2 * length (el_data e) + 2) names full e of Some r \<Rightarrow> r | None \<Rightarrow> Inl UB)"

lemma log_text:
  assumes "wf_doc d" and "int (length (enc_doc d)) \<le> BSONObjMaxInternalSize"
  shows "mem_toString P isArray full (enc_doc d @ p) = Inr (doc_toString P isArray full d)"
proof -
  have "obj_text P (2 * length (enc_doc d @ p) + 2) isArray full (enc_doc d @ p) = Some (Inr (doc_toString P isArray full d))"
    by (rule obj_text_enc) (use assms in simp_all)
  then show ?thesis by (simp add: mem_toString_def)
qed

section \<open>Properties\<close>

text \<open>
  The checked loop of \<open>toString\<close> over memory accepts every encoded document, wherever it
  lies, ends, and gives the text of the document's fields, types and values.
\<close>

theorem log_text_of_encoded:
  assumes "wf_doc d" and "int (length (enc_doc d)) \<le> BSONObjMaxInternalSize"
  shows "mem_toString P isArray full (enc_doc d @ p) = Inr (doc_toString P isArray full d)"
  using assms by (rule log_text)

theorem log_text_of_encoded_witness:
  "mem_toString demo_printers False False (enc_doc [(''a'', VInt 1), (''b'', VObject [(''c'', VString ''x'')])] @ ''zz'') =
     Inr (doc_toString demo_printers False False [(''a'', VInt 1), (''b'', VObject [(''c'', VString ''x'')])])"
  by (rule log_text_of_encoded) (simp_all add: length_enc_elem)

end
