(* ===== verification/Commands.thy ===== *)
theory Commands
  imports CursorSpec Names Md5 BsonLog
begin

text \<open>
  Database commands (\<open>DBClientWithCommands\<close> and \<open>DBClientInterface\<close>, client/dbclient.cpp):
  a command is a query for one document of \<open>db.$cmd\<close>. Command documents are built with
  \<open>BSONObjBuilder\<close> (\<open>build_doc\<close>); replies are read from memory with the accessors of
  \<open>BSONElement\<close>, as the code does.
\<close>

text \<open>
  What \<open>catch (std::exception&)\<close> catches: every exception of the driver (\<open>DBException\<close> derives
  from it), but not a thrown number; undefined behaviour is no exception.
\<close>

definition is_std_exception :: "mongo_error \<Rightarrow> bool" where
  "is_std_exception err \<longleftrightarrow>
     (case err of OutOfBounds \<Rightarrow> False | UB \<Rightarrow> False | ThrownInt _ \<Rightarrow> False | _ \<Rightarrow> True)"

section \<open>Fields of an object in memory\<close>

text \<open>
  \<open>BSONObj::getField\<close> over memory. The element that is not there is \<open>BSONElement()\<close>: one
  EOO byte with a cached name size of 0. A loop that does not end (only possible when an
  element's computed size is not positive) counts as undefined.
\<close>

definition eoo_element :: belement where
  "eoo_element = \<lparr>el_data = [NUL], el_fns = 0\<rparr>"

fun field_loop :: "nat \<Rightarrow> bytes \<Rightarrow> iterator \<Rightarrow> bytes \<Rightarrow> belement res" where
  "field_loop 0 mem it name = Inl UB"
| "field_loop (Suc n) mem it name =
     bind_res (iter_more mem it) (\<lambda>m.
       if \<not> m then Inr eoo_element
       else bind_res (iter_next mem False it) (\<lambda>(e, it').
            bind_res (el_fieldName e) (\<lambda>fn.
              if strcmp fn name = 0 then Inr e else field_loop n mem it' name)))"

definition mem_field :: "bytes \<Rightarrow> bytes \<Rightarrow> belement res" where
  "mem_field mem name = bind_res (iter_new mem) (\<lambda>it. field_loop (Suc (length mem)) mem it name)"

definition obj_copy :: "bytes \<Rightarrow> bytes res" where
  "obj_copy o' = bind_res (rd_int o') (\<lambda>n. bind_res (bytes_at o' n) bsonobj_init)"

section \<open>Query objects\<close>

text \<open>\<open>class Query\<close>: the criteria, or a wrapper with the criteria under \<open>query\<close>.\<close>

definition query_isComplex :: "doc \<Rightarrow> bool option" where
  "query_isComplex q =
     (if getField ''query'' q \<noteq> None then Some False
      else if getField ''$query'' q \<noteq> None then Some True else None)"

definition finish_doc :: "doc \<Rightarrow> doc res" where
  "finish_doc d = bind_res (build_doc d) (\<lambda>_. Inr d)"

definition query_where :: "bytes \<Rightarrow> doc \<Rightarrow> doc \<Rightarrow> doc res" where
  "query_where jscode scope q =
     bind_res (guard (query_isComplex q = None) AssertFail) (\<lambda>_. finish_doc (q @ [(''$where'', VCodeWScope jscode scope)]))"

definition query_makeComplex :: "doc \<Rightarrow> doc res" where
  "query_makeComplex q =
     (if query_isComplex q \<noteq> None then Inr q else finish_doc [(''query'', VObject q)])"

definition query_appendComplex :: "bytes \<Rightarrow> bson_value \<Rightarrow> doc \<Rightarrow> doc res" where
  "query_appendComplex fieldName val q =
     bind_res (query_makeComplex q) (\<lambda>q. finish_doc (q @ [(fieldName, val)]))"

definition query_sort :: "doc \<Rightarrow> doc \<Rightarrow> doc res" where
  "query_sort s = query_appendComplex ''orderby'' (VObject s)"

definition query_hint :: "doc \<Rightarrow> doc \<Rightarrow> doc res" where
  "query_hint keyPattern = query_appendComplex ''$hint'' (VObject keyPattern)"

definition query_explain :: "doc \<Rightarrow> doc res" where
  "query_explain = query_appendComplex ''$explain'' (VBool True)"

definition query_snapshot :: "doc \<Rightarrow> doc res" where
  "query_snapshot = query_appendComplex ''$snapshot'' (VBool True)"

definition query_minKey :: "doc \<Rightarrow> doc \<Rightarrow> doc res" where
  "query_minKey val = query_appendComplex ''$min'' (VObject val)"

definition query_maxKey :: "doc \<Rightarrow> doc \<Rightarrow> doc res" where
  "query_maxKey val = query_appendComplex ''$max'' (VObject val)"

definition query_getFilter :: "doc \<Rightarrow> doc" where
  "query_getFilter q =
     (case query_isComplex q of
        None \<Rightarrow> q | Some hasDollar \<Rightarrow> getObjectField (if hasDollar then ''$query'' else ''query'') q)"

definition query_getSort :: "doc \<Rightarrow> doc" where
  "query_getSort q =
     (if query_isComplex q = None then []
      else let ret = getObjectField ''orderby'' q in if ret = [] then getObjectField ''$orderby'' q else ret)"

definition query_getHint :: "doc \<Rightarrow> doc" where
  "query_getHint q = (if query_isComplex q = None then [] else getObjectField ''$hint'' q)"

definition query_isExplain :: "doc \<Rightarrow> bool" where
  "query_isExplain q \<longleftrightarrow> query_isComplex q \<noteq> None \<and> getBoolField ''$explain'' q"

section \<open>Finding one document, running a command\<close>

definition ResultFlag_ShardConfigStale :: int where "ResultFlag_ShardConfigStale = 4"

text \<open>A \<open>StaleConfigException\<close> has the code 9996.\<close>

definition findOne_result :: "(client, bytes) act" where
  "findOne_result =
     bind_act (with_cursor (\<lambda>cu. hasResultFlag cu ResultFlag_ShardConfigStale)) (\<lambda>stale.
       if stale then lift_act (Inl (Uassert 9996))
       else bind_act cursor_more (\<lambda>m.
         if \<not> m then lift_act (Inr (enc_doc []))
         else bind_act cursor_nextSafe (\<lambda>o'. lift_act (obj_copy o'))))"

definition findOne :: "bytes \<Rightarrow> bytes \<Rightarrow> bytes option \<Rightarrow> int \<Rightarrow> (connection, bytes) act" where
  "findOne ns query fieldsToReturn queryOptions =
     bind_act (db_query ns query 1 0 fieldsToReturn queryOptions 0) (\<lambda>cu c.
       case cu of
         None \<Rightarrow> (Inl (Uassert 10276), c)
       | Some cu \<Rightarrow> (case findOne_result (cu, c) of (r, s) \<Rightarrow> (r, cursor_destroy s)))"

definition isOk :: "bytes \<Rightarrow> bool res" where
  "isOk o' = bind_res (mem_field o' ''ok'') trueValue"

text \<open>The result and the document that came with it.\<close>

definition runCommand :: "bytes \<Rightarrow> bytes \<Rightarrow> int \<Rightarrow> (connection, bool \<times> bytes) act" where
  "runCommand dbname cmd options =
     bind_act (findOne (dbname @ ''.$cmd'') cmd None options) (\<lambda>info.
       lift_act (bind_res (isOk info) (\<lambda>ok. Inr (ok, info))))"

definition run_doc :: "bytes \<Rightarrow> doc \<Rightarrow> int \<Rightarrow> (connection, bool \<times> bytes) act" where
  "run_doc dbname cmd options = bind_act (lift_act (build_doc cmd)) (\<lambda>bs. runCommand dbname bs options)"

definition simpleCommand :: "bytes \<Rightarrow> bytes \<Rightarrow> (connection, bool \<times> bytes) act" where
  "simpleCommand dbname command = run_doc dbname [(command, VInt 1)] 0"

section \<open>Commands\<close>

definition countCmd :: "bytes \<Rightarrow> doc \<Rightarrow> int \<Rightarrow> int \<Rightarrow> doc" where
  "countCmd myns query limit skip =
     [(''count'', VString (nss_coll (namespace_string_new myns))), (''query'', VObject query)] @
     (if limit \<noteq> 0 then [(''limit'', VInt (word_of_int limit))] else []) @
     (if skip \<noteq> 0 then [(''skip'', VInt (word_of_int skip))] else [])"

definition db_count :: "bytes \<Rightarrow> doc \<Rightarrow> int \<Rightarrow> int \<Rightarrow> int \<Rightarrow> (connection, 64 word) act" where
  "db_count myns query options limit skip =
     bind_act (run_doc (cstr (nss_db (namespace_string_new myns))) (countCmd myns query limit skip) options)
       (\<lambda>(ok, res).
         if \<not> ok then lift_act (Inl (Uassert 11010))
         else lift_act (bind_res (mem_field res ''n'') (\<lambda>e. bind_res (numberLong e) (\<lambda>n. Inr (word_of_int n)))))"

definition getLastErrorDetailed :: "(connection, bytes) act" where
  "getLastErrorDetailed =
     bind_act (run_doc ''admin'' [(''getlasterror'', VInt 1)] 0) (\<lambda>(_, info). lift_act (Inr info))"

definition getPrevError :: "(connection, bytes) act" where
  "getPrevError =
     bind_act (run_doc ''admin'' [(''getpreverror'', VInt 1)] 0) (\<lambda>(_, info). lift_act (Inr info))"

definition getLastErrorString :: "printers \<Rightarrow> bytes \<Rightarrow> bytes res" where
  "getLastErrorString P info =
     bind_res (mem_field info ''err'') (\<lambda>e.
     bind_res (el_eoo (el_data e)) (\<lambda>eoo.
       if eoo then Inr ''''
       else bind_res (el_is Object e) (\<lambda>ob. if ob then element_toString P True False e else el_str e)))"

definition getLastError :: "printers \<Rightarrow> (connection, bytes) act" where
  "getLastError P = bind_act getLastErrorDetailed (\<lambda>info. lift_act (getLastErrorString P info))"

definition createPasswordDigest :: "bytes \<Rightarrow> bytes \<Rightarrow> bytes" where
  "createPasswordDigest username clearTextPassword =
     digestToString (md5_finish (md5_append clearTextPassword (md5_append '':mongo:'' (md5_append username md5_init))))"

definition auth_key :: "bytes \<Rightarrow> bytes \<Rightarrow> bytes \<Rightarrow> bytes" where
  "auth_key nonce username password =
     digestToString (md5_finish (md5_append password (md5_append username (md5_append nonce md5_init))))"

text \<open>\<open>auth\<close>, with its result; the text of \<open>errmsg\<close> is not modelled.\<close>

definition auth :: "bytes \<Rightarrow> bytes \<Rightarrow> bytes \<Rightarrow> bool \<Rightarrow> (connection, bool) act" where
  "auth dbname username password_text digestPassword =
     (let password = (if digestPassword then createPasswordDigest username password_text else password_text)
      in bind_act (run_doc dbname [(''getnonce'', VInt 1)] 0) (\<lambda>(ok, info).
           if \<not> ok then lift_act (Inr False)
           else bind_act (lift_act (bind_res (mem_field info ''nonce'') (\<lambda>e.
                    bind_res (el_is String e) (\<lambda>s. bind_res (guard s AssertFail) (\<lambda>_.
                    bind_res (valuestr e) cstr_at))))) (\<lambda>nonce.
                bind_act (run_doc dbname
                    [(''authenticate'', VInt 1), (''nonce'', VString nonce), (''user'', VString username),
                     (''key'', VString (auth_key nonce username password))] 0) (\<lambda>(ok, _). lift_act (Inr ok)))))"

definition isMaster :: "(connection, bool \<times> bool) act" where
  "isMaster =
     bind_act (run_doc ''admin'' [(''ismaster'', VInt 1)] 0) (\<lambda>(ok, info).
       lift_act (bind_res (mem_field info ''ismaster'') (\<lambda>e. bind_res (trueValue e) (\<lambda>m. Inr (ok, m)))))"

definition createCollection :: "bytes \<Rightarrow> 64 word \<Rightarrow> bool \<Rightarrow> int \<Rightarrow> (connection, bool \<times> bytes) act" where
  "createCollection ns sz capped mx =
     bind_act (lift_act (nsToDatabase_cstr ns)) (\<lambda>db.
     bind_act (lift_act (if length db < length (cstr ns) then Inr (drop (length db + 1) (cstr ns)) else Inl OutOfBounds))
       (\<lambda>coll.
       run_doc db ([(''create'', VString coll)] @ (if sz \<noteq> 0 then [(''size'', VLong sz)] else []) @
         (if capped then [(''capped'', VBool True)] else []) @
         (if mx \<noteq> 0 then [(''max'', VInt (word_of_int mx))] else [])) 0))"

definition copyDatabase :: "bytes \<Rightarrow> bytes \<Rightarrow> bytes \<Rightarrow> (connection, bool \<times> bytes) act" where
  "copyDatabase fromdb todb fromhost =
     run_doc ''admin'' [(''copydb'', VInt 1), (''fromhost'', VString fromhost), (''fromdb'', VString fromdb),
       (''todb'', VString todb)] 0"

definition setDbProfilingLevel :: "bytes \<Rightarrow> int \<Rightarrow> (connection, bool \<times> bytes) act" where
  "setDbProfilingLevel dbname level =
     bind_act (if level \<noteq> 0 then createCollection (dbname @ ''.system.profile'') (1024 * 1024) True 0
               else lift_act (Inr (True, enc_doc []))) (\<lambda>_.
       run_doc dbname [(''profile'', VInt (word_of_int level))] 0)"

definition mem_int_field :: "bytes \<Rightarrow> bytes \<Rightarrow> int res" where
  "mem_int_field mem name =
     bind_res (mem_field mem name) (\<lambda>e. bind_res (el_isNumber e) (\<lambda>b.
       if b then bind_res (numberDouble e) dbl_to_int else Inr (- (2 ^ 31))))"

definition getDbProfilingLevel :: "bytes \<Rightarrow> (connection, int option) act" where
  "getDbProfilingLevel dbname =
     bind_act (run_doc dbname [(''profile'', VInt (- 1))] 0) (\<lambda>(ok, info).
       if ok then lift_act (bind_res (mem_int_field info ''was'') (\<lambda>n. Inr (Some n))) else lift_act (Inr None))"

definition mapreduce :: "bytes \<Rightarrow> bytes \<Rightarrow> bytes \<Rightarrow> doc \<Rightarrow> bytes \<Rightarrow> (connection, bytes) act" where
  "mapreduce ns jsmapf jsreducef query outputcolname =
     bind_act (run_doc (nsGetDB ns)
       ([(''mapreduce'', VString (nsGetCollection ns)), (''map'', VCode jsmapf), (''reduce'', VCode jsreducef)] @
        (if query \<noteq> [] then [(''query'', VObject query)] else []) @
        (if outputcolname \<noteq> '''' then [(''out'', VString outputcolname)] else [])) 0) (\<lambda>(_, info). lift_act (Inr info))"

definition db_eval :: "bytes \<Rightarrow> bytes \<Rightarrow> doc option \<Rightarrow> (connection, bool \<times> belement option) act" where
  "db_eval dbname jscode args =
     bind_act (run_doc dbname ([(''$eval'', VCode jscode)] @ (case args of None \<Rightarrow> [] | Some a \<Rightarrow> [(''args'', VArray a)])) 0)
       (\<lambda>(ok, info). if ok then lift_act (bind_res (mem_field info ''retval'') (\<lambda>e. Inr (True, Some e)))
                     else lift_act (Inr (False, None)))"

section \<open>Listing names\<close>

fun names_loop :: "nat \<Rightarrow> bytes \<Rightarrow> iterator \<Rightarrow> bytes list res" where
  "names_loop 0 mem it = Inl UB"
| "names_loop (Suc n) mem it =
     bind_res (iter_more mem it) (\<lambda>m.
       if \<not> m then Inr []
       else bind_res (iter_next mem False it) (\<lambda>(e, it').
            bind_res (bind_res (embeddedObjectUserCheck e) (\<lambda>o'. bind_res (mem_field o' ''name'') (\<lambda>e. bind_res (valuestr e) cstr_at)))
              (\<lambda>nm. bind_res (names_loop n mem it') (\<lambda>ns. Inr (nm # ns)))))"

definition getDatabaseNames :: "(connection, bytes list) act" where
  "getDatabaseNames =
     bind_act (run_doc ''admin'' [(''listDatabases'', VInt 1)] 0) (\<lambda>(ok, info).
     bind_act (lift_act (guard ok (Uassert 10005))) (\<lambda>_.
     lift_act (bind_res (mem_field info ''databases'') (\<lambda>e.
       bind_res (el_is Array e) (\<lambda>a. bind_res (guard a (Uassert 10006)) (\<lambda>_.
       bind_res (embeddedObjectUserCheck e) (\<lambda>o'. bind_res (iter_new o') (\<lambda>it. names_loop (Suc (length o')) o' it))))))))"

text \<open>
  Names with a dollar sign (indexes) are left out. The loop may not end (a server can go on
  sending batches), so it has fuel; a query that failed gives a null cursor, which the code
  dereferences.
\<close>

definition next_name :: "(client, bytes) act" where
  "next_name = bind_act cursor_next (\<lambda>o'.
     lift_act (bind_res (mem_field o' ''name'') (\<lambda>e. bind_res (valuestr e) cstr_at)))"

fun collection_loop :: "nat \<Rightarrow> bytes list \<Rightarrow> client \<Rightarrow> (bytes list res \<times> client) option" where
  "collection_loop 0 names s = None"
| "collection_loop (Suc n) names s =
     (case cursor_more s of
        (Inl err, s) \<Rightarrow> Some (Inl err, s)
      | (Inr False, s) \<Rightarrow> Some (Inr names, s)
      | (Inr True, s) \<Rightarrow>
          (case next_name s of
             (Inl err, s) \<Rightarrow> Some (Inl err, s)
           | (Inr nm, s) \<Rightarrow> collection_loop n (if CHR ''$'' \<in> set nm then names else names @ [nm]) s))"

definition getCollectionNames :: "nat \<Rightarrow> bytes \<Rightarrow> connection \<Rightarrow> (bytes list res \<times> connection) option" where
  "getCollectionNames fuel db c =
     (case db_query (cstr (db @ ''.system.namespaces'')) (enc_doc []) 0 0 None 0 0 c of
        (Inl err, c) \<Rightarrow> Some (Inl err, c)
      | (Inr None, c) \<Rightarrow> Some (Inl UB, c)
      | (Inr (Some cu), c) \<Rightarrow>
          map_option (\<lambda>(r, s). (r, cursor_destroy s)) (collection_loop fuel [] (cu, c)))"

definition db_exists :: "bytes \<Rightarrow> (connection, bool) act" where
  "db_exists ns =
     bind_act (db_count (cstr (nsGetDB ns @ ''.system.namespaces'')) [(''name'', VString ns)] QueryOption_SlaveOk 0 0)
       (\<lambda>n. lift_act (Inr (n \<noteq> 0)))"

end
