(* ===== verification/Indexes.thy ===== *)
theory Indexes
  imports Commands
begin

text \<open>
  The index operations of \<open>DBClientWithCommands\<close> and the query that maps a function over its
  results (client/dbclient.cpp). Both use state that the commands do not: the cache of
  indexes already created, the cached query options of the server.
\<close>

section \<open>State\<close>

record commander =
  cm_seen :: "bytes set"
  cm_options :: "int option"
  cm_conn :: connection

definition on_cm :: "(connection, 'a) act \<Rightarrow> (commander, 'a) act" where
  "on_cm f cm = (case f (cm_conn cm) of (r, c) \<Rightarrow> (r, cm\<lparr>cm_conn := c\<rparr>))"

text \<open>\<open>availableOptions\<close>: asked once; a failing command counts as no options.\<close>

definition availableOptions :: "(commander, int) act" where
  "availableOptions cm =
     (case cm_options cm of
        Some opts \<Rightarrow> (Inr opts, cm)
      | None \<Rightarrow>
          bind_act (on_cm (bind_act (run_doc ''admin'' [(''availablequeryoptions'', VInt 1)] 0) (\<lambda>(ok, ret).
              lift_act (if ok then mem_int_field ret ''options'' else Inr 0))))
            (\<lambda>opts cm. (Inr opts, cm\<lparr>cm_options := Some opts\<rparr>)) cm)"

section \<open>Indexes\<close>

definition value_numberInt :: "bson_value \<Rightarrow> int res" where
  "value_numberInt v =
     (case v of
        VDouble d \<Rightarrow> dbl_to_int d | VInt n \<Rightarrow> Inr (sint n) | VLong n \<Rightarrow> Inr (i32 (sint n)) | _ \<Rightarrow> Inr 0)"

fun index_names :: "doc \<Rightarrow> bytes list res" where
  "index_names [] = Inr []"
| "index_names ((n, v) # es) =
     bind_res (if is_number v
               then bind_res (value_numberInt v) (\<lambda>k. Inr (show_int k)) else Inr '''') (\<lambda>k.
     bind_res (index_names es) (\<lambda>xs. Inr ((n @ ''_'' @ k) # xs)))"

fun joined :: "bytes list \<Rightarrow> bytes" where
  "joined [] = ''''"
| "joined [x] = x"
| "joined (x # xs) = x @ ''_'' @ joined xs"

definition genIndexName :: "doc \<Rightarrow> bytes res" where
  "genIndexName keys = bind_res (index_names keys) (\<lambda>xs. Inr (joined xs))"

definition sister_indexes :: "bytes \<Rightarrow> bytes res" where
  "sister_indexes ns = bind_res (Namespace_new ns) (\<lambda>n. bind_res (getSisterNS n ''system.indexes'') (\<lambda>s. Inr (cstr s)))"

definition index_send :: "bytes \<Rightarrow> doc \<Rightarrow> (commander, bool) act" where
  "index_send ns toSave =
     bind_act (lift_act (bind_res (sister_indexes ns) (\<lambda>s. bind_res (build_doc toSave) (\<lambda>o'. Inr (s, o')))))
       (\<lambda>(s, o'). bind_act (on_cm (insert_one s o')) (\<lambda>_. lift_act (Inr True)))"

definition ensureIndex :: "bytes \<Rightarrow> doc \<Rightarrow> bool \<Rightarrow> bytes \<Rightarrow> bool \<Rightarrow> (commander, bool) act" where
  "ensureIndex ns keys uniq name cache =
     bind_act (lift_act (if name \<noteq> '''' then Inr name else genIndexName keys)) (\<lambda>nn cm.
       let cacheKey = ns @ ''--'' @ nn;
           toSave = [(''ns'', VString ns), (''key'', VObject keys), (''name'', VString nn)] @
             (if uniq then [(''unique'', VBool True)] else [])
       in if cacheKey \<in> cm_seen cm then (Inr False, cm)
          else index_send ns toSave
                 (if cache then cm\<lparr>cm_seen := insert cacheKey (cm_seen cm)\<rparr> else cm))"

definition resetIndexCache :: "(commander, unit) act" where
  "resetIndexCache cm = (Inr (), cm\<lparr>cm_seen := {}\<rparr>)"

definition deleteIndexes :: "bytes \<Rightarrow> bytes \<Rightarrow> nat \<Rightarrow> (commander, unit) act" where
  "deleteIndexes ns indexName code =
     bind_act (on_cm (bind_act (lift_act (nsToDatabase_cstr ns)) (\<lambda>db.
         run_doc db [(''deleteIndexes'', VString (nss_coll (namespace_string_new ns))), (''index'', VString indexName)] 0)))
       (\<lambda>(ok, info). bind_act (lift_act (guard ok (Uassert code))) (\<lambda>_. resetIndexCache))"

definition dropIndex :: "bytes \<Rightarrow> bytes \<Rightarrow> (commander, unit) act" where
  "dropIndex ns indexName = deleteIndexes ns indexName 10007"

definition dropIndex_keys :: "bytes \<Rightarrow> doc \<Rightarrow> (commander, unit) act" where
  "dropIndex_keys ns keys = bind_act (lift_act (genIndexName keys)) (dropIndex ns)"

definition dropIndexes :: "bytes \<Rightarrow> (commander, unit) act" where
  "dropIndexes ns = deleteIndexes ns ''*'' 10008"

definition getIndexes :: "bytes \<Rightarrow> (connection, cursor option) act" where
  "getIndexes ns =
     bind_act (lift_act (bind_res (sister_indexes ns) (\<lambda>s. bind_res (build_doc [(''ns'', VString ns)]) (\<lambda>q. Inr (s, q)))))
       (\<lambda>(s, q). db_query s q 0 0 None 0 0)"

text \<open>The loop copies what it fetches; the cursor is destroyed when the function returns or throws.\<close>

fun owned_loop :: "nat \<Rightarrow> bytes list \<Rightarrow> client \<Rightarrow> (bytes list res \<times> client) option" where
  "owned_loop 0 os s = None"
| "owned_loop (Suc n) os s =
     (case cursor_more s of
        (Inl err, s) \<Rightarrow> Some (Inl err, s)
      | (Inr False, s) \<Rightarrow> Some (Inr os, s)
      | (Inr True, s) \<Rightarrow>
          (case bind_act cursor_next (\<lambda>o'. lift_act (obj_copy o')) s of
             (Inl err, s) \<Rightarrow> Some (Inl err, s)
           | (Inr o', s) \<Rightarrow> owned_loop n (os @ [o']) s))"

definition insert_all :: "bytes \<Rightarrow> bytes list \<Rightarrow> (connection, unit) act" where
  "insert_all ns os = seq_act (map (\<lambda>o'. bind_act (lift_act (sister_indexes ns)) (\<lambda>s. insert_one s o')) os)"

definition reIndex :: "nat \<Rightarrow> bytes \<Rightarrow> commander \<Rightarrow> (unit res \<times> commander) option" where
  "reIndex fuel ns cm =
     (case on_cm (getIndexes ns) cm of
        (Inl err, cm) \<Rightarrow> Some (Inl err, cm)
      | (Inr None, cm) \<Rightarrow> Some (Inl UB, cm)
      | (Inr (Some cu), cm) \<Rightarrow>
          (case owned_loop fuel [] (cu, cm_conn cm) of
             None \<Rightarrow> None
           | Some (Inl err, s) \<Rightarrow> Some (Inl err, cm\<lparr>cm_conn := cursor_destroy s\<rparr>)
           | Some (Inr os, (cu, c)) \<Rightarrow>
               (case bind_act (dropIndexes ns) (\<lambda>_. on_cm (insert_all ns os)) (cm\<lparr>cm_conn := c\<rparr>) of
                  (r, cm) \<Rightarrow> Some (r, cm\<lparr>cm_conn := cursor_destroy (cu, cm_conn cm)\<rparr>))))"

section \<open>The mapping query\<close>

text \<open>
  \<open>f\<close> is the caller's function: it may throw. The convertor hands it every object of the
  current batch; the list collects them in order, its length is the iterator's count.
\<close>

fun batch_each :: "nat \<Rightarrow> (bytes \<Rightarrow> unit res) \<Rightarrow> bytes list \<Rightarrow> client \<Rightarrow> (bytes list res \<times> client) option" where
  "batch_each 0 f os s = None"
| "batch_each (Suc n) f os s =
     (if \<not> moreInCurrentBatch (fst s) then Some (Inr os, s)
      else case bind_act cursor_nextSafe (\<lambda>o'. lift_act (bind_res (f o') (\<lambda>_. Inr o'))) s of
             (Inl err, s) \<Rightarrow> Some (Inl err, s)
           | (Inr o', s) \<Rightarrow> batch_each n f (os @ [o']) s)"

fun map_plain :: "nat \<Rightarrow> (bytes \<Rightarrow> unit res) \<Rightarrow> bytes list \<Rightarrow> client \<Rightarrow> (bytes list res \<times> client) option" where
  "map_plain 0 f os s = None"
| "map_plain (Suc n) f os s =
     (case cursor_more s of
        (Inl err, s) \<Rightarrow> Some (Inl err, s)
      | (Inr False, s) \<Rightarrow> Some (Inr os, s)
      | (Inr True, s) \<Rightarrow>
          (case batch_each n f os s of
             None \<Rightarrow> None
           | Some (Inl err, s) \<Rightarrow> Some (Inl err, s)
           | Some (Inr os, s) \<Rightarrow> map_plain n f os s))"

text \<open>Exhaust: the server sends the batches without being asked for them.\<close>

fun map_exhaust :: "nat \<Rightarrow> (bytes \<Rightarrow> unit res) \<Rightarrow> bytes list \<Rightarrow> client \<Rightarrow> (bytes list res \<times> client) option" where
  "map_exhaust 0 f os s = None"
| "map_exhaust (Suc n) f os s =
     (case batch_each n f os s of
        None \<Rightarrow> None
      | Some (Inl err, s) \<Rightarrow> Some (Inl err, s)
      | Some (Inr os, s) \<Rightarrow>
          if cu_cursorId (fst s) = 0 then Some (Inr os, s)
          else (case exhaustReceiveMore s of
                  (Inl err, s) \<Rightarrow> Some (Inl err, s)
                | (Inr _, s) \<Rightarrow> map_exhaust n f os s))"

text \<open>After an exception in exhaust mode the connection cannot be used any more.\<close>

definition conn_abandon :: "connection \<Rightarrow> connection" where
  "conn_abandon c = c\<lparr>cn_failed := True, cn_port := (cn_port c)\<lparr>p_up := False\<rparr>\<rparr>"

definition mapping_query ::
  "nat \<Rightarrow> (bytes \<Rightarrow> unit res) \<Rightarrow> bytes \<Rightarrow> bytes \<Rightarrow> bytes option \<Rightarrow> int \<Rightarrow> commander \<Rightarrow> (bytes list res \<times> commander) option" where
  "mapping_query fuel f ns query fieldsToReturn queryOptions cm =
     (case availableOptions cm of
        (Inl err, cm) \<Rightarrow> Some (Inl err, cm)
      | (Inr avail, cm) \<Rightarrow>
          (let doExhaust = has_flag avail QueryOption_Exhaust;
               opts = (queryOptions AND (QueryOption_NoCursorTimeout OR QueryOption_SlaveOk)) OR
                 (if doExhaust then QueryOption_Exhaust else 0)
           in case on_cm (db_query ns query 0 0 fieldsToReturn opts 0) cm of
                (Inl err, cm) \<Rightarrow> Some (Inl err, cm)
              | (Inr None, cm) \<Rightarrow> Some (Inl (Uassert 13386), cm)
              | (Inr (Some cu), cm) \<Rightarrow>
                  map_option (\<lambda>(r, (cu, c)). (r, cm\<lparr>cm_conn := cursor_destroy (cu,
                      case r of Inr _ \<Rightarrow> c | Inl err \<Rightarrow> if doExhaust \<and> is_std_exception err then conn_abandon c else c)\<rparr>))
                    ((if doExhaust then map_exhaust else map_plain) fuel f [] (cu, cm_conn cm))))"

section \<open>Properties\<close>

lemma on_cm_seen: "on_cm f cm = (r, cm') \<Longrightarrow> cm_seen cm' = cm_seen cm"
  by (auto simp: on_cm_def split: prod.splits)

definition index_name :: "doc \<Rightarrow> bytes \<Rightarrow> bytes res" where
  "index_name keys name = (if name \<noteq> '''' then Inr name else genIndexName keys)"

lemma index_send_seen: "index_send ns d cm = (r, cm') \<Longrightarrow> cm_seen cm' = cm_seen cm"
  unfolding index_send_def
  by (cases "bind_res (sister_indexes ns) (\<lambda>s. bind_res (build_doc d) (\<lambda>o'. Inr (s, o')))")
     (auto simp: bind_act_def dest!: on_cm_seen split: prod.splits sum.splits)

lemma ensureIndex_run:
  assumes "index_name keys name = Inr nn"
  shows "ensureIndex ns keys uniq name cache cm =
    (if ns @ ''--'' @ nn \<in> cm_seen cm then (Inr False, cm)
     else index_send ns ([(''ns'', VString ns), (''key'', VObject keys), (''name'', VString nn)] @
            (if uniq then [(''unique'', VBool True)] else []))
       (if cache then cm\<lparr>cm_seen := insert (ns @ ''--'' @ nn) (cm_seen cm)\<rparr> else cm))"
  using assms unfolding ensureIndex_def index_name_def [symmetric] by (simp add: bind_act_def)

lemma ensureIndex_caches:
  assumes "index_name keys name = Inr nn" and "ensureIndex ns keys uniq name True cm = (r, cm')"
  shows "ns @ ''--'' @ nn \<in> cm_seen cm'"
proof (cases "ns @ ''--'' @ nn \<in> cm_seen cm")
  case True
  then show ?thesis using assms by (simp add: ensureIndex_run)
next
  case False
  then show ?thesis using assms index_send_seen [of ns] by (fastforce simp: ensureIndex_run)
qed

text \<open>
  Once \<open>ensureIndex\<close> has been called for a name, a second call for that name does nothing
  and returns \<open>false\<close>, whatever its keys are, and also when the first call threw because its
  insert could not be sent: the name is remembered before the insert. Two key patterns with
  the same generated name exclude each other in this way.
\<close>

theorem ensureIndex_once:
  assumes "index_name keys name = Inr nn" and "index_name keys' name' = Inr nn"
    and "ensureIndex ns keys uniq name True cm = (r, cm')"
  shows "ensureIndex ns keys' uniq' name' cache cm' = (Inr False, cm')"
  using ensureIndex_caches [OF assms(1,3)] assms(2)
  by (simp add: ensureIndex_run)

definition new_commander :: "connection \<Rightarrow> commander" where
  "new_commander c = \<lparr>cm_seen = {}, cm_options = None, cm_conn = c\<rparr>"

lemma show_int_1: "show_int 1 = ''1''"
  by code_simp

theorem ensureIndex_once_witness:
  "\<exists>r cm'. ensureIndex ''db.c'' [(''a'', VInt 1), (''b'', VInt 1)] False '''' True (new_commander demo_connection) = (r, cm') \<and>
     ensureIndex ''db.c'' [(''a_1_b'', VInt 1)] True '''' True cm' = (Inr False, cm')"
proof -
  have n: "index_name [(''a'', VInt 1), (''b'', VInt 1)] '''' = Inr ''a_1_b_1''" "index_name [(''a_1_b'', VInt 1)] '''' = Inr ''a_1_b_1''"
    by (simp_all add: index_name_def genIndexName_def is_number_def value_numberInt_def show_int_1)
  obtain r cm' where e: "ensureIndex ''db.c'' [(''a'', VInt 1), (''b'', VInt 1)] False '''' True (new_commander demo_connection) = (r, cm')"
    by (cases "ensureIndex ''db.c'' [(''a'', VInt 1), (''b'', VInt 1)] False '''' True (new_commander demo_connection)")
  from ensureIndex_once [OF n e] e show ?thesis by blast
qed

end
