(* ===== verification/CommandSpec.thy ===== *)
theory CommandSpec
  imports Commands
begin

text \<open>
  What the commands of Commands do on a connection whose server answers: lookup in memory
  agrees with lookup in the document, and a command returns what its reply says.
\<close>

section \<open>Fields in memory\<close>

text \<open>The element for a field that \<open>getField\<close> found or did not find.\<close>

definition shows_field :: "elem option \<Rightarrow> belement \<Rightarrow> bool" where
  "shows_field fo e \<longleftrightarrow>
     (case fo of
        None \<Rightarrow> e = eoo_element
      | Some (n, v) \<Rightarrow> (\<exists>post f. e = elem_at n v post f \<and> (f = - 1 \<or> f = int (length n) + 1)) \<and> NUL \<notin> set n \<and> wf_value v)"

lemma field_loop_enc:
  assumes "wf_doc d" and "length d < fuel"
    and "int (length pre) = it_pos it" and "it_end it = it_pos it + int (length (enc_elems d)) + 1"
    and "it_end it \<le> BSONObjMaxInternalSize"
  shows "\<exists>e. field_loop fuel (pre @ enc_elems d @ NUL # post) it name = Inr e \<and> shows_field (getField name d) e"
  using assms
proof (induction fuel arbitrary: d pre it)
  case (Suc fuel)
  show ?case
  proof (cases d)
    case Nil
    with Suc.prems show ?thesis by (simp add: iter_more_enc getField_def shows_field_def)
  next
    case (Cons e d')
    obtain n v where e: "e = (n, v)" by (cases e)
    have wf: "wf_elem (n, v)" "wf_doc d'" and w: "NUL \<notin> set n" "wf_value v"
      using Suc.prems(1) Cons e by auto
    have len: "length (enc_elems d) = length (enc_elem (n, v)) + length (enc_elems d')" using Cons e by simp
    let ?post = "enc_elems d' @ NUL # post" and ?it = "it\<lparr>it_pos := int (length (pre @ enc_elem (n, v)))\<rparr>"
    have mem: "pre @ enc_elems d @ NUL # post = pre @ enc_elem (n, v) @ ?post" using Cons e by simp
    have mo: "iter_more (pre @ enc_elem (n, v) @ ?post) it = Inr True"
      by (rule iter_more_enc) (use Suc.prems(3,4) in auto)
    obtain f where nx: "iter_next (pre @ enc_elem (n, v) @ ?post) False it = Inr (elem_at n v ?post f, ?it)"
        and f: "f = - 1 \<or> f = int (length n) + 1"
      using iter_next_enc [OF wf(1), of it pre "?post" False] Suc.prems(3-5) len by auto
    have nm: "el_fieldName (elem_at n v ?post f) = Inr n" by (rule el_fieldName_enc [OF w(1)])
    show ?thesis
    proof (cases "strcmp n name = 0")
      case True
      then show ?thesis
        unfolding mem using mo nx nm f w Cons e by (auto simp: shows_field_def getField_def)
    next
      case False
      then show ?thesis
        unfolding mem using mo nx nm Cons e Suc.IH [OF wf(2), of "pre @ enc_elem (n, v)" ?it] Suc.prems len
        by (simp add: getField_def length_enc_elem)
    qed
  qed
qed simp

lemma length_doc_le: "2 * length d \<le> length (enc_elems d)"
proof (induction d)
  case (Cons e d)
  then show ?case by (cases e) (simp add: length_enc_elem)
qed simp

lemma mem_field_enc:
  assumes "fits d"
  shows "\<exists>e. mem_field (enc_doc d @ p) name = Inr e \<and> shows_field (getField name d) e"
proof -
  have d: "wf_doc d" "int (length (enc_doc d)) \<le> BSONObjMaxInternalSize" using assms by (simp_all add: fits_def)
  have "length d < Suc (length (enc_doc d @ p))" using length_doc_le [of d] by simp
  then show ?thesis
    using field_loop_enc [OF d(1), of "Suc (length (enc_doc d @ p))" "le_int (int (length (enc_elems d)) + 5)"
        "\<lparr>it_pos = 4, it_end = int (length (enc_doc d))\<rparr>" p name] d(2) iter_new_enc [of d p]
    by (simp add: mem_field_def enc_doc_split [symmetric])
qed

lemma shows_field_value:
  assumes "shows_field (Some (n, v)) e"
  shows "\<exists>post. el_value e = Inr (enc_value v @ post)" "el_type (el_data e) = Inr (type_code (value_type v))"
    "el_eoo (el_data e) = Inr False" "el_fieldName e = Inr n"
  using assms el_value_enc [of n _ v] el_fieldName_enc [of n v] by (auto simp: shows_field_def)

lemma shows_field_none:
  "shows_field None e \<Longrightarrow> el_type (el_data e) = Inr 0 \<and> el_eoo (el_data e) = Inr True"
  by (simp add: shows_field_def eoo_element_def el_eoo_def el_type_def schar_def)

section \<open>Inserting one document\<close>

definition insert_message :: "bytes \<Rightarrow> doc \<Rightarrow> message" where
  "insert_message ns d = set_data dbInsert (request_data 0 ns (enc_doc d))"

lemma insert_one_run:
  assumes "port_ok (cn_port c)" and "\<not> cn_failed c" and "fits d" and "length ns \<le> 1024"
  shows "\<exists>p. insert_one ns (enc_doc d) c = (Inr (), c\<lparr>cn_port := p\<rparr>) \<and> port_ok p \<and> pending p = [] \<and>
    p_next_id p = p_next_id (cn_port c) + 1 \<and> p_in p = p_in (cn_port c) \<and>
    p_out p = p_out (cn_port c) @ pending (cn_port c) @ wire_bytes (stamp (insert_message ns d) (p_next_id (cn_port c)) (- 1))"
proof -
  have len: "length (request_data 0 ns (enc_doc d)) \<le> 32 * 1024 * 1024"
    using assms(3,4) by (simp add: request_data_def fits_def)
  have "build_message dbInsert [appendNum_int 0, appendStr ns True, appendSelf (enc_doc d)] =
      build_message dbInsert (map appendBuf [le_int 0, ns @ [NUL]] @ map appendSelf (map enc_doc [d]))"
    by (simp add: buf_ops)
  also have "\<dots> = Inr (insert_message ns d)"
    using assms(3,4) by (subst build_request) (simp_all add: insert_message_def request_data_def fits_def)
  finally have m: "build_message dbInsert [appendNum_int 0, appendStr ns True, appendSelf (enc_doc d)] = Inr (insert_message ns d)" .
  have "sendable (insert_message ns d)"
    using len by (simp add: insert_message_def sendable_def set_data_def i32_id MsgDataHeaderSize_def)
  from port_say_run [OF assms(1) this, of "- 1"] show ?thesis
    using assms(2) by (auto simp: insert_one_def insert_request_def m bind_act_def conn_say_def checkConnection_def catching_socket_def)
qed

section \<open>Truth and numbers of a field\<close>

definition truth :: "elem option \<Rightarrow> bool" where
  "truth fo = (case fo of
     None \<Rightarrow> False
   | Some (_, v) \<Rightarrow> (case v of
       VLong w \<Rightarrow> w \<noteq> 0 | VDouble x \<Rightarrow> \<not> dbl_eq x 0 | VInt w \<Rightarrow> w \<noteq> 0 | VBool b \<Rightarrow> b
     | VNull \<Rightarrow> False | VUndefined \<Rightarrow> False | _ \<Rightarrow> True))"

definition long_of :: "elem option \<Rightarrow> int res" where
  "long_of fo = (case fo of
     Some (_, VDouble x) \<Rightarrow> dbl_to_long x | Some (_, VInt w) \<Rightarrow> Inr (sint w) | Some (_, VLong w) \<Rightarrow> Inr (sint w)
   | _ \<Rightarrow> Inr 0)"

definition int_of :: "elem option \<Rightarrow> int res" where
  "int_of fo = (case fo of
     Some (_, VDouble x) \<Rightarrow> dbl_to_int x | Some (_, VInt w) \<Rightarrow> Inr (sint w) | Some (_, VLong w) \<Rightarrow> Inr (i32 (sint w))
   | _ \<Rightarrow> Inr 0)"

lemma field_cases:
  assumes "shows_field fo e"
  obtains (none) "fo = None" "el_type (el_data e) = Inr 0"
  | (some) n v post where "fo = Some (n, v)" "el_type (el_data e) = Inr (type_code (value_type v))"
      "el_value e = Inr (enc_value v @ post)" "wf_value v"
proof (cases fo)
  case None
  then show ?thesis using assms shows_field_none none by blast
next
  case (Some nv)
  obtain n v where nv: "nv = (n, v)" by (cases nv)
  have "wf_value v" using assms Some nv by (simp add: shows_field_def)
  then show ?thesis using shows_field_value [of n v e] assms Some nv some by blast
qed

lemma trueValue_field: "shows_field fo e \<Longrightarrow> trueValue e = Inr (truth fo)"
  by (erule field_cases, simp add: trueValue_def truth_def)
     (rename_tac n v post, case_tac v, simp_all add: trueValue_def truth_def accessor_defs)

lemma numberLong_field: "shows_field fo e \<Longrightarrow> numberLong e = long_of fo"
  by (erule field_cases, simp add: numberLong_def long_of_def)
     (rename_tac n v post, case_tac v, simp_all add: numberLong_def long_of_def accessor_defs)

lemma numberInt_field: "shows_field fo e \<Longrightarrow> numberInt e = int_of fo"
  by (erule field_cases, simp add: numberInt_def int_of_def)
     (rename_tac n v post, case_tac v, simp_all add: numberInt_def int_of_def accessor_defs)

section \<open>Commands that are answered\<close>

text \<open>The first bytes the server sends are its one-document reply \<open>r\<close> to the next request.\<close>

definition reply_batch :: "32 word \<Rightarrow> doc \<Rightarrow> batch" where
  "reply_batch mid r = \<lparr>ba_msgid = mid, ba_cursor = 0, ba_flags = 8, ba_docs = [r]\<rparr>"

definition answers :: "connection \<Rightarrow> 32 word \<Rightarrow> doc \<Rightarrow> bytes \<Rightarrow> bool" where
  "answers c mid r rest \<longleftrightarrow> port_ok (cn_port c) \<and> \<not> cn_failed c \<and> \<not> cn_clientSet c \<and> fits r \<and>
     (case r of [] \<Rightarrow> True | (n, _) # _ \<Rightarrow> n \<noteq> ''$err'') \<and>
     p_in (cn_port c) = wire_bytes (reply_message (p_next_id (cn_port c)) (reply_batch mid r)) @ rest"

lemma firstElement_enc:
  assumes "fits r"
  shows "bind_res (firstElement (enc_doc r @ p)) el_fieldName = Inr (case r of [] \<Rightarrow> [] | (n, _) # _ \<Rightarrow> n)"
proof -
  have at4: "at (enc_doc r @ p) 4 = Inr (enc_elems r @ NUL # p)" by (simp add: enc_doc_split at_def)
  show ?thesis
  proof (cases r)
    case Nil
    then show ?thesis
      using at4 by (simp add: firstElement_def el_new_def el_fieldName_def el_eoo_def el_type_def schar_def type_code.simps)
  next
    case (Cons e r')
    obtain n v where e: "e = (n, v)" by (cases e)
    then have "NUL \<notin> set n" using assms Cons by (simp add: fits_def)
    then show ?thesis
      using at4 Cons e el_new_enc [of n "- 1" v "enc_elems r' @ NUL # p"] el_fieldName_enc [of n v]
      by (simp add: firstElement_def)
  qed
qed

lemma strcmp_err: "NUL \<notin> set n \<Longrightarrow> strcmp n ''$err'' = 0 \<longleftrightarrow> n = ''$err''"
  by (rule strcmp_eq_0_plain) simp_all

lemma obj_copy_enc: "fits r \<Longrightarrow> obj_copy (enc_doc r @ p) = Inr (enc_doc r)"
  using rd_int_enc_doc [OF fits_small, of r p] bsonobj_init_enc [of r "[]"]
    bytes_at_append [of "int (length (enc_doc r))" "enc_doc r" p]
  by (simp add: obj_copy_def fits_def del: length_enc_doc)

lemma reply_batch_ok: "fits r \<Longrightarrow> batch_ok (reply_batch mid r)"
  by (simp add: batch_ok_def reply_batch_def fits_def has_flag_def ResultFlag_CursorNotFound_def)

lemma nextSafe_one:
  assumes "fits r" and "case r of [] \<Rightarrow> True | (n, _) # _ \<Rightarrow> n \<noteq> ''$err''"
    and "cu_putBack cu = []" and "cu_pos cu < cu_nReturned cu" and "cu_data cu = enc_doc r @ p"
  shows "cursor_nextSafe (cu, c) = (Inr (enc_doc r @ p), (cu\<lparr>cu_pos := cu_pos cu + 1, cu_data := p\<rparr>, c))"
proof -
  have "cursor_next (cu, c) = (Inr (enc_doc r @ p), (cu\<lparr>cu_pos := cu_pos cu + 1, cu_data := p\<rparr>, c))"
    using assms bsonobj_init_enc [of r p] rd_int_enc_doc [OF fits_small, of r p]
      at_append [of "int (length (enc_doc r))" "enc_doc r" p]
    by (simp add: cursor_next_def fits_def del: length_enc_doc)
  moreover have "bind_res (firstElement (enc_doc r @ p)) el_fieldName = Inr n \<Longrightarrow> strcmp n ''$err'' \<noteq> 0" for n
    using assms(1,2) firstElement_enc [OF assms(1), of p]
    by (cases r) (auto simp: fits_def strcmp_err)
  ultimately show ?thesis
    using firstElement_enc [OF assms(1), of p] by (simp add: cursor_nextSafe_def)
qed

lemma findOne_run:
  assumes a: "answers c mid r rest" and q: "query_ok ns q None 1 opts"
  shows "\<exists>p m. assembleRequest ns (enc_doc q) 1 0 None opts = Inr m \<and>
    findOne ns (enc_doc q) None opts c = (Inr (enc_doc r), c\<lparr>cn_port := p\<rparr>) \<and> port_ok p \<and> p_in p = rest \<and>
    p_next_id p = p_next_id (cn_port c) + 1 \<and> pending p = [] \<and>
    p_out p = p_out (cn_port c) @ pending (cn_port c) @ wire_bytes (stamp m (p_next_id (cn_port c)) (- 1))"
proof -
  let ?cu = "cursor_new ns (enc_doc q) 1 0 None opts 0" and ?b = "reply_batch mid r" and ?i = "p_next_id (cn_port c)"
  have c: "port_ok (cn_port c)" "\<not> cn_failed c" "\<not> cn_clientSet c" "fits r"
      "p_in (cn_port c) = wire_bytes (reply_message ?i ?b) @ rest"
      "case r of [] \<Rightarrow> True | (n, _) # _ \<Rightarrow> n \<noteq> ''$err''"
    using a by (auto simp: answers_def)
  have n: "nextBatchSize ?cu = Inr 1" by (simp add: nextBatchSize_def cursor_new_def)
  obtain m where m: "assembleRequest ns (enc_doc q) 1 0 None opts = Inr m" "sendable m"
    using query_sendable [of ns q None 1 0 opts] q unfolding query_ok_def by auto
  have req: "cursor_request ?cu = Inr m" using n m(1) by (simp add: cursor_request_def) (simp add: cursor_new_def)
  obtain p where p: "conn_call m False c = (Inr (Some (reply_message ?i ?b)), c\<lparr>cn_port := p\<rparr>)" "port_ok p" "p_in p = rest"
      "p_next_id p = ?i + 1" "pending p = []"
      "p_out p = p_out (cn_port c) @ pending (cn_port c) @ wire_bytes (stamp m ?i (- 1))"
    using conn_call_reply [OF c(1) m(2) reply_sendable [OF reply_batch_ok [OF c(4)]] c(5), of False] by blast
  let ?cu1 = "?cu\<lparr>cu_resultFlags := Some 8, cu_cursorId := 0, cu_nReturned := 1, cu_pos := 0, cu_data := enc_doc r\<rparr>"
  have "dataReceived (Some (reply_message ?i ?b)) (?cu, c\<lparr>cn_port := p\<rparr>) = (Inr (), (?cu1, c\<lparr>cn_port := p\<rparr>))"
    using c(3) read_reply [OF reply_batch_ok [OF c(4)], of ?i mid]
    by (simp add: dataReceived_def bind_act_def set_cursor_def cursor_lost_def on_conn_def checkResponse_def
        reply_batch_def has_flag_def ResultFlag_CursorNotFound_def cursor_new_def)
  then have dq: "db_query ns (enc_doc q) 1 0 None opts 0 c = (Inr (Some ?cu1), c\<lparr>cn_port := p\<rparr>)"
    using req p(1) c(2)
    by (simp add: db_query_def checkConnection_def cursor_init_def bind_act_def with_cursor_def on_conn_def)
  have mo: "cursor_more (?cu1, c\<lparr>cn_port := p\<rparr>) = (Inr True, (?cu1, c\<lparr>cn_port := p\<rparr>))"
    by (simp add: cursor_more_def cursor_new_def)
  have nx: "cursor_nextSafe (?cu1, c\<lparr>cn_port := p\<rparr>) =
      (Inr (enc_doc r @ []), (?cu1\<lparr>cu_pos := cu_pos ?cu1 + 1, cu_data := []\<rparr>, c\<lparr>cn_port := p\<rparr>))"
    by (rule nextSafe_one [OF c(4,6)]) (simp_all add: cursor_new_def)
  have "findOne_result (?cu1, c\<lparr>cn_port := p\<rparr>) = (Inr (enc_doc r), (?cu1\<lparr>cu_pos := 1, cu_data := []\<rparr>, c\<lparr>cn_port := p\<rparr>))"
    using mo nx obj_copy_enc [OF c(4), of "[]"]
    by (simp add: findOne_result_def bind_act_def with_cursor_def hasResultFlag_def has_flag_def ResultFlag_ShardConfigStale_def)
  then have "findOne ns (enc_doc q) None opts c = (Inr (enc_doc r), c\<lparr>cn_port := p\<rparr>)"
    using dq by (simp add: findOne_def cursor_destroy_def)
  then show ?thesis using p m(1) by blast
qed

text \<open>A command document is one query to \<open>db.$cmd\<close>; its result is the truth of the reply's \<open>ok\<close>.\<close>

text \<open>The server has closed the connection.\<close>

lemma findOne_closed:
  assumes "port_ok (cn_port c)" and "\<not> cn_failed c" and "p_in (cn_port c) = []" and "query_ok ns q None 1 opts"
  shows "fst (findOne ns (enc_doc q) None opts c) = Inl (Uassert 10276)"
proof -
  let ?cu = "cursor_new ns (enc_doc q) 1 0 None opts 0" and ?i = "p_next_id (cn_port c)"
  have n: "nextBatchSize ?cu = Inr 1" by (simp add: nextBatchSize_def cursor_new_def)
  obtain m where m: "assembleRequest ns (enc_doc q) 1 0 None opts = Inr m" "sendable m"
    using query_sendable [of ns q None 1 0 opts] assms(4) unfolding query_ok_def by auto
  have req: "cursor_request ?cu = Inr m" using n m(1) by (simp add: cursor_request_def) (simp add: cursor_new_def)
  obtain p1 where p1: "port_say m (- 1) (cn_port c) = (Inr (stamp m ?i (- 1)), p1)" "port_ok p1" "p_in p1 = []"
    using port_say_run [OF assms(1) m(2), of "- 1"] assms(3) by auto
  have "port_recv_msg p1 = (None, p1\<lparr>p_in := []\<rparr>)"
    using p1(3) by (subst port_recv_msg.simps) (simp add: port_recv_bytes_def)
  then have "port_call m (cn_port c) = (Inr None, p1\<lparr>p_in := []\<rparr>)"
    using p1(1) by (simp add: port_call_def port_recv_reply_def)
  then have "conn_call m False c = (Inr None, c\<lparr>cn_port := p1\<lparr>p_in := []\<rparr>, cn_failed := True\<rparr>)"
    by (simp add: conn_call_def bind_act_def catching_socket_def)
  then have "\<exists>c'. db_query ns (enc_doc q) 1 0 None opts 0 c = (Inr None, c')"
    using req assms(2) by (simp add: db_query_def checkConnection_def cursor_init_def bind_act_def with_cursor_def on_conn_def)
  then show ?thesis by (auto simp: findOne_def)
qed

definition command_ok :: "bytes \<Rightarrow> doc \<Rightarrow> int \<Rightarrow> bool" where
  "command_ok dbname cmd opts \<longleftrightarrow> query_ok (dbname @ ''.$cmd'') cmd None 1 opts"

lemma isOk_enc: "fits r \<Longrightarrow> isOk (enc_doc r) = Inr (truth (getField ''ok'' r))"
  using mem_field_enc [of r "[]" "''ok''"] by (auto simp: isOk_def trueValue_field)

lemma run_doc_run:
  assumes a: "answers c mid r rest" and q: "command_ok dbname cmd opts"
  shows "\<exists>p m. assembleRequest (dbname @ ''.$cmd'') (enc_doc cmd) 1 0 None opts = Inr m \<and>
    run_doc dbname cmd opts c = (Inr (truth (getField ''ok'' r), enc_doc r), c\<lparr>cn_port := p\<rparr>) \<and> port_ok p \<and> p_in p = rest \<and>
    p_next_id p = p_next_id (cn_port c) + 1 \<and> pending p = [] \<and>
    p_out p = p_out (cn_port c) @ pending (cn_port c) @ wire_bytes (stamp m (p_next_id (cn_port c)) (- 1))"
proof -
  obtain p m where pm: "assembleRequest (dbname @ ''.$cmd'') (enc_doc cmd) 1 0 None opts = Inr m"
      "findOne (dbname @ ''.$cmd'') (enc_doc cmd) None opts c = (Inr (enc_doc r), c\<lparr>cn_port := p\<rparr>)" "port_ok p" "p_in p = rest"
      "p_next_id p = p_next_id (cn_port c) + 1" "pending p = []"
      "p_out p = p_out (cn_port c) @ pending (cn_port c) @ wire_bytes (stamp m (p_next_id (cn_port c)) (- 1))"
    using findOne_run [OF a q [unfolded command_ok_def]] by blast
  have "build_doc cmd = Inr (enc_doc cmd)"
    using q by (subst build_doc_run) (auto simp: command_ok_def query_ok_def fits_def option_docs_def)
  then have "run_doc dbname cmd opts c = (Inr (truth (getField ''ok'' r), enc_doc r), c\<lparr>cn_port := p\<rparr>)"
    using pm(2) a by (simp add: run_doc_def runCommand_def isOk_enc answers_def bind_act_def)
  then show ?thesis using pm by blast
qed

lemma long_field: "fits r \<Longrightarrow> bind_res (mem_field (enc_doc r) name) numberLong = long_of (getField name r)"
  using mem_field_enc [of r "[]" name] by (auto simp: numberLong_field)

lemma int_field: "fits r \<Longrightarrow> bind_res (mem_field (enc_doc r) name) numberInt = int_of (getField name r)"
  using mem_field_enc [of r "[]" name] by (auto simp: numberInt_field)

section \<open>Properties\<close>

text \<open>
  \<open>BSONObj::getField\<close> over the bytes of an encoded object finds the element that the
  lookup in the document finds, the first with that name: its name, its type and its value
  can be read there. If there is none it returns the EOO element, never an error.
\<close>

theorem getField_in_memory:
  assumes "fits d"
  shows "\<exists>e. mem_field (enc_doc d @ p) name = Inr e \<and>
    (case getField name d of
       None \<Rightarrow> el_eoo (el_data e) = Inr True
     | Some (n, v) \<Rightarrow> el_fieldName e = Inr n \<and> el_type (el_data e) = Inr (type_code (value_type v)) \<and>
         (\<exists>post. el_value e = Inr (enc_value v @ post)))"
proof -
  obtain e where e: "mem_field (enc_doc d @ p) name = Inr e" "shows_field (getField name d) e"
    using mem_field_enc [OF assms] by blast
  then show ?thesis
    using shows_field_none shows_field_value by (cases "getField name d") (auto split: prod.split)
qed

theorem getField_in_memory_witness:
  "\<exists>e. mem_field (enc_doc [(''a'', VNull), (''b'', VInt 7)] @ ''xyz'') ''b'' = Inr e \<and>
    el_fieldName e = Inr ''b'' \<and> (\<exists>post. el_value e = Inr (le32 7 @ post))"
proof -
  have "fits [(''a'', VNull), (''b'', VInt 7)]" by (simp add: fits_def length_enc_elem)
  moreover have "getField ''b'' [(''a'', VNull), (''b'', VInt 7)] = Some (''b'', VInt 7)" by (simp add: getField_def uchar_def)
  ultimately show ?thesis
    using getField_in_memory [of "[(''a'', VNull), (''b'', VInt 7)]" "''xyz''" "''b''"] by auto
qed

text \<open>
  C32: A command sends exactly one message, the query for one document of \<open>db.$cmd\<close> with the
  command as its criteria, and returns the server's reply with the truth of its field \<open>ok\<close>
  (as \<open>trueValue\<close> reads it: missing, zero, null and false are failures).
\<close>

theorem command_returns_reply:
  assumes "answers c mid r rest" and "command_ok dbname cmd opts"
  shows "\<exists>p m. assembleRequest (dbname @ ''.$cmd'') (enc_doc cmd) 1 0 None opts = Inr m \<and>
    run_doc dbname cmd opts c = (Inr (truth (getField ''ok'' r), enc_doc r), c\<lparr>cn_port := p\<rparr>) \<and> p_in p = rest \<and>
    p_out p @ pending p = p_out (cn_port c) @ pending (cn_port c) @ wire_bytes (stamp m (p_next_id (cn_port c)) (- 1))"
proof -
  obtain p m where "assembleRequest (dbname @ ''.$cmd'') (enc_doc cmd) 1 0 None opts = Inr m"
    "run_doc dbname cmd opts c = (Inr (truth (getField ''ok'' r), enc_doc r), c\<lparr>cn_port := p\<rparr>)" "p_in p = rest" "pending p = []"
    "p_out p = p_out (cn_port c) @ pending (cn_port c) @ wire_bytes (stamp m (p_next_id (cn_port c)) (- 1))"
    using run_doc_run [OF assms] by blast
  then show ?thesis by (intro exI [of _ p] exI [of _ m]) simp
qed

definition answering :: "doc list \<Rightarrow> connection" where
  "answering rs =
     \<lparr>cn_port = \<lparr>p_in = concat (map (\<lambda>(i, r). wire_bytes (reply_message i (reply_batch 9 r))) (zip [1, 2] rs)), p_out = [],
        p_up = True, p_next_id = 1, p_piggy = None\<rparr>,
      cn_failed = False, cn_clientSet = False, cn_isntMaster = 0\<rparr>"

lemma answering_answers:
  "fits r \<Longrightarrow> (case r of [] \<Rightarrow> True | (n, _) # _ \<Rightarrow> n \<noteq> ''$err'') \<Longrightarrow> answers (answering [r]) 9 r []"
  by (simp add: answers_def answering_def port_ok_def pending_def)

theorem command_returns_reply_witness:
  "\<exists>p m. assembleRequest (''admin'' @ ''.$cmd'') (enc_doc [(''ping'', VInt 1)]) 1 0 None 0 = Inr m \<and>
    run_doc ''admin'' [(''ping'', VInt 1)] 0 (answering [[(''ok'', VDouble 0)]]) =
      (Inr (False, enc_doc [(''ok'', VDouble 0)]), (answering [[(''ok'', VDouble 0)]])\<lparr>cn_port := p\<rparr>)"
proof -
  have a: "answers (answering [[(''ok'', VDouble 0)]]) 9 [(''ok'', VDouble 0)] []"
    by (rule answering_answers) (simp_all add: fits_def length_enc_elem)
  have q: "command_ok ''admin'' [(''ping'', VInt 1)] 0"
    by (simp add: command_ok_def query_ok_def option_docs_def fits_def has_flag_def length_enc_elem)
  have "dbl_eq 0 0" by (simp add: dbl_eq_def)
  then have "truth (getField ''ok'' [(''ok'', VDouble 0)]) = False"
    by (simp add: truth_def getField_def uchar_def)
  then show ?thesis using command_returns_reply [OF a q] by auto
qed

text \<open>
  \<open>count\<close> returns the reply's field \<open>n\<close> as a long (0 when it is missing), and throws
  11010 when the command failed.
\<close>

theorem count_reads_n:
  assumes "answers c mid r rest"
    and "command_ok (cstr (nss_db (namespace_string_new ns))) (countCmd ns q limit skip) opts"
  shows "fst (db_count ns q opts limit skip c) =
    (if truth (getField ''ok'' r) then bind_res (long_of (getField ''n'' r)) (\<lambda>n. Inr (word_of_int n)) else Inl (Uassert 11010))"
proof -
  obtain p where "run_doc (cstr (nss_db (namespace_string_new ns))) (countCmd ns q limit skip) opts c =
      (Inr (truth (getField ''ok'' r), enc_doc r), c\<lparr>cn_port := p\<rparr>)"
    using run_doc_run [OF assms] by blast
  moreover have "fits r" using assms(1) by (simp add: answers_def)
  ultimately show ?thesis
    using long_field [of r "''n''"] by (simp add: db_count_def bind_act_def flip: bind_res_assoc)
qed

theorem count_reads_n_witness:
  "fst (db_count ''db.c'' [] 0 0 0 (answering [[(''ok'', VInt 1), (''n'', VLong 42)]])) = Inr 42"
proof -
  have a: "answers (answering [[(''ok'', VInt 1), (''n'', VLong 42)]]) 9 [(''ok'', VInt 1), (''n'', VLong 42)] []"
    by (rule answering_answers) (simp_all add: fits_def length_enc_elem)
  have ns: "nss_db (namespace_string_new ''db.c'') = ''db''" "nss_coll (namespace_string_new ''db.c'') = ''c''"
    by (simp_all add: namespace_string_new_def cstr_def split_char_def)
  have q: "command_ok (cstr (nss_db (namespace_string_new ''db.c''))) (countCmd ''db.c'' [] 0 0) 0"
    by (simp add: command_ok_def query_ok_def option_docs_def fits_def has_flag_def length_enc_elem countCmd_def ns cstr_def)
  show ?thesis
    using count_reads_n [OF a q] by (simp add: truth_def long_of_def getField_def uchar_def)
qed

lemma nonce_field:
  assumes "fits r" and "getField ''nonce'' r = Some (k, VString nonce)" and "NUL \<notin> set nonce"
  shows "bind_res (mem_field (enc_doc r) ''nonce'') (\<lambda>e.
      bind_res (el_is String e) (\<lambda>s. bind_res (guard s AssertFail) (\<lambda>_. bind_res (valuestr e) cstr_at))) = Inr nonce"
proof -
  obtain e where e: "mem_field (enc_doc r) ''nonce'' = Inr e" "shows_field (Some (k, VString nonce)) e"
    using mem_field_enc [OF assms(1), of "[]" "''nonce''"] assms(2) by auto
  then obtain post where "el_value e = Inr (enc_value (VString nonce) @ post)" "el_type (el_data e) = Inr (type_code String)"
    using shows_field_value [OF e(2)] by auto
  then show ?thesis using e(1) assms(3) by (simp add: el_is_def valuestr_def at_def)
qed

definition auth_doc :: "bytes \<Rightarrow> bytes \<Rightarrow> bytes \<Rightarrow> doc" where
  "auth_doc nonce username password =
     [(''authenticate'', VInt 1), (''nonce'', VString nonce), (''user'', VString username),
      (''key'', VString (digestToString (md5 (nonce @ username @ password))))]"

text \<open>The message of the command \<open>cmd\<close> to \<open>dbname\<close>, as number \<open>i\<close> of the client's messages.\<close>

definition command_bytes :: "bytes \<Rightarrow> doc \<Rightarrow> 32 word \<Rightarrow> bytes" where
  "command_bytes dbname cmd i =
     (case assembleRequest (dbname @ ''.$cmd'') (enc_doc cmd) 1 0 None 0 of
        Inr m \<Rightarrow> wire_bytes (stamp m i (- 1)) | Inl _ \<Rightarrow> [])"

text \<open>A server that will answer a request for a nonce, with \<open>nonce\<close>, and the authentication.\<close>

definition authenticates :: "connection \<Rightarrow> 32 word \<Rightarrow> doc \<Rightarrow> bytes \<Rightarrow> 32 word \<Rightarrow> doc \<Rightarrow> bytes \<Rightarrow> bool" where
  "authenticates c mid r1 nonce mid2 r2 rest \<longleftrightarrow>
     answers c mid r1 (wire_bytes (reply_message (p_next_id (cn_port c) + 1) (reply_batch mid2 r2)) @ rest) \<and>
     truth (getField ''ok'' r1) \<and> (\<exists>k. getField ''nonce'' r1 = Some (k, VString nonce)) \<and> NUL \<notin> set nonce \<and>
     fits r2 \<and> (case r2 of [] \<Rightarrow> True | (n, _) # _ \<Rightarrow> n \<noteq> ''$err'')"

lemma auth_run:
  assumes a: "authenticates c mid r1 nonce mid2 r2 rest"
    and "command_ok dbname [(''getnonce'', VInt 1)] 0" and "command_ok dbname (auth_doc nonce user pw) 0"
  shows "\<exists>p m1 m2. auth dbname user pw False c = (Inr (truth (getField ''ok'' r2)), c\<lparr>cn_port := p\<rparr>) \<and>
    assembleRequest (dbname @ ''.$cmd'') (enc_doc [(''getnonce'', VInt 1)]) 1 0 None 0 = Inr m1 \<and>
    assembleRequest (dbname @ ''.$cmd'') (enc_doc (auth_doc nonce user pw)) 1 0 None 0 = Inr m2 \<and>
    port_ok p \<and> p_in p = rest \<and> p_next_id p = p_next_id (cn_port c) + 2 \<and> pending p = [] \<and>
    p_out p = p_out (cn_port c) @ pending (cn_port c) @
      wire_bytes (stamp m1 (p_next_id (cn_port c)) (- 1)) @ wire_bytes (stamp m2 (p_next_id (cn_port c) + 1) (- 1))"
proof -
  let ?i = "p_next_id (cn_port c)"
  have key: "auth_key nonce user pw = digestToString (md5 (nonce @ user @ pw))"
    using md5_pieces [of "[nonce, user, pw]"] by (simp add: auth_key_def md5_whole)
  obtain k where A: "answers c mid r1 (wire_bytes (reply_message (?i + 1) (reply_batch mid2 r2)) @ rest)"
      "truth (getField ''ok'' r1)" "getField ''nonce'' r1 = Some (k, VString nonce)" "NUL \<notin> set nonce"
      "fits r2" "case r2 of [] \<Rightarrow> True | (n, _) # _ \<Rightarrow> n \<noteq> ''$err''"
    using a unfolding authenticates_def by blast
  obtain p1 m1 where 1: "assembleRequest (dbname @ ''.$cmd'') (enc_doc [(''getnonce'', VInt 1)]) 1 0 None 0 = Inr m1"
      "run_doc dbname [(''getnonce'', VInt 1)] 0 c = (Inr (True, enc_doc r1), c\<lparr>cn_port := p1\<rparr>)" "port_ok p1"
      "p_in p1 = wire_bytes (reply_message (?i + 1) (reply_batch mid2 r2)) @ rest"
      "p_next_id p1 = ?i + 1" "pending p1 = []" "p_out p1 = p_out (cn_port c) @ pending (cn_port c) @ wire_bytes (stamp m1 ?i (- 1))"
    using run_doc_run [OF A(1) assms(2)] A(2) by auto
  have "answers (c\<lparr>cn_port := p1\<rparr>) mid2 r2 rest"
    using A(1,5,6) 1(3-5) by (simp add: answers_def)
  then obtain p2 m2 where 2: "assembleRequest (dbname @ ''.$cmd'') (enc_doc (auth_doc nonce user pw)) 1 0 None 0 = Inr m2"
      "run_doc dbname (auth_doc nonce user pw) 0 (c\<lparr>cn_port := p1\<rparr>) =
        (Inr (truth (getField ''ok'' r2), enc_doc r2), c\<lparr>cn_port := p2\<rparr>)" "port_ok p2" "p_in p2 = rest"
      "p_next_id p2 = p_next_id p1 + 1" "pending p2 = []"
      "p_out p2 = p_out p1 @ pending p1 @ wire_bytes (stamp m2 (p_next_id p1) (- 1))"
    using run_doc_run [OF _ assms(3), of "c\<lparr>cn_port := p1\<rparr>" mid2 r2 rest] by auto
  have "fits r1" using A(1) by (simp add: answers_def)
  from nonce_field [OF this A(3,4)]
  have "auth dbname user pw False c = (Inr (truth (getField ''ok'' r2)), c\<lparr>cn_port := p2\<rparr>)"
    using 1(2) 2(2) by (simp add: auth_def key auth_doc_def bind_act_def)
  then show ?thesis using 1 2 by (intro exI [of _ p2] exI [of _ m1] exI [of _ m2]) simp
qed

text \<open>
  C13: Authentication sends exactly two messages: the request for a nonce and, for the nonce
  the server chose, the user with the MD5 digest of nonce, user and password digest. The
  password digest is the MD5 digest of \<open>user:mongo:password\<close>; neither it nor the password
  itself is sent. The result is the truth of the second reply's \<open>ok\<close>.
\<close>

theorem auth_sends_only_the_key:
  assumes "answers c mid r1 (wire_bytes (reply_message (p_next_id (cn_port c) + 1) (reply_batch mid2 r2)) @ rest)"
    and "truth (getField ''ok'' r1)" and "getField ''nonce'' r1 = Some (k, VString nonce)" and "NUL \<notin> set nonce"
    and "fits r2" and "case r2 of [] \<Rightarrow> True | (n, _) # _ \<Rightarrow> n \<noteq> ''$err''"
    and "command_ok dbname [(''getnonce'', VInt 1)] 0"
    and "command_ok dbname (auth_doc nonce user (md5simpledigest (user @ '':mongo:'' @ password))) 0"
  shows "\<exists>p m1 m2. auth dbname user password True c = (Inr (truth (getField ''ok'' r2)), c\<lparr>cn_port := p\<rparr>) \<and>
    assembleRequest (dbname @ ''.$cmd'') (enc_doc [(''getnonce'', VInt 1)]) 1 0 None 0 = Inr m1 \<and>
    assembleRequest (dbname @ ''.$cmd'')
      (enc_doc (auth_doc nonce user (md5simpledigest (user @ '':mongo:'' @ password)))) 1 0 None 0 = Inr m2 \<and>
    p_out p @ pending p = p_out (cn_port c) @ pending (cn_port c) @
      wire_bytes (stamp m1 (p_next_id (cn_port c)) (- 1)) @ wire_bytes (stamp m2 (p_next_id (cn_port c) + 1) (- 1))"
proof -
  have pw: "createPasswordDigest user password = md5simpledigest (user @ '':mongo:'' @ password)"
    using md5_pieces [of "[user, '':mongo:'', password]"]
    by (simp add: createPasswordDigest_def md5simpledigest_def md5_whole)
  have "auth dbname user password True c = auth dbname user (md5simpledigest (user @ '':mongo:'' @ password)) False c"
    by (simp add: auth_def pw)
  moreover have "authenticates c mid r1 nonce mid2 r2 rest" using assms by (auto simp: authenticates_def)
  ultimately show ?thesis using auth_run [OF _ assms(7,8)] by fastforce
qed

lemma length_digest [simp]: "length (digestToString (md5 x)) = 32"
proof -
  have "length (md5 x) = 16" by (simp add: md5_whole md5_rfc_def Let_def split: prod.split)
  moreover have "length (digestToString d) = 2 * length d" for d
    by (induction d) (simp_all add: digestToString_def)
  ultimately show ?thesis by simp
qed

lemma small_command_ok: "fits cmd \<Longrightarrow> length (enc_doc cmd) \<le> 1000 \<Longrightarrow> command_ok ''db'' cmd 0"
  by (simp add: command_ok_def query_ok_def option_docs_def has_flag_def)

theorem auth_sends_only_the_key_witness:
  "let c = answering [[(''nonce'', VString ''2375531c''), (''ok'', VInt 1)], [(''ok'', VInt 1)]] in
    \<exists>p m1 m2. auth ''db'' ''joe'' ''pass'' True c = (Inr True, c\<lparr>cn_port := p\<rparr>) \<and>
      assembleRequest (''db'' @ ''.$cmd'')
        (enc_doc (auth_doc ''2375531c'' ''joe'' (md5simpledigest (''joe'' @ '':mongo:'' @ ''pass'')))) 1 0 None 0 = Inr m2 \<and>
      p_out p @ pending p = wire_bytes (stamp m1 1 (- 1)) @ wire_bytes (stamp m2 2 (- 1))"
proof -
  let ?r1 = "[(''nonce'', VString ''2375531c''), (''ok'', VInt 1)]" and ?r2 = "[(''ok'', VInt 1)] :: doc"
  let ?c = "answering [?r1, ?r2]" and ?d = "auth_doc ''2375531c'' ''joe'' (md5simpledigest (''joe'' @ '':mongo:'' @ ''pass''))"
  have r: "fits ?r1" "fits ?r2" by (simp_all add: fits_def length_enc_elem)
  have f: "truth (getField ''ok'' ?r1) = True" "truth (getField ''ok'' ?r2) = True"
      "getField ''nonce'' ?r1 = Some (''nonce'', VString ''2375531c'')"
    by (simp_all add: truth_def getField_def uchar_def)
  have a: "answers ?c 9 ?r1 (wire_bytes (reply_message (p_next_id (cn_port ?c) + 1) (reply_batch 9 ?r2)) @ [])"
    using r by (simp add: answers_def answering_def port_ok_def pending_def)
  have "fits ?d" "length (enc_doc ?d) \<le> 1000" by (simp_all add: fits_def length_enc_elem auth_doc_def)
  then have k: "command_ok ''db'' ?d 0" by (rule small_command_ok)
  have g: "command_ok ''db'' [(''getnonce'', VInt 1)] 0"
    by (rule small_command_ok) (simp_all add: fits_def length_enc_elem)
  have "p_out (cn_port ?c) @ pending (cn_port ?c) = []" "p_next_id (cn_port ?c) = 1"
    by (simp_all add: answering_def pending_def)
  then show ?thesis
    using auth_sends_only_the_key [OF a, of "''nonce''" "''2375531c''" "''db''" "''joe''" "''pass''"] f r(2) g k unfolding Let_def by auto
qed

end
