(* ===== verification/JsonReader.thy ===== *)
theory JsonReader
  imports BsonJson
begin

text \<open>
  The JSON reader (db/json.cpp): the grammar \<open>JsonGrammar\<close> as parser functions, the semantic
  actions on the builders as events, and \<open>fromjson(const char*)\<close>, which runs them. A production
  maps the rest of the text to the actions it ran and to what it did: it throws (\<open>Inl\<close>), does
  not match (\<open>Inr None\<close>) or matches a prefix. The actions of a branch that is given up later
  stay, as they do in the code. \<open>rv\<close> is the arithmetic of boost's \<open>real_p\<close>: the double a
  matched text stands for, \<open>None\<close> when its digits exceed the range of a double. The variant of
  \<open>fromjson\<close> that returns the length it read is not modelled.
\<close>

section \<open>Actions and parser combinators\<close>

text \<open>
  \<open>Push\<close>: a builder for the text's object or an embedded one; \<open>Pop\<close>: close the last one.
  \<open>Append\<close>: a value under the current field name.
\<close>

datatype json_event = Append bytes bson_value | Push BSONType bytes | Pop

type_synonym 'a parsed = "json_event list \<times> ('a \<times> bytes) option res"
type_synonym 'a production = "bytes \<Rightarrow> 'a parsed"

definition yields :: "'a \<Rightarrow> 'a production" where
  "yields a s = ([], Inr (Some (a, s)))"

definition throws :: "mongo_error \<Rightarrow> 'a production" where
  "throws e s = ([], Inl e)"

definition emit :: "json_event \<Rightarrow> unit production" where
  "emit e s = ([e], Inr (Some ((), s)))"

text \<open>\<open>p >> q\<close>, \<open>p | q\<close>, \<open>!p\<close> (with whether it matched).\<close>

definition then_p :: "'a production \<Rightarrow> ('a \<Rightarrow> 'b production) \<Rightarrow> 'b production" where
  "then_p p q s =
     (case p s of
        (es, Inl e) \<Rightarrow> (es, Inl e)
      | (es, Inr None) \<Rightarrow> (es, Inr None)
      | (es, Inr (Some (a, t))) \<Rightarrow> apfst ((@) es) (q a t))"

definition or_p :: "'a production \<Rightarrow> 'a production \<Rightarrow> 'a production" where
  "or_p p q s =
     (case p s of (es, Inr None) \<Rightarrow> apfst ((@) es) (q s) | (es, r) \<Rightarrow> (es, r))"

definition maybe_p :: "'a production \<Rightarrow> bool production" where
  "maybe_p p s =
     (case p s of
        (es, Inl e) \<Rightarrow> (es, Inl e)
      | (es, Inr None) \<Rightarrow> (es, Inr (Some (False, s)))
      | (es, Inr (Some (a, t))) \<Rightarrow> (es, Inr (Some (True, t))))"

fun alt :: "'a production list \<Rightarrow> 'a production" where
  "alt [] s = ([], Inr None)"
| "alt (p # ps) s = or_p p (alt ps) s"

text \<open>
  White space is skipped before every token; inside a token (\<open>lexeme_d\<close>, a literal, a number)
  it is not.
\<close>

definition skip_ws :: "bytes \<Rightarrow> bytes" where
  "skip_ws s = dropWhile is_space s"

definition token :: "(bytes \<Rightarrow> ('a \<times> bytes) option) \<Rightarrow> 'a production" where
  "token f s = ([], Inr (f (skip_ws s)))"

definition prefix_of :: "bytes \<Rightarrow> bytes \<Rightarrow> (unit \<times> bytes) option" where
  "prefix_of w s = (if take (length w) s = w then Some ((), drop (length w) s) else None)"

definition lit :: "bytes \<Rightarrow> unit production" where
  "lit w = token (prefix_of w)"

text \<open>
  \<open>list_p(item, ',')\<close>: an item, then delimiters and items until a delimiter or the item behind
  one does not match, which is given back. \<open>item i\<close> is the \<open>i\<close>-th item; the first argument
  bounds the number of rounds.
\<close>

primrec more_p :: "nat \<Rightarrow> (nat \<Rightarrow> unit production) \<Rightarrow> nat \<Rightarrow> unit production" where
  "more_p 0 item i = throws UB"
| "more_p (Suc k) item i =
     then_p (maybe_p (then_p (lit '','') (\<lambda>_. item i))) (\<lambda>m. if m then more_p k item (Suc i) else yields ())"

definition list_p :: "nat \<Rightarrow> (nat \<Rightarrow> unit production) \<Rightarrow> unit production" where
  "list_p k item = then_p (item 0) (\<lambda>_. more_p k item 1)"

section \<open>Tokens\<close>

definition quoted_by :: "char \<Rightarrow> bytes \<Rightarrow> (bytes \<times> bytes) option" where
  "quoted_by q s = (case s of c # cs \<Rightarrow> if c = q then read_str q '''' cs else None | [] \<Rightarrow> None)"

definition str_p :: "bytes production" where
  "str_p = token (quoted_by (CHR 0x22))"

definition singleQuoteStr :: "bytes production" where
  "singleQuoteStr = token (quoted_by (CHR 0x27))"

definition is_alpha :: "char \<Rightarrow> bool" where
  "is_alpha c = ((65 \<le> uchar c \<and> uchar c \<le> 90) \<or> (97 \<le> uchar c \<and> uchar c \<le> 122))"

definition unquotedFieldName :: "bytes production" where
  "unquotedFieldName = token (\<lambda>s.
     case s of
       c # cs \<Rightarrow>
         if is_alpha c \<or> c = CHR ''$'' \<or> c = CHR ''_''
         then (let p = (\<lambda>d. is_alpha d \<or> is_digit d \<or> d = CHR ''$'' \<or> d = CHR ''_'')
               in Some (c # takeWhile p cs, dropWhile p cs))
         else None
     | [] \<Rightarrow> None)"

text \<open>\<open>real_p\<close> with \<open>strict_real_parser_policies\<close>: a dot or an exponent is required.\<close>

definition opt_sign :: "bytes \<Rightarrow> bytes \<times> bytes" where
  "opt_sign s = (case s of c # cs \<Rightarrow> if c = CHR ''-'' \<or> c = CHR ''+'' then ([c], cs) else ('''', s) | [] \<Rightarrow> ('''', s))"

definition exponent :: "bytes \<Rightarrow> (bytes \<times> bytes) option" where
  "exponent s =
     (case s of
        c # cs \<Rightarrow>
          if c = CHR ''e'' \<or> c = CHR ''E''
          then (let (sg, t) = opt_sign cs; ds = takeWhile is_digit t
                in if ds = [] then None else Some (c # sg @ ds, dropWhile is_digit t))
          else Some ('''', s)
      | [] \<Rightarrow> Some ('''', s))"

definition real_text :: "bytes \<Rightarrow> (bytes \<times> bytes) option" where
  "real_text s =
     (let (sg, t) = opt_sign s; n = takeWhile is_digit t; u = dropWhile is_digit t
      in case u of
           c # cs \<Rightarrow>
             if c = CHR ''.''
             then (let f = takeWhile is_digit cs
                   in if n = [] \<and> f = [] then None
                      else map_option (\<lambda>(x, rest). (sg @ n @ c # f @ x, rest)) (exponent (dropWhile is_digit cs)))
             else if n = [] then None
             else (case exponent u of
                     Some (x, rest) \<Rightarrow> if x = [] then None else Some (sg @ n @ x, rest)
                   | None \<Rightarrow> None)
         | [] \<Rightarrow> None)"

definition strict_real :: "(bytes \<Rightarrow> (64 word) option) \<Rightarrow> (64 word) production" where
  "strict_real rv = token (\<lambda>s.
     case real_text s of Some (x, rest) \<Rightarrow> map_option (\<lambda>d. (d, rest)) (rv x) | None \<Rightarrow> None)"

text \<open>\<open>long_long_p\<close>: at most 19 digits are taken; a value out of range does not match.\<close>

definition long_long_p :: "(64 word) production" where
  "long_long_p = token (\<lambda>s.
     let (sg, t) = opt_sign s; ds = take 19 (takeWhile is_digit t);
         x = (if sg = ''-'' then - int (digits_val 0 ds) else int (digits_val 0 ds))
     in if ds = [] \<or> x < - (2 ^ 63) \<or> 2 ^ 63 \<le> x then None
        else Some (word_of_int x, drop (length ds) t))"

text \<open>
  \<open>uint_parser< Date_t >\<close>: \<open>numeric_limits< Date_t >\<close> is not specialised, so nothing checks the
  range and the value wraps.
\<close>

definition date_num :: "(64 word) production" where
  "date_num = token (\<lambda>s.
     let ds = takeWhile is_digit s
     in if ds = [] then None else Some (word_of_nat (digits_val 0 ds), dropWhile is_digit s))"

section \<open>Values without members\<close>

definition quotedOid :: "oid production" where
  "quotedOid = token read_quotedOid"

definition date_p :: "(64 word) production" where
  "date_p = or_p
     (then_p (lit ''{'') (\<lambda>_. then_p (lit (quoted ''$date'')) (\<lambda>_. then_p (lit '':'') (\<lambda>_.
        then_p date_num (\<lambda>d. then_p (lit ''}'') (\<lambda>_. yields d))))))
     (then_p (maybe_p (lit ''new'')) (\<lambda>_. then_p (lit ''Date'') (\<lambda>_. then_p (lit ''('') (\<lambda>_.
        then_p date_num (\<lambda>d. then_p (lit '')'') (\<lambda>_. yields d))))))"

definition oid_p :: "oid production" where
  "oid_p = or_p
     (then_p (lit ''{'') (\<lambda>_. then_p (lit (quoted ''$oid'')) (\<lambda>_. then_p (lit '':'') (\<lambda>_.
        then_p quotedOid (\<lambda>d. then_p (lit ''}'') (\<lambda>_. yields d))))))
     (then_p (lit ''ObjectId'') (\<lambda>_. then_p (lit ''('') (\<lambda>_.
        then_p quotedOid (\<lambda>d. then_p (lit '')'') (\<lambda>_. yields d)))))"

text \<open>
  The base64 text is checked and decoded (\<open>binDataBinary\<close>) before its closing quote is looked
  for.
\<close>

definition base64_char :: "char \<Rightarrow> bool" where
  "base64_char c = (is_alpha c \<or> is_digit c \<or> c = CHR ''+'' \<or> c = CHR ''/'')"

definition base64_text :: "bytes \<Rightarrow> bytes \<times> bytes" where
  "base64_text s =
     (let a = takeWhile base64_char s; t = dropWhile base64_char s
      in (a @ takeWhile (\<lambda>c. c = CHR ''='') t, dropWhile (\<lambda>c. c = CHR ''='') t))"

definition quotedBinary :: "bytes production" where
  "quotedBinary s =
     (case skip_ws s of
        c # cs \<Rightarrow>
          if c = CHR 0x22 then
            (let (x, t) = base64_text cs
             in if length x mod 4 \<noteq> 0 then ([], Inl (Massert 10339))
                else case base64_decode x of
                  Inl e \<Rightarrow> ([], Inl e)
                | Inr d \<Rightarrow> ([], Inr (map_option (\<lambda>(_, r). (d, r)) (prefix_of [CHR 0x22] t))))
          else ([], Inr None)
      | [] \<Rightarrow> ([], Inr None))"

definition quotedType :: "(8 word) production" where
  "quotedType = token (\<lambda>s.
     case s of
       q # a # b # q' # r \<Rightarrow>
         if q = CHR 0x22 \<and> q' = CHR 0x22
         then (case fromHex2 a b of Inr c \<Rightarrow> Some (u8 c, r) | Inl _ \<Rightarrow> None) else None
     | _ \<Rightarrow> None)"

definition bindata :: "bson_value production" where
  "bindata =
     then_p (lit ''{'') (\<lambda>_. then_p (lit (quoted ''$binary'')) (\<lambda>_. then_p (lit '':'') (\<lambda>_.
     then_p quotedBinary (\<lambda>d. then_p (lit '','') (\<lambda>_. then_p (lit (quoted ''$type'')) (\<lambda>_. then_p (lit '':'') (\<lambda>_.
     then_p quotedType (\<lambda>t. then_p (lit ''}'') (\<lambda>_. yields (VBinData t d))))))))))"

definition dbref :: "bson_value production" where
  "dbref = or_p
     (then_p (lit ''{'') (\<lambda>_. then_p (lit (quoted ''$ref'')) (\<lambda>_. then_p (lit '':'') (\<lambda>_.
      then_p str_p (\<lambda>ns. then_p (lit '','') (\<lambda>_. then_p (lit (quoted ''$id'')) (\<lambda>_. then_p (lit '':'') (\<lambda>_.
      then_p quotedOid (\<lambda>d. then_p (lit ''}'') (\<lambda>_. yields (VDBRef ns d)))))))))))
     (then_p (lit ''Dbref'') (\<lambda>_. then_p (lit ''('') (\<lambda>_. then_p str_p (\<lambda>ns. then_p (lit '','') (\<lambda>_.
      then_p quotedOid (\<lambda>d. then_p (lit '')'') (\<lambda>_. yields (VDBRef ns d))))))))"

definition quotedOptions :: "bytes production" where
  "quotedOptions = token (\<lambda>s.
     case s of
       c # cs \<Rightarrow>
         if c = CHR 0x22
         then map_option (\<lambda>(_, r). (takeWhile is_alpha cs, r)) (prefix_of [CHR 0x22] (dropWhile is_alpha cs))
         else None
     | [] \<Rightarrow> None)"

text \<open>One round of the repetition in \<open>regexT\<close>, whose set of escapes is closed.\<close>

definition regex_step :: "bytes \<Rightarrow> (bytes \<times> bytes) option" where
  "regex_step s =
     (case s of
        [] \<Rightarrow> None
      | c # cs \<Rightarrow>
          if c = CHR 0x5C then
            (case cs of
               [] \<Rightarrow> None
             | d # ds \<Rightarrow>
                 if d \<in> {CHR 0x22, CHR 0x5C, CHR ''/'', CHR ''b'', CHR ''f'', CHR ''n'', CHR ''r'', CHR ''t''} then
                   (case chE d of Inr o' \<Rightarrow> Some ([o'], ds) | Inl _ \<Rightarrow> None)
                 else if d = CHR ''u'' \<and> length ds \<ge> 4 \<and> list_all is_xdigit (take 4 ds) then
                   (case (fromHex2 (ds ! 0) (ds ! 1), fromHex2 (ds ! 2) (ds ! 3)) of
                      (Inr a, Inr b) \<Rightarrow> Some (chU (u8 a) (u8 b), drop 4 ds) | _ \<Rightarrow> None)
                 else None)
          else if \<not> (0 \<le> schar c \<and> schar c \<le> 0x1f) \<and> c \<noteq> CHR ''/'' then Some ([c], cs)
          else None)"

function read_regex :: "bytes \<Rightarrow> bytes \<Rightarrow> (bytes \<times> bytes) option" where
  "read_regex acc s =
     (case regex_step s of
        Some (out, rest) \<Rightarrow> if length rest < length s then read_regex (acc @ out) rest else None
      | None \<Rightarrow> (case s of c # cs \<Rightarrow> if c = CHR ''/'' then Some (acc, cs) else None | [] \<Rightarrow> None))"
  by pat_completeness auto
termination
  by (relation "measure (\<lambda>(acc, s). length s)") auto

declare read_regex.simps [simp del]

definition is_flag :: "char \<Rightarrow> bool" where
  "is_flag c = (c = CHR ''i'' \<or> c = CHR ''g'' \<or> c = CHR ''m'')"

definition regex_p :: "bson_value production" where
  "regex_p = or_p
     (then_p (lit ''{'') (\<lambda>_. then_p (lit (quoted ''$regex'')) (\<lambda>_. then_p (lit '':'') (\<lambda>_.
      then_p str_p (\<lambda>r. then_p (lit '','') (\<lambda>_. then_p (lit (quoted ''$options'')) (\<lambda>_. then_p (lit '':'') (\<lambda>_.
      then_p quotedOptions (\<lambda>opts. then_p (lit ''}'') (\<lambda>_. yields (VRegEx r opts)))))))))))
     (token (\<lambda>s.
       case s of
         c # cs \<Rightarrow>
           if c = CHR ''/''
           then map_option (\<lambda>(r, t). (VRegEx r (takeWhile is_flag t), dropWhile is_flag t)) (read_regex '''' cs)
           else None
       | [] \<Rightarrow> None))"

section \<open>Values, arrays, objects\<close>

definition fieldName_p :: "bytes production" where
  "fieldName_p = alt
     [then_p str_p (\<lambda>n. case fieldNameEnd n of Inl e \<Rightarrow> throws e | Inr n \<Rightarrow> yields n),
      then_p singleQuoteStr (\<lambda>n. case fieldNameEnd n of Inl e \<Rightarrow> throws e | Inr n \<Rightarrow> yields n),
      unquotedFieldName]"

text \<open>
  The productions with members, over the production \<open>value\<close> of a value under a name.
  A name reaches the builder as a C string.
\<close>

definition member_p :: "(bytes \<Rightarrow> unit production) \<Rightarrow> unit production" where
  "member_p value = then_p fieldName_p (\<lambda>n. then_p (lit '':'') (\<lambda>_. value (cstr n)))"

definition array_p :: "(bytes \<Rightarrow> unit production) \<Rightarrow> nat \<Rightarrow> bytes \<Rightarrow> unit production" where
  "array_p value k name =
     then_p (lit ''['') (\<lambda>_. then_p (emit (Push Array name)) (\<lambda>_.
     then_p (maybe_p (list_p k (\<lambda>i. value (numStr (int i))))) (\<lambda>_. lit '']'')))"

definition object_p :: "(bytes \<Rightarrow> unit production) \<Rightarrow> nat \<Rightarrow> bytes \<Rightarrow> unit production" where
  "object_p value k name =
     then_p (lit ''{'') (\<lambda>_. then_p (emit (Push Object name)) (\<lambda>_.
     then_p (maybe_p (list_p k (\<lambda>i. member_p value))) (\<lambda>_. lit ''}'')))"

definition value_alts :: "(bytes \<Rightarrow> (64 word) option) \<Rightarrow> (bytes \<Rightarrow> unit production) \<Rightarrow> nat \<Rightarrow> bytes \<Rightarrow> unit production list" where
  "value_alts rv value k name =
     [then_p str_p (\<lambda>x. emit (Append name (VString x))),
      then_p (strict_real rv) (\<lambda>d. emit (Append name (VDouble d))),
      then_p long_long_p (\<lambda>x. emit (Append name (intValue x))),
      then_p (array_p value k name) (\<lambda>_. emit Pop),
      then_p (lit ''true'') (\<lambda>_. emit (Append name (VBool True))),
      then_p (lit ''false'') (\<lambda>_. emit (Append name (VBool False))),
      then_p (lit ''null'') (\<lambda>_. emit (Append name VNull)),
      then_p singleQuoteStr (\<lambda>x. emit (Append name (VString x))),
      then_p date_p (\<lambda>d. emit (Append name (VDate d))),
      then_p oid_p (\<lambda>d. emit (Append name (VOID d))),
      then_p bindata (\<lambda>v. emit (Append name v)),
      then_p dbref (\<lambda>v. emit (Append name v)),
      then_p regex_p (\<lambda>v. emit (Append name v)),
      then_p (object_p value k name) (\<lambda>_. emit Pop)]"

text \<open>The first argument bounds the nesting depth and the number of members.\<close>

primrec value_p :: "nat \<Rightarrow> (bytes \<Rightarrow> (64 word) option) \<Rightarrow> bytes \<Rightarrow> unit production" where
  "value_p 0 rv name = throws UB"
| "value_p (Suc k) rv name = alt (value_alts rv (value_p k rv) (Suc k) name)"

section \<open>The builders and \<open>fromjson\<close>\<close>

text \<open>
  \<open>ObjectBuilder\<close>: the stack of builders, the last one first. An embedded builder shares the
  buffer of the one below, which gets it back when the embedded one is popped.
\<close>

type_synonym object_builder = "objbuilder list"

definition push_sub :: "BSONType \<Rightarrow> bytes \<Rightarrow> object_builder \<Rightarrow> object_builder res" where
  "push_sub t name obs =
     (case obs of
        [] \<Rightarrow> bind_res (new_builder 512) (\<lambda>ob. Inr [ob])
      | ob # below \<Rightarrow>
          bind_res ((if t = Array then subarrayStart name else subobjStart name) ob) (\<lambda>ob.
          bind_res (sub_builder (ob_b ob)) (\<lambda>sub. Inr (sub # ob # below))))"

definition pop_builder :: "object_builder \<Rightarrow> (object_builder \<times> bytes) res" where
  "pop_builder obs =
     (case obs of
        [] \<Rightarrow> Inl UB
      | ob # below \<Rightarrow>
          if ob_owned ob then bind_res (obj ob) (\<lambda>ret. Inr (below, ret))
          else bind_res (ob_done ob) (\<lambda>ob. bind_res (built ob) (\<lambda>bs. bind_res (bsonobj_init bs) (\<lambda>ret.
                 case below of [] \<Rightarrow> Inl UB | b # bs \<Rightarrow> Inr (b\<lparr>ob_b := ob_b ob\<rparr> # bs, ret)))))"

definition run_event :: "json_event \<Rightarrow> object_builder \<Rightarrow> object_builder res" where
  "run_event e obs =
     (case e of
        Push t name \<Rightarrow> push_sub t name obs
      | Pop \<Rightarrow> bind_res (pop_builder obs) (\<lambda>(obs, _). Inr obs)
      | Append name v \<Rightarrow>
          (case obs of [] \<Rightarrow> Inl UB
           | ob # below \<Rightarrow> bind_res (append_value (name, v) ob) (\<lambda>ob. Inr (ob # below))))"

definition run_events :: "json_event list \<Rightarrow> object_builder \<Rightarrow> object_builder res" where
  "run_events es = seq_res (map run_event es)"

definition json_text :: "(bytes \<Rightarrow> (64 word) option) \<Rightarrow> unit production" where
  "json_text rv s = object_p (value_p (length s) rv) (Suc (length s)) '''' s"

definition fromjson :: "(bytes \<Rightarrow> (64 word) option) \<Rightarrow> bytes \<Rightarrow> bytes res" where
  "fromjson rv str =
     (let s = cstr str
      in if s = [] then Inr (enc_doc [])
         else case json_text rv s of (es, r) \<Rightarrow>
           bind_res (run_events es []) (\<lambda>b.
           bind_res r (\<lambda>m. case m of
               None \<Rightarrow> Inl (Massert 10340)
             | Some (_, rest) \<Rightarrow>
                 if skip_ws rest \<noteq> [] then Inl (Massert 10340)
                 else bind_res (pop_builder b) (\<lambda>(b, ret). if b = [] then Inr ret else Inl AssertFail))))"

end
