(* ===== verification/JsonRoundtrip.thy ===== *)
theory JsonRoundtrip
  imports JsonReader
begin

text \<open>
  What \<open>jsonString\<close> writes, \<open>fromjson\<close> reads back: the text of a document is one match of the
  grammar whose actions are the document's events, and running the events on the builders gives
  the wire format of the document. The events are the interface between the two halves.
\<close>

section \<open>How the combinators run\<close>

named_theorems parse_simps \<open>running the productions\<close>

lemma yields_run [parse_simps]: "yields a s = ([], Inr (Some (a, s)))"
  by (simp add: yields_def)

lemma emit_run [parse_simps]: "emit e s = ([e], Inr (Some ((), s)))"
  by (simp add: emit_def)

lemma apfst_Nil [simp]: "apfst ((@) []) x = x"
  by (cases x) simp

lemma then_hit: "p s = (es, Inr (Some (a, t))) \<Longrightarrow> then_p p q s = apfst ((@) es) (q a t)"
  by (simp add: then_p_def)

lemma then_miss: "p s = (es, Inr None) \<Longrightarrow> then_p p q s = (es, Inr None)"
  by (simp add: then_p_def)

lemma or_hit: "p s = (es, Inr (Some x)) \<Longrightarrow> or_p p q s = (es, Inr (Some x))"
  by (simp add: or_p_def)

lemma or_miss: "p s = ([], Inr None) \<Longrightarrow> or_p p q s = q s"
  by (simp add: or_p_def)

lemma maybe_hit: "p s = (es, Inr (Some (a, t))) \<Longrightarrow> maybe_p p s = (es, Inr (Some (True, t)))"
  by (simp add: maybe_p_def)

lemma maybe_miss: "p s = (es, Inr None) \<Longrightarrow> maybe_p p s = (es, Inr (Some (False, s)))"
  by (simp add: maybe_p_def)

lemma alt_hit: "p s = (es, Inr (Some x)) \<Longrightarrow> alt (p # ps) s = (es, Inr (Some x))"
  by (simp add: or_hit)

lemma alt_miss: "p s = ([], Inr None) \<Longrightarrow> alt (p # ps) s = alt ps s"
  by (simp add: or_miss)

lemma alt_skips: "\<forall>p \<in> set ps. p s = ([], Inr None) \<Longrightarrow> alt (ps @ qs) s = alt qs s"
  by (induction ps) (simp_all add: or_miss)

text \<open>Literals, one character at a time.\<close>

lemma is_space_blank [simp]: "is_space (CHR '' '')"
  by (simp add: is_space_def uchar_def)

lemma token_blank [simp]: "token f (CHR '' '' # s) = token f s"
  by (simp add: token_def skip_ws_def)

lemma token_here: "\<not> is_space c \<Longrightarrow> token f (c # s) = ([], Inr (f (c # s)))"
  by (simp add: token_def skip_ws_def)

lemma prefix_of_simps [simp]:
  "prefix_of [] s = Some ((), s)"
  "prefix_of (c # w) [] = None"
  "prefix_of (c # w) (d # s) = (if c = d then prefix_of w s else None)"
  by (simp_all add: prefix_of_def)

lemma prefix_of_append [simp]: "prefix_of w (w @ s) = Some ((), s)"
  by (simp add: prefix_of_def)

lemma prefix_of_Some: "prefix_of w s = Some (u, t) \<longleftrightarrow> s = w @ t"
  by (auto simp: prefix_of_def) (metis append_take_drop_id)

lemma lit_blank [simp]: "lit w (CHR '' '' # s) = lit w s"
  by (simp add: lit_def)

lemma lit_here: "\<not> is_space c \<Longrightarrow> lit w (c # s) = ([], Inr (prefix_of w (c # s)))"
  by (simp add: lit_def token_here)

text \<open>The characters a value can begin with are not blanks.\<close>

lemma not_space [simp]:
  "\<not> is_space (CHR 0x22)" "\<not> is_space (CHR ''{'')" "\<not> is_space (CHR ''}'')" "\<not> is_space (CHR ''['')"
  "\<not> is_space (CHR '']'')" "\<not> is_space (CHR '':'')" "\<not> is_space (CHR '','')" "\<not> is_space (CHR ''-'')"
  "\<not> is_space (CHR ''t'')" "\<not> is_space (CHR ''f'')" "\<not> is_space (CHR ''n'')" "\<not> is_space (CHR ''.'')"
  by (simp_all add: is_space_def uchar_def)

lemma digit_not_space: "is_digit c \<Longrightarrow> \<not> is_space c"
  by (auto simp: is_digit_def is_space_def)

lemma digit_plain: "is_digit c \<Longrightarrow> c \<notin> {CHR 0x22, CHR ''{'', CHR ''['', CHR '':'', CHR '','', CHR ''-'', CHR ''+'', CHR ''.'', CHR ''e'', CHR ''E''}"
  by (auto simp: is_digit_def uchar_def)

lemma digit_blank [simp]: "\<not> is_digit (CHR '' '')" "\<not> is_digit (CHR '','')" "\<not> is_digit (CHR ''.'')" "\<not> is_digit (CHR ''-'')"
  "\<not> is_digit (CHR 0x22)" "\<not> is_digit (CHR ''{'')" "\<not> is_digit (CHR ''['')" "\<not> is_digit (CHR ''t'')" "\<not> is_digit (CHR ''f'')"
  "\<not> is_digit (CHR ''n'')" "\<not> is_digit (CHR ''e'')" "\<not> is_digit (CHR ''E'')"
  by (simp_all add: is_digit_def uchar_def)

section \<open>Strings\<close>

lemma quoted_append: "quoted s @ t = CHR 0x22 # s @ CHR 0x22 # t"
  by (simp add: quoted_def)

lemma str_quoted [parse_simps]: "str_p (quoted (escape s False) @ t) = ([], Inr (Some (s, t)))"
  by (simp add: str_p_def quoted_append token_here quoted_by_def read_str_escape)

lemma str_miss: "\<not> is_space c \<Longrightarrow> c \<noteq> CHR 0x22 \<Longrightarrow> str_p (c # s) = ([], Inr None)"
  by (simp add: str_p_def token_here quoted_by_def)

text \<open>
  A quoted text and an escaped string that agree on their first bytes up to the closing
  quotes are the same: the reader is a function.
\<close>

lemma plain_step:
  "\<not> (0 \<le> schar c \<and> schar c \<le> 0x1f) \<Longrightarrow> c \<noteq> CHR 0x22 \<Longrightarrow> c \<noteq> CHR 0x5C \<Longrightarrow> str_step (CHR 0x22) (c # s) = Some ([c], s)"
  by (simp add: str_step_def)

definition plain :: "char \<Rightarrow> bool" where
  "plain c = (\<not> (0 \<le> schar c \<and> schar c \<le> 0x1f) \<and> c \<noteq> CHR 0x22 \<and> c \<noteq> CHR 0x5C)"

lemma read_str_plain: "list_all plain s \<Longrightarrow> read_str (CHR 0x22) acc (s @ CHR 0x22 # t) = Some (acc @ s, t)"
proof (induction s arbitrary: acc)
  case Nil
  have "str_step (CHR 0x22) (CHR 0x22 # t) = None" by (simp add: str_step_def)
  then show ?case by (simp add: read_str.simps [of _ _ "CHR 0x22 # t"])
next
  case (Cons c s)
  then have "str_step (CHR 0x22) (c # s @ CHR 0x22 # t) = Some ([c], s @ CHR 0x22 # t)"
    by (simp add: plain_def plain_step)
  then show ?case using Cons by (subst read_str.simps) simp
qed

lemma str_plain: "list_all plain s \<Longrightarrow> str_p (quoted s @ t) = ([], Inr (Some (s, t)))"
  by (simp add: str_p_def quoted_append token_here quoted_by_def read_str_plain)

lemma quoted_literal:
  assumes "list_all plain w" and "n \<noteq> w"
  shows "lit (quoted w) (quoted (escape n False) @ t) = ([], Inr None)"
proof -
  have "prefix_of (quoted w) (quoted (escape n False) @ t) = None"
  proof (rule ccontr)
    assume "prefix_of (quoted w) (quoted (escape n False) @ t) \<noteq> None"
    then obtain r where "quoted (escape n False) @ t = quoted w @ r"
      by (auto simp: prefix_of_Some)
    then have "str_p (quoted (escape n False) @ t) = str_p (quoted w @ r)" by simp
    then show False using assms by (simp add: str_quoted str_plain)
  qed
  then show ?thesis by (simp add: quoted_append lit_here)
qed

lemma literal_quoted [parse_simps]: "lit (quoted w) (quoted w @ t) = ([], Inr (Some ((), t)))"
proof -
  have "prefix_of (quoted w) (quoted w @ t) = Some ((), t)" by simp
  then show ?thesis by (simp add: quoted_append lit_here)
qed

lemma other_literal:
  assumes "list_all plain w" and "list_all plain v" and "v \<noteq> w"
  shows "lit (quoted w) (quoted v @ t) = ([], Inr None)"
proof -
  have "prefix_of (quoted w) (quoted v @ t) = None"
  proof (rule ccontr)
    assume "prefix_of (quoted w) (quoted v @ t) \<noteq> None"
    then obtain r where "quoted v @ t = quoted w @ r" by (auto simp: prefix_of_Some)
    then have "str_p (quoted v @ t) = str_p (quoted w @ r)" by simp
    then show False using assms by (simp add: str_plain)
  qed
  then show ?thesis by (simp add: quoted_append lit_here)
qed

lemma plain_chars [simp]:
  "plain (CHR ''$'')"
  "plain (CHR ''a'')"
  "plain (CHR ''d'')"
  "plain (CHR ''o'')"
  "plain (CHR ''i'')"
  "plain (CHR ''t'')"
  "plain (CHR ''e'')"
  "plain (CHR ''b'')"
  "plain (CHR ''n'')"
  "plain (CHR ''r'')"
  "plain (CHR ''y'')"
  "plain (CHR ''f'')"
  "plain (CHR ''g'')"
  "plain (CHR ''x'')"
  "plain (CHR ''p'')"
  "plain (CHR ''s'')"
  by (simp_all add: plain_def schar_def uchar_def)

section \<open>Numbers\<close>

text \<open>What follows a value in the text.\<close>

definition delimiter :: "char \<Rightarrow> bool" where
  "delimiter c = (c = CHR '','' \<or> c = CHR '' '')"

lemma delimiter_plain [simp]:
  "delimiter c \<Longrightarrow> \<not> is_digit c" "delimiter c \<Longrightarrow> c \<noteq> CHR ''.''" "delimiter c \<Longrightarrow> c \<noteq> CHR ''e''"
  "delimiter c \<Longrightarrow> c \<noteq> CHR ''E''"
  by (auto simp: delimiter_def)

lemma digits_span:
  "list_all is_digit ds \<Longrightarrow> \<not> is_digit c \<Longrightarrow> takeWhile is_digit (ds @ c # r) = ds"
  "list_all is_digit ds \<Longrightarrow> \<not> is_digit c \<Longrightarrow> dropWhile is_digit (ds @ c # r) = c # r"
  by (induction ds) simp_all

lemma span_extend:
  "\<not> is_digit c \<Longrightarrow> takeWhile is_digit (t @ c # r) = takeWhile is_digit t"
  "\<not> is_digit c \<Longrightarrow> dropWhile is_digit (t @ c # r) = dropWhile is_digit t @ c # r"
  by (induction t) simp_all

lemma opt_sign_extend: "t \<noteq> [] \<Longrightarrow> opt_sign (t @ u) = (fst (opt_sign t), snd (opt_sign t) @ u)"
  by (cases t) (simp_all add: opt_sign_def)

lemma exponent_extend:
  assumes "exponent t = Some (x, [])" and "delimiter c"
  shows "exponent (t @ c # r) = Some (x, c # r)"
proof (cases t)
  case Nil
  then show ?thesis using assms by (simp add: exponent_def)
next
  case (Cons d u)
  then have e: "d = CHR ''e'' \<or> d = CHR ''E''" using assms(1) by (simp add: exponent_def Let_def split: if_splits)
  obtain sg v where o': "opt_sign u = (sg, v)" by (cases "opt_sign u") auto
  have x: "takeWhile is_digit v \<noteq> []" "x = d # sg @ takeWhile is_digit v" "dropWhile is_digit v = []"
    using assms(1) Cons e o' by (auto simp: exponent_def Let_def split: if_splits)
  have "u \<noteq> []" using x(1) o' by (auto simp: opt_sign_def)
  then have "opt_sign (u @ c # r) = (sg, v @ c # r)" using o' by (simp add: opt_sign_extend)
  moreover have all: "list_all is_digit v" using x(3) by (simp add: list_all_iff)
  moreover have "takeWhile is_digit v = v" using all by (simp add: list_all_iff)
  then have "v \<noteq> []" "x = d # sg @ v" using x(1,2) by metis+
  ultimately show ?thesis using Cons e assms(2) by (auto simp add: exponent_def Let_def digits_span)
qed

lemma real_text_extend:
  assumes "real_text t = Some (x, [])" and c: "delimiter c"
  shows "real_text (t @ c # r) = Some (x, c # r)"
proof -
  obtain sg u where o': "opt_sign t = (sg, u)" by (cases "opt_sign t") auto
  have "t \<noteq> []" using assms(1) by (auto simp: real_text_def opt_sign_def)
  then have o2: "opt_sign (t @ c # r) = (sg, u @ c # r)" using o' by (simp add: opt_sign_extend)
  obtain d cs where d: "dropWhile is_digit u = d # cs"
    using assms(1) o' by (cases "dropWhile is_digit u") (auto simp: real_text_def Let_def)
  show ?thesis
  proof (cases "d = CHR ''.''")
    case True
    then obtain y where "exponent (dropWhile is_digit cs) = Some (y, [])"
        "x = sg @ takeWhile is_digit u @ d # takeWhile is_digit cs @ y"
        "\<not> (takeWhile is_digit u = [] \<and> takeWhile is_digit cs = [])"
      using assms(1) o' d by (auto simp: real_text_def Let_def split: if_splits)
    then show ?thesis
      using o2 d True c exponent_extend [OF _ c] by (auto simp: real_text_def Let_def span_extend)
  next
    case False
    then obtain y where "exponent (d # cs) = Some (y, [])" "y \<noteq> []" "x = sg @ takeWhile is_digit u @ y"
        "takeWhile is_digit u \<noteq> []"
      using assms(1) o' d by (auto simp: real_text_def Let_def split: if_splits option.splits)
    then show ?thesis
      using o2 d False c exponent_extend [OF _ c, of "d # cs"] by (auto simp: real_text_def Let_def span_extend)
  qed
qed

lemma opt_sign_digit: "is_digit c \<Longrightarrow> opt_sign (c # s) = ('''', c # s)"
  using digit_plain [of c] by (simp add: opt_sign_def)

lemma first_digit: obtains d u where "show_nat n = d # u" "is_digit d"
  using show_nat_digits [of n] show_nat_not_Nil [of n] by (cases "show_nat n") auto

lemma opt_sign_show_int:
  "opt_sign (show_int x @ s) = (if x < 0 then ''-'' else '''', show_nat (nat \<bar>x\<bar>) @ s)"
proof -
  obtain d u where "show_nat (nat x) = d # u" "is_digit d" by (rule first_digit)
  then show ?thesis by (auto simp: show_int_def opt_sign_digit) (simp add: opt_sign_def)
qed

lemma real_show_int: "delimiter c \<Longrightarrow> real_text (show_int x @ c # r) = None"
  by (auto simp: real_text_def Let_def opt_sign_show_int digits_span show_nat_digits exponent_def)

lemma length_show_nat: "0 < k \<Longrightarrow> n < 10 ^ k \<Longrightarrow> length (show_nat n) \<le> k"
proof (induction n arbitrary: k rule: show_nat.induct)
  case (1 n)
  show ?case
  proof (cases "n < 10")
    case True
    then show ?thesis using 1 by (simp add: show_nat.simps [of n])
  next
    case False
    obtain j where j: "k = Suc j" "0 < j" using 1(2,3) False
      by (cases k; cases "k - 1") auto
    then have "length (show_nat (n div 10)) \<le> j"
      using 1 False by (intro 1(1)) (auto simp: less_mult_imp_div_less)
    then show ?thesis using False j by (simp add: show_nat.simps [of n])
  qed
qed

lemma first_of_show_int:
  obtains d u where "show_int x = d # u" "is_digit d \<or> d = CHR ''-''"
proof -
  obtain d u where d: "show_nat (nat x) = d # u" "is_digit d" by (rule first_digit)
  show ?thesis
  proof (cases "x < 0")
    case True
    then show ?thesis by (intro that [of "CHR ''-''" "show_nat (nat (- x))"]) (simp_all add: show_int_def)
  next
    case False
    then show ?thesis using d by (intro that [of d u]) (simp_all add: show_int_def)
  qed
qed

lemma long_show_int [parse_simps]:
  assumes c: "delimiter c"
  shows "long_long_p (show_int (sint (x :: 64 word)) @ c # r) = ([], Inr (Some (x, c # r)))"
proof -
  let ?n = "nat \<bar>sint x\<bar>"
  have b: "- (2 ^ 63) \<le> sint x" "sint x < 2 ^ 63" using sint_range_size [of x] by (simp_all add: word_size)
  then have "?n < 10 ^ 19" by simp
  then have l: "length (show_nat ?n) \<le> 19" by (intro length_show_nat) simp_all
  obtain d u where du: "show_int (sint x) = d # u" "is_digit d \<or> d = CHR ''-''" by (rule first_of_show_int)
  then have "\<not> is_space d" using digit_not_space by auto
  moreover have "digits_val 0 (show_nat ?n) = ?n" by (rule digits_val_show_nat)
  ultimately show ?thesis
    using l b c du(1) opt_sign_show_int [of "sint x" "c # r"]
    by (simp add: long_long_p_def Let_def token_here digits_span show_nat_digits)
qed

lemma date_show_nat [parse_simps]:
  assumes "delimiter c"
  shows "date_num (show_nat (unat w) @ c # r) = ([], Inr (Some (w, c # r)))"
proof -
  obtain d u where du: "show_nat (unat w) = d # u" "is_digit d" by (rule first_digit)
  have span: "takeWhile is_digit (show_nat (unat w) @ c # r) = show_nat (unat w)"
      "dropWhile is_digit (show_nat (unat w) @ c # r) = c # r"
    using assms by (simp_all add: digits_span show_nat_digits)
  have "date_num (show_nat (unat w) @ c # r) = ([], Inr (let ds = takeWhile is_digit (show_nat (unat w) @ c # r)
       in if ds = [] then None else Some (word_of_nat (digits_val 0 ds), dropWhile is_digit (show_nat (unat w) @ c # r))))"
    by (simp only: date_num_def du(1) append_Cons token_here [OF digit_not_space [OF du(2)]])
  then show ?thesis using span by (simp add: Let_def digits_val_show_nat)
qed

section \<open>Which alternatives of a value can match\<close>

text \<open>By its first character a text is passed over by all alternatives but a few.\<close>

lemma lit_miss: "\<not> is_space c \<Longrightarrow> c \<noteq> d \<Longrightarrow> lit (d # w) (c # s) = ([], Inr None)"
  by (simp add: lit_here)

lemma real_miss: "\<not> is_space c \<Longrightarrow> \<not> is_digit c \<Longrightarrow> c \<noteq> CHR ''-'' \<Longrightarrow> c \<noteq> CHR ''+'' \<Longrightarrow> c \<noteq> CHR ''.'' \<Longrightarrow>
   strict_real rv (c # s) = ([], Inr None)"
  by (simp add: strict_real_def token_here real_text_def opt_sign_def)

lemma long_miss: "\<not> is_space c \<Longrightarrow> \<not> is_digit c \<Longrightarrow> c \<noteq> CHR ''-'' \<Longrightarrow> c \<noteq> CHR ''+'' \<Longrightarrow> long_long_p (c # s) = ([], Inr None)"
  by (simp add: long_long_p_def token_here opt_sign_def Let_def)

lemma single_miss: "\<not> is_space c \<Longrightarrow> c \<noteq> CHR 0x27 \<Longrightarrow> singleQuoteStr (c # s) = ([], Inr None)"
  by (simp add: singleQuoteStr_def token_here quoted_by_def)

lemma array_miss: "\<not> is_space c \<Longrightarrow> c \<noteq> CHR ''['' \<Longrightarrow> array_p v k n (c # s) = ([], Inr None)"
  by (simp add: array_p_def then_miss lit_miss)

lemma date_miss: "\<not> is_space c \<Longrightarrow> c \<notin> {CHR ''{'', CHR ''n'', CHR ''D''} \<Longrightarrow> date_p (c # s) = ([], Inr None)"
  by (simp add: date_p_def or_miss then_miss lit_miss then_hit [OF maybe_miss])

lemma oid_miss: "\<not> is_space c \<Longrightarrow> c \<notin> {CHR ''{'', CHR ''O''} \<Longrightarrow> oid_p (c # s) = ([], Inr None)"
  by (simp add: oid_p_def or_miss then_miss lit_miss)

lemma bindata_miss: "\<not> is_space c \<Longrightarrow> c \<noteq> CHR ''{'' \<Longrightarrow> bindata (c # s) = ([], Inr None)"
  by (simp add: bindata_def then_miss lit_miss)

lemma dbref_miss: "\<not> is_space c \<Longrightarrow> c \<notin> {CHR ''{'', CHR ''D''} \<Longrightarrow> dbref (c # s) = ([], Inr None)"
  by (simp add: dbref_def or_miss then_miss lit_miss)

lemma regex_miss: "\<not> is_space c \<Longrightarrow> c \<notin> {CHR ''{'', CHR ''/''} \<Longrightarrow> regex_p (c # s) = ([], Inr None)"
  by (simp add: regex_p_def or_miss then_miss lit_miss token_here)

lemmas misses = str_miss real_miss long_miss array_miss lit_miss single_miss date_miss oid_miss bindata_miss dbref_miss regex_miss

text \<open>An object is passed over by the alternatives for \<open>{ "$word" : ...\<close> with another word.\<close>

lemma object_skips:
  "lit (quoted ''$date'') s = ([], Inr None) \<Longrightarrow> date_p (CHR ''{'' # s) = ([], Inr None)"
  "lit (quoted ''$oid'') s = ([], Inr None) \<Longrightarrow> oid_p (CHR ''{'' # s) = ([], Inr None)"
  "lit (quoted ''$binary'') s = ([], Inr None) \<Longrightarrow> bindata (CHR ''{'' # s) = ([], Inr None)"
  "lit (quoted ''$ref'') s = ([], Inr None) \<Longrightarrow> dbref (CHR ''{'' # s) = ([], Inr None)"
  "lit (quoted ''$regex'') s = ([], Inr None) \<Longrightarrow> regex_p (CHR ''{'' # s) = ([], Inr None)"
  by (simp_all add: date_p_def oid_p_def bindata_def dbref_def regex_p_def or_miss then_p_def lit_here
      maybe_p_def token_here yields_def)

lemma brace_misses:
  "str_p (CHR ''{'' # s) = ([], Inr None)" "strict_real rv (CHR ''{'' # s) = ([], Inr None)"
  "long_long_p (CHR ''{'' # s) = ([], Inr None)" "array_p v k n (CHR ''{'' # s) = ([], Inr None)"
  "lit ''true'' (CHR ''{'' # s) = ([], Inr None)" "lit ''false'' (CHR ''{'' # s) = ([], Inr None)"
  "lit ''null'' (CHR ''{'' # s) = ([], Inr None)" "singleQuoteStr (CHR ''{'' # s) = ([], Inr None)"
  by (simp_all add: misses)

lemma alt_missI: "p s = ([], Inr None) \<Longrightarrow> alt ps s = r \<Longrightarrow> alt (p # ps) s = r"
  by (simp add: or_miss)

section \<open>Values without members\<close>

lemma value_string:
  "value_p (Suc k) rv n (quoted (escape x False) @ u) = ([Append n (VString x)], Inr (Some ((), u)))"
  unfolding value_p.simps value_alts_def
  by (rule alt_hit) (simp add: then_p_def parse_simps)

lemma value_double:
  assumes t: "real_text t = Some (t, [])" and d: "rv t = Some d" and c: "delimiter c"
  shows "value_p (Suc k) rv n (t @ c # r) = ([Append n (VDouble d)], Inr (Some ((), c # r)))"
proof -
  obtain e u where e: "t = e # u" "is_digit e \<or> e \<in> {CHR ''-'', CHR ''+'', CHR ''.''}"
  proof (cases t)
    case Nil
    then show ?thesis using t by (simp add: real_text_def opt_sign_def)
  next
    case (Cons e u)
    have "is_digit e \<or> e \<in> {CHR ''-'', CHR ''+'', CHR ''.''}"
    proof (rule ccontr)
      assume "\<not> ?thesis"
      then have "real_text t = None" using Cons by (simp add: real_text_def opt_sign_def)
      then show False using t by simp
    qed
    then show ?thesis using Cons that by blast
  qed
  then have ns: "\<not> is_space e" and q: "e \<noteq> CHR 0x22"
    using digit_not_space digit_plain by (auto simp: is_space_def uchar_def)
  have "strict_real rv (t @ c # r) = ([], Inr (Some (d, c # r)))"
    using real_text_extend [OF t c, of r] d e(1) ns by (simp add: strict_real_def token_here)
  moreover have "str_p (t @ c # r) = ([], Inr None)" using e(1) ns q by (simp add: misses)
  ultimately show ?thesis
    unfolding value_p.simps value_alts_def
    by (intro alt_missI [OF then_miss] alt_hit) (simp_all add: then_p_def parse_simps)
qed

lemma value_long:
  assumes c: "delimiter c"
  shows "value_p (Suc k) rv n (show_int (sint x) @ c # r) = ([Append n (intValue x)], Inr (Some ((), c # r)))"
proof -
  obtain e u where e: "show_int (sint x) = e # u" "is_digit e \<or> e = CHR ''-''" by (rule first_of_show_int)
  then have ns: "\<not> is_space e" and q: "e \<noteq> CHR 0x22" using digit_not_space digit_plain by auto
  have "strict_real rv (show_int (sint x) @ c # r) = ([], Inr None)"
    using real_show_int [OF c, of "sint x" r] e(1) ns by (simp add: strict_real_def token_here)
  moreover have "str_p (show_int (sint x) @ c # r) = ([], Inr None)" using e(1) ns q by (simp add: misses)
  ultimately show ?thesis
    unfolding value_p.simps value_alts_def
    by (intro alt_missI [OF then_miss] alt_hit) (simp_all add: then_p_def parse_simps c)
qed

lemma value_true: "value_p (Suc k) rv n (''true'' @ u) = ([Append n (VBool True)], Inr (Some ((), u)))"
  unfolding value_p.simps value_alts_def
  by ((rule alt_missI, rule then_miss, (simp add: misses; fail))+, rule alt_hit, simp add: then_p_def lit_here parse_simps)

lemma value_false: "value_p (Suc k) rv n (''false'' @ u) = ([Append n (VBool False)], Inr (Some ((), u)))"
  unfolding value_p.simps value_alts_def
  by ((rule alt_missI, rule then_miss, (simp add: misses; fail))+, rule alt_hit, simp add: then_p_def lit_here parse_simps)

lemma value_null: "value_p (Suc k) rv n (''null'' @ u) = ([Append n VNull], Inr (Some ((), u)))"
  unfolding value_p.simps value_alts_def
  by ((rule alt_missI, rule then_miss, (simp add: misses; fail))+, rule alt_hit, simp add: then_p_def lit_here parse_simps)

lemma quoted_oid [parse_simps]: "length d = 12 \<Longrightarrow> quotedOid (quoted (oid_str d) @ u) = ([], Inr (Some (d, u)))"
  using read_oid_quoted [of d u] by (simp add: quotedOid_def quoted_append token_here)

lemma lit_run [parse_simps]:
  "lit ''{'' (CHR ''{'' # s) = ([], Inr (Some ((), s)))" "lit ''}'' (CHR ''}'' # s) = ([], Inr (Some ((), s)))"
  "lit '':'' (CHR '':'' # s) = ([], Inr (Some ((), s)))" "lit '','' (CHR '','' # s) = ([], Inr (Some ((), s)))"
  "lit ''['' (CHR ''['' # s) = ([], Inr (Some ((), s)))" "lit '']'' (CHR '']'' # s) = ([], Inr (Some ((), s)))"
  by (simp_all add: lit_here)

lemma alt_here: "p s = ([], Inr None) \<or> p s = (es, Inr (Some x)) \<Longrightarrow> 
   alt (p # ps) s = (if snd (p s) = Inr None then alt ps s else (es, Inr (Some x)))"
  by (auto simp: or_miss or_hit)

text \<open>What an opening brace leaves.\<close>

lemma value_brace:
  fixes s n rv k
  defines "run \<equiv> value_p (Suc k) rv n (CHR ''{'' # s)"
    and "b \<equiv> CHR ''{'' # s"
  shows "date_p b = ([], Inr (Some (d, u))) \<Longrightarrow> run = ([Append n (VDate d)], Inr (Some ((), u)))"
    and "date_p b = ([], Inr None) \<Longrightarrow> oid_p b = ([], Inr (Some (i, u))) \<Longrightarrow> run = ([Append n (VOID i)], Inr (Some ((), u)))"
    and "date_p b = ([], Inr None) \<Longrightarrow> oid_p b = ([], Inr None) \<Longrightarrow> bindata b = ([], Inr (Some (v, u))) \<Longrightarrow>
      run = ([Append n v], Inr (Some ((), u)))"
    and "date_p b = ([], Inr None) \<Longrightarrow> oid_p b = ([], Inr None) \<Longrightarrow> bindata b = ([], Inr None) \<Longrightarrow>
      dbref b = ([], Inr (Some (v, u))) \<Longrightarrow> run = ([Append n v], Inr (Some ((), u)))"
    and "date_p b = ([], Inr None) \<Longrightarrow> oid_p b = ([], Inr None) \<Longrightarrow> bindata b = ([], Inr None) \<Longrightarrow>
      dbref b = ([], Inr None) \<Longrightarrow> regex_p b = ([], Inr (Some (v, u))) \<Longrightarrow> run = ([Append n v], Inr (Some ((), u)))"
    and "date_p b = ([], Inr None) \<Longrightarrow> oid_p b = ([], Inr None) \<Longrightarrow> bindata b = ([], Inr None) \<Longrightarrow>
      dbref b = ([], Inr None) \<Longrightarrow> regex_p b = ([], Inr None) \<Longrightarrow> object_p (value_p k rv) (Suc k) n b = (es, Inr (Some ((), u))) \<Longrightarrow>
      run = (es @ [Pop], Inr (Some ((), u)))"
proof -
  have run: "run = alt [then_p date_p (\<lambda>d. emit (Append n (VDate d))),
      then_p oid_p (\<lambda>d. emit (Append n (VOID d))), then_p bindata (\<lambda>v. emit (Append n v)),
      then_p dbref (\<lambda>v. emit (Append n v)), then_p regex_p (\<lambda>v. emit (Append n v)),
      then_p (object_p (value_p k rv) (Suc k) n) (\<lambda>_. emit Pop)] b"
    unfolding run_def b_def value_p.simps value_alts_def
    by ((rule alt_missI, rule then_miss, (simp add: misses; fail))+, rule refl)
  note facts = run or_p_def then_p_def emit_run
  show "date_p b = ([], Inr (Some (d, u))) \<Longrightarrow> run = ([Append n (VDate d)], Inr (Some ((), u)))"
    and "date_p b = ([], Inr None) \<Longrightarrow> oid_p b = ([], Inr (Some (i, u))) \<Longrightarrow> run = ([Append n (VOID i)], Inr (Some ((), u)))"
    and "date_p b = ([], Inr None) \<Longrightarrow> oid_p b = ([], Inr None) \<Longrightarrow> bindata b = ([], Inr (Some (v, u))) \<Longrightarrow>
      run = ([Append n v], Inr (Some ((), u)))"
    and "date_p b = ([], Inr None) \<Longrightarrow> oid_p b = ([], Inr None) \<Longrightarrow> bindata b = ([], Inr None) \<Longrightarrow>
      dbref b = ([], Inr (Some (v, u))) \<Longrightarrow> run = ([Append n v], Inr (Some ((), u)))"
    and "date_p b = ([], Inr None) \<Longrightarrow> oid_p b = ([], Inr None) \<Longrightarrow> bindata b = ([], Inr None) \<Longrightarrow>
      dbref b = ([], Inr None) \<Longrightarrow> regex_p b = ([], Inr (Some (v, u))) \<Longrightarrow> run = ([Append n v], Inr (Some ((), u)))"
    and "date_p b = ([], Inr None) \<Longrightarrow> oid_p b = ([], Inr None) \<Longrightarrow> bindata b = ([], Inr None) \<Longrightarrow>
      dbref b = ([], Inr None) \<Longrightarrow> regex_p b = ([], Inr None) \<Longrightarrow> object_p (value_p k rv) (Suc k) n b = (es, Inr (Some ((), u))) \<Longrightarrow>
      run = (es @ [Pop], Inr (Some ((), u)))"
    by (simp_all add: facts)
qed

lemma value_date:
  "value_p (Suc k) rv n (''{ '' @ quoted ''$date'' @ '' : '' @ show_nat (unat d) @ '' }'' @ u) =
     ([Append n (VDate d)], Inr (Some ((), u)))"
proof -
  have num: "date_num (show_nat (unat d) @ CHR '' '' # CHR ''}'' # u) = ([], Inr (Some (d, CHR '' '' # CHR ''}'' # u)))"
    by (simp add: parse_simps delimiter_def)
  have "date_num (CHR '' '' # show_nat (unat d) @ CHR '' '' # CHR ''}'' # u) = ([], Inr (Some (d, CHR '' '' # CHR ''}'' # u)))"
    using num by (simp add: date_num_def)
  then have "date_p (CHR ''{'' # CHR '' '' # quoted ''$date'' @ CHR '' '' # CHR '':'' # CHR '' '' # show_nat (unat d) @ CHR '' '' # CHR ''}'' # u) =
      ([], Inr (Some (d, u)))"
    by (simp add: date_p_def or_p_def then_p_def parse_simps)
  from value_brace(1) [OF this] show ?thesis by simp
qed

lemma other_words:
  assumes "list_all plain v"
  shows "v \<noteq> ''$date'' \<Longrightarrow> date_p (CHR ''{'' # CHR '' '' # quoted v @ t) = ([], Inr None)"
    and "v \<noteq> ''$oid'' \<Longrightarrow> oid_p (CHR ''{'' # CHR '' '' # quoted v @ t) = ([], Inr None)"
    and "v \<noteq> ''$binary'' \<Longrightarrow> bindata (CHR ''{'' # CHR '' '' # quoted v @ t) = ([], Inr None)"
    and "v \<noteq> ''$ref'' \<Longrightarrow> dbref (CHR ''{'' # CHR '' '' # quoted v @ t) = ([], Inr None)"
    and "v \<noteq> ''$regex'' \<Longrightarrow> regex_p (CHR ''{'' # CHR '' '' # quoted v @ t) = ([], Inr None)"
  by (intro object_skips; simp add: other_literal assms)+

lemma token_blank_run [simp]:
  "quotedOid (CHR '' '' # s) = quotedOid s" "str_p (CHR '' '' # s) = str_p s" "quotedType (CHR '' '' # s) = quotedType s"
  "quotedOptions (CHR '' '' # s) = quotedOptions s" "quotedBinary (CHR '' '' # s) = quotedBinary s"
  by (simp_all add: quotedOid_def str_p_def quotedType_def quotedOptions_def quotedBinary_def skip_ws_def)

lemma value_oid:
  assumes "length d = 12"
  shows "value_p (Suc k) rv n (''{ '' @ quoted ''$oid'' @ '' : '' @ quoted (oid_str d) @ '' }'' @ u) =
     ([Append n (VOID d)], Inr (Some ((), u)))"
proof -
  let ?b = "CHR '' '' # quoted ''$oid'' @ CHR '' '' # CHR '':'' # CHR '' '' # quoted (oid_str d) @ CHR '' '' # CHR ''}'' # u"
  have "date_p (CHR ''{'' # ?b) = ([], Inr None)" by (rule other_words) simp_all
  moreover have "oid_p (CHR ''{'' # ?b) = ([], Inr (Some (d, u)))"
    using assms by (simp add: oid_p_def or_p_def then_p_def parse_simps)
  ultimately show ?thesis using value_brace(2) [of ?b d u] by simp
qed

lemma alphabet_base64: "c \<in> set alphabet_encode \<Longrightarrow> base64_char c"
proof -
  have "list_all base64_char alphabet_encode" by code_simp
  then show "c \<in> set alphabet_encode \<Longrightarrow> base64_char c" by (simp add: list_all_iff)
qed

lemma encode_loop_alphabet: "list_all base64_char (encode_loop ws)"
  by (induction ws rule: encode_loop.induct) (simp_all add: alphabet_base64 alphabet_e_in)

lemma not_base64: "\<not> base64_char (CHR ''='')" "\<not> base64_char (CHR 0x22)"
  by (simp_all add: base64_char_def is_alpha_def is_digit_def uchar_def)

lemma base64_text_encoded: "base64_text (base64_encode d @ CHR 0x22 # r) = (base64_encode d, CHR 0x22 # r)"
proof -
  let ?a = "encode_loop (map u8 d)" and ?p = "encode_pad (length d)"
  have p: "?p = [] \<or> ?p = ''='' \<or> ?p = ''==''" by (simp add: encode_pad_def Let_def)
  have a: "\<forall>c \<in> set ?a. base64_char c" using encode_loop_alphabet by (simp add: list_all_iff)
  have "takeWhile base64_char (?a @ ?p @ CHR 0x22 # r) = ?a" "dropWhile base64_char (?a @ ?p @ CHR 0x22 # r) = ?p @ CHR 0x22 # r"
    using p not_base64 a by (auto simp: takeWhile_append dropWhile_append)
  moreover have "takeWhile (\<lambda>c. c = CHR ''='') (?p @ CHR 0x22 # r) = ?p" "dropWhile (\<lambda>c. c = CHR ''='') (?p @ CHR 0x22 # r) = CHR 0x22 # r"
    using p by auto
  ultimately show ?thesis by (simp add: base64_text_def base64_encode_def Let_def)
qed

lemma quoted_binary [parse_simps]: "quotedBinary (quoted (base64_encode d) @ r) = ([], Inr (Some (d, r)))"
  using base64_whole [of d] base64_text_encoded [of d r]
  by (simp add: quotedBinary_def quoted_append skip_ws_def)

lemma quoted_type [parse_simps]: "quotedType (quoted (show_hex2 t) @ r) = ([], Inr (Some (t, r)))"
proof -
  have "fromHex2 (hex_digits hexchars_lower (chr8 t) ! 0) (hex_digits hexchars_lower (chr8 t) ! 1) = Inr (chr8 t)"
    by (rule fromHex2_digits) (rule fromHex_lower)
  then show ?thesis by (simp add: quotedType_def quoted_append token_here show_hex2_def toHexLower_one)
qed

lemma quoted_options [parse_simps]:
  assumes "list_all is_alpha opts"
  shows "quotedOptions (quoted opts @ r) = ([], Inr (Some (opts, r)))"
proof -
  have "\<not> is_alpha (CHR 0x22)" by (simp add: is_alpha_def uchar_def)
  then have "takeWhile is_alpha (opts @ CHR 0x22 # r) = opts" "dropWhile is_alpha (opts @ CHR 0x22 # r) = CHR 0x22 # r"
    using assms by (auto simp: takeWhile_append dropWhile_append list_all_iff)
  then show ?thesis by (simp add: quotedOptions_def quoted_append token_here)
qed

lemma value_binary:
  "value_p (Suc k) rv n (''{ '' @ quoted ''$binary'' @ '' : '' @ quoted (base64_encode d) @ '', '' @
     quoted ''$type'' @ '' : '' @ quoted (show_hex2 t) @ '' }'' @ u) = ([Append n (VBinData t d)], Inr (Some ((), u)))"
proof -
  let ?b = "CHR '' '' # quoted ''$binary'' @ CHR '' '' # CHR '':'' # CHR '' '' # quoted (base64_encode d) @ CHR '','' # CHR '' '' #
     quoted ''$type'' @ CHR '' '' # CHR '':'' # CHR '' '' # quoted (show_hex2 t) @ CHR '' '' # CHR ''}'' # u"
  have "date_p (CHR ''{'' # ?b) = ([], Inr None)" "oid_p (CHR ''{'' # ?b) = ([], Inr None)" by (rule other_words; simp)+
  moreover have "bindata (CHR ''{'' # ?b) = ([], Inr (Some (VBinData t d, u)))"
    by (simp add: bindata_def or_p_def then_p_def parse_simps)
  ultimately show ?thesis using value_brace(3) [of ?b "VBinData t d" u] by simp
qed

lemma value_dbref:
  assumes "list_all plain ns" and "length d = 12"
  shows "value_p (Suc k) rv n (''{ '' @ quoted ''$ref'' @ '' : '' @ quoted ns @ '', '' @
     quoted ''$id'' @ '' : '' @ quoted (oid_str d) @ '' }'' @ u) = ([Append n (VDBRef ns d)], Inr (Some ((), u)))"
proof -
  let ?b = "CHR '' '' # quoted ''$ref'' @ CHR '' '' # CHR '':'' # CHR '' '' # quoted ns @ CHR '','' # CHR '' '' #
     quoted ''$id'' @ CHR '' '' # CHR '':'' # CHR '' '' # quoted (oid_str d) @ CHR '' '' # CHR ''}'' # u"
  have "date_p (CHR ''{'' # ?b) = ([], Inr None)" "oid_p (CHR ''{'' # ?b) = ([], Inr None)"
      "bindata (CHR ''{'' # ?b) = ([], Inr None)" by (rule other_words; simp)+
  moreover have "dbref (CHR ''{'' # ?b) = ([], Inr (Some (VDBRef ns d, u)))"
    using assms by (simp add: dbref_def or_p_def then_p_def parse_simps str_plain)
  ultimately show ?thesis using value_brace(4) [of ?b "VDBRef ns d" u] by simp
qed

lemma value_regex:
  assumes "list_all is_alpha opts"
  shows "value_p (Suc k) rv n (''{ '' @ quoted ''$regex'' @ '' : '' @ quoted (escape x False) @ '', '' @
     quoted ''$options'' @ '' : '' @ quoted opts @ '' }'' @ u) = ([Append n (VRegEx x opts)], Inr (Some ((), u)))"
proof -
  let ?b = "CHR '' '' # quoted ''$regex'' @ CHR '' '' # CHR '':'' # CHR '' '' # quoted (escape x False) @ CHR '','' # CHR '' '' #
     quoted ''$options'' @ CHR '' '' # CHR '':'' # CHR '' '' # quoted opts @ CHR '' '' # CHR ''}'' # u"
  have "date_p (CHR ''{'' # ?b) = ([], Inr None)" "oid_p (CHR ''{'' # ?b) = ([], Inr None)"
      "bindata (CHR ''{'' # ?b) = ([], Inr None)" "dbref (CHR ''{'' # ?b) = ([], Inr None)" by (rule other_words; simp)+
  moreover have "regex_p (CHR ''{'' # ?b) = ([], Inr (Some (VRegEx x opts, u)))"
    using assms by (simp add: regex_p_def or_p_def then_p_def parse_simps)
  ultimately show ?thesis using value_brace(5) [of ?b "VRegEx x opts" u] by simp
qed

section \<open>Lists of members\<close>

lemma then_blank: "p (CHR '' '' # s) = p s \<Longrightarrow> then_p p q (CHR '' '' # s) = then_p p q s"
  by (simp add: then_p_def)

lemma or_blank: "p (CHR '' '' # s) = p s \<Longrightarrow> q (CHR '' '' # s) = q s \<Longrightarrow> or_p p q (CHR '' '' # s) = or_p p q s"
  by (simp add: or_p_def split: prod.split sum.split option.split)

lemma date_blank: "date_p (CHR '' '' # s) = date_p s"
proof -
  obtain r where r: "lit ''new'' s = ([], Inr r)" by (simp add: lit_def token_def)
  then have n: "maybe_p (lit ''new'') (CHR '' '' # s) = ([], Inr (Some (case r of None \<Rightarrow> (False, CHR '' '' # s) | Some (_, t) \<Rightarrow> (True, t))))"
      "maybe_p (lit ''new'') s = ([], Inr (Some (case r of None \<Rightarrow> (False, s) | Some (_, t) \<Rightarrow> (True, t))))"
    by (simp_all add: maybe_p_def split: option.split)
  show ?thesis
    unfolding date_p_def by (rule or_blank) (simp_all add: then_p_def n split: option.split)
qed

lemma blanks:
  "strict_real rv (CHR '' '' # s) = strict_real rv s" "long_long_p (CHR '' '' # s) = long_long_p s"
  "singleQuoteStr (CHR '' '' # s) = singleQuoteStr s" "array_p v k n (CHR '' '' # s) = array_p v k n s"
  "object_p v k n (CHR '' '' # s) = object_p v k n s" "bindata (CHR '' '' # s) = bindata s"
  "unquotedFieldName (CHR '' '' # s) = unquotedFieldName s"
  by (simp_all add: strict_real_def long_long_p_def singleQuoteStr_def array_p_def object_p_def bindata_def
      then_blank unquotedFieldName_def)

lemma or_blanks:
  "oid_p (CHR '' '' # s) = oid_p s" "dbref (CHR '' '' # s) = dbref s" "regex_p (CHR '' '' # s) = regex_p s"
  unfolding oid_p_def dbref_def regex_p_def by (rule or_blank; simp add: then_blank)+

lemma alt_blank: "\<forall>p \<in> set ps. p (CHR '' '' # s) = p s \<Longrightarrow> alt ps (CHR '' '' # s) = alt ps s"
  by (induction ps) (simp_all add: or_blank)

lemma value_blank: "value_p (Suc k) rv n (CHR '' '' # s) = value_p (Suc k) rv n s"
  unfolding value_p.simps value_alts_def
  by (rule alt_blank) (simp add: then_blank blanks or_blanks date_blank)

text \<open>
  A list as \<open>jsonString\<close> writes it: the texts comma_list by a comma and a blank. Each item reads
  its text and stops before the character behind it.
\<close>

fun tail_text :: "bytes list \<Rightarrow> bytes" where
  "tail_text [] = ''''"
| "tail_text (t # ts) = CHR '','' # CHR '' '' # t @ tail_text ts"

fun comma_list :: "bytes list \<Rightarrow> bytes" where
  "comma_list [] = ''''"
| "comma_list (t # ts) = t @ tail_text ts"

definition item_reads :: "unit production \<Rightarrow> bytes \<Rightarrow> json_event list \<Rightarrow> bool" where
  "item_reads p t es \<longleftrightarrow>
     (\<forall>c r. delimiter c \<longrightarrow> p (CHR '' '' # t @ c # r) = (es, Inr (Some ((), c # r))))"

lemma rounds_run:
  assumes "list_all (\<lambda>(j, t, es). item_reads (item j) t es) (zip [i..<i + length xs] xs)"
    and "length xs < k" and "c \<noteq> CHR '',''" and "\<not> is_space c"
  shows "more_p k item i (tail_text (map fst xs) @ CHR '' '' # c # r) =
    (concat (map snd xs), Inr (Some ((), CHR '' '' # c # r)))"
  using assms
proof (induction xs arbitrary: i k)
  case Nil
  then obtain j where "k = Suc j" by (cases k) auto
  then show ?case using Nil by (simp add: then_p_def maybe_p_def lit_miss yields_def)
next
  case (Cons x xs)
  obtain t es where x: "x = (t, es)" by (cases x)
  obtain j where k: "k = Suc j" using Cons.prems(2) by (cases k) auto
  let ?rest = "tail_text (map fst xs) @ CHR '' '' # c # r"
  obtain d u where d: "?rest = d # u" "delimiter d"
    by (cases xs) (auto simp: delimiter_def)
  have u: "zip [i..<i + length (x # xs)] (x # xs) = (i, t, es) # zip [Suc i..<Suc i + length xs] xs"
    by (simp add: x upt_conv_Cons del: upt_Suc)
  have "item_reads (item i) t es" and tl: "list_all (\<lambda>(j, t, es). item_reads (item j) t es) (zip [Suc i..<Suc i + length xs] xs)"
    using Cons.prems(1) unfolding u by simp_all
  then have "item i (CHR '' '' # t @ ?rest) = (es, Inr (Some ((), ?rest)))"
    unfolding d(1) item_reads_def using d(2) by blast
  moreover have "more_p j item (Suc i) ?rest = (concat (map snd xs), Inr (Some ((), CHR '' '' # c # r)))"
    using Cons.IH [OF tl] Cons.prems k by simp
  ultimately show ?case
    by (simp add: k x then_p_def maybe_p_def parse_simps)
qed

lemma list_run:
  assumes "list_all (\<lambda>(j, t, es). item_reads (item j) t es) (zip [0..<length xs] xs)" and "xs \<noteq> []"
    and "length xs \<le> k" and "c \<noteq> CHR '',''" and "\<not> is_space c"
  shows "list_p k item (CHR '' '' # comma_list (map fst xs) @ CHR '' '' # c # r) =
    (concat (map snd xs), Inr (Some ((), CHR '' '' # c # r)))"
proof -
  obtain t es ys where x: "xs = (t, es) # ys" using assms(2) by (cases xs) auto
  let ?rest = "tail_text (map fst ys) @ CHR '' '' # c # r"
  obtain d u where d: "?rest = d # u" "delimiter d"
    by (cases ys) (auto simp: delimiter_def)
  have u: "zip [0..<length xs] xs = (0, t, es) # zip [1..<1 + length ys] ys"
    by (simp add: x upt_conv_Cons del: upt_Suc)
  have hd: "item_reads (item 0) t es" and tl: "list_all (\<lambda>(j, t, es). item_reads (item j) t es) (zip [1..<1 + length ys] ys)"
    using assms(1) unfolding u by simp_all
  have first: "item 0 (CHR '' '' # t @ ?rest) = (es, Inr (Some ((), ?rest)))"
    using hd d(2) unfolding d(1) item_reads_def by blast
  have more: "more_p k item 1 ?rest = (concat (map snd ys), Inr (Some ((), CHR '' '' # c # r)))"
    using rounds_run [OF tl, of k c r] assms(3-5) x by simp
  have e: "CHR '' '' # comma_list (map fst xs) @ CHR '' '' # c # r = CHR '' '' # t @ ?rest" by (simp add: x)
  show ?thesis
    unfolding e list_p_def using first more by (simp add: x then_p_def)
qed

section \<open>Documents that have a text\<close>

text \<open>The actions for a value: append it, or open a builder, append the members, close it.\<close>

fun value_events :: "bytes \<Rightarrow> bson_value \<Rightarrow> json_event list" where
  "value_events n (VObject es) = Push Object n # concat (map (\<lambda>(m, v). value_events m v) es) @ [Pop]"
| "value_events n (VArray es) = Push Array n # concat (map (\<lambda>(m, v). value_events m v) es) @ [Pop]"
| "value_events n v = [Append n v]"

definition doc_events :: "doc \<Rightarrow> json_event list" where
  "doc_events es = concat (map (\<lambda>(m, v). value_events m v) es)"

text \<open>
  The values JSON has a notation for. Integers of 32 bits are printed as doubles, so a long
  in their range comes back as an int, and a double must be printed with a dot or an exponent.
  The namespace of a \<open>DBRef\<close> and the options of a regular expression are written unescaped.
\<close>

definition reserved :: "bytes set" where
  "reserved = {''$oid'', ''$binary'', ''$type'', ''$date'', ''$regex'', ''$options''}"

definition good_name :: "bytes \<Rightarrow> bool" where
  "good_name m = (NUL \<notin> set m \<and> m \<notin> reserved)"

fun json_safe :: "printers \<Rightarrow> (bytes \<Rightarrow> (64 word) option) \<Rightarrow> bson_value \<Rightarrow> bool" where
  "json_safe P rv (VObject es) =
     (list_all good_name (map fst es) \<and> (es \<noteq> [] \<longrightarrow> fst (hd es) \<noteq> ''$ref'') \<and> (\<forall>(m, v) \<in> set es. json_safe P rv v))"
| "json_safe P rv (VArray es) =
     (map fst es = map (\<lambda>i. numStr (int i)) [0..<length es] \<and> (\<forall>(m, v) \<in> set es. json_safe P rv v))"
| "json_safe P rv (VString x) = True"
| "json_safe P rv (VInt x) = (pr_double P (dbl_of_int (sint x)) = show_int (sint x))"
| "json_safe P rv (VLong x) = (sint x < - (2 ^ 31) \<or> 2 ^ 31 \<le> sint x)"
| "json_safe P rv (VDouble d) = (\<not> nan_test d \<and> real_text (pr_double P d) = Some (pr_double P d, []) \<and> rv (pr_double P d) = Some d)"
| "json_safe P rv (VBool b) = True"
| "json_safe P rv VNull = True"
| "json_safe P rv (VDate d) = True"
| "json_safe P rv (VOID d) = (length d = 12)"
| "json_safe P rv (VBinData t d) = True"
| "json_safe P rv (VDBRef ns d) = (list_all plain ns \<and> length d = 12)"
| "json_safe P rv (VRegEx x opts) = list_all is_alpha opts"
| "json_safe P rv _ = False"

definition json_safe_doc :: "printers \<Rightarrow> (bytes \<Rightarrow> (64 word) option) \<Rightarrow> doc \<Rightarrow> bool" where
  "json_safe_doc P rv es = (list_all good_name (map fst es) \<and> (\<forall>(m, v) \<in> set es. json_safe P rv v))"

lemma json_named:
  "v \<noteq> VUndefined \<Longrightarrow> json_elem P fmt True p n v =
     bind_res (json_elem P fmt False p n v) (\<lambda>t. Inr (quoted (escape n False) @ '' : '' @ t))"
  by (cases v) (auto simp: bind_res_assoc split: list.split)

lemma json_elem_name: "json_elem P fmt False p n v = json_elem P fmt False p m v"
  by (cases v) (auto split: list.split)

lemma json_fields_joined:
  "json_fields P fmt 0 es = Inr u \<Longrightarrow>
   \<exists>ts. list_all2 (\<lambda>(n, v) t. json_elem P fmt True 0 n v = Inr t) es ts \<and> u = comma_list ts"
proof (induction es arbitrary: u)
  case (Cons e es)
  obtain n v where e: "e = (n, v)" by (cases e)
  obtain t w where tw: "json_elem P fmt True 0 n v = Inr t" "json_fields P fmt 0 es = Inr w"
      "u = t @ (if es = [] then '''' else '', '' @ w)"
    using Cons.prems by (auto simp: e deeper_def res_simps)
  then obtain ts where ts: "list_all2 (\<lambda>(n, v) t. json_elem P fmt True 0 n v = Inr t) es ts" "w = comma_list ts"
    using Cons.IH by blast
  then have "u = comma_list (t # ts)" using tw(3) by (cases ts) auto
  then show ?case using ts tw(1) e by (intro exI [of _ "t # ts"]) simp
qed simp

lemma json_items_joined:
  "json_items P fmt 0 es = Inr u \<Longrightarrow>
   \<exists>ts. list_all2 (\<lambda>(n, v) t. json_elem P fmt False 0 n v = Inr t) es ts \<and> u = comma_list ts"
proof (induction es arbitrary: u)
  case (Cons e es)
  obtain n v where e: "e = (n, v)" by (cases e)
  obtain t w where tw: "json_elem P fmt False 0 n v = Inr t" "json_items P fmt 0 es = Inr w"
      "u = t @ (if es = [] then '''' else '', '' @ w)"
    using Cons.prems by (auto simp: e deeper_def res_simps)
  then obtain ts where ts: "list_all2 (\<lambda>(n, v) t. json_elem P fmt False 0 n v = Inr t) es ts" "w = comma_list ts"
    using Cons.IH by blast
  then have "u = comma_list (t # ts)" using tw(3) by (cases ts) auto
  then show ?case using ts tw(1) e by (intro exI [of _ "t # ts"]) simp
qed simp

lemma tail_length:
  "length us \<le> length (tail_text us)"
  "t \<in> set us \<Longrightarrow> length t \<le> length (tail_text us)"
  by (induction us) auto

lemma comma_length: "t \<in> set ts \<Longrightarrow> length t \<le> length (comma_list ts)" "length ts \<le> length (comma_list ts) + 1"
proof -
  show "length t \<le> length (comma_list ts)" if t: "t \<in> set ts"
  proof (cases ts)
    case (Cons a us)
    then show ?thesis
      using t tail_length(2) [of t us] by (cases "t = a") (simp_all add: trans_le_add2)
  qed (use t in simp)
  show "length ts \<le> length (comma_list ts) + 1"
  proof (cases ts)
    case (Cons a us)
    then show ?thesis using tail_length(1) [of us] by (simp add: trans_le_add2)
  qed simp
qed

section \<open>The text of a document is one match\<close>

definition reads :: "printers \<Rightarrow> (bytes \<Rightarrow> (64 word) option) \<Rightarrow> bson_value \<Rightarrow> bool" where
  "reads P rv v \<longleftrightarrow>
     (\<forall>m t k n c r. json_elem P Strict False 0 m v = Inr t \<longrightarrow> length t \<le> k \<longrightarrow> delimiter c \<longrightarrow>
        value_p k rv n (t @ c # r) = (value_events n v, Inr (Some ((), c # r))))"

lemma json_text_not_Nil: "json_safe P rv v \<Longrightarrow> json_elem P Strict False 0 m v = Inr t \<Longrightarrow> t \<noteq> []"
  by (cases v) (auto simp: quoted_def real_text_def opt_sign_def show_int_def res_simps split: list.splits if_splits)

declare json_elem.simps [simp del] value_p.simps [simp del]

lemma readsD:
  "reads P rv v \<Longrightarrow> json_elem P Strict False 0 m v = Inr t \<Longrightarrow> length t \<le> k \<Longrightarrow> delimiter c \<Longrightarrow>
   value_p k rv n (t @ c # r) = (value_events n v, Inr (Some ((), c # r)))"
  by (simp add: reads_def)

lemma readsD_blank:
  "reads P rv v \<Longrightarrow> json_elem P Strict False 0 m v = Inr t \<Longrightarrow> length t \<le> k \<Longrightarrow> 0 < k \<Longrightarrow> delimiter c \<Longrightarrow>
   value_p k rv n (CHR '' '' # t @ c # r) = (value_events n v, Inr (Some ((), c # r)))"
  using value_blank [of "k - 1" rv n "t @ c # r"] readsD [of P rv v m t k c n r] by simp

lemma json_safe_defined: "json_safe P rv v \<Longrightarrow> v \<noteq> VUndefined"
  by auto

lemma good_name_end: "good_name m \<Longrightarrow> fieldNameEnd m = Inr m \<and> cstr m = m"
  by (simp add: good_name_def reserved_def fieldNameEnd_def)

lemma member_reads:
  assumes r: "reads P rv v" and s: "json_safe P rv v" and m: "good_name m"
    and t: "json_elem P Strict True 0 m v = Inr t" and k: "length t \<le> k"
  shows "item_reads (member_p (value_p k rv)) t (value_events m v)"
proof -
  obtain x where x: "json_elem P Strict False 0 m v = Inr x" "t = quoted (escape m False) @ '' : '' @ x"
    using t json_named [OF json_safe_defined [OF s], of P Strict 0 m] by (auto simp: res_simps)
  have k0: "0 < k" using k x(2) by (cases k) (auto simp: quoted_def)
  have l: "length x \<le> k" using k x(2) by simp
  show ?thesis
    unfolding item_reads_def
  proof (intro allI impI)
    fix c r assume c: "delimiter c"
    have "value_p k rv m (CHR '' '' # x @ c # r) = (value_events m v, Inr (Some ((), c # r)))"
      by (rule readsD_blank [OF r x(1) l k0 c])
    moreover have "fieldName_p (CHR '' '' # quoted (escape m False) @ s) = ([], Inr (Some (m, s)))" for s
      unfolding fieldName_p_def
      by (rule alt_hit) (simp add: then_p_def parse_simps good_name_end [OF m])
    ultimately show "member_p (value_p k rv) (CHR '' '' # t @ c # r) = (value_events m v, Inr (Some ((), c # r)))"
      using good_name_end [OF m] by (simp add: member_p_def x(2) then_p_def parse_simps)
  qed
qed

lemma fields_read:
  assumes es: "es \<noteq> []" "list_all good_name (map fst es)" and v: "\<And>m v. (m, v) \<in> set es \<Longrightarrow> json_safe P rv v \<and> reads P rv v"
    and u: "json_fields P Strict 0 es = Inr u" and k: "length u \<le> k"
  shows "list_p (Suc k) (\<lambda>i. member_p (value_p k rv)) (CHR '' '' # u @ CHR '' '' # CHR ''}'' # r) =
    (doc_events es, Inr (Some ((), CHR '' '' # CHR ''}'' # r)))"
proof -
  obtain ts where ts: "list_all2 (\<lambda>(n, v) t. json_elem P Strict True 0 n v = Inr t) es ts" "u = comma_list ts"
    using json_fields_joined [OF u] by blast
  let ?xs = "zip ts (map (\<lambda>(m, v). value_events m v) es)"
  have len: "length ts = length es" using ts(1) by (simp add: list_all2_lengthD)
  have "list_all (\<lambda>(j, t, es). item_reads (member_p (value_p k rv)) t es) (zip [0..<length ?xs] ?xs)"
  proof (clarsimp simp: list_all_length len)
    fix i assume i: "i < length es"
    obtain m v' where e: "es ! i = (m, v')" by (cases "es ! i")
    have "(m, v') \<in> set es" using i e by (metis nth_mem)
    moreover have "json_elem P Strict True 0 m v' = Inr (ts ! i)" using ts(1) i e by (auto simp: list_all2_conv_all_nth)
    moreover have "good_name m" using es(2) i e by (metis fst_conv length_map list_all_length nth_map)
    moreover have "length (ts ! i) \<le> k" using comma_length(1) [of "ts ! i" ts] i len k ts(2) by simp
    ultimately show "item_reads (member_p (value_p k rv)) (ts ! i) (case es ! i of (m, v) \<Rightarrow> value_events m v)"
      using member_reads [of P rv v' m "ts ! i" k] v e by simp
  qed
  then have "list_p (Suc k) (\<lambda>i. member_p (value_p k rv)) (CHR '' '' # comma_list (map fst ?xs) @ CHR '' '' # CHR ''}'' # r) =
      (concat (map snd ?xs), Inr (Some ((), CHR '' '' # CHR ''}'' # r)))"
    using es(1) len comma_length(2) [of ts] k ts(2) by (intro list_run) auto
  then show ?thesis using ts(2) len by (simp add: doc_events_def)
qed

lemma items_read:
  assumes es: "es \<noteq> []" "map fst es = map (\<lambda>i. numStr (int i)) [0..<length es]"
    and v: "\<And>m v. (m, v) \<in> set es \<Longrightarrow> json_safe P rv v \<and> reads P rv v"
    and u: "json_items P Strict 0 es = Inr u" and k: "length u \<le> k"
  shows "list_p (Suc k) (\<lambda>i. value_p k rv (numStr (int i))) (CHR '' '' # u @ CHR '' '' # CHR '']'' # r) =
    (doc_events es, Inr (Some ((), CHR '' '' # CHR '']'' # r)))"
proof -
  obtain ts where ts: "list_all2 (\<lambda>(n, v) t. json_elem P Strict False 0 n v = Inr t) es ts" "u = comma_list ts"
    using json_items_joined [OF u] by blast
  let ?xs = "zip ts (map (\<lambda>(m, v). value_events m v) es)"
  have len: "length ts = length es" using ts(1) by (simp add: list_all2_lengthD)
  have "list_all (\<lambda>(j, t, es). item_reads (value_p k rv (numStr (int j))) t es) (zip [0..<length ?xs] ?xs)"
  proof (clarsimp simp: list_all_length len)
    fix i assume i: "i < length es"
    obtain m v' where e: "es ! i = (m, v')" by (cases "es ! i")
    have "(m, v') \<in> set es" using i e by (metis nth_mem)
    then have v': "json_safe P rv v'" "reads P rv v'" using v by blast+
    have t: "json_elem P Strict False 0 m v' = Inr (ts ! i)" using ts(1) i e by (auto simp: list_all2_conv_all_nth)
    have m: "m = numStr (int i)" using arg_cong [OF es(2), of "\<lambda>xs. xs ! i"] i e by simp
    have l: "length (ts ! i) \<le> k" using comma_length(1) [of "ts ! i" ts] i len k ts(2) by simp
    moreover have "0 < k" using l json_text_not_Nil [OF v'(1) t] by (cases k) auto
    ultimately show "item_reads (value_p k rv (numStr (int i))) (ts ! i) (case es ! i of (m, v) \<Rightarrow> value_events m v)"
      using readsD_blank [OF v'(2) t] by (simp add: e m item_reads_def)
  qed
  then have "list_p (Suc k) (\<lambda>i. value_p k rv (numStr (int i))) (CHR '' '' # comma_list (map fst ?xs) @ CHR '' '' # CHR '']'' # r) =
      (concat (map snd ?xs), Inr (Some ((), CHR '' '' # CHR '']'' # r)))"
    using es(1) len comma_length(2) [of ts] k ts(2) by (intro list_run) auto
  then show ?thesis using ts(2) len by (simp add: doc_events_def)
qed

lemma object_reads:
  assumes m: "list_all good_name (map fst es)" and v: "\<And>m v. (m, v) \<in> set es \<Longrightarrow> json_safe P rv v \<and> reads P rv v"
    and u: "es \<noteq> [] \<Longrightarrow> json_fields P Strict 0 es = Inr u" and k: "es \<noteq> [] \<Longrightarrow> length u \<le> k"
  shows "object_p (value_p k rv) (Suc k) n ((if es = [] then ''{}'' else ''{ '' @ u @ '' }'') @ r) =
    (Push Object n # doc_events es, Inr (Some ((), r)))"
proof (cases "es = []")
  case True
  have "member_p (value_p k rv) (CHR ''}'' # r) = ([], Inr None)"
    by (simp add: member_p_def then_p_def fieldName_p_def or_p_def misses unquotedFieldName_def token_here is_alpha_def uchar_def)
  then show ?thesis
    using True by (simp add: object_p_def list_p_def then_p_def maybe_p_def parse_simps doc_events_def)
next
  case False
  show ?thesis
    using fields_read [OF False m v u [OF False] k [OF False], where r = r] False
    by (simp add: object_p_def then_p_def maybe_p_def parse_simps)
qed

lemma value_close: "0 < k \<Longrightarrow> value_p k rv n (CHR '']'' # s) = ([], Inr None)"
proof -
  have "object_p v j n (CHR '']'' # s) = ([], Inr None)" for v j
    by (simp add: object_p_def then_miss lit_miss)
  moreover have "\<not> is_digit (CHR '']'')" by (simp add: is_digit_def uchar_def)
  ultimately have "value_p (Suc j) rv n (CHR '']'' # s) = ([], Inr None)" for j
    by (simp add: value_p.simps value_alts_def then_miss or_miss misses)
  then show "0 < k \<Longrightarrow> ?thesis" by (cases k) auto
qed

lemma array_reads:
  assumes m: "map fst es = map (\<lambda>i. numStr (int i)) [0..<length es]"
    and v: "\<And>m v. (m, v) \<in> set es \<Longrightarrow> json_safe P rv v \<and> reads P rv v"
    and u: "es \<noteq> [] \<Longrightarrow> json_items P Strict 0 es = Inr u" and k: "es \<noteq> [] \<Longrightarrow> length u \<le> k" "0 < k"
  shows "value_p (Suc k) rv n ((if es = [] then ''[]'' else ''[ '' @ u @ '' ]'') @ r) =
    (Push Array n # doc_events es @ [Pop], Inr (Some ((), r)))"
proof -
  let ?s = "(if es = [] then ''[]'' else ''[ '' @ u @ '' ]'') @ r"
  have "array_p (value_p k rv) (Suc k) n ?s = (Push Array n # doc_events es, Inr (Some ((), r)))"
  proof (cases "es = []")
    case True
    then show ?thesis
      using value_close [OF k(2)]
      by (simp add: array_p_def list_p_def then_p_def maybe_p_def parse_simps doc_events_def)
  next
    case False
    show ?thesis
      using items_read [OF False m v u [OF False] k(1) [OF False], where r = r] False
      by (simp add: array_p_def then_p_def maybe_p_def parse_simps)
  qed
  moreover obtain x where s: "?s = CHR ''['' # x" by (cases "es = []") auto
  ultimately have "then_p (array_p (value_p k rv) (Suc k) n) (\<lambda>_. emit Pop) (CHR ''['' # x) =
      (Push Array n # doc_events es @ [Pop], Inr (Some ((), r)))"
    by (simp add: then_p_def emit_run)
  then show ?thesis
    unfolding s value_p.simps value_alts_def
    by (intro alt_missI [OF then_miss] alt_hit) (simp_all add: misses)
qed

lemma object_value:
  assumes m: "list_all good_name (map fst es)" "es \<noteq> [] \<Longrightarrow> fst (hd es) \<noteq> ''$ref''"
    and v: "\<And>m v. (m, v) \<in> set es \<Longrightarrow> json_safe P rv v \<and> reads P rv v"
    and u: "es \<noteq> [] \<Longrightarrow> json_fields P Strict 0 es = Inr u" and k: "es \<noteq> [] \<Longrightarrow> length u \<le> k"
  shows "value_p (Suc k) rv n ((if es = [] then ''{}'' else ''{ '' @ u @ '' }'') @ r) =
    (Push Object n # doc_events es @ [Pop], Inr (Some ((), r)))"
proof -
  let ?s = "(if es = [] then ''{}'' else ''{ '' @ u @ '' }'') @ r"
  obtain x where s: "?s = CHR ''{'' # x" by (cases "es = []") auto
  have l: "lit (quoted w) x = ([], Inr None)" if w: "w \<in> {''$date'', ''$oid'', ''$binary'', ''$ref'', ''$regex''}" for w
  proof (cases es)
    case Nil
    then have "x = CHR ''}'' # r" using s by simp
    then show ?thesis by (simp add: quoted_def lit_miss)
  next
    case (Cons e es')
    obtain m' v' where e: "e = (m', v')" by (cases e)
    have "json_safe P rv v'" using v Cons e by auto
    then obtain y where "u = quoted (escape m' False) @ y"
      using u Cons e json_named [OF json_safe_defined, of P rv v' P Strict 0 m'] by (auto simp: res_simps deeper_def)
    then have "x = CHR '' '' # quoted (escape m' False) @ y @ '' }'' @ r" using s Cons by simp
    moreover have "m' \<noteq> w" using m Cons e w by (auto simp: good_name_def reserved_def)
    moreover have "list_all plain w" using w by auto
    ultimately show ?thesis using quoted_literal by simp
  qed
  have miss: "date_p (CHR ''{'' # x) = ([], Inr None)" "oid_p (CHR ''{'' # x) = ([], Inr None)"
      "bindata (CHR ''{'' # x) = ([], Inr None)" "dbref (CHR ''{'' # x) = ([], Inr None)"
      "regex_p (CHR ''{'' # x) = ([], Inr None)"
    by (rule object_skips, rule l, simp)+
  from object_reads [OF m(1) v u k, where n = n and r = r] have "object_p (value_p k rv) (Suc k) n (CHR ''{'' # x) =
      (Push Object n # doc_events es, Inr (Some ((), r)))" unfolding s by simp
  from value_brace(6) [OF miss this] show ?thesis unfolding s by simp
qed

lemma sint_widen [simp]: "sint (scast (x :: 32 word) :: 64 word) = sint x"
proof -
  have "- (2 ^ 31) \<le> sint x" "sint x < 2 ^ 31" using sint_range_size [of x] by (simp_all add: word_size)
  then have "signed_take_bit 63 (sint x) = sint x" by (intro signed_take_bit_int_eq_self) simp_all
  then have "sint (word_of_int (sint x) :: 64 word) = sint x" unfolding sint_sbintrunc' by simp
  then show ?thesis by simp
qed

lemma intValue_int: "intValue (scast (x :: 32 word)) = VInt x"
proof -
  have b: "- (2 ^ 31) \<le> sint x" "sint x \<le> 2 ^ 31 - 1" using sint_range_size [of x] by (simp_all add: word_size)
  have "(ucast (scast x :: 64 word) :: 32 word) = x"
    by (rule bit_word_eqI) (simp add: bit_simps)
  then show ?thesis using b by (simp add: intValue_def)
qed

lemma not_plain_NUL: "\<not> plain NUL"
  by (simp add: plain_def schar_def)

lemma scalar_reads:
  assumes "value_type v \<notin> {Object, Array, CodeWScope}" and s: "json_safe P rv v"
  shows "reads P rv v"
  unfolding reads_def
proof (intro allI impI)
  fix m t k n c r
  assume t: "json_elem P Strict False 0 m v = Inr t" and k: "length t \<le> k" and c: "delimiter c"
  have "t \<noteq> []" by (rule json_text_not_Nil [OF s t])
  then obtain j where j: "k = Suc j" using k by (cases k) auto
  show "value_p k rv n (t @ c # r) = (value_events n v, Inr (Some ((), c # r)))"
  proof (cases v)
    case (VInt x)
    have "t = show_int (sint (scast x :: 64 word))" using s t VInt by (simp add: json_elem.simps)
    then show ?thesis using value_long [OF c, of j rv n "scast x" r] VInt j by (simp add: intValue_int)
  next
    case (VLong x)
    then have "intValue x = VLong x" using s by (auto simp: intValue_def)
    then show ?thesis using value_long [OF c, of j rv n x r] VLong t j by (simp add: json_elem.simps)
  next
    case (VDouble d)
    then show ?thesis using value_double [OF _ _ c, of t rv d j n r] s t j by (auto simp add: json_elem.simps)
  next
    case (VBool b)
    then have "t = (if b then ''true'' else ''false'')" using t by (simp add: json_elem.simps)
    then show ?thesis
      using value_true [of j rv n "c # r"] value_false [of j rv n "c # r"] VBool j by (cases b) simp_all
  next
    case (VDBRef ns d)
    then have "list_all plain ns" using s by simp
    then have "NUL \<notin> set ns" using not_plain_NUL by (metis list_all_iff)
    then show ?thesis using VDBRef s t j value_dbref [of ns d j rv n "c # r"] by (auto simp add: json_elem.simps)
  next
    case (VRegEx x opts)
    then show ?thesis using s t j value_regex [of opts j rv n x "c # r"] by (auto simp add: json_elem.simps)
  next
    case (VOID d)
    then show ?thesis using s t j value_oid [of d j rv n "c # r"] by (auto simp add: json_elem.simps)
  next
    case (VDate d)
    then show ?thesis using t j value_date [of j rv n d "c # r"] by (auto simp add: json_elem.simps)
  next
    case (VBinData y d)
    then show ?thesis using t j value_binary [of j rv n d y "c # r"] by (auto simp add: json_elem.simps)
  next
    case (VString x)
    then show ?thesis using t j value_string [of j rv n x "c # r"] by (auto simp add: json_elem.simps)
  next
    case VNull
    then show ?thesis using t j value_null [of j rv n "c # r"] by (auto simp add: json_elem.simps)
  qed (use s assms(1) in simp_all)
qed

lemma value_reads: "json_safe P rv v \<Longrightarrow> reads P rv v"
proof (induction v rule: bson_value_induct)
  case (scalar v)
  then show ?case by (rule scalar_reads)
next
  case (object es)
  show ?case
    unfolding reads_def
  proof (intro allI impI)
    fix m t k n c r
    assume t: "json_elem P Strict False 0 m (VObject es) = Inr t" and k: "length t \<le> k" and "delimiter c"
    obtain u where u: "es \<noteq> [] \<Longrightarrow> json_fields P Strict 0 es = Inr u" "t = (if es = [] then ''{}'' else ''{ '' @ u @ '' }'')"
      using t by (cases es) (auto simp: json_elem.simps res_simps)
    have v: "\<And>m v. (m, v) \<in> set es \<Longrightarrow> json_safe P rv v \<and> reads P rv v" using object by auto
    obtain j where j: "k = Suc j" using k u(2) by (cases k) (auto split: if_splits)
    have "value_p (Suc j) rv n ((if es = [] then ''{}'' else ''{ '' @ u @ '' }'') @ c # r) =
        (Push Object n # doc_events es @ [Pop], Inr (Some ((), c # r)))"
      by (rule object_value) (use object.prems u v k j in \<open>auto split: if_splits\<close>)
    then show "value_p k rv n (t @ c # r) = (value_events n (VObject es), Inr (Some ((), c # r)))"
      unfolding u(2) j by (simp add: doc_events_def)
  qed
next
  case (array es)
  show ?case
    unfolding reads_def
  proof (intro allI impI)
    fix m t k n c r
    assume t: "json_elem P Strict False 0 m (VArray es) = Inr t" and k: "length t \<le> k" and "delimiter c"
    obtain u where u: "es \<noteq> [] \<Longrightarrow> json_items P Strict 0 es = Inr u" "t = (if es = [] then ''[]'' else ''[ '' @ u @ '' ]'')"
      using t by (cases es) (auto simp: json_elem.simps res_simps)
    have v: "\<And>m v. (m, v) \<in> set es \<Longrightarrow> json_safe P rv v \<and> reads P rv v" using array by auto
    obtain j where j: "k = Suc j" "0 < j" using k u(2) by (cases k) (auto split: if_splits)
    have "value_p (Suc j) rv n ((if es = [] then ''[]'' else ''[ '' @ u @ '' ]'') @ c # r) =
        (Push Array n # doc_events es @ [Pop], Inr (Some ((), c # r)))"
      by (rule array_reads) (use array.prems u v k j in \<open>auto split: if_splits\<close>)
    then show "value_p k rv n (t @ c # r) = (value_events n (VArray es), Inr (Some ((), c # r)))"
      unfolding u(2) j by (simp add: doc_events_def)
  qed
next
  case (code_w_scope c es)
  then show ?case by simp
qed

lemma text_reads:
  assumes "json_safe_doc P rv d" and "jsonString P Strict 0 d = Inr t"
  shows "json_text rv t = (Push Object '''' # doc_events d, Inr (Some ((), '''')))"
proof -
  obtain u where u: "d \<noteq> [] \<Longrightarrow> json_fields P Strict 0 d = Inr u" "t = (if d = [] then ''{}'' else ''{ '' @ u @ '' }'')"
    using assms(2) by (auto simp: jsonString_def res_simps split: if_splits)
  have "object_p (value_p (length t) rv) (Suc (length t)) '''' ((if d = [] then ''{}'' else ''{ '' @ u @ '' }'') @ '''') =
      (Push Object '''' # doc_events d, Inr (Some ((), '''')))"
    by (rule object_reads) (use assms(1) u value_reads in \<open>auto simp: json_safe_doc_def\<close>)
  then show ?thesis unfolding json_text_def by (simp only: append_Nil2 flip: u(2))
qed

end
