(* ===== verification/JsonBuild.thy ===== *)
theory JsonBuild
  imports JsonRoundtrip
begin

text \<open>
  The other half of \<open>fromjson\<close>: the events of a document, run on the stack of builders, leave
  the wire format of the document; with the grammar's half (JsonRoundtrip), reading back what
  \<open>jsonString\<close> wrote.
\<close>

section \<open>Running the events\<close>

lemma run_events_simps [simp]:
  "run_events [] b = Inr b"
  "run_events (e # es) b = bind_res (run_event e b) (run_events es)"
  by (simp_all add: run_events_def)

lemma run_events_append: "run_events (es @ fs) b = bind_res (run_events es b) (run_events fs)"
  by (induction es arbitrary: b) (simp_all add: bind_res_assoc cong: bind_res_cong)

text \<open>\<open>built_on ob bs ob'\<close>: \<open>ob'\<close> is \<open>ob\<close> after \<open>bs\<close> have been appended.\<close>

definition built_on :: "objbuilder \<Rightarrow> bytes \<Rightarrow> objbuilder \<Rightarrow> bool" where
  "built_on ob bs ob' \<longleftrightarrow> builder_inv ob' \<and> ob_offset ob' = ob_offset ob \<and> ob_owned ob' = ob_owned ob \<and>
     contents (ob_b ob') = contents (ob_b ob) @ map Some bs"

text \<open>What the events of a value do to the last builder of the stack, given room for its bytes.\<close>

definition builds :: "json_event list \<Rightarrow> bytes \<Rightarrow> bool" where
  "builds es bs \<longleftrightarrow>
     (\<forall>ob obs. builder_inv ob \<longrightarrow> length (contents (ob_b ob)) + length bs \<le> 32 * 1024 * 1024 \<longrightarrow>
        (\<exists>ob'. run_events es (ob # obs) = Inr (ob' # obs) \<and> built_on ob bs ob'))"

lemma buildsD:
  assumes "builds es bs" and "builder_inv ob" and "length (contents (ob_b ob)) + length bs \<le> 32 * 1024 * 1024"
  obtains ob' where "run_events es (ob # obs) = Inr (ob' # obs)" "built_on ob bs ob'"
  using assms unfolding builds_def by blast

lemma builds_Nil: "builds [] []"
  by (simp add: builds_def built_on_def)

lemma builds_append:
  assumes "builds es as" and "builds fs bs"
  shows "builds (es @ fs) (as @ bs)"
  unfolding builds_def
proof (intro allI impI)
  fix ob obs assume inv: "builder_inv ob" and len: "length (contents (ob_b ob)) + length (as @ bs) \<le> 32 * 1024 * 1024"
  obtain ob1 where 1: "run_events es (ob # obs) = Inr (ob1 # obs)" "built_on ob as ob1"
    using buildsD [OF assms(1) inv] len by auto
  then obtain ob2 where "run_events fs (ob1 # obs) = Inr (ob2 # obs)" "built_on ob1 bs ob2"
    using buildsD [OF assms(2), of ob1] len by (auto simp: built_on_def)
  with 1 show "\<exists>ob'. run_events (es @ fs) (ob # obs) = Inr (ob' # obs) \<and> built_on ob (as @ bs) ob'"
    by (auto simp: run_events_append built_on_def)
qed

lemma builds_value: "builds [Append n v] (enc_elem (n, v))"
  unfolding builds_def
proof (intro allI impI)
  fix ob obs assume "builder_inv ob" and "length (contents (ob_b ob)) + length (enc_elem (n, v)) \<le> 32 * 1024 * 1024"
  from adds_run [OF adds_append_value [of "(n, v)"] this]
  show "\<exists>ob'. run_events [Append n v] (ob # obs) = Inr (ob' # obs) \<and> built_on ob (enc_elem (n, v)) ob'"
    by (auto simp: run_event_def built_on_def)
qed

lemma sub_builder_owned: "sub_builder b = Inr s \<Longrightarrow> \<not> ob_owned s"
  by (auto simp: sub_builder_def on_buf_def res_simps)

lemma sized_init:
  "int (length (enc_doc d)) \<le> BSONObjMaxInternalSize \<Longrightarrow> bsonobj_init (enc_doc d) = Inr (enc_doc d)"
  using rd_int_enc_doc [of d "[]"] by (simp add: bsonobj_init_def isValid_def)

text \<open>Opening an embedded builder, appending the members, closing it.\<close>

lemma builds_nested:
  assumes t: "t \<in> {Object, Array}" and es: "builds es (enc_elems d)"
    and fits: "int (length (enc_doc d)) \<le> BSONObjMaxInternalSize"
  shows "builds (Push t n # es @ [Pop]) (type_byte t # n @ [NUL] @ enc_doc d)"
  unfolding builds_def
proof (intro allI impI)
  fix ob obs
  let ?head = "type_byte t # n @ [NUL]" and ?all = "type_byte t # n @ [NUL] @ enc_doc d"
  assume inv: "builder_inv ob" and len: "length (contents (ob_b ob)) + length ?all \<le> 32 * 1024 * 1024"
  have head: "adds (if t = Array then subarrayStart n else subobjStart n) ?head"
    using t adds_starts by (cases "t = Array") auto
  obtain ob1 where ob1: "(if t = Array then subarrayStart n else subobjStart n) ob = Inr ob1" "builder_inv ob1"
      "ob_offset ob1 = ob_offset ob" "ob_owned ob1 = ob_owned ob"
      "contents (ob_b ob1) = contents (ob_b ob) @ map Some ?head"
    using adds_run [OF head inv] len by auto
  let ?c1 = "contents (ob_b ob1)"
  have b1: "buf_inv (ob_b ob1)" using ob1(2) by (simp add: builder_inv_def)
  have l1: "length ?c1 + length (enc_doc d) \<le> 32 * 1024 * 1024" using len ob1(5) by simp
  obtain s where s: "sub_builder (ob_b ob1) = Inr s" "builder_inv s" "ob_offset s = int (length ?c1)"
      "take (length ?c1) (contents (ob_b s)) = ?c1" "length (contents (ob_b s)) = length ?c1 + 4" "fields_of s = []"
    using sub_builder_run [OF b1] l1 by auto
  obtain s1 where s1: "run_events es (s # ob1 # obs) = Inr (s1 # ob1 # obs)" "built_on s (enc_elems d) s1"
    using buildsD [OF es s(2)] s(5) l1 by auto
  have f1: "fields_of s1 = map Some (enc_elems d)"
    using s1(2) s(3,5,6) by (simp add: built_on_def fields_of_def)
  obtain s2 where s2: "ob_done s1 = Inr s2" "buf_inv (ob_b s2)" "ob_offset s2 = ob_offset s1"
      "contents (ob_b s2) = take (nat (ob_offset s1)) (contents (ob_b s1)) @ map Some (enc_doc d)"
    using ob_done_run [OF _ f1] s1(2) s(5) l1 by (auto simp: built_on_def)
  have c2: "contents (ob_b s2) = ?c1 @ map Some (enc_doc d)"
    using s2(4) s1(2) s(3,4,5) by (simp add: built_on_def)
  have off: "ob_offset s2 = int (length ?c1)" using s2(3) s1(2) s(3) by (auto simp: built_on_def)
  have "built s2 = Inr (enc_doc d)" by (rule built_run [OF _ c2]) (simp_all add: off)
  moreover have "\<not> ob_owned s1" using sub_builder_owned [OF s(1)] s1(2) by (simp add: built_on_def)
  ultimately have pop: "pop_builder (s1 # ob1 # obs) = Inr (ob1\<lparr>ob_b := ob_b s2\<rparr> # obs, enc_doc d)"
    using s2(1) sized_init [OF fits] by (simp add: pop_builder_def)
  have "builder_inv (ob1\<lparr>ob_b := ob_b s2\<rparr>)"
    using ob1(2) s2(2) length_contents [OF s2(2)] length_contents [OF b1] c2
    by (auto simp: builder_inv_def)
  then have "built_on ob ?all (ob1\<lparr>ob_b := ob_b s2\<rparr>)"
    using ob1(3-5) c2 by (simp add: built_on_def)
  moreover have "run_events (Push t n # es @ [Pop]) (ob # obs) = Inr (ob1\<lparr>ob_b := ob_b s2\<rparr> # obs)"
    using ob1(1) s(1) s1(1) pop by (simp add: run_event_def push_sub_def run_events_append)
  ultimately show "\<exists>ob'. run_events (Push t n # es @ [Pop]) (ob # obs) = Inr (ob' # obs) \<and> built_on ob ?all ob'"
    by blast
qed

lemma builds_fields:
  assumes "\<And>m v. (m, v) \<in> set es \<Longrightarrow> builds (value_events m v) (enc_elem (m, v))"
  shows "builds (doc_events es) (enc_elems es)"
  using assms
proof (induction es)
  case Nil
  then show ?case by (simp add: doc_events_def builds_Nil)
next
  case (Cons e es)
  obtain m v where e: "e = (m, v)" by (cases e)
  have "builds (value_events m v @ doc_events es) (enc_elem (m, v) @ enc_elems es)"
    using Cons e by (intro builds_append) auto
  then show ?case by (simp add: e doc_events_def)
qed

lemma value_builds:
  "int (length (enc_elem (n, v))) \<le> BSONObjMaxInternalSize \<Longrightarrow> builds (value_events n v) (enc_elem (n, v))"
proof (induction v arbitrary: n rule: bson_value_induct)
  case (scalar v)
  then have "value_events n v = [Append n v]" by (cases v) auto
  then show ?case using builds_value by simp
next
  case (object es)
  have "int (length (enc_elem e)) \<le> BSONObjMaxInternalSize" if "e \<in> set es" for e
    using enc_elem_le_doc [OF that] object.prems by (simp add: length_enc_elem)
  then have "builds (doc_events es) (enc_elems es)" by (intro builds_fields object.IH) auto
  then have "builds (Push Object n # doc_events es @ [Pop]) (type_byte Object # n @ [NUL] @ enc_doc es)"
    using object.prems by (intro builds_nested) (simp_all add: length_enc_elem)
  then show ?case by (simp add: doc_events_def enc_elem_def)
next
  case (array es)
  have "int (length (enc_elem e)) \<le> BSONObjMaxInternalSize" if "e \<in> set es" for e
    using enc_elem_le_doc [OF that] array.prems by (simp add: length_enc_elem)
  then have "builds (doc_events es) (enc_elems es)" by (intro builds_fields array.IH) auto
  then have "builds (Push Array n # doc_events es @ [Pop]) (type_byte Array # n @ [NUL] @ enc_doc es)"
    using array.prems by (intro builds_nested) (simp_all add: length_enc_elem)
  then show ?case by (simp add: doc_events_def enc_elem_def)
next
  case (code_w_scope c es)
  then show ?case using builds_value by simp
qed

section \<open>The text is a C string\<close>

lemma hex_no_NUL: "NUL \<notin> set (toHexLower s)"
proof -
  have "list_all is_xdigit (toHexLower s)"
    using hex_digits_xdigit by (auto simp: toHexLower_def list_all_iff hex_digits_def)
  moreover have "\<not> is_xdigit NUL" by code_simp
  ultimately show ?thesis by (metis list_all_iff)
qed

lemma escape_no_NUL: "NUL \<notin> set (escape s False)"
proof (induction s)
  case (Cons c s)
  have "NUL \<notin> set (escape [c] False)"
  proof (cases "c = NUL")
    case True
    then show ?thesis using hex_no_NUL [of "[c]"] by (simp add: escape_def schar_def)
  next
    case False
    then show ?thesis using hex_no_NUL [of "[c]"] by (simp add: escape_def)
  qed
  then show ?case using Cons by (simp add: escape_Cons [of c s])
qed (simp add: escape_def)

lemma quoted_no_NUL [simp]: "NUL \<notin> set (quoted s) \<longleftrightarrow> NUL \<notin> set s"
  by (auto simp: quoted_def)

lemma NUL_not_digit [simp]: "\<not> is_digit NUL"
  by (simp add: is_digit_def)

lemma digits_no_NUL: "NUL \<notin> set (takeWhile is_digit s)"
  by (metis is_digit_not_NUL set_takeWhileD)

lemma exponent_no_NUL: "exponent s = Some (x, r) \<Longrightarrow> NUL \<notin> set x"
  using digits_no_NUL
  by (auto simp: exponent_def opt_sign_def Let_def split: list.splits if_splits)

lemma real_no_NUL: "real_text s = Some (x, r) \<Longrightarrow> NUL \<notin> set x"
  using digits_no_NUL exponent_no_NUL
  by (auto simp: real_text_def opt_sign_def Let_def split: list.splits if_splits option.splits)

lemma base64_no_NUL: "NUL \<notin> set (base64_encode d)"
proof -
  have "\<not> base64_char NUL" by (simp add: base64_char_def is_alpha_def is_digit_def)
  then have "NUL \<notin> set (encode_loop (map u8 d))" using encode_loop_alphabet by (metis list_all_iff)
  then show ?thesis by (simp add: base64_encode_def encode_pad_def Let_def)
qed

lemma comma_no_NUL: "(\<And>t. t \<in> set ts \<Longrightarrow> NUL \<notin> set t) \<Longrightarrow> NUL \<notin> set (comma_list ts)"
proof -
  have tail: "(\<And>t. t \<in> set us \<Longrightarrow> NUL \<notin> set t) \<Longrightarrow> NUL \<notin> set (tail_text us)" for us
    by (induction us) auto
  show "(\<And>t. t \<in> set ts \<Longrightarrow> NUL \<notin> set t) \<Longrightarrow> NUL \<notin> set (comma_list ts)"
    using tail [of "tl ts"] by (cases ts) auto
qed

lemma partner: "list_all2 R xs ys \<Longrightarrow> y \<in> set ys \<Longrightarrow> \<exists>x \<in> set xs. R x y"
  by (induction rule: list_all2_induct) auto

definition clean :: "printers \<Rightarrow> bson_value \<Rightarrow> bool" where
  "clean P v \<longleftrightarrow> (\<forall>m t. json_elem P Strict False 0 m v = Inr t \<longrightarrow> NUL \<notin> set t)"

lemma fields_clean:
  assumes "\<And>m v. (m, v) \<in> set es \<Longrightarrow> clean P v \<and> v \<noteq> VUndefined" and "json_fields P Strict 0 es = Inr u"
  shows "NUL \<notin> set u"
proof -
  obtain ts where ts: "list_all2 (\<lambda>(n, v) t. json_elem P Strict True 0 n v = Inr t) es ts" "u = comma_list ts"
    using json_fields_joined [OF assms(2)] by blast
  have "NUL \<notin> set t" if t: "t \<in> set ts" for t
  proof -
    obtain m v where e: "(m, v) \<in> set es" "json_elem P Strict True 0 m v = Inr t"
      using partner [OF ts(1) t] by blast
    then obtain x where "json_elem P Strict False 0 m v = Inr x" "t = quoted (escape m False) @ '' : '' @ x"
      using assms(1) json_named [of v P Strict 0 m] by (auto simp: res_simps)
    then show ?thesis using assms(1) [OF e(1)] escape_no_NUL by (auto simp: clean_def)
  qed
  then show ?thesis unfolding ts(2) by (rule comma_no_NUL)
qed

lemma items_clean:
  assumes "\<And>m v. (m, v) \<in> set es \<Longrightarrow> clean P v" and "json_items P Strict 0 es = Inr u"
  shows "NUL \<notin> set u"
proof -
  obtain ts where ts: "list_all2 (\<lambda>(n, v) t. json_elem P Strict False 0 n v = Inr t) es ts" "u = comma_list ts"
    using json_items_joined [OF assms(2)] by blast
  have "NUL \<notin> set t" if "t \<in> set ts" for t
    using partner [OF ts(1) that] assms(1) unfolding clean_def by blast
  then show ?thesis unfolding ts(2) by (rule comma_no_NUL)
qed

lemma scalar_clean:
  assumes "value_type v \<notin> {Object, Array, CodeWScope}" and "json_safe P rv v"
  shows "clean P v"
  using assms
proof (cases v)
  case (VDouble d)
  then show ?thesis using assms(2) real_no_NUL by (auto simp: clean_def json_elem.simps)
next
  case (VRegEx x opts)
  have "\<not> is_alpha NUL" by (simp add: is_alpha_def)
  then have "NUL \<notin> set opts" using assms(2) VRegEx by (auto simp: list_all_iff)
  then show ?thesis using VRegEx escape_no_NUL by (simp add: clean_def json_elem.simps)
qed (auto simp: clean_def json_elem.simps escape_no_NUL hex_no_NUL base64_no_NUL oid_str_def show_hex2_def)

lemma value_clean: "json_safe P rv v \<Longrightarrow> clean P v"
proof (induction v rule: bson_value_induct)
  case (scalar v)
  then show ?case by (rule scalar_clean)
next
  case (object es)
  have v: "clean P v \<and> v \<noteq> VUndefined" if "(m, v) \<in> set es" for m v
    using object that json_safe_defined by auto
  show ?case
    unfolding clean_def
  proof (intro allI impI)
    fix m t assume t: "json_elem P Strict False 0 m (VObject es) = Inr t"
    obtain u where "es \<noteq> [] \<Longrightarrow> json_fields P Strict 0 es = Inr u" "t = (if es = [] then ''{}'' else ''{ '' @ u @ '' }'')"
      using t by (cases es) (auto simp: json_elem.simps res_simps)
    then show "NUL \<notin> set t" using fields_clean [OF v] by auto
  qed
next
  case (array es)
  have v: "clean P v" if "(m, v) \<in> set es" for m v using array that by auto
  show ?case
    unfolding clean_def
  proof (intro allI impI)
    fix m t assume t: "json_elem P Strict False 0 m (VArray es) = Inr t"
    obtain u where "es \<noteq> [] \<Longrightarrow> json_items P Strict 0 es = Inr u" "t = (if es = [] then ''[]'' else ''[ '' @ u @ '' ]'')"
      using t by (cases es) (auto simp: json_elem.simps res_simps)
    then show "NUL \<notin> set t" using items_clean [OF v] by auto
  qed
qed simp

lemma text_clean:
  assumes "json_safe_doc P rv d" and "jsonString P Strict 0 d = Inr t"
  shows "NUL \<notin> set t \<and> t \<noteq> []"
proof -
  have v: "clean P v \<and> v \<noteq> VUndefined" if "(m, v) \<in> set d" for m v
    using assms(1) that value_clean json_safe_defined by (auto simp: json_safe_doc_def)
  show ?thesis
    using assms(2) fields_clean [OF v] by (auto simp: jsonString_def res_simps split: if_splits)
qed

section \<open>Reading back what was written\<close>

lemma obj_run:
  assumes inv: "builder_inv ob" and off: "ob_offset ob = 0" "ob_owned ob" and fields: "fields_of ob = map Some (enc_elems d)"
    and len: "length (contents (ob_b ob)) + 1 \<le> 32 * 1024 * 1024" and "int (length (enc_doc d)) \<le> BSONObjMaxInternalSize"
  shows "obj ob = Inr (enc_doc d)"
proof -
  obtain ob2 where ob2: "ob_done ob = Inr ob2" "ob_offset ob2 = 0" "contents (ob_b ob2) = map Some (enc_doc d)"
    using ob_done_run [OF inv fields len] off by auto
  have "built ob2 = Inr (enc_doc d)" using built_run [of ob2 "[]"] ob2 by simp
  then show ?thesis using ob2(1) off sized_init assms(6) by (simp add: obj_def)
qed

lemma fromjson_reads:
  assumes safe: "json_safe_doc P rv d" and fits: "int (length (enc_doc d)) \<le> BSONObjMaxInternalSize"
    and t: "jsonString P Strict 0 d = Inr t"
  shows "fromjson rv t = Inr (enc_doc d)"
proof -
  have c: "cstr t = t" "t \<noteq> []" using text_clean [OF safe t] by simp_all
  have "int (length (enc_elem e)) \<le> BSONObjMaxInternalSize" if "e \<in> set d" for e
    using enc_elem_le_doc [OF that] fits by simp
  then have b: "builds (doc_events d) (enc_elems d)" by (intro builds_fields value_builds)
  obtain ob0 where ob0: "new_builder 512 = Inr ob0" "builder_inv ob0" "ob_offset ob0 = 0" "ob_owned ob0"
      "length (contents (ob_b ob0)) = 4" "fields_of ob0 = []"
    using new_builder_run [of 512] by auto
  obtain ob1 where ob1: "run_events (doc_events d) [ob0] = Inr [ob1]" "built_on ob0 (enc_elems d) ob1"
    using buildsD [OF b ob0(2), of "[]"] ob0(5) fits by auto
  have "fields_of ob1 = map Some (enc_elems d)"
    using ob1(2) ob0(3,5,6) by (simp add: built_on_def fields_of_def)
  then have "obj ob1 = Inr (enc_doc d)"
    using ob1(2) ob0(3-5) fits by (intro obj_run) (simp_all add: built_on_def)
  then have pop: "pop_builder [ob1] = Inr ([], enc_doc d)"
    using ob1(2) ob0(4) by (simp add: pop_builder_def built_on_def)
  have "run_events (Push Object '''' # doc_events d) [] = Inr [ob1]"
    using ob0(1) ob1(1) by (simp add: run_event_def push_sub_def)
  then show ?thesis
    using c text_reads [OF safe t] pop by (simp add: fromjson_def skip_ws_def)
qed

section \<open>Properties\<close>


definition demo_json :: doc where
  "demo_json = [(''a'', VString [CHR ''x'', CHR 0x22, CHR 0x0A]),
     (''o'', VObject [(''t'', VBool True), (''id'', VOID ''0123456789ab'')]),
     (''r'', VArray [(''0'', VNull), (''1'', VBinData 5 ''data'')])]"

lemma demo_json_text:
  "jsonString P Strict 0 demo_json =
   Inr (''{ '' @ quoted ''a'' @ '' : '' @ quoted [CHR ''x'', CHR 0x5C, CHR 0x22, CHR 0x5C, CHR ''n''] @ '', '' @
     quoted ''o'' @ '' : { '' @ quoted ''t'' @ '' : true, '' @ quoted ''id'' @ '' : { '' @ quoted ''$oid'' @ '' : '' @
     quoted ''303132333435363738396162'' @ '' } }, '' @
     quoted ''r'' @ '' : [ null, { '' @ quoted ''$binary'' @ '' : '' @ quoted ''ZGF0YQ=='' @ '', '' @
     quoted ''$type'' @ '' : '' @ quoted ''05'' @ '' } ] }'')"
proof -
  have "oid_str ''0123456789ab'' = ''303132333435363738396162''" "base64_encode ''data'' = ''ZGF0YQ==''"
      "show_hex2 5 = ''05''" by code_simp+
  moreover have "escape ''a'' False = ''a''" "escape ''o'' False = ''o''" "escape ''t'' False = ''t''"
      "escape ''id'' False = ''id''" "escape ''r'' False = ''r''"
      "escape [CHR ''x'', CHR 0x22, CHR 0x0A] False = [CHR ''x'', CHR 0x5C, CHR 0x22, CHR 0x5C, CHR ''n'']" by code_simp+
  ultimately show ?thesis
    by (simp add: demo_json_def jsonString_def json_elem.simps deeper_def)
qed


text \<open>
  \<open>jsonString\<close> is not injective: the keys that sort before and after all others are written as
  objects, which is how the reader takes them.
\<close>

theorem json_keys_become_objects:
  assumes "pr_double P (dbl_of_int 1) = ''1''"
  shows "jsonString P Strict 0 [(n, VMinKey)] = jsonString P Strict 0 [(n, VObject [(''$minKey'', VInt 1)])]"
    and "jsonString P Strict 0 [(n, VMaxKey)] = jsonString P Strict 0 [(n, VObject [(''$maxKey'', VInt 1)])]"
proof -
  have "escape ''$minKey'' False = ''$minKey''" "escape ''$maxKey'' False = ''$maxKey''" by code_simp+
  then show "jsonString P Strict 0 [(n, VMinKey)] = jsonString P Strict 0 [(n, VObject [(''$minKey'', VInt 1)])]"
    and "jsonString P Strict 0 [(n, VMaxKey)] = jsonString P Strict 0 [(n, VObject [(''$maxKey'', VInt 1)])]"
    using assms by (simp_all add: jsonString_def json_elem.simps deeper_def)
qed

text \<open>
  The date of a text is its digits modulo \<open>2 ^ 64\<close>: a number too large for a date is not
  refused.
\<close>

theorem json_date_wraps:
  assumes "delimiter c"
  shows "date_num (show_nat (2 ^ 64 + unat d) @ c # r) = ([], Inr (Some (d, c # r)))"
proof -
  let ?n = "2 ^ 64 + unat d"
  obtain e u where e: "show_nat ?n = e # u" "is_digit e" by (rule first_digit)
  have span: "takeWhile is_digit (show_nat ?n @ c # r) = show_nat ?n" "dropWhile is_digit (show_nat ?n @ c # r) = c # r"
    using assms by (simp_all add: digits_span show_nat_digits)
  have "date_num (show_nat ?n @ c # r) = ([], Inr (let ds = takeWhile is_digit (show_nat ?n @ c # r)
       in if ds = [] then None else Some (word_of_nat (digits_val 0 ds), dropWhile is_digit (show_nat ?n @ c # r))))"
    by (simp only: date_num_def e(1) append_Cons token_here [OF digit_not_space [OF e(2)]])
  moreover have "(word_of_nat ?n :: 64 word) = d"
  proof -
    have z: "(2 ^ 64 :: 64 word) = 0" by transfer simp
    have "(word_of_nat ?n :: 64 word) = 2 ^ 64 + word_of_nat (unat d)" by (simp only: of_nat_add of_nat_power of_nat_numeral)
    then show ?thesis unfolding z by simp
  qed
  ultimately show ?thesis unfolding span by (simp only: Let_def digits_val_show_nat show_nat_not_Nil if_False)
qed

end
