(* ===== verification/JsonTotal.thy ===== *)
theory JsonTotal
  imports JsonReader
begin

text \<open>
  The bounds of the grammar's recursion are enough: a production never gives back more text
  than it got, each nested value and each further member costs at least one character, so the
  parse of a text of length \<open>n\<close> never meets the bound \<open>n\<close>.
\<close>

section \<open>Productions give back a rest\<close>

definition shrinks :: "'a production \<Rightarrow> bool" where
  "shrinks p \<longleftrightarrow> (\<forall>s es a r. p s = (es, Inr (Some (a, r))) \<longrightarrow> length r \<le> length s)"

named_theorems shrink_intros \<open>productions that shrink\<close>

lemma shrinksD: "shrinks p \<Longrightarrow> p s = (es, Inr (Some (a, r))) \<Longrightarrow> length r \<le> length s"
  by (auto simp: shrinks_def)

lemma shrinks_yields [shrink_intros]: "shrinks (yields a)"
  by (simp add: shrinks_def yields_def)

lemma shrinks_emit [shrink_intros]: "shrinks (emit e)"
  by (simp add: shrinks_def emit_def)

lemma shrinks_throws [shrink_intros]: "shrinks (throws e)"
  by (simp add: shrinks_def throws_def)

lemma then_match:
  "then_p p q s = (es, Inr (Some (b, r))) \<longleftrightarrow>
   (\<exists>es1 a t es2. p s = (es1, Inr (Some (a, t))) \<and> q a t = (es2, Inr (Some (b, r))) \<and> es = es1 @ es2)"
  by (auto simp: then_p_def apfst_def map_prod_def split: prod.splits sum.splits option.splits)

lemma or_match:
  "or_p p q s = (es, Inr (Some (b, r))) \<Longrightarrow>
   p s = (es, Inr (Some (b, r))) \<or> (\<exists>es2. q s = (es2, Inr (Some (b, r))))"
  by (auto simp: or_p_def apfst_def map_prod_def split: prod.splits sum.splits option.splits)

lemma shrinks_then [shrink_intros]: "shrinks p \<Longrightarrow> (\<And>a. shrinks (q a)) \<Longrightarrow> shrinks (then_p p q)"
  unfolding shrinks_def then_match by (meson le_trans)

lemma shrinks_or [shrink_intros]: "shrinks p \<Longrightarrow> shrinks q \<Longrightarrow> shrinks (or_p p q)"
  unfolding shrinks_def using or_match by meson

lemma shrinks_maybe [shrink_intros]: "shrinks p \<Longrightarrow> shrinks (maybe_p p)"
  unfolding shrinks_def maybe_p_def by (fastforce split: prod.splits sum.splits option.splits)

lemma alt_Cons: "alt (p # ps) = or_p p (alt ps)"
  by (simp add: fun_eq_iff)

lemma shrinks_alt [shrink_intros]: "(\<And>p. p \<in> set ps \<Longrightarrow> shrinks p) \<Longrightarrow> shrinks (alt ps)"
proof (induction ps)
  case Nil
  show ?case by (simp add: shrinks_def)
next
  case (Cons p ps)
  show ?case unfolding alt_Cons by (rule shrinks_or) (use Cons in auto)
qed

lemma shrinks_token: "(\<And>s a r. f s = Some (a, r) \<Longrightarrow> length r \<le> length s) \<Longrightarrow> shrinks (token f)"
  unfolding shrinks_def
proof (intro allI impI)
  fix s es a r
  assume f: "\<And>s a r. f s = Some (a, r) \<Longrightarrow> length r \<le> length s" and t: "token f s = (es, Inr (Some (a, r)))"
  from t have "f (skip_ws s) = Some (a, r)" by (simp only: token_def prod.inject sum.inject)
  then have "length r \<le> length (skip_ws s)" by (rule f)
  then show "length r \<le> length s" using length_dropWhile_le [of is_space s] by (simp add: skip_ws_def)
qed

lemma prefix_shrinks: "prefix_of w s = Some (u, r) \<Longrightarrow> length r + length w = length s"
proof -
  assume "prefix_of w s = Some (u, r)"
  then have "take (length w) s = w" "r = drop (length w) s" by (auto simp: prefix_of_def split: if_splits)
  then have "s = w @ r" by (metis append_take_drop_id)
  then show ?thesis by simp
qed

lemma shrinks_lit [shrink_intros]: "shrinks (lit w)"
  unfolding lit_def by (rule shrinks_token) (use prefix_shrinks in fastforce)

text \<open>A literal takes at least its own length.\<close>

lemma lit_takes: "lit w s = (es, Inr (Some (u, r))) \<Longrightarrow> length r + length w \<le> length s"
  using prefix_shrinks [of w "skip_ws s" u r] length_dropWhile_le [of is_space s]
  by (auto simp: lit_def token_def skip_ws_def)

lemma read_str_shrinks: "read_str q acc s = Some (a, r) \<Longrightarrow> length r \<le> length s"
proof (induction q acc s rule: read_str.induct)
  case (1 q acc s)
  show ?case
  proof (cases "str_step q s")
    case None
    then show ?thesis using "1.prems" by (subst (asm) read_str.simps) (auto split: list.splits if_splits)
  next
    case (Some y)
    obtain out rest where y: "y = (out, rest)" by (cases y)
    have "length rest < length s" "read_str q (acc @ out) rest = Some (a, r)"
      using "1.prems" Some y by (subst (asm) read_str.simps, simp split: if_splits)+
    then show ?thesis using "1.IH" [OF Some [unfolded y]] by fastforce
  qed
qed

lemma read_regex_shrinks: "read_regex acc s = Some (a, r) \<Longrightarrow> length r \<le> length s"
proof (induction acc s rule: read_regex.induct)
  case (1 acc s)
  show ?case
  proof (cases "regex_step s")
    case None
    then show ?thesis using "1.prems" by (subst (asm) read_regex.simps) (auto split: list.splits if_splits)
  next
    case (Some y)
    obtain out rest where y: "y = (out, rest)" by (cases y)
    have "length rest < length s" "read_regex (acc @ out) rest = Some (a, r)"
      using "1.prems" Some y by (subst (asm) read_regex.simps, simp split: if_splits)+
    then show ?thesis using "1.IH" [OF Some [unfolded y]] by fastforce
  qed
qed

lemma quoted_shrinks: "quoted_by q s = Some (a, r) \<Longrightarrow> length r \<le> length s"
  using read_str_shrinks by (fastforce simp: quoted_by_def split: list.splits if_splits)

lemma shrinks_strings [shrink_intros]: "shrinks str_p" "shrinks singleQuoteStr"
  unfolding str_p_def singleQuoteStr_def by (rule shrinks_token, rule quoted_shrinks, assumption)+

lemma opt_sign_shrinks: "length (snd (opt_sign s)) \<le> length s"
  by (auto simp: opt_sign_def split: list.splits)

lemma exponent_shrinks: "exponent s = Some (x, r) \<Longrightarrow> length r \<le> length s"
proof (cases s)
  case (Cons c cs)
  assume e: "exponent s = Some (x, r)"
  have "length (dropWhile is_digit (snd (opt_sign cs))) \<le> length cs"
    using length_dropWhile_le [of is_digit "snd (opt_sign cs)"] opt_sign_shrinks [of cs] by simp
  then show ?thesis using e Cons by (auto simp: exponent_def Let_def split: prod.splits if_splits)
qed (simp add: exponent_def)

lemma real_text_shrinks: "real_text s = Some (x, r) \<Longrightarrow> length r \<le> length s"
proof -
  assume e: "real_text s = Some (x, r)"
  obtain sg t where o': "opt_sign s = (sg, t)" by (cases "opt_sign s")
  have t: "length (dropWhile is_digit t) \<le> length s"
    using length_dropWhile_le [of is_digit t] opt_sign_shrinks [of s] o' by simp
  obtain c cs where c: "dropWhile is_digit t = c # cs"
    using e o' by (cases "dropWhile is_digit t") (auto simp: real_text_def Let_def)
  have "length (dropWhile is_digit cs) \<le> length cs" by (rule length_dropWhile_le)
  then show ?thesis
    using e o' c t exponent_shrinks [of "c # cs"] exponent_shrinks [of "dropWhile is_digit cs"]
    by (fastforce simp: real_text_def Let_def split: if_splits option.splits)
qed

lemma shrinks_numbers [shrink_intros]: "shrinks (strict_real rv)" "shrinks long_long_p" "shrinks date_num"
proof -
  show "shrinks (strict_real rv)"
    unfolding strict_real_def
    by (rule shrinks_token) (use real_text_shrinks in \<open>fastforce split: option.splits\<close>)
  show "shrinks long_long_p"
    unfolding long_long_p_def
  proof (rule shrinks_token)
    fix s a r
    assume "(let (sg, t) = opt_sign s; ds = take 19 (takeWhile is_digit t);
         x = (if sg = ''-'' then - int (digits_val 0 ds) else int (digits_val 0 ds))
      in if ds = [] \<or> x < - (2 ^ 63) \<or> 2 ^ 63 \<le> x then None
         else Some (word_of_int x, drop (length ds) t)) = Some (a, r)"
    then have "length r \<le> length (snd (opt_sign s))"
      by (auto simp: Let_def split: prod.splits if_splits)
    then show "length r \<le> length s" using opt_sign_shrinks [of s] by simp
  qed
  show "shrinks date_num"
    unfolding date_num_def
    by (rule shrinks_token) (use length_dropWhile_le in \<open>auto simp: Let_def split: if_splits\<close>)
qed

lemma shrinks_words [shrink_intros]: "shrinks quotedOid" "shrinks quotedType" "shrinks quotedOptions" "shrinks unquotedFieldName"
proof -
  show "shrinks quotedOid"
    unfolding quotedOid_def
    by (rule shrinks_token) (auto simp: read_quotedOid_def split: list.splits if_splits sum.splits)
  show "shrinks quotedType"
    unfolding quotedType_def
    by (rule shrinks_token) (auto split: list.splits if_splits sum.splits)
  show "shrinks quotedOptions"
    unfolding quotedOptions_def
  proof (rule shrinks_token)
    fix s a r
    assume "(case s of c # cs \<Rightarrow> if c = CHR 0x22
        then map_option (\<lambda>(_, r). (takeWhile is_alpha cs, r)) (prefix_of [CHR 0x22] (dropWhile is_alpha cs)) else None
      | [] \<Rightarrow> None) = Some (a, r)"
    then obtain c cs u where "s = c # cs" "prefix_of [CHR 0x22] (dropWhile is_alpha cs) = Some (u, r)"
      by (auto split: list.splits if_splits)
    then show "length r \<le> length s"
      using prefix_shrinks [of "[CHR 0x22]" "dropWhile is_alpha cs" u r] length_dropWhile_le [of is_alpha cs] by simp
  qed
  show "shrinks unquotedFieldName"
    unfolding unquotedFieldName_def
    by (rule shrinks_token) (auto simp: Let_def le_SucI length_dropWhile_le split: list.splits if_splits)
qed

lemma shrinks_binary [shrink_intros]: "shrinks quotedBinary"
  unfolding shrinks_def
proof (intro allI impI)
  fix s es a r
  assume q: "quotedBinary s = (es, Inr (Some (a, r)))"
  obtain c cs where c: "skip_ws s = c # cs" using q by (auto simp: quotedBinary_def split: list.splits)
  obtain x t where t: "base64_text cs = (x, t)" by (cases "base64_text cs")
  have "length t \<le> length cs"
    using t length_dropWhile_le [of "\<lambda>c. c = CHR ''=''" "dropWhile base64_char cs"] length_dropWhile_le [of base64_char cs]
    by (auto simp: base64_text_def Let_def)
  moreover have "length r \<le> length t"
    using q c t prefix_shrinks [of "[CHR 0x22]" t "()" r]
    by (auto simp: quotedBinary_def split: if_splits sum.splits)
  moreover have "length (skip_ws s) \<le> length s" by (simp add: skip_ws_def length_dropWhile_le)
  ultimately show "length r \<le> length s" using c by simp
qed

lemma shrinks_values [shrink_intros]: "shrinks date_p" "shrinks oid_p" "shrinks bindata" "shrinks dbref"
  unfolding date_p_def oid_p_def bindata_def dbref_def by (intro shrink_intros)+

lemma shrinks_regex [shrink_intros]: "shrinks regex_p"
proof -
  have "shrinks (token (\<lambda>s. case s of c # cs \<Rightarrow> if c = CHR ''/''
           then map_option (\<lambda>(r, t). (VRegEx r (takeWhile is_flag t), dropWhile is_flag t)) (read_regex '''' cs)
           else None | [] \<Rightarrow> None))"
  proof (rule shrinks_token)
    fix s a r
    assume "(case s of c # cs \<Rightarrow> if c = CHR ''/''
           then map_option (\<lambda>(r, t). (VRegEx r (takeWhile is_flag t), dropWhile is_flag t)) (read_regex '''' cs)
           else None | [] \<Rightarrow> None) = Some (a, r)"
    then obtain c cs x t where "s = c # cs" "read_regex '''' cs = Some (x, t)" "r = dropWhile is_flag t"
      by (auto split: list.splits if_splits)
    then show "length r \<le> length s"
      using read_regex_shrinks [of "''''" cs x t] length_dropWhile_le [of is_flag t] by simp
  qed
  then show ?thesis unfolding regex_p_def by (intro shrink_intros)
qed

lemma shrinks_case_sum [shrink_intros]:
  "(\<And>e. shrinks (f e)) \<Longrightarrow> (\<And>n. shrinks (g n)) \<Longrightarrow> shrinks (case x of Inl e \<Rightarrow> f e | Inr n \<Rightarrow> g n)"
  by (cases x) auto

lemma shrinks_if [shrink_intros]: "shrinks p \<Longrightarrow> shrinks q \<Longrightarrow> shrinks (if b then p else q)"
  by simp

lemma shrinks_fieldName [shrink_intros]: "shrinks fieldName_p"
  unfolding fieldName_p_def by (rule shrinks_alt) (auto intro!: shrink_intros)

section \<open>Productions that do not meet a bound\<close>

text \<open>\<open>within n p\<close>: on a text of at most \<open>n\<close> characters \<open>p\<close> does not run out of its bound.\<close>

definition within :: "nat \<Rightarrow> 'a production \<Rightarrow> bool" where
  "within n p \<longleftrightarrow> (\<forall>s. length s \<le> n \<longrightarrow> snd (p s) \<noteq> Inl UB)"

named_theorems within_intros \<open>productions within a bound\<close>

lemma within_yields [within_intros]: "within n (yields a)"
  by (simp add: within_def yields_def)

lemma within_emit [within_intros]: "within n (emit e)"
  by (simp add: within_def emit_def)

lemma within_throws [within_intros]: "e \<noteq> UB \<Longrightarrow> within n (throws e)"
  by (simp add: within_def throws_def)

lemma within_token: "within n (token f)"
  by (simp add: within_def token_def)

lemma within_lit [within_intros]: "within n (lit w)"
  by (simp add: lit_def within_token)

lemma within_mono: "within n p \<Longrightarrow> m \<le> n \<Longrightarrow> within m p"
  by (simp add: within_def)

lemma within_then [within_intros]:
  assumes p: "within n p" "shrinks p" and q: "\<And>a. within n (q a)"
  shows "within n (then_p p q)"
  unfolding within_def
proof (intro allI impI)
  fix s :: bytes assume s: "length s \<le> n"
  show "snd (then_p p q s) \<noteq> Inl UB"
  proof (cases "snd (p s)")
    case (Inl e)
    then show ?thesis using p(1) s by (cases "p s") (auto simp: then_p_def within_def)
  next
    case (Inr o')
    show ?thesis
    proof (cases o')
      case None
      then show ?thesis using Inr by (cases "p s") (simp add: then_p_def)
    next
      case (Some x)
      obtain es a t where t: "p s = (es, Inr (Some (a, t)))" using Inr Some by (cases "p s"; cases x) auto
      then have "length t \<le> n" using shrinksD [OF p(2)] s by fastforce
      then show ?thesis using t q by (simp add: then_p_def within_def)
    qed
  qed
qed

text \<open>After a literal the bound is smaller.\<close>

lemma within_after_lit [within_intros]:
  assumes "\<And>u. within (n - length w) (q u)"
  shows "within n (then_p (lit w) q)"
  unfolding within_def
proof (intro allI impI)
  fix s :: bytes assume s: "length s \<le> n"
  show "snd (then_p (lit w) q s) \<noteq> Inl UB"
  proof (cases "prefix_of w (skip_ws s)")
    case None
    then show ?thesis by (simp add: then_p_def lit_def token_def)
  next
    case (Some x)
    obtain u t where t: "lit w s = ([], Inr (Some (u, t)))" using Some by (cases x) (simp add: lit_def token_def)
    then have "length t \<le> n - length w" using lit_takes [OF t] s by simp
    then show ?thesis using t assms by (simp add: then_p_def within_def)
  qed
qed

lemma within_or [within_intros]: "within n p \<Longrightarrow> within n q \<Longrightarrow> within n (or_p p q)"
  by (auto simp: within_def or_p_def split: prod.split sum.split option.split)

lemma within_maybe [within_intros]: "within n p \<Longrightarrow> within n (maybe_p p)"
  by (auto simp: within_def maybe_p_def split: prod.split sum.split option.split)

lemma within_alt [within_intros]: "(\<And>p. p \<in> set ps \<Longrightarrow> within n p) \<Longrightarrow> within n (alt ps)"
proof (induction ps)
  case Nil
  show ?case by (simp add: within_def)
next
  case (Cons p ps)
  show ?case unfolding alt_Cons by (rule within_or) (use Cons in auto)
qed

lemma within_words [within_intros]:
  "within n str_p" "within n singleQuoteStr" "within n (strict_real rv)" "within n long_long_p" "within n date_num"
  "within n quotedOid" "within n quotedType" "within n quotedOptions" "within n unquotedFieldName"
  by (simp_all add: str_p_def singleQuoteStr_def strict_real_def long_long_p_def date_num_def quotedOid_def quotedType_def
      quotedOptions_def unquotedFieldName_def within_token)

lemma within_binary [within_intros]: "within n quotedBinary"
  by (auto simp: within_def quotedBinary_def base64_decode_def guard_def Let_def split: list.split prod.split)

lemma within_values [within_intros]: "within n date_p" "within n oid_p" "within n bindata" "within n dbref" "within n regex_p"
  unfolding date_p_def oid_p_def bindata_def dbref_def regex_p_def
  by (intro within_or within_then within_maybe within_words within_lit within_yields within_binary within_token shrink_intros)+

lemma within_fieldName [within_intros]: "within n fieldName_p"
  unfolding fieldName_p_def fieldNameEnd_def
  by (rule within_alt) (auto intro!: within_then within_words within_yields within_throws shrink_intros)

section \<open>The recursion\<close>

lemma shrinks_more: "(\<And>i. shrinks (item i)) \<Longrightarrow> shrinks (more_p k item i)"
  by (induction k arbitrary: i) (auto intro!: shrink_intros)

lemma shrinks_list [shrink_intros]: "(\<And>i. shrinks (item i)) \<Longrightarrow> shrinks (list_p k item)"
  unfolding list_p_def by (intro shrink_intros shrinks_more)

lemma shrinks_members: "(\<And>n. shrinks (v n)) \<Longrightarrow> shrinks (member_p v)" "(\<And>n. shrinks (v n)) \<Longrightarrow> shrinks (array_p v k m)"
  "(\<And>n. shrinks (v n)) \<Longrightarrow> shrinks (object_p v k m)"
  unfolding member_p_def array_p_def object_p_def by (intro shrink_intros | assumption)+

lemma shrinks_value: "shrinks (value_p k rv n)"
proof (induction k arbitrary: n)
  case 0
  show ?case by (simp add: shrink_intros)
next
  case (Suc k)
  show ?case
    unfolding value_p.simps
    by (rule shrinks_alt) (use Suc in \<open>auto simp: value_alts_def intro!: shrink_intros shrinks_members\<close>)
qed

lemma within_more:
  assumes "\<And>i. within n (item i)" and s: "\<And>i. shrinks (item i)"
  shows "n < k \<Longrightarrow> within n (more_p k item i)"
  using assms(1)
proof (induction k arbitrary: n i)
  case (Suc k)
  have first: "within n (maybe_p (then_p (lit '','') (\<lambda>_. item i)))"
    by (intro within_maybe within_then within_lit shrink_intros Suc.prems(2))
  show ?case
    unfolding within_def
  proof (intro allI impI)
    fix t :: bytes assume t: "length t \<le> n"
    let ?p = "then_p (lit '','') (\<lambda>_. item i)"
    show "snd (more_p (Suc k) item i t) \<noteq> Inl UB"
    proof (cases "snd (?p t)")
      case (Inl e)
      then have "e \<noteq> UB" using first t by (cases "?p t") (auto simp: within_def maybe_p_def)
      then show ?thesis using Inl by (cases "?p t") (simp add: then_p_def [of "maybe_p _"] maybe_p_def)
    next
      case (Inr o')
      show ?thesis
      proof (cases o')
        case None
        then show ?thesis using Inr by (cases "?p t") (simp add: then_p_def [of "maybe_p _"] maybe_p_def yields_def)
      next
        case (Some x)
        obtain es a r where r: "?p t = (es, Inr (Some (a, r)))" using Inr Some by (cases "?p t"; cases x) auto
        then obtain es1 u t1 where t1: "lit '','' t = (es1, Inr (Some (u, t1)))" "item i t1 = (snd (es1, es), Inr (Some (a, r)))"
          by (auto simp: then_match lit_def token_def)
        have "length r \<le> length t1" using shrinksD [OF s t1(2)] .
        moreover have "length t1 < length t" using lit_takes [OF t1(1)] by simp
        ultimately have l: "length r \<le> n - 1" "0 < n" using t by auto
        have "within (n - 1) (more_p k item (Suc i))"
          using Suc.prems(1) l(2) by (intro Suc.IH within_mono [OF Suc.prems(2)]) simp_all
        then have "snd (more_p k item (Suc i) r) \<noteq> Inl UB" using l(1) by (simp add: within_def)
        then show ?thesis using r by (simp add: then_p_def [of "maybe_p _"] maybe_p_def)
      qed
    qed
  qed
qed simp

lemma within_list:
  assumes "\<And>i. within n (item i)" and "\<And>i. shrinks (item i)" and "n < k"
  shows "within n (list_p k item)"
  unfolding list_p_def using assms by (intro within_then within_more) auto

lemma within_object:
  assumes v: "\<And>n. within (m - 1) (v n)" "\<And>n. shrinks (v n)" and k: "m - 1 < k"
  shows "within m (object_p v k n)" "within m (array_p v k n)"
proof -
  have "within (m - 1) (member_p v)"
    unfolding member_p_def by (intro within_then within_fieldName within_lit shrink_intros v)
  then show "within m (object_p v k n)" "within m (array_p v k n)"
    unfolding object_p_def array_p_def using v k
    by (intro within_after_lit within_then within_emit within_maybe within_list within_lit shrink_intros shrinks_members; simp)+
qed

lemma within_value: "m < k \<Longrightarrow> within m (value_p k rv n)"
proof (induction k arbitrary: m n)
  case (Suc k)
  have nested: "within m (object_p (value_p k rv) (Suc k) n) \<and> within m (array_p (value_p k rv) (Suc k) n)"
  proof (cases "m = 0")
      case True
      then show ?thesis
        by (simp_all add: within_def object_p_def array_p_def then_p_def lit_def token_def skip_ws_def prefix_of_def)
    next
      case False
      then show ?thesis
        using Suc.prems by (intro conjI within_object shrinks_value Suc.IH; simp)
  qed
  show ?case
    unfolding value_p.simps value_alts_def
    by (rule within_alt) (auto intro!: within_then within_intros nested [THEN conjunct1] nested [THEN conjunct2] shrink_intros shrinks_members shrinks_value)
qed simp

section \<open>Properties\<close>

text \<open>
  C36: Parsing a text ends: the recursion of the grammar, bounded by the length of the text,
  never runs out of its bound, whatever the text.
\<close>

theorem json_parse_ends: "snd (json_text rv s) \<noteq> Inl UB"
proof -
  have "within (length s) (object_p (value_p (length s) rv) (Suc (length s)) '''')"
  proof (cases "length s = 0")
    case True
    then show ?thesis
      by (simp add: within_def object_p_def then_p_def lit_def token_def skip_ws_def prefix_of_def)
  next
    case False
    then show ?thesis by (intro within_object within_value shrinks_value) simp_all
  qed
  then show ?thesis by (simp add: within_def json_text_def)
qed

end
