(* ===== verification/MongoR.thy ===== *)
theory MongoR
  imports CommandSpec JsonBuild JsonTotal
begin

text \<open>
  The R binding (src/mongoR.cc): the functions R calls, from an external pointer that holds a
  connection to the values R gets back. The TCP connection, the printing of doubles and the
  arithmetic of reading one (\<open>rv\<close>, JsonReader) are arguments of the definitions.
\<close>

section \<open>Values and outcomes\<close>

text \<open>
  \<open>mongoRinsert\<close> returns a bare \<open>CHARSXP\<close> (\<open>RChar\<close>) for an error, not a character vector.
  \<open>RError\<close> is R's \<open>error()\<close>, \<open>ProcessExit\<close> the call of \<open>exit\<close>; \<open>Terminated\<close> is undefined
  behaviour, or an exception that leaves the \<open>extern "C"\<close> function.
\<close>

datatype r_value = RNull | RInt int | RStrings "bytes list" | RChar bytes

datatype r_outcome = Value r_value | RError bytes | ProcessExit | Terminated mongo_error

text \<open>\<open>catch ( std::exception& e )\<close> gives \<open>ScalarInteger(0)\<close>.\<close>

definition r_caught :: "mongo_error \<Rightarrow> r_outcome" where
  "r_caught err = (if is_std_exception err then Value (RInt 0) else Terminated err)"

section \<open>The handle\<close>

type_synonym handle = "connection option"

text \<open>
  \<open>open_port\<close> stands for resolving and connecting: \<open>None\<close> is failure. A new connection does not
  reconnect and has no replica set.
\<close>

definition mongoRconnect :: "(host_and_port \<Rightarrow> port option) \<Rightarrow> bytes \<Rightarrow> bytes \<Rightarrow> r_outcome \<times> handle" where
  "mongoRconnect open_port host port =
     (case host_and_port_new (cstr host @ CHR '':'' # cstr port) of
        Inl err \<Rightarrow> (Terminated err, None)
      | Inr hp \<Rightarrow>
          (case open_port hp of
             None \<Rightarrow> (ProcessExit, None)
           | Some p \<Rightarrow> (Value RNull, Some \<lparr>cn_port = p, cn_failed = False, cn_clientSet = False, cn_isntMaster = 0\<rparr>)))"

definition mongoRauthenticate :: "bytes \<Rightarrow> bytes \<Rightarrow> bytes \<Rightarrow> r_outcome" where
  "mongoRauthenticate dbname user password = Value RNull"

definition mongoRdisconnect :: "handle \<Rightarrow> r_outcome \<times> handle" where
  "mongoRdisconnect h =
     (case h of None \<Rightarrow> (RError ''conn==NULL'', None) | Some _ \<Rightarrow> (Value (RInt 1), None))"

section \<open>Query\<close>

text \<open>A row is what \<open>mkChar\<close> sees of \<open>next().toString().c_str()\<close>.\<close>

definition next_row :: "printers \<Rightarrow> (client, bytes) act" where
  "next_row P = bind_act cursor_next (\<lambda>o'. lift_act (bind_res (mem_toString P False False o') (\<lambda>t. Inr (cstr t))))"

fun row_loop :: "printers \<Rightarrow> nat \<Rightarrow> bytes list \<Rightarrow> client \<Rightarrow> (bytes list res \<times> client) option" where
  "row_loop P 0 rows s = None"
| "row_loop P (Suc n) rows s =
     (case cursor_more s of
        (Inl err, s) \<Rightarrow> Some (Inl err, s)
      | (Inr False, s) \<Rightarrow> Some (Inr rows, s)
      | (Inr True, s) \<Rightarrow>
          (case next_row P s of
             (Inl err, s) \<Rightarrow> Some (Inl err, s)
           | (Inr r, s) \<Rightarrow> row_loop P n (rows @ [r]) s))"

text \<open>
  The cursor is destroyed at the end of the \<open>try\<close> block. A query that could not be sent gives
  a null cursor, which the code dereferences. \<open>None\<close>: the fuel is used up.
\<close>

definition mongoRquery ::
  "printers \<Rightarrow> (bytes \<Rightarrow> (64 word) option) \<Rightarrow> nat \<Rightarrow> handle \<Rightarrow> bytes \<Rightarrow> bytes \<Rightarrow> (r_outcome \<times> handle) option" where
  "mongoRquery P rv fuel h collection query =
     (case h of
        None \<Rightarrow> Some (RError ''conn==NULL'', None)
      | Some c \<Rightarrow>
          (case fromjson rv (cstr query) of
             Inl err \<Rightarrow> Some (r_caught err, Some c)
           | Inr q \<Rightarrow>
               (case db_query (cstr collection) q 0 0 None 0 0 c of
                  (Inl err, c) \<Rightarrow> Some (r_caught err, Some c)
                | (Inr None, c) \<Rightarrow> Some (Terminated UB, Some c)
                | (Inr (Some cu), c) \<Rightarrow>
                    map_option (\<lambda>(r, s). (case r of Inl err \<Rightarrow> r_caught err | Inr rows \<Rightarrow> Value (RStrings rows),
                        Some (cursor_destroy s)))
                      (row_loop P fuel [] (cu, c)))))"

section \<open>Insert\<close>

text \<open>
  \<open>getLastErrorDetailed\<close> is called outside the \<open>try\<close> block. The text of the error object is
  taken from its fields (\<open>read_doc\<close>).
\<close>

definition mem_jsonString :: "printers \<Rightarrow> bytes \<Rightarrow> bytes res" where
  "mem_jsonString P mem =
     (case read_doc (Suc (length mem)) mem of
        None \<Rightarrow> Inl UB
      | Some r \<Rightarrow> bind_res r (jsonString P Strict 0))"

definition error_value :: "printers \<Rightarrow> bytes \<Rightarrow> r_value res" where
  "error_value P errObj =
     bind_res (bind_res (mem_field errObj ''code'') numberInt) (\<lambda>errCode.
       if errCode = 0 then Inr (RInt 1)
       else bind_res (mem_jsonString P errObj) (\<lambda>t. Inr (RChar (cstr t))))"

definition mongoRinsert :: "printers \<Rightarrow> (bytes \<Rightarrow> (64 word) option) \<Rightarrow> handle \<Rightarrow> bytes \<Rightarrow> bytes \<Rightarrow> r_outcome \<times> handle" where
  "mongoRinsert P rv h collection ins =
     (case h of
        None \<Rightarrow> (RError ''conn==NULL'', None)
      | Some c \<Rightarrow>
          (case bind_act (lift_act (fromjson rv (cstr ins))) (insert_one (cstr collection)) c of
             (Inl err, c) \<Rightarrow> (r_caught err, Some c)
           | (Inr _, c) \<Rightarrow>
               (case bind_act getLastErrorDetailed (\<lambda>errObj. lift_act (error_value P errObj)) c of
                  (Inl err, c) \<Rightarrow> (Terminated err, Some c)
                | (Inr v, c) \<Rightarrow> (Value v, Some c))))"

section \<open>Rows\<close>

lemma next_row_run:
  assumes "cursor_at (d # ds) bs s" and "expected (d # ds) bs s \<noteq> []"
  shows "\<exists>s'. next_row P s = (Inr (cstr (doc_toString P False False d)), s') \<and> cursor_at ds bs s' \<and>
    expected (d # ds) bs s = d # expected ds bs s'"
proof -
  obtain s' where s': "cursor_next s = (Inr (enc_doc d @ enc_docs ds), s')" "cursor_at ds bs s'"
      "expected (d # ds) bs s = d # expected ds bs s'"
    using next_run [OF assms] by blast
  have "fits d" using assms(1) by (cases s) simp
  then have "mem_toString P False False (enc_doc d @ enc_docs ds) = Inr (doc_toString P False False d)"
    by (intro log_text) (simp_all add: fits_def)
  then show ?thesis using s' by (simp add: next_row_def)
qed

lemma row_loop_run:
  "cursor_at ds bs s \<Longrightarrow> length (expected ds bs s) < fuel \<Longrightarrow>
   \<exists>s'. row_loop P fuel rows s =
     Some (Inr (rows @ map (\<lambda>d. cstr (doc_toString P False False d)) (expected ds bs s)), s')"
proof (induction fuel arbitrary: ds bs s rows)
  case (Suc fuel)
  obtain s1 ds1 bs1 where m: "cursor_more s = (Inr (expected ds bs s \<noteq> []), s1)" "cursor_at ds1 bs1 s1"
      "expected ds1 bs1 s1 = expected ds bs s" "expected ds bs s \<noteq> [] \<longrightarrow> ds1 \<noteq> []"
    using more_run [OF Suc.prems(1)] by blast
  show ?case
  proof (cases "expected ds bs s = []")
    case True
    then show ?thesis using m by auto
  next
    case False
    then obtain d ds2 where ds1: "ds1 = d # ds2" using m(4) by (cases ds1) auto
    have at1: "cursor_at (d # ds2) bs1 s1" and ex1: "expected (d # ds2) bs1 s1 = expected ds bs s"
      using m(2,3) ds1 by auto
    obtain s2 where n: "next_row P s1 = (Inr (cstr (doc_toString P False False d)), s2)" "cursor_at ds2 bs1 s2"
        "expected ds bs s = d # expected ds2 bs1 s2"
      using next_row_run [OF at1, of P] ex1 False by (auto simp del: cursor_at.simps expected.simps)
    show ?thesis
      using Suc.IH [OF n(2), of "rows @ [cstr (doc_toString P False False d)]"] Suc.prems(2) n m(1) False by auto
  qed
qed simp

section \<open>Inserting\<close>

lemma mem_jsonString_enc:
  assumes "fits r"
  shows "mem_jsonString P (enc_doc r) = jsonString P Strict 0 r"
proof -
  have "read_doc (Suc (length (enc_doc r))) (enc_doc r) = Some (Inr r)"
    by (rule read_doc_enc) (use assms in \<open>simp_all add: fits_def\<close>)
  then show ?thesis by (simp add: mem_jsonString_def)
qed

text \<open>What R sees of the reply to \<open>getlasterror\<close>.\<close>

definition insert_outcome :: "printers \<Rightarrow> doc \<Rightarrow> r_outcome" where
  "insert_outcome P r =
     (case int_of (getField ''code'' r) of
        Inl err \<Rightarrow> Terminated err
      | Inr code \<Rightarrow>
          if code = 0 then Value (RInt 1)
          else (case jsonString P Strict 0 r of Inl err \<Rightarrow> Terminated err | Inr t \<Rightarrow> Value (RChar (cstr t))))"

lemma error_value_enc:
  assumes "fits r"
  shows "error_value P (enc_doc r) =
    bind_res (int_of (getField ''code'' r)) (\<lambda>errCode.
      if errCode = 0 then Inr (RInt 1) else bind_res (jsonString P Strict 0 r) (\<lambda>t. Inr (RChar (cstr t))))"
  unfolding error_value_def int_field [OF assms] mem_jsonString_enc [OF assms] ..

lemma getlasterror_ok: "command_ok ''admin'' [(''getlasterror'', VInt 1)] 0"
  by (simp add: command_ok_def query_ok_def option_docs_def fits_def has_flag_def length_enc_elem)

section \<open>Properties\<close>


definition demo_rv :: "bytes \<Rightarrow> (64 word) option" where
  "demo_rv s = None"

lemma demo_empty: "fromjson demo_rv (cstr ''{}'') = Inr (enc_doc [])" "fromjson demo_rv ''{}'' = Inr (enc_doc [])"
proof -
  show e: "fromjson demo_rv ''{}'' = Inr (enc_doc [])"
    by (rule fromjson_reads [where P = demo_printers]) (simp_all add: json_safe_doc_def jsonString_def)
  then show "fromjson demo_rv (cstr ''{}'') = Inr (enc_doc [])" by (simp add: cstr_def)
qed


text \<open>
  A row is the log text, not the document: strings of 80 or more bytes with the same first
  70 give the same row, so R cannot tell such documents apart.
\<close>

theorem rows_lose_long_strings:
  assumes "length s \<ge> 80" and "length t \<ge> 80" and "take 70 s = take 70 t"
  shows "doc_toString P False False (d1 @ (n, VString s) # d2) = doc_toString P False False (d1 @ (n, VString t) # d2)"
proof -
  have "str_elem P True False n (VString s) = str_elem P True False n (VString t)"
    using assms by (simp add: clipped_def)
  then have "str_list P True False (d1 @ (n, VString s) # d2) = str_list P True False (d1 @ (n, VString t) # d2)"
    by (induction d1) (auto simp del: str_elem.simps)
  then show ?thesis by (simp add: doc_toString_def)
qed

theorem rows_lose_long_strings_witness:
  "doc_toString demo_printers False False ([] @ (''a'', VString (replicate 80 CHR ''x'' @ ''1'')) # []) =
   doc_toString demo_printers False False ([] @ (''a'', VString (replicate 80 CHR ''x'' @ ''2'')) # [])"
  by (rule rows_lose_long_strings) (simp_all add: min_def flip: replicate_append_same)

text \<open>
  C33: \<open>mongoRinsert\<close> sends two messages: the insert of the document and then \<open>getlasterror\<close>,
  and returns 1 if the reply has no non-zero \<open>code\<close>, and the reply as JSON otherwise.
\<close>

theorem mongoRinsert_checks_the_server:
  assumes "fromjson rv (cstr ins) = Inr (enc_doc d)" and "fits d" and "length (cstr coll) \<le> 1024"
    and "port_ok (cn_port c)" and "\<not> cn_failed c" and "\<not> cn_clientSet c" and "fits r"
    and "case r of [] \<Rightarrow> True | (n, _) # _ \<Rightarrow> n \<noteq> ''$err''"
    and "p_in (cn_port c) = wire_bytes (reply_message (p_next_id (cn_port c) + 1) (reply_batch mid r)) @ rest"
  shows "\<exists>p m. mongoRinsert P rv (Some c) coll ins = (insert_outcome P r, Some (c\<lparr>cn_port := p\<rparr>)) \<and> p_in p = rest \<and>
    assembleRequest ''admin.$cmd'' (enc_doc [(''getlasterror'', VInt 1)]) 1 0 None 0 = Inr m \<and>
    p_out p @ pending p = p_out (cn_port c) @ pending (cn_port c) @
      wire_bytes (stamp (insert_message (cstr coll) d) (p_next_id (cn_port c)) (- 1)) @
      wire_bytes (stamp m (p_next_id (cn_port c) + 1) (- 1))"
proof -
  let ?i = "p_next_id (cn_port c)"
  obtain p1 where 1: "insert_one (cstr coll) (enc_doc d) c = (Inr (), c\<lparr>cn_port := p1\<rparr>)" "port_ok p1" "pending p1 = []"
      "p_next_id p1 = ?i + 1" "p_in p1 = p_in (cn_port c)"
      "p_out p1 = p_out (cn_port c) @ pending (cn_port c) @ wire_bytes (stamp (insert_message (cstr coll) d) ?i (- 1))"
    using insert_one_run [OF assms(4,5,2,3)] by blast
  have "answers (c\<lparr>cn_port := p1\<rparr>) mid r rest" using assms(5-9) 1 by (simp add: answers_def)
  from run_doc_run [OF this getlasterror_ok]
  obtain p2 m where 2: "assembleRequest ''admin.$cmd'' (enc_doc [(''getlasterror'', VInt 1)]) 1 0 None 0 = Inr m"
      "run_doc ''admin'' [(''getlasterror'', VInt 1)] 0 (c\<lparr>cn_port := p1\<rparr>) =
        (Inr (truth (getField ''ok'' r), enc_doc r), c\<lparr>cn_port := p2\<rparr>)" "p_in p2 = rest" "pending p2 = []"
      "p_out p2 = p_out p1 @ pending p1 @ wire_bytes (stamp m (p_next_id p1) (- 1))"
    by auto
  have "mongoRinsert P rv (Some c) coll ins = (insert_outcome P r, Some (c\<lparr>cn_port := p2\<rparr>))"
    using assms(1) 1(1) 2(2) error_value_enc [OF assms(7), of P]
    by (simp add: mongoRinsert_def getLastErrorDetailed_def bind_act_def insert_outcome_def bind_res_def split: sum.splits)
  then show ?thesis using 1 2 by (intro exI [of _ p2] exI [of _ m]) simp
qed

lemma insert_outcome_ok: "insert_outcome P [(''n'', VInt 0), (''err'', VNull)] = Value (RInt 1)"
  by (simp add: insert_outcome_def int_of_def getField_def uchar_def)

theorem mongoRinsert_checks_the_server_witness:
  "let c = demo_connection\<lparr>cn_port := (cn_port demo_connection)\<lparr>p_in :=
      wire_bytes (reply_message 2 (reply_batch 9 [(''n'', VInt 0), (''err'', VNull)]))\<rparr>\<rparr>
   in \<exists>p. mongoRinsert demo_printers demo_rv (Some c) ''db.c'' ''{}'' = (Value (RInt 1), Some (c\<lparr>cn_port := p\<rparr>)) \<and> p_in p = []"
proof -
  let ?r = "[(''n'', VInt 0), (''err'', VNull)]"
  let ?c = "demo_connection\<lparr>cn_port := (cn_port demo_connection)\<lparr>p_in := wire_bytes (reply_message 2 (reply_batch 9 ?r))\<rparr>\<rparr>"
  have f: "fromjson demo_rv (cstr ''{}'') = Inr (enc_doc [])" by (rule demo_empty)
  have c: "port_ok (cn_port ?c)" "\<not> cn_failed ?c" "\<not> cn_clientSet ?c" "fits ([] :: doc)" "fits ?r"
      "p_in (cn_port ?c) = wire_bytes (reply_message (p_next_id (cn_port ?c) + 1) (reply_batch 9 ?r)) @ []"
      "length (cstr ''db.c'') \<le> 1024" "case ?r of [] \<Rightarrow> True | (n, _) # _ \<Rightarrow> n \<noteq> ''$err''"
    by (simp_all add: demo_connection_def port_ok_def pending_def fits_def length_enc_elem cstr_def)
  from mongoRinsert_checks_the_server [OF f c(4,7,1-3,5,8,6), of demo_printers]
  show ?thesis unfolding insert_outcome_ok Let_def by blast
qed

text \<open>
  When the connection breaks after the insert has been sent, the exception of the check
  leaves \<open>mongoRinsert\<close>, whose \<open>try\<close> block has ended, and terminates R.
\<close>

theorem mongoRinsert_check_not_caught:
  assumes "fromjson rv (cstr ins) = Inr (enc_doc d)" and "fits d" and "length (cstr coll) \<le> 1024"
    and "port_ok (cn_port c)" and "\<not> cn_failed c" and "p_in (cn_port c) = []"
  shows "fst (mongoRinsert P rv (Some c) coll ins) = Terminated (Uassert 10276)"
proof -
  obtain p1 where 1: "insert_one (cstr coll) (enc_doc d) c = (Inr (), c\<lparr>cn_port := p1\<rparr>)" "port_ok p1" "p_in p1 = []"
    using insert_one_run [OF assms(4,5,2,3)] assms(6) by auto
  have "fst (findOne ''admin.$cmd'' (enc_doc [(''getlasterror'', VInt 1)]) None 0 (c\<lparr>cn_port := p1\<rparr>)) = Inl (Uassert 10276)"
    by (rule findOne_closed) (use 1 assms(5) getlasterror_ok in \<open>simp_all add: command_ok_def\<close>)
  then obtain c' where "run_doc ''admin'' [(''getlasterror'', VInt 1)] 0 (c\<lparr>cn_port := p1\<rparr>) = (Inl (Uassert 10276), c')"
    by (cases "findOne ''admin.$cmd'' (enc_doc [(''getlasterror'', VInt 1)]) None 0 (c\<lparr>cn_port := p1\<rparr>)")
       (auto simp: run_doc_def runCommand_def build_doc_run length_enc_elem bind_act_def)
  then show ?thesis using assms(1) 1(1) by (simp add: mongoRinsert_def getLastErrorDetailed_def bind_act_def)
qed

theorem mongoRinsert_check_not_caught_witness:
  "fst (mongoRinsert demo_printers demo_rv (Some (answering [])) ''db.c'' ''{}'') = Terminated (Uassert 10276)"
proof (rule mongoRinsert_check_not_caught)
  show "fromjson demo_rv (cstr ''{}'') = Inr (enc_doc [])" by (rule demo_empty)
qed (simp_all add: fits_def cstr_def answering_def port_ok_def pending_def)

end
