(* ===== verification/StdMap.thy ===== *)
theory StdMap
  imports Names
begin

text \<open>
  \<open>std::map\<close> as the driver uses it: a list of keys and values in the order of the map's
  comparison, where two keys are the same when neither is before the other. The locale states
  what the comparison must be and what follows of insertion and search; it is interpreted on the
  order of \<open>std::string\<close> here, and on the order of server names where the pools are.
\<close>

fun std_find :: "('k \<Rightarrow> 'k \<Rightarrow> bool) \<Rightarrow> 'k \<Rightarrow> ('k \<times> 'v) list \<Rightarrow> 'v option" where
  "std_find lt k [] = None"
| "std_find lt k ((j, v) # m) = (if \<not> lt k j \<and> \<not> lt j k then Some v else std_find lt k m)"

text \<open>\<open>m[k] = v\<close>: a key that is there keeps its first spelling.\<close>

fun std_put :: "('k \<Rightarrow> 'k \<Rightarrow> bool) \<Rightarrow> 'k \<Rightarrow> 'v \<Rightarrow> ('k \<times> 'v) list \<Rightarrow> ('k \<times> 'v) list" where
  "std_put lt k v [] = [(k, v)]"
| "std_put lt k v ((j, w) # m) =
     (if lt k j then (k, v) # (j, w) # m
      else if lt j k then (j, w) # std_put lt k v m else (j, v) # m)"

text \<open>\<open>m[k]\<close>: a key that is not there is given the default value.\<close>

definition std_ref :: "('k \<Rightarrow> 'k \<Rightarrow> bool) \<Rightarrow> 'v \<Rightarrow> 'k \<Rightarrow> ('k \<times> 'v) list \<Rightarrow> 'v" where
  "std_ref lt d k m = (case std_find lt k m of Some v \<Rightarrow> v | None \<Rightarrow> d)"

lemma std_put_values: "snd ` set (std_put lt k v m) \<subseteq> insert v (snd ` set m)"
  by (induction lt k v m rule: std_put.induct) auto

lemma std_find_value: "std_find lt k m = Some v \<Longrightarrow> v \<in> snd ` set m"
  by (induction lt k m rule: std_find.induct) (auto split: if_splits)

locale std_order =
  fixes lt :: "'k \<Rightarrow> 'k \<Rightarrow> bool"
  assumes lt_irrefl [simp]: "\<not> lt x x"
    and lt_trans: "lt x y \<Longrightarrow> lt y z \<Longrightarrow> lt x z"
    and lt_split: "lt x z \<Longrightarrow> lt x y \<or> lt y z"
begin

definition same_key :: "'k \<Rightarrow> 'k \<Rightarrow> bool" where
  "same_key x y \<longleftrightarrow> \<not> lt x y \<and> \<not> lt y x"

definition in_order :: "('k \<times> 'v) list \<Rightarrow> bool" where
  "in_order m \<longleftrightarrow> sorted_wrt (\<lambda>a b. lt (fst a) (fst b)) m"

lemma in_order_simps [simp]:
  "in_order []" "in_order (a # m) \<longleftrightarrow> (\<forall>b \<in> set m. lt (fst a) (fst b)) \<and> in_order m"
  by (simp_all add: in_order_def)

lemma same_key_refl [simp]: "same_key x x"
  by (simp add: same_key_def)

lemma same_key_sym: "same_key x y \<Longrightarrow> same_key y x"
  by (simp add: same_key_def)

lemma same_key_iff: "same_key x y \<Longrightarrow> lt z x = lt z y \<and> lt x z = lt y z"
  using lt_split by (auto simp: same_key_def)

lemma same_key_trans: "same_key x y \<Longrightarrow> same_key y z \<longleftrightarrow> same_key x z"
  using same_key_iff [of x y z] by (simp add: same_key_def)

lemma std_find_Cons [simp]:
  "std_find lt k ((j, v) # m) = (if same_key k j then Some v else std_find lt k m)"
  by (simp add: same_key_def)

lemma find_put: "std_find lt i (std_put lt k v m) = (if same_key i k then Some v else std_find lt i m)"
proof (induction m)
  case (Cons a m)
  obtain j w where a: "a = (j, w)" by (cases a)
  consider "lt k j" | "\<not> lt k j" "lt j k" | "same_key k j" by (auto simp: same_key_def)
  then show ?case
  proof cases
    case 2
    then have "\<not> same_key i j" if "same_key i k" using same_key_iff [OF that, of j] by (auto simp: same_key_def)
    then show ?thesis using 2 Cons a by (auto simp: same_key_def)
  next
    case 3
    then have "same_key i j \<longleftrightarrow> same_key i k" using same_key_trans [OF same_key_sym] same_key_trans [OF 3] same_key_sym by blast
    then show ?thesis using 3 a by (simp add: same_key_def)
  qed (auto simp: a same_key_def)
qed (simp add: same_key_def)

lemma put_keys: "p \<in> set (std_put lt k v m) \<Longrightarrow> fst p = k \<or> fst p \<in> fst ` set m"
proof (induction m)
  case (Cons a m)
  then show ?case by (cases a) (auto split: if_splits)
qed simp

lemma in_order_put: "in_order m \<Longrightarrow> in_order (std_put lt k v m)"
proof (induction m)
  case (Cons a m)
  obtain j w where a: "a = (j, w)" by (cases a)
  have "lt j (fst b)" if "lt j k" "b \<in> set (std_put lt k v m)" for b
    using that(1) Cons.prems put_keys [OF that(2)] a by auto
  then show ?case using Cons a by (auto intro: lt_trans)
qed simp

text \<open>What is counted over the values: the old value of the key is exchanged for the new one.\<close>

lemma put_sum:
  fixes g :: "'v \<Rightarrow> 'w :: comm_monoid_add"
  assumes "in_order m" and "g d = 0"
  shows "sum_list (map (\<lambda>p. g (snd p)) (std_put lt k v m)) + g (std_ref lt d k m) =
    sum_list (map (\<lambda>p. g (snd p)) m) + g v"
  using assms
proof (induction m)
  case (Cons a m)
  obtain j w where a: "a = (j, w)" by (cases a)
  consider "lt k j" | "\<not> lt k j" "lt j k" | "same_key k j" by (auto simp: same_key_def)
  then show ?case
  proof cases
    case 1
    have "lt k (fst b)" if "b \<in> set m" for b using that 1 Cons.prems a by (auto intro: lt_trans)
    then have "std_find lt k m = None" by (induction m) (fastforce simp: same_key_def)+
    then show ?thesis using 1 a Cons.prems by (simp add: std_ref_def same_key_def ac_simps)
  next
    case 2
    then show ?thesis using Cons a by (simp add: std_ref_def same_key_def ac_simps)
  next
    case 3
    then show ?thesis using a by (simp add: std_ref_def same_key_def ac_simps)
  qed
qed (simp add: std_ref_def)

lemma find_mem: "in_order m \<Longrightarrow> (k, v) \<in> set m \<Longrightarrow> std_find lt k m = Some v"
proof (induction m)
  case (Cons a m)
  then show ?case by (cases a) (auto simp: same_key_def)
qed simp

end

lemma std_order_three_way:
  assumes c: "three_way c UNIV"
  shows "std_order (\<lambda>x y. c (f x) (f y) < 0)"
proof
  show "\<not> c (f x) (f x) < 0" for x
    using three_way.cmp_refl [OF c, of "f x"] by simp
  show "c (f x) (f z) < 0" if "c (f x) (f y) < 0" "c (f y) (f z) < 0" for x y z
    using three_way.cmp_less_le_trans [OF c _ _ _ that(1), of "f z"] that(2) by simp
  show "c (f x) (f y) < 0 \<or> c (f y) (f z) < 0" if "c (f x) (f z) < 0" for x y z
  proof (rule ccontr)
    assume "\<not> ?thesis"
    then have "c (f z) (f y) \<le> 0" "c (f y) (f x) \<le> 0"
      using three_way.cmp_flip_le [OF c] by (auto simp: not_less)
    then have "c (f z) (f x) \<le> 0" using three_way.cmp_trans [OF c] by blast
    then show False using that three_way.cmp_flip_less [OF c, of "f x" "f z"] by auto
  qed
qed

lemma bytes_three_way: "three_way (list_cmp (\<lambda>x y. uchar x - uchar y)) UNIV"
  by (rule three_way_subset [OF three_way_list [OF three_way_key [of uchar UNIV]]]) auto

interpretation string_map: std_order string_less
  using std_order_three_way [OF bytes_three_way, of "\<lambda>x. x"] by (simp add: string_less_def [abs_def])

end
