(* ===== verification/Reconnect.thy ===== *)
theory Reconnect
  imports CommandSpec StdMap
begin

text \<open>
  Connecting and reconnecting (client/dbclient.cpp: \<open>connect\<close>, \<open>_connect\<close>,
  \<open>_checkConnection\<close>, \<open>auth\<close>). A connection made with \<open>autoReconnect\<close> dials again when it has
  failed, at most once in two seconds, and then authenticates again for every database it has
  credentials for. The network is a parameter: the address of a host, and what answers at a
  host and port: the bytes the new connection will receive, or nothing. The clock is read where
  the code reads it.
\<close>

record network =
  nw_addr :: "bytes \<Rightarrow> int \<Rightarrow> bytes"
  nw_dial :: "bytes \<Rightarrow> int \<Rightarrow> bytes option"

text \<open>The two readings of \<open>time(0)\<close> in \<open>_checkConnection\<close>, and the network at that time.\<close>

record moment =
  mo_check :: int
  mo_try :: int
  mo_net :: network

type_synonym auth_cache = "(bytes \<times> bytes \<times> bytes) list"

record auto_connection =
  ac_conn :: connection
  ac_autoReconnect :: bool
  ac_lastReconnectTry :: int
  ac_server :: host_and_port
  ac_serverString :: bytes
  ac_authCache :: auth_cache

section \<open>Connecting\<close>

text \<open>
  A \<open>MessagingPort\<close> starts without a piggy-back buffer; message ids are counted across all
  ports of the process.
\<close>

definition new_port :: "32 word \<Rightarrow> port" where
  "new_port i = \<lparr>p_in = [], p_out = [], p_up = False, p_next_id = i, p_piggy = None\<rparr>"

definition connection_new :: "bool \<Rightarrow> bool \<Rightarrow> 32 word \<Rightarrow> auto_connection" where
  "connection_new autoReconnect clientSet i =
     \<lparr>ac_conn = \<lparr>cn_port = new_port i, cn_failed = False, cn_clientSet = clientSet, cn_isntMaster = 0\<rparr>,
      ac_autoReconnect = autoReconnect, ac_lastReconnectTry = 0, ac_server = \<lparr>hp_host = '''', hp_port = - 1\<rparr>,
      ac_serverString = '''', ac_authCache = []\<rparr>"

definition set_failed :: "bool \<Rightarrow> auto_connection \<Rightarrow> auto_connection" where
  "set_failed b c = c\<lparr>ac_conn := (ac_conn c)\<lparr>cn_failed := b\<rparr>\<rparr>"

definition set_port :: "port \<Rightarrow> auto_connection \<Rightarrow> auto_connection" where
  "set_port p c = c\<lparr>ac_conn := (ac_conn c)\<lparr>cn_port := p\<rparr>\<rparr>"

definition dial :: "network \<Rightarrow> auto_connection \<Rightarrow> bool \<times> auto_connection" where
  "dial nw c =
     (let c = c\<lparr>ac_serverString := hp_toString (ac_server c)\<rparr>;
          host = cstr (hp_host (ac_server c)); port = hp_effective_port (ac_server c);
          p = new_port (p_next_id (cn_port (ac_conn c)));
          c = set_port p c
      in if nw_addr nw host port = ''0.0.0.0'' then (False, set_failed True c)
         else case nw_dial nw host port of
                None \<Rightarrow> (False, set_failed True c)
              | Some answer \<Rightarrow> (True, set_port (p\<lparr>p_in := answer, p_up := True\<rparr>) c))"

definition connect_to :: "network \<Rightarrow> host_and_port \<Rightarrow> auto_connection \<Rightarrow> bool \<times> auto_connection" where
  "connect_to nw server c = dial nw (c\<lparr>ac_server := server, ac_serverString := hp_toString server\<rparr>)"

text \<open>The throwing version: a \<open>ConnectException\<close> is a \<open>UserException\<close> of code 9000.\<close>

definition connect_string :: "network \<Rightarrow> bytes \<Rightarrow> (auto_connection, unit) act" where
  "connect_string nw serverHostname =
     bind_act (lift_act (host_and_port_new serverHostname)) (\<lambda>server c.
       case connect_to nw server c of (ok, c) \<Rightarrow> (if ok then Inr () else Inl (Uassert 9000), c))"

section \<open>Reconnecting\<close>

definition on_direct :: "(connection, 'a) act \<Rightarrow> (auto_connection, 'a) act" where
  "on_direct f c = (case f (ac_conn c) of (r, c') \<Rightarrow> (r, c\<lparr>ac_conn := c'\<rparr>))"

text \<open>\<open>DBClientBase::auth\<close> for every cached entry in the map's order; its result is only logged.\<close>

fun replay :: "auth_cache \<Rightarrow> (connection, unit) act" where
  "replay [] = lift_act (Inr ())"
| "replay ((dbname, username, password) # rest) =
     bind_act (auth (cstr dbname) (cstr username) (cstr password) False) (\<lambda>_. replay rest)"

definition may_try :: "moment \<Rightarrow> auto_connection \<Rightarrow> bool" where
  "may_try mo c \<longleftrightarrow>
     \<not> (ac_lastReconnectTry c \<noteq> 0 \<and> mo_check mo - ac_lastReconnectTry c < 2) \<and> ac_autoReconnect c"

definition check_connection :: "moment \<Rightarrow> (auto_connection, unit) act" where
  "check_connection mo c =
     (if \<not> cn_failed (ac_conn c) then (Inr (), c)
      else if \<not> may_try mo c then (Inl SocketExn, c)
      else
        let c = set_failed False (c\<lparr>ac_lastReconnectTry := mo_try mo\<rparr>)
        in case dial (mo_net mo) c of
             (False, c) \<Rightarrow> (Inl SocketExn, set_failed True c)
           | (True, c) \<Rightarrow> on_direct (replay (ac_authCache c)) c)"

section \<open>The operations that check the connection\<close>

definition checked :: "moment \<Rightarrow> (connection, 'a) act \<Rightarrow> (auto_connection, 'a) act" where
  "checked mo f = bind_act (check_connection mo) (\<lambda>_. on_direct f)"

definition auto_say :: "moment \<Rightarrow> message \<Rightarrow> (auto_connection, unit) act" where
  "auto_say mo toSend = checked mo (conn_say toSend)"

definition auto_query ::
  "moment \<Rightarrow> bytes \<Rightarrow> bytes \<Rightarrow> int \<Rightarrow> int \<Rightarrow> bytes option \<Rightarrow> int \<Rightarrow> int \<Rightarrow> (auto_connection, cursor option) act" where
  "auto_query mo ns query nToReturn nToSkip fieldsToReturn queryOptions batchSize =
     checked mo (db_query ns query nToReturn nToSkip fieldsToReturn queryOptions batchSize)"

definition auto_findOne :: "moment \<Rightarrow> bytes \<Rightarrow> bytes \<Rightarrow> bytes option \<Rightarrow> int \<Rightarrow> (auto_connection, bytes) act" where
  "auto_findOne mo ns query fieldsToReturn queryOptions = checked mo (findOne ns query fieldsToReturn queryOptions)"

text \<open>
  \<open>DBClientConnection::auth\<close>: with \<open>autoReconnect\<close> the credentials are remembered before they
  are tried, so a reconnection on the way already replays them.
\<close>

definition auto_auth :: "moment \<Rightarrow> bytes \<Rightarrow> bytes \<Rightarrow> bytes \<Rightarrow> bool \<Rightarrow> (auto_connection, bool) act" where
  "auto_auth mo dbname username password_text digestPassword c =
     (let password = (if digestPassword then createPasswordDigest username password_text else password_text);
          c = (if ac_autoReconnect c
               then c\<lparr>ac_authCache := std_put string_less dbname (username, password) (ac_authCache c)\<rparr> else c)
      in checked mo (auth dbname username (cstr password) False) c)"

section \<open>What an operation keeps\<close>

lemma on_direct_keeps [simp]:
  "ac_autoReconnect (snd (on_direct f c)) = ac_autoReconnect c"
  "ac_lastReconnectTry (snd (on_direct f c)) = ac_lastReconnectTry c"
  "ac_authCache (snd (on_direct f c)) = ac_authCache c"
  by (simp_all add: on_direct_def split: prod.split)

lemma set_keeps [simp]:
  "ac_autoReconnect (set_failed b c) = ac_autoReconnect c" "ac_autoReconnect (set_port p c) = ac_autoReconnect c"
  "ac_lastReconnectTry (set_failed b c) = ac_lastReconnectTry c" "ac_lastReconnectTry (set_port p c) = ac_lastReconnectTry c"
  "ac_authCache (set_failed b c) = ac_authCache c" "ac_authCache (set_port p c) = ac_authCache c"
  "ac_server (set_failed b c) = ac_server c" "ac_server (set_port p c) = ac_server c"
  "cn_failed (ac_conn (set_failed b c)) = b" "cn_failed (ac_conn (set_port p c)) = cn_failed (ac_conn c)"
  "cn_port (ac_conn (set_port p c)) = p" "cn_port (ac_conn (set_failed b c)) = cn_port (ac_conn c)"
  "cn_clientSet (ac_conn (set_failed b c)) = cn_clientSet (ac_conn c)"
  "cn_clientSet (ac_conn (set_port p c)) = cn_clientSet (ac_conn c)"
  by (simp_all add: set_failed_def set_port_def)

lemma dial_keeps [simp]:
  "ac_autoReconnect (snd (dial nw c)) = ac_autoReconnect c"
  "ac_lastReconnectTry (snd (dial nw c)) = ac_lastReconnectTry c"
  "ac_authCache (snd (dial nw c)) = ac_authCache c"
  by (simp_all add: dial_def Let_def split: option.split)

lemma check_connection_keeps [simp]:
  "ac_autoReconnect (snd (check_connection mo c)) = ac_autoReconnect c"
  "ac_authCache (snd (check_connection mo c)) = ac_authCache c"
  using dial_keeps [of "mo_net mo" "set_failed False (c\<lparr>ac_lastReconnectTry := mo_try mo\<rparr>)"]
  by (auto simp: check_connection_def Let_def simp del: dial_keeps split: prod.split bool.split)

lemma check_connection_time:
  "ac_lastReconnectTry (snd (check_connection mo c)) =
    (if cn_failed (ac_conn c) \<and> may_try mo c then mo_try mo else ac_lastReconnectTry c)"
  using dial_keeps(2) [of "mo_net mo" "set_failed False (c\<lparr>ac_lastReconnectTry := mo_try mo\<rparr>)"]
  by (auto simp: check_connection_def Let_def simp del: dial_keeps split: prod.split bool.split)

lemma snd_bind_act: "snd (bind_act m f s) = (case m s of (Inl e, s) \<Rightarrow> s | (Inr x, s) \<Rightarrow> snd (f x s))"
  by (simp add: bind_act_def split: prod.split sum.split)

lemma checked_keeps [simp]:
  "ac_autoReconnect (snd (checked mo f c)) = ac_autoReconnect c"
  "ac_authCache (snd (checked mo f c)) = ac_authCache c"
  "ac_lastReconnectTry (snd (checked mo f c)) =
    (if cn_failed (ac_conn c) \<and> may_try mo c then mo_try mo else ac_lastReconnectTry c)"
  using check_connection_keeps [of mo c] check_connection_time [of mo c]
  by (auto simp: checked_def snd_bind_act simp del: check_connection_keeps split: prod.split sum.split)

section \<open>Without autoReconnect\<close>

lemma checked_plain:
  assumes "\<not> ac_autoReconnect c" and "cn_failed (ac_conn c) \<Longrightarrow> f (ac_conn c) = (Inl SocketExn, ac_conn c)"
  shows "checked mo f c = on_direct f c"
proof (cases "cn_failed (ac_conn c)")
  case True
  then show ?thesis using assms by (simp add: checked_def check_connection_def may_try_def on_direct_def bind_act_def)
qed (simp add: checked_def check_connection_def bind_act_def)

section \<open>Attempts\<close>

text \<open>A sequence of uses of the connection, and the times at which it dials.\<close>

fun attempts :: "(moment \<times> (connection, unit) act) list \<Rightarrow> auto_connection \<Rightarrow> int list" where
  "attempts [] c = []"
| "attempts ((mo, f) # us) c =
     (if cn_failed (ac_conn c) \<and> may_try mo c then [mo_try mo] else []) @ attempts us (snd (checked mo f c))"

definition clock :: "(moment \<times> 'a) list \<Rightarrow> int list" where
  "clock us = concat (map (\<lambda>(mo, _). [mo_check mo, mo_try mo]) us)"

lemma clock_simps [simp]:
  "clock [] = []" "clock ((mo, f) # us) = mo_check mo # mo_try mo # clock us"
  by (simp_all add: clock_def)

lemma attempts_spaced:
  assumes "sorted (clock us)" and "\<forall>t \<in> set (clock us). 0 < t"
  shows "sorted_wrt (\<lambda>s t. s + 2 \<le> t) (attempts us c) \<and>
    (ac_lastReconnectTry c \<noteq> 0 \<longrightarrow> (\<forall>t \<in> set (attempts us c). ac_lastReconnectTry c + 2 \<le> t))"
  using assms
proof (induction us c rule: attempts.induct)
  case (2 mo f us c)
  let ?c = "snd (checked mo f c)"
  have IH: "sorted_wrt (\<lambda>s t. s + 2 \<le> t) (attempts us ?c)"
      "ac_lastReconnectTry ?c \<noteq> 0 \<Longrightarrow> t \<in> set (attempts us ?c) \<Longrightarrow> ac_lastReconnectTry ?c + 2 \<le> t" for t
    using 2 by simp_all
  show ?case
  proof (cases "cn_failed (ac_conn c) \<and> may_try mo c")
    case True
    then have later: "mo_try mo + 2 \<le> t" if "t \<in> set (attempts us ?c)" for t
      using IH(2) [OF _ that] 2(3) by simp
    have "ac_lastReconnectTry c + 2 \<le> mo_try mo" if "ac_lastReconnectTry c \<noteq> 0"
      using True that 2(2) by (simp add: may_try_def)
    then show ?thesis using True IH(1) later by fastforce
  next
    case False
    then show ?thesis using IH by (auto simp del: checked_keeps simp: checked_keeps(3))
  qed
qed simp


definition demo_moment :: "int \<Rightarrow> bytes option \<Rightarrow> moment" where
  "demo_moment t answer = \<lparr>mo_check = t, mo_try = t, mo_net = \<lparr>nw_addr = (\<lambda>h _. h), nw_dial = (\<lambda>_ _. answer)\<rparr>\<rparr>"

definition demo_failed :: auto_connection where
  "demo_failed = set_failed True (connection_new True False 1)"


section \<open>Authenticating again\<close>

text \<open>
  For every cached entry: the ids, the nonce reply and the nonce in it, and the final reply of
  the server; what the server sends for them and what the client sends.
\<close>

type_synonym script = "(32 word \<times> doc \<times> bytes \<times> 32 word \<times> doc) list"

fun replies :: "32 word \<Rightarrow> script \<Rightarrow> bytes" where
  "replies i [] = []"
| "replies i ((mid1, r1, nonce, mid2, r2) # xs) =
     wire_bytes (reply_message i (reply_batch mid1 r1)) @
     wire_bytes (reply_message (i + 1) (reply_batch mid2 r2)) @ replies (i + 2) xs"

fun auth_requests :: "32 word \<Rightarrow> auth_cache \<Rightarrow> script \<Rightarrow> bytes" where
  "auth_requests i ((dbname, user, pw) # ac) ((_, _, nonce, _, _) # xs) =
     command_bytes dbname [(''getnonce'', VInt 1)] i @ command_bytes dbname (auth_doc nonce user pw) (i + 1) @
     auth_requests (i + 2) ac xs"
| "auth_requests i _ _ = []"

definition no_err :: "doc \<Rightarrow> bool" where
  "no_err r \<longleftrightarrow> fits r \<and> (case r of [] \<Rightarrow> True | (n, _) # _ \<Rightarrow> n \<noteq> ''$err'')"

definition answered :: "bytes \<times> bytes \<times> bytes \<Rightarrow> 32 word \<times> doc \<times> bytes \<times> 32 word \<times> doc \<Rightarrow> bool" where
  "answered = (\<lambda>(dbname, user, pw) (mid1, r1, nonce, mid2, r2).
     NUL \<notin> set (dbname @ user @ pw @ nonce) \<and> no_err r1 \<and> no_err r2 \<and> truth (getField ''ok'' r1) \<and>
     (\<exists>k. getField ''nonce'' r1 = Some (k, VString nonce)) \<and>
     command_ok dbname [(''getnonce'', VInt 1)] 0 \<and> command_ok dbname (auth_doc nonce user pw) 0)"

lemma replay_run:
  assumes "list_all2 answered ac xs" and "port_ok (cn_port c)" and "\<not> cn_failed c" and "\<not> cn_clientSet c"
    and "p_in (cn_port c) = replies (p_next_id (cn_port c)) xs"
  shows "\<exists>p. replay ac c = (Inr (), c\<lparr>cn_port := p\<rparr>) \<and> p_in p = [] \<and>
    p_out p @ pending p = p_out (cn_port c) @ pending (cn_port c) @ auth_requests (p_next_id (cn_port c)) ac xs"
  using assms
proof (induction arbitrary: c rule: list_all2_induct)
  case Nil
  then show ?case by (intro exI [of _ "cn_port c"]) simp
next
  case (Cons a ac x xs)
  obtain dbname user pw mid1 r1 nonce mid2 r2 where ax: "a = (dbname, user, pw)" "x = (mid1, r1, nonce, mid2, r2)"
    by (metis prod_cases3 prod_cases5)
  let ?i = "p_next_id (cn_port c)"
  have A: "NUL \<notin> set dbname" "NUL \<notin> set user" "NUL \<notin> set pw" "NUL \<notin> set nonce" "no_err r1" "no_err r2"
      "truth (getField ''ok'' r1)" "\<exists>k. getField ''nonce'' r1 = Some (k, VString nonce)"
      "command_ok dbname [(''getnonce'', VInt 1)] 0" "command_ok dbname (auth_doc nonce user pw) 0"
    using Cons.hyps(1) ax by (auto simp: answered_def)
  then have "authenticates c mid1 r1 nonce mid2 r2 (replies (?i + 2) xs)"
    using Cons.prems ax by (simp add: authenticates_def answers_def no_err_def)
  from auth_run [OF this A(9,10)] obtain p m1 m2 where p:
      "auth dbname user pw False c = (Inr (truth (getField ''ok'' r2)), c\<lparr>cn_port := p\<rparr>)"
      "assembleRequest (dbname @ ''.$cmd'') (enc_doc [(''getnonce'', VInt 1)]) 1 0 None 0 = Inr m1"
      "assembleRequest (dbname @ ''.$cmd'') (enc_doc (auth_doc nonce user pw)) 1 0 None 0 = Inr m2"
      "port_ok p" "p_in p = replies (?i + 2) xs" "p_next_id p = ?i + 2" "pending p = []"
      "p_out p = p_out (cn_port c) @ pending (cn_port c) @ wire_bytes (stamp m1 ?i (- 1)) @ wire_bytes (stamp m2 (?i + 1) (- 1))"
    by blast
  obtain q where q: "replay ac (c\<lparr>cn_port := p\<rparr>) = (Inr (), c\<lparr>cn_port := q\<rparr>)" "p_in q = []"
      "p_out q @ pending q = p_out p @ pending p @ auth_requests (p_next_id p) ac xs"
    using Cons.IH [of "c\<lparr>cn_port := p\<rparr>"] Cons.prems p by auto
  then show ?case using p A ax by (intro exI [of _ q]) (simp add: bind_act_def command_bytes_def)
qed

text \<open>
  C14: A failed connection that may try again and reaches its server authenticates again, before
  the operation that needed it, for every database it has credentials for, in the order of the
  database names and with the password digests it kept; nothing else is sent, and the
  connection is no longer failed.
\<close>

theorem reconnect_authenticates_again:
  assumes "cn_failed (ac_conn c)" and "may_try mo c" and "\<not> cn_clientSet (ac_conn c)"
    and "nw_addr (mo_net mo) (cstr (hp_host (ac_server c))) (hp_effective_port (ac_server c)) \<noteq> ''0.0.0.0''"
    and "nw_dial (mo_net mo) (cstr (hp_host (ac_server c))) (hp_effective_port (ac_server c)) =
      Some (replies (p_next_id (cn_port (ac_conn c))) xs)"
    and "list_all2 answered (ac_authCache c) xs"
  shows "\<exists>p. check_connection mo c =
      (Inr (), c\<lparr>ac_conn := (ac_conn c)\<lparr>cn_port := p, cn_failed := False\<rparr>, ac_lastReconnectTry := mo_try mo,
        ac_serverString := hp_toString (ac_server c)\<rparr>) \<and>
    p_in p = [] \<and> p_out p @ pending p = auth_requests (p_next_id (cn_port (ac_conn c))) (ac_authCache c) xs"
proof -
  let ?i = "p_next_id (cn_port (ac_conn c))"
  let ?p = "(new_port ?i)\<lparr>p_in := replies ?i xs, p_up := True\<rparr>"
  let ?c = "(ac_conn c)\<lparr>cn_port := ?p, cn_failed := False\<rparr>"
  obtain p where p: "replay (ac_authCache c) ?c = (Inr (), ?c\<lparr>cn_port := p\<rparr>)" "p_in p = []"
      "p_out p @ pending p = p_out ?p @ pending ?p @ auth_requests (p_next_id ?p) (ac_authCache c) xs"
    using replay_run [OF assms(6), of ?c] assms(3) by (auto simp: new_port_def port_ok_def pending_def)
  moreover have "p_out ?p = []" "pending ?p = []" "p_next_id ?p = ?i" by (simp_all add: new_port_def pending_def)
  moreover have "dial (mo_net mo) (set_failed False (c\<lparr>ac_lastReconnectTry := mo_try mo\<rparr>)) =
      (True, c\<lparr>ac_conn := ?c, ac_lastReconnectTry := mo_try mo, ac_serverString := hp_toString (ac_server c)\<rparr>)"
    using assms(4,5) by (simp add: dial_def Let_def set_failed_def set_port_def)
  ultimately show ?thesis
    using assms(1,2) by (intro exI [of _ p]) (simp add: check_connection_def on_direct_def)
qed

definition demo_script :: script where
  "demo_script = [(7, [(''nonce'', VString ''2375531c''), (''ok'', VInt 1)], ''2375531c'', 8, [(''ok'', VInt 1)])]"

definition demo_returning :: auto_connection where
  "demo_returning = demo_failed\<lparr>ac_authCache := [(''db'', ''joe'', ''0123'')]\<rparr>"

theorem reconnect_authenticates_again_witness:
  "\<exists>p. check_connection (demo_moment 100 (Some (replies 1 demo_script))) demo_returning =
      (Inr (), demo_returning\<lparr>ac_conn := (ac_conn demo_returning)\<lparr>cn_port := p, cn_failed := False\<rparr>,
        ac_lastReconnectTry := 100, ac_serverString := hp_toString (ac_server demo_returning)\<rparr>) \<and>
    p_in p = [] \<and> p_out p @ pending p = auth_requests 1 [(''db'', ''joe'', ''0123'')] demo_script"
proof -
  have c: "cn_failed (ac_conn demo_returning)" "\<not> cn_clientSet (ac_conn demo_returning)"
      "p_next_id (cn_port (ac_conn demo_returning)) = 1" "ac_authCache demo_returning = [(''db'', ''joe'', ''0123'')]"
      "hp_host (ac_server demo_returning) = ''''" "may_try (demo_moment t a) demo_returning" for t a
    by (simp_all add: demo_returning_def demo_failed_def connection_new_def set_failed_def new_port_def may_try_def)
  have r: "no_err [(''nonce'', VString ''2375531c''), (''ok'', VInt 1)]" "no_err [(''ok'', VInt 1)]"
    by (simp_all add: no_err_def fits_def length_enc_elem)
  have f: "truth (getField ''ok'' [(''nonce'', VString ''2375531c''), (''ok'', VInt 1)])"
      "getField ''nonce'' [(''nonce'', VString ''2375531c''), (''ok'', VInt 1)] = Some (''nonce'', VString ''2375531c'')"
    by (simp_all add: truth_def getField_def uchar_def)
  have k: "command_ok ''db'' [(''getnonce'', VInt 1)] 0" "command_ok ''db'' (auth_doc ''2375531c'' ''joe'' ''0123'') 0"
    by (rule small_command_ok, simp_all add: fits_def length_enc_elem auth_doc_def)+
  have "list_all2 answered (ac_authCache demo_returning) demo_script"
    using r f k by (simp add: c answered_def demo_script_def)
  then show ?thesis
    using reconnect_authenticates_again [of demo_returning "demo_moment 100 (Some (replies 1 demo_script))" demo_script]
    by (simp add: c) (simp add: demo_moment_def cstr_def)
qed

section \<open>Credentials\<close>

text \<open>
  With \<open>autoReconnect\<close>, a call of \<open>auth\<close>, whether it succeeds, fails or throws, leaves the
  credentials for its database (with the digest, not the password) in the cache, one entry per
  database in the order of the names, and all others as they were.
\<close>

theorem auth_is_remembered:
  assumes "ac_autoReconnect c" and "string_map.in_order (ac_authCache c)"
  shows "let ac = ac_authCache (snd (auto_auth mo dbname user password digest c)) in
    string_map.in_order ac \<and>
    (\<forall>db. std_find string_less db ac =
      (if string_map.same_key db dbname
       then Some (user, if digest then createPasswordDigest user password else password)
       else std_find string_less db (ac_authCache c)))"
  using assms by (simp add: auto_auth_def Let_def string_map.in_order_put string_map.find_put)

theorem auth_is_remembered_witness:
  "let ac = ac_authCache (snd (auto_auth (demo_moment 100 None) ''db'' ''joe'' ''secret'' False demo_returning)) in
    string_map.in_order ac \<and> std_find string_less ''db'' ac = Some (''joe'', ''secret'')"
  using auth_is_remembered [of demo_returning "demo_moment 100 None" "''db''" "''joe''" "''secret''" False]
  by (simp add: demo_returning_def demo_failed_def connection_new_def set_failed_def Let_def)

section \<open>Plain connections\<close>

lemma plain_calls:
  assumes "cn_failed c"
  shows "conn_say m c = (Inl SocketExn, c)" "db_query ns q n k fo opts bs c = (Inl SocketExn, c)"
    "findOne ns q fo opts c = (Inl SocketExn, c)"
  using assms by (simp_all add: conn_say_def db_query_def findOne_def checkConnection_def bind_act_def)

lemma plain_auth:
  assumes "cn_failed c"
  shows "auth dbname user pw digest c = (Inl SocketExn, c)"
proof -
  have "build_doc [(''getnonce'', VInt 1)] = Inr (enc_doc [(''getnonce'', VInt 1)])"
    using build_doc_run [of "[(''getnonce'', VInt 1)]"] by (simp add: length_enc_elem)
  then show ?thesis
    using assms by (simp add: auth_def Let_def run_doc_def runCommand_def bind_act_def plain_calls)
qed

text \<open>
  Without \<open>autoReconnect\<close>, as mongoR.cc creates its connection, the operations are those of
  the plain connection: a failed connection throws and stays failed, and credentials are not
  kept.
\<close>

theorem no_autoReconnect_is_plain:
  assumes "\<not> ac_autoReconnect c"
  shows "auto_say mo m c = on_direct (conn_say m) c \<and>
    auto_query mo ns q n k fo opts bs c = on_direct (db_query ns q n k fo opts bs) c \<and>
    auto_findOne mo ns q fo opts c = on_direct (findOne ns q fo opts) c \<and>
    auto_auth mo dbname user pw False c = on_direct (auth dbname user (cstr pw) False) c"
  using assms
  by (simp add: auto_say_def auto_query_def auto_findOne_def auto_auth_def checked_plain plain_calls plain_auth)

theorem no_autoReconnect_is_plain_witness:
  "auto_say (demo_moment 100 None) (set_data dbInsert []) (set_failed True (connection_new False False 1)) =
    on_direct (conn_say (set_data dbInsert [])) (set_failed True (connection_new False False 1))"
proof -
  have "\<not> ac_autoReconnect (set_failed True (connection_new False False 1))" by (simp add: connection_new_def)
  then show ?thesis using no_autoReconnect_is_plain by blast
qed

text \<open>
  \<open>connect\<close> does not reset \<open>failed\<close>: connecting again after an attempt that failed returns true,
  and every operation on the connection still throws when \<open>autoReconnect\<close> is off.
\<close>

theorem connect_keeps_failed:
  assumes "cn_failed (ac_conn c)" and "\<not> ac_autoReconnect c"
    and "connect_to nw server c = (True, c')"
  shows "auto_say mo m c' = (Inl SocketExn, c')"
proof -
  have "cn_failed (ac_conn c')" "\<not> ac_autoReconnect c'"
    using assms by (auto simp: connect_to_def dial_def Let_def set_port_def set_failed_def split: if_splits option.splits)
  then show ?thesis by (simp add: auto_say_def checked_def bind_act_def check_connection_def may_try_def)
qed

end
