(* ===== verification/ConnPool.thy ===== *)
theory ConnPool
  imports Reconnect
begin

text \<open>
  The connection pool (client/connpool.h and .cpp): a stack of idle connections per server, the
  pool that hands them out and takes them back, and \<open>ScopedDbConnection\<close>, which owns one
  connection. Connections are objects on a heap, named by numbers that are never used again;
  using or deleting one that is gone is undefined. Each call is one step: the pool's mutex
  makes the calls atomic.
\<close>

text \<open>
  What the pool needs of a connection (\<open>DBClientBase\<close>): its state, its kind, and the command
  \<open>isMaster\<close>. A hook may do anything to the connection it is given.
\<close>

record 'c client_ops =
  co_isFailed :: "'c \<Rightarrow> bool"
  co_type :: "'c \<Rightarrow> connection_type"
  co_isMaster :: "('c, unit) act"
  co_connect :: "connection_string \<Rightarrow> 'c option res"

record 'c hook =
  hk_onCreate :: "('c, unit) act"
  hk_onHandedOut :: "('c, unit) act"

record stored_connection =
  sc_conn :: nat
  sc_when :: int

record pool_for_host =
  ph_pool :: "stored_connection list"
  ph_created :: int
  ph_type :: "connection_type option"

record scoped =
  sd_host :: bytes
  sd_conn :: "nat option"

record 'c world =
  w_heap :: "nat \<Rightarrow> 'c option"
  w_next :: nat
  w_pools :: "(bytes \<times> pool_for_host) list"
  w_hooks :: "'c hook list"
  w_scoped :: "(nat \<times> scoped) list"
  w_sid :: nat

section \<open>Objects\<close>

definition new_conn :: "'c \<Rightarrow> ('c world, nat) act" where
  "new_conn c w = (Inr (w_next w), w\<lparr>w_heap := (w_heap w)(w_next w := Some c), w_next := Suc (w_next w)\<rparr>)"

definition delete_conn :: "nat \<Rightarrow> ('c world, unit) act" where
  "delete_conn k w =
     (if w_heap w k = None then (Inl UB, w) else (Inr (), w\<lparr>w_heap := (w_heap w)(k := None)\<rparr>))"

definition at_conn :: "nat \<Rightarrow> ('c, 'a) act \<Rightarrow> ('c world, 'a) act" where
  "at_conn k f w =
     (case w_heap w k of
        None \<Rightarrow> (Inl UB, w)
      | Some c \<Rightarrow> (case f c of (r, c') \<Rightarrow> (r, w\<lparr>w_heap := (w_heap w)(k := Some c')\<rparr>)))"

section \<open>The pool of one host\<close>

definition pool_new :: pool_for_host where
  "pool_new = \<lparr>ph_pool = [], ph_created = 0, ph_type = None\<rparr>"

definition numAvailable :: "pool_for_host \<Rightarrow> int" where
  "numAvailable p = i32 (int (length (ph_pool p)))"

definition createdOne :: "connection_type \<Rightarrow> pool_for_host \<Rightarrow> pool_for_host" where
  "createdOne t p =
     (let p = (if ph_created p = 0 then p\<lparr>ph_type := Some t\<rparr> else p) in p\<lparr>ph_created := ph_created p + 1\<rparr>)"

definition pool_type :: "pool_for_host \<Rightarrow> connection_type res" where
  "pool_type p =
     bind_res (guard (ph_created p \<noteq> 0) AssertFail) (\<lambda>_.
       case ph_type p of None \<Rightarrow> Inl UB | Some t \<Rightarrow> Inr t)"

text \<open>The top of the stack is the head of the list.\<close>

definition pool_done :: "int \<Rightarrow> nat \<Rightarrow> pool_for_host \<Rightarrow> pool_for_host" where
  "pool_done now k p = p\<lparr>ph_pool := \<lparr>sc_conn = k, sc_when = now\<rparr> # ph_pool p\<rparr>"

definition stored_ok :: "int \<Rightarrow> stored_connection \<Rightarrow> bool" where
  "stored_ok now sc \<longleftrightarrow> now - sc_when sc < 3600"

text \<open>What \<open>get\<close> returns, which connections it deletes on the way, and the stack it leaves.\<close>

fun stack_get :: "int \<Rightarrow> stored_connection list \<Rightarrow> nat option \<times> nat list \<times> stored_connection list" where
  "stack_get now [] = (None, [], [])"
| "stack_get now (sc # st) =
     (if stored_ok now sc then (Some (sc_conn sc), [], st)
      else case stack_get now st of (r, ds, st') \<Rightarrow> (r, sc_conn sc # ds, st'))"

text \<open>
  \<open>flush\<close> pops the connections, asks each \<open>isMaster\<close>, and then pushes them in the order they
  were popped. When \<open>isMaster\<close> throws, those popped so far are in a vector of pointers only.
\<close>

fun flush_loop :: "'c client_ops \<Rightarrow> stored_connection list \<Rightarrow> stored_connection list \<Rightarrow>
    'c world \<Rightarrow> unit res \<times> stored_connection list \<times> 'c world" where
  "flush_loop ops [] popped w = (Inr (), rev popped, w)"
| "flush_loop ops (sc # st) popped w =
     (case at_conn (sc_conn sc) (co_isMaster ops) w of
        (Inl err, w) \<Rightarrow> (Inl err, st, w)
      | (Inr _, w) \<Rightarrow> flush_loop ops st (popped @ [sc]) w)"

section \<open>The pool\<close>

definition str_before :: "bytes \<Rightarrow> bytes" where
  "str_before s = (case split_char (CHR ''/'') (cstr s) of Some (a, _) \<Rightarrow> a | None \<Rightarrow> s)"

definition serverNameCompare :: "bytes \<Rightarrow> bytes \<Rightarrow> bool" where
  "serverNameCompare a b = string_less (str_before a) (str_before b)"

definition pool_at :: "bytes \<Rightarrow> 'c world \<Rightarrow> pool_for_host" where
  "pool_at host w = std_ref serverNameCompare pool_new host (w_pools w)"

definition set_pool :: "bytes \<Rightarrow> pool_for_host \<Rightarrow> 'c world \<Rightarrow> 'c world" where
  "set_pool host p w = w\<lparr>w_pools := std_put serverNameCompare host p (w_pools w)\<rparr>"

definition onCreate :: "nat \<Rightarrow> ('c world, unit) act" where
  "onCreate k w = seq_act (map (\<lambda>h. at_conn k (hk_onCreate h)) (w_hooks w)) w"

definition onHandedOut :: "nat \<Rightarrow> ('c world, unit) act" where
  "onHandedOut k w = seq_act (map (\<lambda>h. at_conn k (hk_onHandedOut h)) (w_hooks w)) w"

definition addHook :: "'c hook \<Rightarrow> 'c world \<Rightarrow> 'c world" where
  "addHook h w = w\<lparr>w_hooks := w_hooks w @ [h]\<rparr>"

definition get_stored :: "int \<Rightarrow> bytes \<Rightarrow> ('c world, nat option) act" where
  "get_stored now ident w =
     (let p = pool_at ident w; (r, ds, st) = stack_get now (ph_pool p)
      in bind_act (seq_act (map delete_conn ds)) (\<lambda>_ w. (Inr r, w)) (set_pool ident (p\<lparr>ph_pool := st\<rparr>) w))"

definition finishCreate :: "'c client_ops \<Rightarrow> bytes \<Rightarrow> nat \<Rightarrow> ('c world, nat) act" where
  "finishCreate ops host k =
     bind_act (at_conn k (\<lambda>c. (Inr (co_type ops c), c))) (\<lambda>t.
     bind_act (\<lambda>w. (Inr (), set_pool host (createdOne t (pool_at host w)) w)) (\<lambda>_.
     bind_act (onCreate k) (\<lambda>_. bind_act (onHandedOut k) (\<lambda>_. lift_act (Inr k)))))"

definition hand_out :: "nat \<Rightarrow> ('c world, nat) act" where
  "hand_out k = bind_act (onHandedOut k) (\<lambda>_. lift_act (Inr k))"

definition get_url :: "'c client_ops \<Rightarrow> int \<Rightarrow> connection_string \<Rightarrow> ('c world, nat) act" where
  "get_url ops now url =
     bind_act (get_stored now (cs_string url)) (\<lambda>c.
       case c of
         Some k \<Rightarrow> hand_out k
       | None \<Rightarrow>
           bind_act (lift_act (co_connect ops url)) (\<lambda>c.
             case c of
               None \<Rightarrow> lift_act (Inl (Uassert 13328))
             | Some c \<Rightarrow> bind_act (new_conn c) (finishCreate ops (cs_string url))))"

text \<open>A failure to connect throws a \<open>SocketException\<close> (with the code 11002).\<close>

definition get_host :: "'c client_ops \<Rightarrow> int \<Rightarrow> bytes \<Rightarrow> ('c world, nat) act" where
  "get_host ops now host =
     bind_act (get_stored now host) (\<lambda>c.
       case c of
         Some k \<Rightarrow> hand_out k
       | None \<Rightarrow>
           bind_act (lift_act (bind_res (cs_parse host) (\<lambda>cs.
             bind_res (guard (cs_isValid cs) (Uassert 13071)) (\<lambda>_. co_connect ops cs)))) (\<lambda>c.
             case c of
               None \<Rightarrow> lift_act (Inl SocketExn)
             | Some c \<Rightarrow> bind_act (new_conn c) (finishCreate ops host)))"

definition pool_release :: "'c client_ops \<Rightarrow> int \<Rightarrow> bytes \<Rightarrow> nat \<Rightarrow> ('c world, unit) act" where
  "pool_release ops now host k =
     bind_act (at_conn k (\<lambda>c. (Inr (co_isFailed ops c), c))) (\<lambda>failed.
       if failed then delete_conn k
       else (\<lambda>w. (Inr (), set_pool host (pool_done now k (pool_at host w)) w)))"

fun flush_pools :: "'c client_ops \<Rightarrow> (bytes \<times> pool_for_host) list \<Rightarrow> 'c world \<Rightarrow>
    unit res \<times> (bytes \<times> pool_for_host) list \<times> 'c world" where
  "flush_pools ops [] w = (Inr (), [], w)"
| "flush_pools ops ((host, p) # ps) w =
     (case flush_loop ops (ph_pool p) [] w of
        (Inl err, st, w) \<Rightarrow> (Inl err, (host, p\<lparr>ph_pool := st\<rparr>) # ps, w)
      | (Inr _, st, w) \<Rightarrow>
          (case flush_pools ops ps w of (r, ps', w) \<Rightarrow> (r, (host, p\<lparr>ph_pool := st\<rparr>) # ps', w)))"

definition pool_flush :: "'c client_ops \<Rightarrow> ('c world, unit) act" where
  "pool_flush ops w = (case flush_pools ops (w_pools w) w of (r, ps, w) \<Rightarrow> (r, w\<lparr>w_pools := ps\<rparr>))"

text \<open>The destructor of the pools deletes what they hold.\<close>

definition pool_destroy :: "pool_for_host \<Rightarrow> ('c world, unit) act" where
  "pool_destroy p = seq_act (map (\<lambda>sc. delete_conn (sc_conn sc)) (ph_pool p))"

text \<open>
  \<open>appendInfo\<close>, as the fields it appends: the connections of each host, and by type in the order
  of the enumeration. \<open>type()\<close> asserts that the pool has created a connection.
\<close>

definition number_value :: "int \<Rightarrow> bson_value" where
  "number_value n =
     (let l = word_of_int n :: 64 word
      in if sint l < 2 ^ 30 then VInt (ucast l)
         else if sint l < 2 ^ 40 then VDouble (dbl_of_int (sint l)) else VLong l)"

fun host_infos :: "(bytes \<times> pool_for_host) list \<Rightarrow> (elem \<times> connection_type) list res" where
  "host_infos [] = Inr []"
| "host_infos ((host, p) # ps) =
     bind_res (pool_type p) (\<lambda>t. bind_res (host_infos ps) (\<lambda>r.
       Inr (((host, VObject [(''available'', VInt (word_of_int (numAvailable p))),
                             (''created'', number_value (ph_created p))]), t) # r)))"

definition created_of_type :: "(bytes \<times> pool_for_host) list \<Rightarrow> connection_type \<Rightarrow> int" where
  "created_of_type ps t = sum_list (map (\<lambda>(_, p). if ph_type p = Some t then ph_created p else 0) ps)"

definition pool_appendInfo :: "'c world \<Rightarrow> doc res" where
  "pool_appendInfo w =
     bind_res (host_infos (w_pools w)) (\<lambda>infos.
       Inr [(''hosts'', VObject (map fst infos)),
            (''createdByType'', VObject (map (\<lambda>t. (typeToString t, number_value (created_of_type (w_pools w) t)))
               (filter (\<lambda>t. t \<in> set (map snd infos)) [INVALID, MASTER, PAIR, SET, SYNC]))),
            (''totalAvailable'', VInt (word_of_int (sum_list (map (\<lambda>(_, p). numAvailable p) (w_pools w))))),
            (''totalCreated'', number_value (sum_list (map (\<lambda>(_, p). ph_created p) (w_pools w))))])"

section \<open>ScopedDbConnection\<close>

definition scoped_add :: "bytes \<Rightarrow> nat option \<Rightarrow> ('c world, nat) act" where
  "scoped_add host k w =
     (Inr (w_sid w), w\<lparr>w_scoped := (w_sid w, \<lparr>sd_host = host, sd_conn = k\<rparr>) # w_scoped w, w_sid := Suc (w_sid w)\<rparr>)"

definition scoped_at :: "nat \<Rightarrow> ('c world, scoped) act" where
  "scoped_at i w = (case map_of (w_scoped w) i of None \<Rightarrow> (Inl UB, w) | Some s \<Rightarrow> (Inr s, w))"

definition scoped_clear :: "nat \<Rightarrow> ('c world, unit) act" where
  "scoped_clear i w =
     (Inr (), w\<lparr>w_scoped := map (\<lambda>(j, s). (j, if j = i then s\<lparr>sd_conn := None\<rparr> else s)) (w_scoped w)\<rparr>)"

definition scoped_new_host :: "'c client_ops \<Rightarrow> int \<Rightarrow> bytes \<Rightarrow> ('c world, nat) act" where
  "scoped_new_host ops now host = bind_act (get_host ops now host) (\<lambda>k. scoped_add host (Some k))"

definition scoped_new_url :: "'c client_ops \<Rightarrow> int \<Rightarrow> connection_string \<Rightarrow> ('c world, nat) act" where
  "scoped_new_url ops now url = bind_act (get_url ops now url) (\<lambda>k. scoped_add (cs_string url) (Some k))"

definition scoped_new_empty :: "('c world, nat) act" where
  "scoped_new_empty = scoped_add '''' None"

text \<open>\<open>operator->\<close>, \<open>conn()\<close> and \<open>get()\<close> differ in the code of their exception.\<close>

definition scoped_conn :: "nat \<Rightarrow> nat \<Rightarrow> ('c world, nat) act" where
  "scoped_conn code i =
     bind_act (scoped_at i) (\<lambda>s. lift_act (case sd_conn s of None \<Rightarrow> Inl (Uassert code) | Some k \<Rightarrow> Inr k))"

definition scoped_kill :: "nat \<Rightarrow> ('c world, unit) act" where
  "scoped_kill i =
     bind_act (scoped_at i) (\<lambda>s.
     bind_act (case sd_conn s of None \<Rightarrow> lift_act (Inr ()) | Some k \<Rightarrow> delete_conn k) (\<lambda>_. scoped_clear i))"

definition scoped_done :: "'c client_ops \<Rightarrow> int \<Rightarrow> nat \<Rightarrow> ('c world, unit) act" where
  "scoped_done ops now i =
     bind_act (scoped_at i) (\<lambda>s.
       case sd_conn s of
         None \<Rightarrow> lift_act (Inr ())
       | Some k \<Rightarrow> bind_act (pool_release ops now (sd_host s) k) (\<lambda>_. scoped_clear i))"

definition scoped_steal :: "nat \<Rightarrow> ('c world, nat) act" where
  "scoped_steal i =
     bind_act (scoped_at i) (\<lambda>s.
       case sd_conn s of
         None \<Rightarrow> lift_act (Inl AssertFail)
       | Some k \<Rightarrow> bind_act (scoped_clear i) (\<lambda>_. scoped_add (sd_host s) (Some k)))"

definition scoped_destroy :: "nat \<Rightarrow> ('c world, unit) act" where
  "scoped_destroy i =
     bind_act (scoped_at i) (\<lambda>s.
     bind_act (if sd_conn s \<noteq> None then scoped_kill i else lift_act (Inr ())) (\<lambda>_ w.
       (Inr (), w\<lparr>w_scoped := filter (\<lambda>(j, _). j \<noteq> i) (w_scoped w)\<rparr>)))"

section \<open>The driver's own connections\<close>

text \<open>
  \<open>ConnectionString::connect\<close>. A single server is a \<open>DBClientConnection\<close> with \<open>autoReconnect\<close>;
  the connections to several servers are arguments: how they connect, their state, their
  \<open>isMaster\<close>.
\<close>

datatype 'r db_client = Direct auto_connection | Cluster connection_type 'r

record 'r cluster_ops =
  cl_connect :: "connection_string \<Rightarrow> (connection_type \<times> 'r) option res"
  cl_isFailed :: "'r \<Rightarrow> bool"
  cl_isMaster :: "('r, unit) act"

definition cs_connect :: "'r cluster_ops \<Rightarrow> network \<Rightarrow> 32 word \<Rightarrow> connection_string \<Rightarrow> 'r db_client option res" where
  "cs_connect cl nw i cs =
     (case cs_type cs of
        INVALID \<Rightarrow> Inl (Uassert 13421)
      | MASTER \<Rightarrow>
          (case cs_servers cs of
             [] \<Rightarrow> Inl OutOfBounds
           | server # _ \<Rightarrow>
               (case connect_to nw server (connection_new True False i) of
                  (ok, c) \<Rightarrow> Inr (if ok then Some (Direct c) else None)))
      | _ \<Rightarrow> bind_res (cl_connect cl cs) (\<lambda>r. Inr (map_option (\<lambda>(t, c). Cluster t c) r)))"

fun driver_isMaster :: "'r cluster_ops \<Rightarrow> moment \<Rightarrow> ('r db_client, unit) act" where
  "driver_isMaster cl mo (Direct c) =
     (case bind_act (checked mo isMaster) (\<lambda>_. lift_act (Inr ())) c of (r, c) \<Rightarrow> (r, Direct c))"
| "driver_isMaster cl mo (Cluster t c) = (case cl_isMaster cl c of (r, c) \<Rightarrow> (r, Cluster t c))"

definition driver_ops :: "'r cluster_ops \<Rightarrow> moment \<Rightarrow> 32 word \<Rightarrow> 'r db_client client_ops" where
  "driver_ops cl mo i =
     \<lparr>co_isFailed = (\<lambda>c. case c of Direct c \<Rightarrow> cn_failed (ac_conn c) | Cluster _ c \<Rightarrow> cl_isFailed cl c),
      co_type = (\<lambda>c. case c of Direct c \<Rightarrow> MASTER | Cluster t _ \<Rightarrow> t),
      co_isMaster = driver_isMaster cl mo,
      co_connect = cs_connect cl (mo_net mo) i\<rparr>"

end
