(* ===== verification/PoolSpec.thy ===== *)
theory PoolSpec
  imports ConnPool "HOL-Library.Multiset"
begin

text \<open>
  Who owns the pool's connections. A run of a program is a sequence of steps (\<open>pool_reach\<close>); in
  every state it reaches each connection has at most one owner, a slot of a pool or a scoped
  object, and no step uses or deletes a connection that is gone. The proofs go through
  triples (\<open>ensures\<close>) that follow a connection while only a local variable points to it.
\<close>

section \<open>Runs of the pool\<close>

text \<open>
  What a program does with the pool: each step creates, uses or gives up a scoped connection,
  or calls the pool. The number in \<open>Use\<close> is the exception code of the accessor it goes through.
\<close>

datatype 'c pool_op =
    NewHost int bytes | NewUrl int connection_string | NewEmpty
  | Use nat nat "'c \<Rightarrow> unit res \<times> 'c" | Kill nat | Done int nat | Steal nat | Destroy nat
  | Flush | AddHook "'c hook"

definition ignore :: "('s, 'a) act \<Rightarrow> ('s, unit) act" where
  "ignore f = bind_act f (\<lambda>_. lift_act (Inr ()))"

fun run_op :: "'c client_ops \<Rightarrow> 'c pool_op \<Rightarrow> ('c world, unit) act" where
  "run_op ops (NewHost now host) = ignore (scoped_new_host ops now host)"
| "run_op ops (NewUrl now url) = ignore (scoped_new_url ops now url)"
| "run_op ops NewEmpty = ignore scoped_new_empty"
| "run_op ops (Use code i f) = bind_act (scoped_conn code i) (\<lambda>k. at_conn k f)"
| "run_op ops (Kill i) = scoped_kill i"
| "run_op ops (Done now i) = scoped_done ops now i"
| "run_op ops (Steal i) = ignore (scoped_steal i)"
| "run_op ops (Destroy i) = scoped_destroy i"
| "run_op ops Flush = pool_flush ops"
| "run_op ops (AddHook h) = (\<lambda>w. (Inr (), addHook h w))"

definition world_new :: "'c world" where
  "world_new = \<lparr>w_heap = (\<lambda>_. None), w_next = 0, w_pools = [], w_hooks = [], w_scoped = [], w_sid = 0\<rparr>"

text \<open>
  An action on a connection that is itself defined, and, with \<open>calm\<close>, does not throw. A step is
  allowed when the scoped object it is about exists and what it brings is such an action.
\<close>

definition good_act :: "bool \<Rightarrow> ('c, unit) act \<Rightarrow> bool" where
  "good_act calm f \<longleftrightarrow> (\<forall>c. fst (f c) \<noteq> Inl UB \<and> (calm \<longrightarrow> fst (f c) = Inr ()))"

definition good_ops :: "bool \<Rightarrow> 'c client_ops \<Rightarrow> bool" where
  "good_ops calm ops \<longleftrightarrow> good_act calm (co_isMaster ops) \<and> (\<forall>cs. co_connect ops cs \<noteq> Inl UB)"

fun allowed :: "bool \<Rightarrow> 'c pool_op \<Rightarrow> 'c world \<Rightarrow> bool" where
  "allowed calm (Use code i f) w \<longleftrightarrow> i \<in> fst ` set (w_scoped w) \<and> (\<forall>c. fst (f c) \<noteq> Inl UB)"
| "allowed calm (Kill i) w \<longleftrightarrow> i \<in> fst ` set (w_scoped w)"
| "allowed calm (Done now i) w \<longleftrightarrow> i \<in> fst ` set (w_scoped w)"
| "allowed calm (Steal i) w \<longleftrightarrow> i \<in> fst ` set (w_scoped w)"
| "allowed calm (Destroy i) w \<longleftrightarrow> i \<in> fst ` set (w_scoped w)"
| "allowed calm (AddHook h) w \<longleftrightarrow> good_act calm (hk_onCreate h) \<and> good_act calm (hk_onHandedOut h)"
| "allowed calm _ w \<longleftrightarrow> True"

inductive pool_reach :: "bool \<Rightarrow> 'c client_ops \<Rightarrow> 'c world \<Rightarrow> bool" for calm ops where
  start: "pool_reach calm ops world_new"
| step: "pool_reach calm ops w \<Longrightarrow> allowed calm op w \<Longrightarrow> pool_reach calm ops (snd (run_op ops op w))"

section \<open>Who owns a connection\<close>

interpretation server_map: std_order serverNameCompare
  using std_order_three_way [OF bytes_three_way, of str_before]
  by (simp add: serverNameCompare_def [abs_def] string_less_def)

definition pool_conns :: "pool_for_host \<Rightarrow> nat multiset" where
  "pool_conns p = mset (map sc_conn (ph_pool p))"

definition slots :: "(bytes \<times> pool_for_host) list \<Rightarrow> nat multiset" where
  "slots ps = sum_list (map (\<lambda>p. pool_conns (snd p)) ps)"

definition held :: "(nat \<times> scoped) list \<Rightarrow> nat multiset" where
  "held S = sum_list (map (\<lambda>(_, s). mset_set (set_option (sd_conn s))) S)"

text \<open>
  Every connection on the heap is counted once: in a slot of a pool, in a scoped object, or in
  \<open>M\<close>, the connections that only a local variable points to. \<open>D\<close> are those counted once too
  often for the moment.
\<close>

definition tracked ::
  "bool \<Rightarrow> nat multiset \<Rightarrow> nat multiset \<Rightarrow> (nat \<times> scoped) list \<Rightarrow> 'c world \<Rightarrow> bool" where
  "tracked calm M D S w \<longleftrightarrow>
     w_scoped w = S \<and> distinct (map fst S) \<and> (\<forall>i \<in> fst ` set S. i < w_sid w) \<and>
     server_map.in_order (w_pools w) \<and> (\<forall>k. w_heap w k \<noteq> None \<longrightarrow> k < w_next w) \<and>
     (\<forall>h \<in> set (w_hooks w). good_act calm (hk_onCreate h) \<and> good_act calm (hk_onHandedOut h)) \<and>
     (\<forall>k. count (M + slots (w_pools w) + held S) k = (if w_heap w k = None then 0 else 1) + count D k)"

lemma tracked_cancel: "tracked calm (X + M) (X + D) S w = tracked calm M D S w"
  by (simp add: tracked_def add.assoc)

lemma tracked_cancel1: "tracked calm (add_mset k M) {#k#} S w = tracked calm M {#} S w"
  using tracked_cancel [of calm "{#k#}" M "{#}"] by simp

lemma tracked_alive:
  assumes "tracked calm M {#} S w" and "k \<in># M + slots (w_pools w) + held S"
  shows "w_heap w k \<noteq> None"
proof
  assume "w_heap w k = None"
  then have "count (M + slots (w_pools w) + held S) k = 0" using assms(1) by (simp add: tracked_def)
  then show False using assms(2) by (simp only: count_eq_zero_iff) simp
qed

text \<open>Exceptions leave every owner intact; they may leak what was in flight, but not when calm.\<close>

definition fails_ok :: "bool \<Rightarrow> mongo_error \<Rightarrow> 'c world \<Rightarrow> bool" where
  "fails_ok calm err w \<longleftrightarrow> err \<noteq> UB \<and> (\<exists>L S. tracked calm L {#} S w \<and> (calm \<longrightarrow> L = {#}))"

definition ensures ::
  "bool \<Rightarrow> ('c world \<Rightarrow> bool) \<Rightarrow> ('c world, 'a) act \<Rightarrow> ('a \<Rightarrow> 'c world \<Rightarrow> bool) \<Rightarrow> bool" where
  "ensures calm P f Q \<longleftrightarrow>
     (\<forall>w. P w \<longrightarrow> (case f w of (Inl err, w') \<Rightarrow> fails_ok calm err w' | (Inr x, w') \<Rightarrow> Q x w'))"

lemma ensures_bind:
  assumes "ensures calm P m Q" and "\<And>x. ensures calm (Q x) (f x) R"
  shows "ensures calm P (bind_act m f) R"
  unfolding ensures_def
proof (intro allI impI)
  fix w
  assume "P w"
  with assms(1) show "case bind_act m f w of (Inl err, w') \<Rightarrow> fails_ok calm err w' | (Inr y, w') \<Rightarrow> R y w'"
    using assms(2) by (cases "m w"; cases "fst (m w)") (fastforce simp: ensures_def bind_act_def)+
qed

lemma ensures_Inr: "(\<And>w. P w \<Longrightarrow> Q x w) \<Longrightarrow> ensures calm P (lift_act (Inr x)) Q"
  by (simp add: ensures_def)

lemma ensures_pre: "ensures calm P f Q \<Longrightarrow> (\<And>w. P' w \<Longrightarrow> P w) \<Longrightarrow> ensures calm P' f Q"
  by (simp add: ensures_def)

lemma ensures_post: "ensures calm P f Q \<Longrightarrow> (\<And>x w. Q x w \<Longrightarrow> Q' x w) \<Longrightarrow> ensures calm P f Q'"
  by (fastforce simp: ensures_def split: prod.splits sum.splits)

lemma seq_act_Cons: "seq_act (f # fs) = bind_act f (\<lambda>_. seq_act fs)"
  by (rule ext) simp

section \<open>Triples for the operations\<close>

lemma tracked_set_pool:
  assumes "tracked calm M D S w"
  shows "tracked calm (pool_conns (pool_at host w) + M) (pool_conns p + D) S (set_pool host p w)"
proof -
  let ?ps = "w_pools w"
  have "slots (std_put serverNameCompare host p ?ps) + pool_conns (pool_at host w) = slots ?ps + pool_conns p"
    using server_map.put_sum [of ?ps pool_conns pool_new host p] assms
    by (simp add: tracked_def slots_def pool_at_def pool_conns_def pool_new_def)
  then have "count (slots (std_put serverNameCompare host p ?ps)) k + count (pool_conns (pool_at host w)) k =
      count (slots ?ps) k + count (pool_conns p) k" for k
    by (metis count_union)
  note this [simp del]
  have "count (pool_conns (pool_at host w) + M + slots (std_put serverNameCompare host p ?ps) + held S) k =
      (if w_heap w k = None then 0 else 1) + count (pool_conns p + D) k" for k
  proof -
    have "count (M + slots ?ps + held S) k = (if w_heap w k = None then 0 else 1) + count D k"
      using assms by (simp add: tracked_def)
    then show ?thesis
      using \<open>\<And>k. count (slots (std_put serverNameCompare host p ?ps)) k + _ = _\<close> [of k] by simp
  qed
  then show ?thesis
    using assms by (simp add: tracked_def set_pool_def server_map.in_order_put)
qed

lemma same_conns_set_pool:
  "pool_conns p = pool_conns (pool_at host w) \<Longrightarrow> tracked calm M D S w \<Longrightarrow> tracked calm M D S (set_pool host p w)"
  using tracked_set_pool [of calm M D S w host p] tracked_cancel by metis

lemma ensures_new:
  "ensures calm (tracked calm M {#} S) (new_conn (c :: 'c)) (\<lambda>k w. tracked calm (add_mset k M) {#} S w)"
proof -
  have "w_heap w (w_next w) = None" if "tracked calm M {#} S w" for w :: "'c world"
    using that by (auto simp: tracked_def)
  then show ?thesis by (auto simp: ensures_def new_conn_def tracked_def less_Suc_eq)
qed

lemma ensures_delete_owned:
  "ensures calm (\<lambda>w. tracked calm M {#} S w \<and> w_heap w k \<noteq> None) (delete_conn k :: ('c world, unit) act) (\<lambda>_. tracked calm M {#k#} S)"
  by (auto simp: ensures_def delete_conn_def tracked_def)

lemma ensures_delete:
  "ensures calm (tracked calm (add_mset k M) {#} S) (delete_conn k :: ('c world, unit) act) (\<lambda>_. tracked calm M {#} S)"
proof -
  have "w_heap w k \<noteq> None" if "tracked calm (add_mset k M) {#} S w" for w :: "'c world"
    using tracked_alive [OF that, of k] by simp
  then have "ensures calm (tracked calm (add_mset k M) {#} S) (delete_conn k :: ('c world, unit) act) (\<lambda>_. tracked calm (add_mset k M) {#k#} S)"
    by (intro ensures_pre [OF ensures_delete_owned]) auto
  then show ?thesis by (rule ensures_post) (simp add: tracked_cancel1)
qed

lemma ensures_deletes:
  "ensures calm (tracked calm (mset ds + M) {#} S) (seq_act (map delete_conn ds) :: ('c world, unit) act) (\<lambda>_. tracked calm M {#} S)"
proof (induction ds)
  case (Cons k ds)
  have "ensures calm (tracked calm (add_mset k (mset ds + M)) {#} S) (bind_act (delete_conn k :: ('c world, unit) act) (\<lambda>_. seq_act (map delete_conn ds)))
      (\<lambda>_. tracked calm M {#} S)"
    using Cons by (intro ensures_bind [OF ensures_delete]) simp
  then show ?case by (simp add: seq_act_Cons)
qed (simp add: ensures_def)

text \<open>An action on a connection that is there changes no owner.\<close>

lemma tracked_at_conn:
  assumes "tracked calm M D S w" and "w_heap w k = Some c"
  shows "tracked calm M D S (w\<lparr>w_heap := (w_heap w)(k := Some c')\<rparr>)"
  using assms by (simp add: tracked_def)

lemma ensures_at:
  fixes f :: "('c, 'a) act"
  assumes "\<And>c. fst (f c) \<noteq> Inl UB" and "calm \<Longrightarrow> M = {#} \<or> (\<forall>c. \<exists>x. fst (f c) = Inr x)"
  shows "ensures calm (\<lambda>w. tracked calm M {#} S w \<and> w_heap w k \<noteq> None) (at_conn k f) (\<lambda>_. tracked calm M {#} S)"
  unfolding ensures_def
proof (intro allI impI)
  fix w :: "'c world"
  assume w: "tracked calm M {#} S w \<and> w_heap w k \<noteq> None"
  then obtain c where c: "w_heap w k = Some c" by auto
  have t: "tracked calm M {#} S (w\<lparr>w_heap := (w_heap w)(k := Some c')\<rparr>)" for c'
    using tracked_at_conn [of calm M "{#}" S w k c c'] c w by simp
  obtain r c' where f: "f c = (r, c')" by (cases "f c")
  show "case at_conn k f w of (Inl err, w') \<Rightarrow> fails_ok calm err w' | (Inr x, w') \<Rightarrow> tracked calm M {#} S w'"
  proof (cases r)
    case (Inl err)
    then have "err \<noteq> UB" "calm \<Longrightarrow> M = {#}" using assms(1) [of c] assms(2) f by (auto dest!: spec [of _ c])
    then show ?thesis using Inl f c t by (auto simp: at_conn_def fails_ok_def)
  qed (use f c t in \<open>simp add: at_conn_def\<close>)
qed

lemma alive_keep:
  fixes f :: "('c world, 'a) act"
  assumes "ensures calm (\<lambda>w. tracked calm (add_mset k M) {#} S w \<and> w_heap w k \<noteq> None) f Q"
  shows "ensures calm (tracked calm (add_mset k M) {#} S) f Q"
proof (rule ensures_pre [OF assms])
  fix w :: "'c world"
  assume w: "tracked calm (add_mset k M) {#} S w"
  then show "tracked calm (add_mset k M) {#} S w \<and> w_heap w k \<noteq> None" using tracked_alive [OF w, of k] by simp
qed

lemma ensures_hooks:
  "\<forall>f \<in> set fs. good_act calm f \<Longrightarrow>
    ensures calm (tracked calm (add_mset k M) {#} S) (seq_act (map (at_conn k) fs)) (\<lambda>_. tracked calm (add_mset k M) {#} S)"
proof (induction fs)
  case (Cons f fs)
  have "ensures calm (tracked calm (add_mset k M) {#} S) (at_conn k f) (\<lambda>_. tracked calm (add_mset k M) {#} S)"
    using Cons.prems by (intro alive_keep ensures_at) (auto simp: good_act_def)
  then have "ensures calm (tracked calm (add_mset k M) {#} S) (bind_act (at_conn k f) (\<lambda>_. seq_act (map (at_conn k) fs)))
      (\<lambda>_. tracked calm (add_mset k M) {#} S)"
    using Cons by (intro ensures_bind) auto
  then show ?case by (simp add: seq_act_Cons)
qed (simp add: ensures_def)

lemma ensures_onHooks:
  "ensures calm (tracked calm (add_mset k M) {#} S) (onCreate k :: ('c world, unit) act) (\<lambda>_. tracked calm (add_mset k M) {#} S)"
  "ensures calm (tracked calm (add_mset k M) {#} S) (onHandedOut k :: ('c world, unit) act) (\<lambda>_. tracked calm (add_mset k M) {#} S)"
proof -
  have "ensures calm (tracked calm (add_mset k M) {#} S)
      (\<lambda>w. seq_act (map (\<lambda>h. at_conn k (sel h)) (w_hooks w)) w) (\<lambda>_. tracked calm (add_mset k M) {#} S)"
    if sel: "sel = hk_onCreate \<or> sel = hk_onHandedOut" for sel :: "'c hook \<Rightarrow> ('c, unit) act"
    unfolding ensures_def
  proof (intro allI impI)
    fix w :: "'c world"
    assume w: "tracked calm (add_mset k M) {#} S w"
    then have "\<forall>f \<in> set (map sel (w_hooks w)). good_act calm f" using sel by (auto simp: tracked_def)
    from ensures_hooks [OF this] show "case seq_act (map (\<lambda>h. at_conn k (sel h)) (w_hooks w)) w of
        (Inl err, w') \<Rightarrow> fails_ok calm err w' | (Inr x, w') \<Rightarrow> tracked calm (add_mset k M) {#} S w'"
      using w by (auto simp: ensures_def comp_def)
  qed
  from this [of hk_onCreate] this [of hk_onHandedOut]
  show "ensures calm (tracked calm (add_mset k M) {#} S) (onCreate k :: ('c world, unit) act) (\<lambda>_. tracked calm (add_mset k M) {#} S)"
      "ensures calm (tracked calm (add_mset k M) {#} S) (onHandedOut k :: ('c world, unit) act) (\<lambda>_. tracked calm (add_mset k M) {#} S)"
    unfolding onCreate_def [abs_def] onHandedOut_def [abs_def] by blast+
qed

lemma stack_get_conns:
  assumes "stack_get now st = (r, ds, st')"
  shows "mset (map sc_conn st) = mset_set (set_option r) + mset ds + mset (map sc_conn st')"
  using assms by (induction now st arbitrary: r ds st' rule: stack_get.induct) (auto split: if_splits prod.splits)

lemma ensures_get_stored:
  "ensures calm (tracked calm M {#} S) (get_stored now ident :: ('c world, nat option) act)
    (\<lambda>r. tracked calm (mset_set (set_option r) + M) {#} S)"
  unfolding ensures_def
proof (intro allI impI)
  fix w :: "'c world"
  assume w: "tracked calm M {#} S w"
  let ?p = "pool_at ident w"
  obtain r ds st where g: "stack_get now (ph_pool ?p) = (r, ds, st)" by (metis prod_cases3)
  let ?w = "set_pool ident (?p\<lparr>ph_pool := st\<rparr>) w"
  have "pool_conns ?p = pool_conns (?p\<lparr>ph_pool := st\<rparr>) + (mset ds + mset_set (set_option r))"
    using stack_get_conns [OF g] by (simp add: pool_conns_def)
  then have "tracked calm (pool_conns (?p\<lparr>ph_pool := st\<rparr>) + (mset ds + (mset_set (set_option r) + M)))
      (pool_conns (?p\<lparr>ph_pool := st\<rparr>) + {#}) S ?w"
    using tracked_set_pool [OF w, of ident "?p\<lparr>ph_pool := st\<rparr>"] by (simp add: add.assoc)
  then have "tracked calm (mset ds + (mset_set (set_option r) + M)) {#} S ?w" by (simp only: tracked_cancel)
  then show "case get_stored now ident w of (Inl err, w') \<Rightarrow> fails_ok calm err w'
      | (Inr r, w') \<Rightarrow> tracked calm (mset_set (set_option r) + M) {#} S w'"
    using ensures_deletes [of calm ds "mset_set (set_option r) + M" S] g
    by (auto simp: get_stored_def bind_act_def ensures_def split: prod.splits sum.splits)
qed

lemma ensures_hand_out:
  "ensures calm (tracked calm (add_mset k M) {#} S) (hand_out k) (\<lambda>j. tracked calm (add_mset j M) {#} S)"
  unfolding hand_out_def by (rule ensures_bind [OF ensures_onHooks(2)]) (rule ensures_Inr)

lemma ensures_finishCreate:
  "ensures calm (tracked calm (add_mset k M) {#} S) (finishCreate ops host k) (\<lambda>j. tracked calm (add_mset j M) {#} S)"
proof -
  have set: "ensures calm (tracked calm (add_mset k M) {#} S)
      (\<lambda>w. (Inr (), set_pool host (createdOne t (pool_at host w)) w)) (\<lambda>_. tracked calm (add_mset k M) {#} S)" for t
    by (auto simp: ensures_def createdOne_def Let_def pool_conns_def intro!: same_conns_set_pool)
  show ?thesis
    unfolding finishCreate_def
    by (intro ensures_bind [OF alive_keep [OF ensures_at]] ensures_bind [OF set] ensures_bind [OF ensures_onHooks(1)]
        ensures_bind [OF ensures_onHooks(2)] ensures_Inr) simp_all
qed

text \<open>An error of code that no connection is in flight for.\<close>

lemma ensures_lift:
  assumes "\<And>err. r = Inl err \<Longrightarrow> err \<noteq> UB" and "calm \<Longrightarrow> M = {#}" and "\<And>x w. tracked calm M {#} S w \<Longrightarrow> r = Inr x \<Longrightarrow> Q x w"
  shows "ensures calm (tracked calm M {#} S) (lift_act r) Q"
  using assms by (cases r) (auto simp: ensures_def fails_ok_def)

definition no_leak :: "bool \<Rightarrow> nat multiset \<Rightarrow> bool" where
  "no_leak calm M \<longleftrightarrow> (calm \<longrightarrow> M = {#})"

lemma ensures_get_url:
  assumes "good_ops calm ops" and "no_leak calm M"
  shows "ensures calm (tracked calm M {#} S) (get_url ops now url) (\<lambda>k. tracked calm (add_mset k M) {#} S)"
  unfolding get_url_def
proof (rule ensures_bind [OF ensures_get_stored])
  fix c :: "nat option"
  show "ensures calm (tracked calm (mset_set (set_option c) + M) {#} S)
    (case c of None \<Rightarrow> bind_act (lift_act (co_connect ops url))
        (\<lambda>c. case c of None \<Rightarrow> lift_act (Inl (Uassert 13328)) | Some c \<Rightarrow> bind_act (new_conn c) (finishCreate ops (cs_string url)))
     | Some k \<Rightarrow> hand_out k) (\<lambda>k. tracked calm (add_mset k M) {#} S)"
  proof (cases c)
    case None
    have "ensures calm (tracked calm M {#} S) (case c' of None \<Rightarrow> lift_act (Inl (Uassert 13328))
        | Some c \<Rightarrow> bind_act (new_conn c) (finishCreate ops (cs_string url))) (\<lambda>k. tracked calm (add_mset k M) {#} S)" for c'
      using assms(2) by (cases c') (auto intro!: ensures_lift ensures_bind [OF ensures_new] ensures_finishCreate simp: no_leak_def)
    moreover have "ensures calm (tracked calm M {#} S) (lift_act (co_connect ops url)) (\<lambda>_. tracked calm M {#} S)"
      using assms by (intro ensures_lift) (auto simp: good_ops_def no_leak_def)
    ultimately show ?thesis unfolding None by (auto intro!: ensures_bind)
  qed (simp add: ensures_hand_out)
qed

lemma bind_UB: "bind_res m f = Inl UB \<longleftrightarrow> m = Inl UB \<or> (\<exists>x. m = Inr x \<and> f x = Inl UB)"
  by (cases m) auto

lemma guard_UB: "err \<noteq> UB \<Longrightarrow> guard b err \<noteq> Inl UB"
  by (simp add: guard_def)

lemma host_and_port_no_UB: "host_and_port_new s \<noteq> Inl UB"
  by (simp add: host_and_port_new_def Let_def split: option.split)

lemma fill_loop_no_UB: "fill_loop n s \<noteq> Inl UB"
  by (induction n arbitrary: s) (auto simp: bind_UB host_and_port_no_UB split: option.split prod.split)

lemma cs_parse_no_UB: "cs_parse host \<noteq> Inl UB"
proof -
  have f: "fillServers s cs \<noteq> Inl UB" for s cs
    by (simp add: fillServers_def Let_def bind_UB fill_loop_no_UB del: fill_loop.simps split: option.split prod.split)
  have t: "cs_of_type t s n \<noteq> Inl UB" for t s n
    by (simp add: cs_of_type_def bind_UB f guard_UB)
  have "cs_by_commas host \<noteq> Inl UB"
    by (simp add: cs_by_commas_def Let_def bind_UB host_and_port_no_UB t)
  then show ?thesis using t by (auto simp: cs_parse_def split: option.splits)
qed

lemma ensures_get_host:
  assumes "good_ops calm ops" and "no_leak calm M"
  shows "ensures calm (tracked calm M {#} S) (get_host ops now host) (\<lambda>k. tracked calm (add_mset k M) {#} S)"
  unfolding get_host_def
proof (rule ensures_bind [OF ensures_get_stored])
  fix c :: "nat option"
  let ?r = "bind_res (cs_parse host) (\<lambda>cs. bind_res (guard (cs_isValid cs) (Uassert 13071)) (\<lambda>_. co_connect ops cs))"
  show "ensures calm (tracked calm (mset_set (set_option c) + M) {#} S)
    (case c of None \<Rightarrow> bind_act (lift_act ?r)
        (\<lambda>c. case c of None \<Rightarrow> lift_act (Inl SocketExn) | Some c \<Rightarrow> bind_act (new_conn c) (finishCreate ops host))
     | Some k \<Rightarrow> hand_out k) (\<lambda>k. tracked calm (add_mset k M) {#} S)"
  proof (cases c)
    case None
    have "ensures calm (tracked calm M {#} S) (case c' of None \<Rightarrow> lift_act (Inl SocketExn)
        | Some c \<Rightarrow> bind_act (new_conn c) (finishCreate ops host)) (\<lambda>k. tracked calm (add_mset k M) {#} S)" for c'
      using assms(2) by (cases c') (auto intro!: ensures_lift ensures_bind [OF ensures_new] ensures_finishCreate simp: no_leak_def)
    moreover have "?r \<noteq> Inl UB" using assms(1) by (simp add: good_ops_def bind_UB cs_parse_no_UB guard_UB)
    then have "ensures calm (tracked calm M {#} S) (lift_act ?r) (\<lambda>_. tracked calm M {#} S)"
      using assms by (intro ensures_lift) (auto simp: no_leak_def)
    ultimately show ?thesis unfolding None by (auto intro!: ensures_bind)
  qed (simp add: ensures_hand_out)
qed

text \<open>A connection a scoped object holds: giving it back, or deleting it.\<close>

lemma alive_held:
  assumes "ensures calm (\<lambda>w. tracked calm M {#} S w \<and> w_heap w k \<noteq> None) f Q" and "k \<in># held S"
  shows "ensures calm (tracked calm M {#} S) f Q"
  using assms(1)
proof (rule ensures_pre)
  fix w
  assume w: "tracked calm M {#} S w"
  then show "tracked calm M {#} S w \<and> w_heap w k \<noteq> None" using tracked_alive [OF w, of k] assms(2) by simp
qed

lemma ensures_release:
  assumes "k \<in># held S"
  shows "ensures calm (tracked calm M {#} S) (pool_release ops now host k :: ('c world, unit) act)
    (\<lambda>_. tracked calm M {#k#} S)"
proof -
  have "tracked calm M {#k#} S (set_pool host (pool_done now k (pool_at host w)) w)" if "tracked calm M {#} S w" for w :: "'c world"
  proof -
    have "pool_conns (pool_done now k (pool_at host w)) = pool_conns (pool_at host w) + {#k#}"
      by (simp add: pool_done_def pool_conns_def)
    then show ?thesis
      using tracked_set_pool [OF that, of host "pool_done now k (pool_at host w)"]
      by (simp only: add.assoc tracked_cancel) simp
  qed
  then have "ensures calm (tracked calm M {#} S)
      (if failed then delete_conn k :: ('c world, unit) act else (\<lambda>w. (Inr (), set_pool host (pool_done now k (pool_at host w)) w)))
      (\<lambda>_. tracked calm M {#k#} S)" for failed
    using alive_held [OF ensures_delete_owned assms, of calm M] by (cases failed) (auto simp: ensures_def)
  then show ?thesis
    unfolding pool_release_def by (intro ensures_bind [OF alive_held [OF ensures_at assms]]) simp_all
qed

section \<open>Triples for scoped connections\<close>

definition clear :: "nat \<Rightarrow> (nat \<times> scoped) list \<Rightarrow> (nat \<times> scoped) list" where
  "clear i S = map (\<lambda>(j, s). (j, if j = i then s\<lparr>sd_conn := None\<rparr> else s)) S"

lemma clear_fst [simp]: "map fst (clear i S) = map fst S" "fst ` set (clear i S) = fst ` set S"
  by (force simp: clear_def)+

lemma clear_mem: "(j, s) \<in> set (clear i S) \<Longrightarrow> j \<in> fst ` set S"
  by (force simp: clear_def)

lemma held_Cons [simp]: "held ((i, s) # S) = mset_set (set_option (sd_conn s)) + held S" "held [] = {#}"
  by (simp_all add: held_def)

lemma clear_other: "i \<notin> fst ` set S \<Longrightarrow> clear i S = S"
  by (induction S) (auto simp: clear_def)

lemma held_clear:
  "distinct (map fst S) \<Longrightarrow> map_of S i = Some s \<Longrightarrow> held S = mset_set (set_option (sd_conn s)) + held (clear i S)"
proof (induction S)
  case (Cons p S)
  obtain j t where p: "p = (j, t)" by (cases p)
  show ?case
  proof (cases "j = i")
    case True
    then have "clear i S = S" using Cons.prems(1) p by (intro clear_other) simp
    then show ?thesis using True p Cons.prems(2) by (simp add: clear_def)
  next
    case False
    then show ?thesis using Cons p by (simp add: clear_def)
  qed
qed simp

lemma ensures_clear:
  assumes "map_of S i = Some s"
  shows "ensures calm (tracked calm M D S) (scoped_clear i)
    (\<lambda>_. tracked calm (mset_set (set_option (sd_conn s)) + M) D (clear i S))"
  using held_clear [OF _ assms] clear_fst
  by (auto simp: ensures_def scoped_clear_def tracked_def ac_simps simp flip: clear_def)

lemma ensures_clear_debt:
  assumes "map_of S i = Some s"
  shows "ensures calm (tracked calm M (mset_set (set_option (sd_conn s))) S) (scoped_clear i)
    (\<lambda>_. tracked calm M {#} (clear i S))"
  by (rule ensures_post [OF ensures_clear [OF assms]]) (simp add: tracked_cancel [where D = "{#}", simplified])

definition settled :: "bool \<Rightarrow> nat multiset \<Rightarrow> 'c world \<Rightarrow> bool" where
  "settled calm M w \<longleftrightarrow> (\<exists>S. tracked calm M {#} S w)"

lemma ensures_scoped_at:
  assumes "i \<in> fst ` set S"
  shows "ensures calm (tracked calm M D S) (scoped_at i) (\<lambda>s w. tracked calm M D S w \<and> map_of S i = Some s)"
proof -
  obtain s where "map_of S i = Some s" using assms by (metis map_of_eq_None_iff not_None_eq)
  then show ?thesis by (auto simp: ensures_def scoped_at_def tracked_def)
qed

lemma ensures_conj: "(R \<Longrightarrow> ensures calm P f Q) \<Longrightarrow> ensures calm (\<lambda>w. P w \<and> R) f Q"
  by (auto simp: ensures_def)

lemma map_of_held: "map_of S i = Some s \<Longrightarrow> sd_conn s = Some k \<Longrightarrow> k \<in># held S"
  by (induction S) (auto split: if_splits)

lemma ensures_add:
  "ensures calm (tracked calm (mset_set (set_option k) + M) {#} S) (scoped_add host k)
    (\<lambda>_. settled calm M)"
  by (auto simp: ensures_def scoped_add_def settled_def tracked_def ac_simps less_Suc_eq
      intro!: exI [of _ "(w_sid _, \<lparr>sd_host = host, sd_conn = k\<rparr>) # _"])

lemma ensures_scoped_kill:
  assumes "i \<in> fst ` set S"
  shows "ensures calm (tracked calm M {#} S) (scoped_kill i) (\<lambda>_. tracked calm M {#} (clear i S))"
  unfolding scoped_kill_def
proof (rule ensures_bind [OF ensures_scoped_at [OF assms]], rule ensures_conj)
  fix s
  assume s: "map_of S i = Some s"
  let ?o = "mset_set (set_option (sd_conn s))"
  have "ensures calm (tracked calm M {#} S) (case sd_conn s of None \<Rightarrow> lift_act (Inr ()) | Some k \<Rightarrow> delete_conn k)
      (\<lambda>_. tracked calm M ?o S)"
    using alive_held [OF ensures_delete_owned map_of_held [OF s]] by (auto intro: ensures_Inr split: option.split)
  moreover have "ensures calm (tracked calm M ?o S) (scoped_clear i) (\<lambda>_. tracked calm M {#} (clear i S))"
    by (rule ensures_clear_debt [OF s])
  ultimately show "ensures calm (tracked calm M {#} S)
      (bind_act (case sd_conn s of None \<Rightarrow> lift_act (Inr ()) | Some k \<Rightarrow> delete_conn k) (\<lambda>_. scoped_clear i))
      (\<lambda>_. tracked calm M {#} (clear i S))"
    by (rule ensures_bind)
qed

lemma ensures_scoped_done:
  assumes "i \<in> fst ` set S"
  shows "ensures calm (tracked calm M {#} S) (scoped_done ops now i) (\<lambda>_. settled calm M)"
  unfolding scoped_done_def
proof (rule ensures_bind [OF ensures_scoped_at [OF assms]], rule ensures_conj)
  fix s
  assume s: "map_of S i = Some s"
  show "ensures calm (tracked calm M {#} S)
      (case sd_conn s of None \<Rightarrow> lift_act (Inr ())
       | Some k \<Rightarrow> bind_act (pool_release ops now (sd_host s) k) (\<lambda>_. scoped_clear i)) (\<lambda>_. settled calm M)"
  proof (cases "sd_conn s")
    case (Some k)
    have "ensures calm (tracked calm M {#k#} S) (scoped_clear i) (\<lambda>_. tracked calm M {#} (clear i S))"
      using ensures_clear_debt [OF s, of calm M] Some by simp
    from ensures_post [OF ensures_bind [OF ensures_release [OF map_of_held [OF s Some]] this], of "\<lambda>_. settled calm M"]
    show ?thesis unfolding Some by (auto simp: settled_def)
  qed (auto intro!: ensures_Inr simp: settled_def)
qed

lemma ensures_scoped_steal:
  assumes "i \<in> fst ` set S" and "no_leak calm M"
  shows "ensures calm (tracked calm M {#} S) (scoped_steal i) (\<lambda>_. settled calm M)"
  unfolding scoped_steal_def
proof (rule ensures_bind [OF ensures_scoped_at [OF assms(1)]], rule ensures_conj)
  fix s
  assume s: "map_of S i = Some s"
  show "ensures calm (tracked calm M {#} S)
      (case sd_conn s of None \<Rightarrow> lift_act (Inl AssertFail)
       | Some k \<Rightarrow> bind_act (scoped_clear i) (\<lambda>_. scoped_add (sd_host s) (Some k))) (\<lambda>_. settled calm M)"
  proof (cases "sd_conn s")
    case None
    then show ?thesis using assms(2) by (auto intro!: ensures_lift simp: no_leak_def)
  next
    case (Some k)
    then have "ensures calm (tracked calm M {#} S) (scoped_clear i) (\<lambda>_. tracked calm (mset_set (set_option (Some k)) + M) {#} (clear i S))"
      using ensures_clear [OF s, of calm M "{#}"] by simp
    then show ?thesis unfolding Some using ensures_bind [OF _ ensures_add] by fastforce
  qed
qed

lemma held_filter: "held (filter (\<lambda>(j, _). j \<noteq> i) (clear i S)) = held (clear i S)"
  by (induction S) (auto simp: clear_def split: prod.splits)

lemma ensures_scoped_destroy:
  assumes "i \<in> fst ` set S"
  shows "ensures calm (tracked calm M {#} S) (scoped_destroy i) (\<lambda>_. settled calm M)"
  unfolding scoped_destroy_def
proof (rule ensures_bind [OF ensures_scoped_at [OF assms]], rule ensures_conj)
  fix s
  assume s: "map_of S i = Some s"
  have "ensures calm (tracked calm M {#} S) (if sd_conn s \<noteq> None then scoped_kill i else lift_act (Inr ()))
      (\<lambda>_. tracked calm M {#} (clear i S))"
  proof (cases "sd_conn s")
    case None
    have "clear i S = S" if "distinct (map fst S)"
      using s None that
    proof (induction S)
      case (Cons p S)
      then show ?case using clear_other [of i S] by (cases p) (auto simp: clear_def image_iff split: if_splits)
    qed (simp add: clear_def)
    then show ?thesis using None by (auto intro!: ensures_Inr simp: tracked_def)
  qed (simp add: ensures_scoped_kill [OF assms])
  moreover have "ensures calm (tracked calm M {#} (clear i S))
      (\<lambda>w. (Inr (), w\<lparr>w_scoped := filter (\<lambda>(j, _). j \<noteq> i) (w_scoped w)\<rparr>)) (\<lambda>_. settled calm M)"
    using held_filter [of i S]
    by (auto simp: ensures_def settled_def tracked_def distinct_map_filter dest: clear_mem)
  ultimately show "ensures calm (tracked calm M {#} S)
      (bind_act (if sd_conn s \<noteq> None then scoped_kill i else lift_act (Inr ()))
        (\<lambda>_ w. (Inr (), w\<lparr>w_scoped := filter (\<lambda>(j, _). j \<noteq> i) (w_scoped w)\<rparr>))) (\<lambda>_. settled calm M)"
    by (rule ensures_bind)
qed

section \<open>Flushing\<close>

text \<open>What asking every connection does to the world: the connections may change, no owner does.\<close>

definition asked :: "bool \<Rightarrow> nat multiset \<Rightarrow> (nat \<times> scoped) list \<Rightarrow> 'c world \<Rightarrow> 'c world \<Rightarrow> bool" where
  "asked calm M S w w' \<longleftrightarrow> tracked calm M {#} S w' \<and> w_pools w' = w_pools w \<and>
     (\<forall>k. w_heap w' k = None \<longleftrightarrow> w_heap w k = None)"

lemma at_conn_asked:
  assumes "tracked calm M {#} S w" and "w_heap w k \<noteq> None" and "good_act calm f" and "at_conn k f w = (r, w')"
  shows "asked calm M S w w' \<and> (\<forall>err. r = Inl err \<longrightarrow> err \<noteq> UB \<and> \<not> calm)"
proof -
  obtain c where c: "w_heap w k = Some c" using assms(2) by auto
  obtain c' where f: "f c = (r, c')" "w' = w\<lparr>w_heap := (w_heap w)(k := Some c')\<rparr>"
    using assms(4) c by (auto simp: at_conn_def split: prod.splits)
  have "fst (f c) \<noteq> Inl UB \<and> (calm \<longrightarrow> fst (f c) = Inr ())" using assms(3) by (simp add: good_act_def)
  then show ?thesis
    using f c tracked_at_conn [OF assms(1) c, of c'] by (auto simp: asked_def)
qed

lemma flush_loop_asked:
  assumes "good_act calm (co_isMaster ops)"
  shows "tracked calm M {#} S w \<Longrightarrow> \<forall>sc \<in> set st. w_heap w (sc_conn sc) \<noteq> None \<Longrightarrow>
    flush_loop ops st popped w = (r, st', w') \<Longrightarrow>
    asked calm M S w w' \<and> mset st' \<subseteq># mset (popped @ st) \<and>
    (case r of Inl err \<Rightarrow> err \<noteq> UB \<and> \<not> calm | Inr _ \<Rightarrow> mset st' = mset (popped @ st))"
proof (induction st arbitrary: popped w)
  case Nil
  then show ?case by (auto simp: asked_def)
next
  case (Cons sc st)
  obtain x w1 where a: "at_conn (sc_conn sc) (co_isMaster ops) w = (x, w1)" by fastforce
  have w1: "asked calm M S w w1" "\<And>err. x = Inl err \<Longrightarrow> err \<noteq> UB \<and> \<not> calm"
    using at_conn_asked [OF Cons.prems(1) _ assms a] Cons.prems(2) by auto
  show ?case
  proof (cases x)
    case (Inl err)
    then show ?thesis using Cons.prems(3) a w1 by (auto simp: subset_mset.add_increasing)
  next
    case (Inr u)
    have "\<forall>sc \<in> set st. w_heap w1 (sc_conn sc) \<noteq> None"
      using w1(1) Cons.prems(2) by (simp add: asked_def del: not_None_eq)
    then have "asked calm M S w1 w' \<and> mset st' \<subseteq># mset ((popped @ [sc]) @ st) \<and>
        (case r of Inl err \<Rightarrow> err \<noteq> UB \<and> \<not> calm | Inr _ \<Rightarrow> mset st' = mset ((popped @ [sc]) @ st))"
      using Cons.IH [of w1 "popped @ [sc]"] Cons.prems(3) a w1(1) Inr by (simp add: asked_def)
    then show ?thesis using w1(1) by (auto simp: asked_def split: sum.splits)
  qed
qed

lemma flush_pools_asked:
  assumes "good_act calm (co_isMaster ops)"
  shows "tracked calm M {#} S w \<Longrightarrow> \<forall>k \<in># slots ps. w_heap w k \<noteq> None \<Longrightarrow>
    flush_pools ops ps w = (r, ps', w') \<Longrightarrow>
    asked calm M S w w' \<and> slots ps' \<subseteq># slots ps \<and> map fst ps' = map fst ps \<and>
    (case r of Inl err \<Rightarrow> err \<noteq> UB \<and> \<not> calm | Inr _ \<Rightarrow> slots ps' = slots ps)"
proof (induction ps arbitrary: w r ps' w')
  case Nil
  then show ?case by (auto simp: asked_def)
next
  case (Cons q ps)
  obtain host p where q: "q = (host, p)" by (cases q)
  obtain x st w1 where a: "flush_loop ops (ph_pool p) [] w = (x, st, w1)" by (metis prod_cases3)
  have slots_Cons: "slots ((h, p) # ps) = mset (map sc_conn (ph_pool p)) + slots ps" for h p and ps :: "(bytes \<times> pool_for_host) list"
    by (simp add: slots_def pool_conns_def)
  have "\<forall>sc \<in> set (ph_pool p). w_heap w (sc_conn sc) \<noteq> None"
    using Cons.prems(2) q by (auto simp: slots_Cons)
  from flush_loop_asked [OF assms Cons.prems(1) this a]
  have w1: "asked calm M S w w1" "mset st \<subseteq># mset (ph_pool p)"
      "\<And>err. x = Inl err \<Longrightarrow> err \<noteq> UB \<and> \<not> calm" "\<And>u. x = Inr u \<Longrightarrow> mset st = mset (ph_pool p)"
    by auto
  then have sub: "mset (map sc_conn st) \<subseteq># mset (map sc_conn (ph_pool p))" by (simp add: image_mset_subseteq_mono)
  show ?case
  proof (cases x)
    case (Inl err)
    then show ?thesis using Cons.prems(3) q a w1 sub by (auto simp: slots_Cons)
  next
    case (Inr u)
    obtain ps2 w2 where b: "flush_pools ops ps w1 = (r, ps2, w2)" "ps' = (host, p\<lparr>ph_pool := st\<rparr>) # ps2" "w' = w2"
      using Cons.prems(3) q a Inr by (auto split: prod.splits)
    have "\<forall>k \<in># slots ps. w_heap w1 k \<noteq> None"
      using w1(1) Cons.prems(2) q by (simp add: asked_def slots_Cons del: not_None_eq)
    then have "asked calm M S w1 w2 \<and> slots ps2 \<subseteq># slots ps \<and> map fst ps2 = map fst ps \<and>
        (case r of Inl err \<Rightarrow> err \<noteq> UB \<and> \<not> calm | Inr _ \<Rightarrow> slots ps2 = slots ps)"
      using Cons.IH [OF _ _ b(1)] w1(1) by (simp add: asked_def)
    moreover have "mset (map sc_conn st) = mset (map sc_conn (ph_pool p))" using w1(4) [OF Inr] by simp
    ultimately show ?thesis using w1(1) b q by (auto simp: asked_def slots_Cons split: sum.splits)
  qed
qed

lemma in_order_keys: "map fst ps' = map fst ps \<Longrightarrow> server_map.in_order ps \<Longrightarrow> server_map.in_order ps'"
  unfolding server_map.in_order_def by (metis sorted_wrt_map)

lemma ensures_flush:
  assumes "good_ops calm ops" and "no_leak calm M"
  shows "ensures calm (tracked calm M {#} S) (pool_flush ops :: ('c world, unit) act) (\<lambda>_. settled calm M)"
  unfolding ensures_def
proof (intro allI impI)
  fix w :: "'c world"
  assume w: "tracked calm M {#} S w"
  obtain r ps' w' where f: "flush_pools ops (w_pools w) w = (r, ps', w')" by (metis prod_cases3)
  have "\<forall>k \<in># slots (w_pools w). w_heap w k \<noteq> None" using tracked_alive [OF w] by simp
  from flush_pools_asked [OF _ w this f] assms(1)
  have r: "asked calm M S w w'" "slots ps' \<subseteq># slots (w_pools w)" "map fst ps' = map fst (w_pools w)"
      "case r of Inl err \<Rightarrow> err \<noteq> UB \<and> \<not> calm | Inr _ \<Rightarrow> slots ps' = slots (w_pools w)"
    by (auto simp: good_ops_def)
  then obtain X where X: "slots (w_pools w) = slots ps' + X" by (auto simp: mset_subset_eq_exists_conv)
  have "tracked calm M {#} S w'" "slots (w_pools w') = slots ps' + X" "server_map.in_order ps'"
    using r(1) X in_order_keys [OF r(3)] w unfolding tracked_def [of calm M "{#}" S w] by (simp_all add: asked_def)
  then have t: "tracked calm (M + X) {#} S (w'\<lparr>w_pools := ps'\<rparr>)" by (simp add: tracked_def ac_simps)
  show "case pool_flush ops w of (Inl err, w') \<Rightarrow> fails_ok calm err w' | (Inr x, w') \<Rightarrow> settled calm M w'"
  proof (cases r)
    case (Inl err)
    then show ?thesis using f r(4) t by (auto simp: pool_flush_def fails_ok_def)
  next
    case (Inr u)
    then have "tracked calm M {#} S (w'\<lparr>w_pools := ps'\<rparr>)" using r(4) t X by simp
    then show ?thesis using Inr f by (auto simp: pool_flush_def settled_def)
  qed
qed

section \<open>Every step\<close>

lemma ensures_ignore: "ensures calm P f (\<lambda>_. Q) \<Longrightarrow> ensures calm P (ignore f) (\<lambda>_. Q)"
  unfolding ignore_def by (rule ensures_bind) (auto intro: ensures_Inr)

lemma ensures_use:
  assumes "i \<in> fst ` set S" and "\<And>c. fst (f c) \<noteq> Inl UB" and "no_leak calm M"
  shows "ensures calm (tracked calm M {#} S) (bind_act (scoped_conn code i) (\<lambda>k. at_conn k f)) (\<lambda>_. settled calm M)"
proof (rule ensures_bind)
  show "ensures calm (tracked calm M {#} S) (scoped_conn code i) (\<lambda>k w. tracked calm M {#} S w \<and> k \<in># held S)"
    unfolding scoped_conn_def
  proof (rule ensures_bind [OF ensures_scoped_at [OF assms(1)]], rule ensures_conj)
    fix s
    assume s: "map_of S i = Some s"
    then show "ensures calm (tracked calm M {#} S) (lift_act (case sd_conn s of None \<Rightarrow> Inl (Uassert code) | Some k \<Rightarrow> Inr k))
        (\<lambda>k w. tracked calm M {#} S w \<and> k \<in># held S)"
      using assms(3) map_of_held [OF s] by (intro ensures_lift) (auto simp: no_leak_def split: option.splits)
  qed
  fix k
  show "ensures calm (\<lambda>w. tracked calm M {#} S w \<and> k \<in># held S) (at_conn k f) (\<lambda>_. settled calm M)"
  proof (rule ensures_conj)
    assume "k \<in># held S"
    moreover have "ensures calm (\<lambda>w. tracked calm M {#} S w \<and> w_heap w k \<noteq> None) (at_conn k f) (\<lambda>_. settled calm M)"
      using assms by (intro ensures_post [OF ensures_at]) (auto simp: settled_def no_leak_def)
    ultimately show "ensures calm (tracked calm M {#} S) (at_conn k f) (\<lambda>_. settled calm M)"
      by (intro alive_held) auto
  qed
qed

lemma ensures_run_op:
  assumes "good_ops calm ops" and "no_leak calm M" and "tracked calm M {#} (w_scoped w) w" and "allowed calm op w"
  shows "case run_op ops op w of (Inl err, w') \<Rightarrow> fails_ok calm err w' | (Inr x, w') \<Rightarrow> settled calm M w'"
proof -
  let ?S = "w_scoped w"
  have add: "ensures calm (tracked calm (add_mset k M) {#} ?S) (scoped_add host (Some k)) (\<lambda>_. settled calm M)" for k host
    using ensures_add [of calm "Some k" M ?S host] by simp
  have kill: "ensures calm (tracked calm M {#} ?S) (scoped_kill i) (\<lambda>_. settled calm M)" if "i \<in> fst ` set ?S" for i
    by (rule ensures_post [OF ensures_scoped_kill [OF that]]) (auto simp: settled_def)
  note new = ensures_bind [OF ensures_get_host [OF assms(1,2)] add] ensures_bind [OF ensures_get_url [OF assms(1,2)] add]
    ensures_add [of calm None M ?S, simplified]
  have "ensures calm (tracked calm M {#} ?S) (run_op ops op) (\<lambda>_. settled calm M)" if "\<And>h. op \<noteq> AddHook h"
    using assms(2,4) that
    by (cases op) (auto intro!: ensures_ignore ensures_use kill ensures_scoped_done ensures_scoped_steal
        ensures_scoped_destroy ensures_flush assms(1) new
        simp: scoped_new_host_def scoped_new_url_def scoped_new_empty_def)
  moreover have "settled calm M (addHook h w)" if "op = AddHook h" for h
    using assms(3,4) that by (auto simp: settled_def tracked_def addHook_def)
  ultimately show ?thesis using assms(3) by (cases "\<exists>h. op = AddHook h") (auto simp: ensures_def)
qed

section \<open>Properties\<close>

lemma pool_settled:
  assumes "good_ops calm ops" and "pool_reach calm ops w"
  shows "\<exists>M. settled calm M w \<and> no_leak calm M"
  using assms(2)
proof induction
  case start
  have "tracked calm {#} {#} [] (world_new :: 'a world)" by (simp add: tracked_def world_new_def slots_def)
  then show ?case by (auto simp: settled_def no_leak_def)
next
  case (step w op)
  then obtain M where M: "settled calm M w" "no_leak calm M" by blast
  then have "tracked calm M {#} (w_scoped w) w" by (auto simp: settled_def tracked_def)
  from ensures_run_op [OF assms(1) M(2) this step.hyps(2)] show ?case
    using M(2) by (cases "run_op ops op w"; cases "fst (run_op ops op w)")
      (auto simp: fails_ok_def settled_def no_leak_def)
qed

definition owners :: "'c world \<Rightarrow> nat multiset" where
  "owners w = slots (w_pools w) + held (w_scoped w)"

lemma pool_owned:
  assumes "good_ops calm ops" and "pool_reach calm ops w"
  shows "count (owners w) k \<le> (if w_heap w k = None then 0 else 1)"
    and "calm \<Longrightarrow> count (owners w) k = (if w_heap w k = None then 0 else 1)"
proof -
  obtain M where M: "settled calm M w" "no_leak calm M" using pool_settled [OF assms] by blast
  then have "count (M + owners w) k = (if w_heap w k = None then 0 else 1)"
    by (auto simp: settled_def tracked_def owners_def add.assoc)
  then show "count (owners w) k \<le> (if w_heap w k = None then 0 else 1)"
      "calm \<Longrightarrow> count (owners w) k = (if w_heap w k = None then 0 else 1)"
    using M(2) by (auto simp: no_leak_def split: if_splits)
qed

text \<open>
  C16: In every state a program can bring the pool to, a connection has at most one owner, one
  slot of one pool or one scoped object, and every connection that is owned exists; as long as
  hooks and \<open>isMaster\<close> do not throw, every connection that exists is owned, so none is leaked.
\<close>

theorem pool_owns_each_once:
  assumes "good_ops calm ops" and "pool_reach calm ops w"
  shows "count (owners w) k \<le> 1 \<and> (k \<in># owners w \<longrightarrow> w_heap w k \<noteq> None) \<and>
    (calm \<longrightarrow> (w_heap w k \<noteq> None \<longleftrightarrow> k \<in># owners w))"
  using pool_owned [OF assms, of k] by (cases "w_heap w k = None") (simp_all flip: count_greater_zero_iff)

text \<open>
  C17: No call of the pool or of a scoped connection that exists ever uses a connection that is
  gone or deletes one twice, whatever was called before and whatever was thrown on the way.
\<close>

theorem pool_never_uses_deleted:
  assumes "good_ops calm ops" and "pool_reach calm ops w" and "allowed calm op w"
  shows "fst (run_op ops op w) \<noteq> Inl UB"
proof -
  obtain M where M: "settled calm M w" "no_leak calm M" using pool_settled [OF assms(1,2)] by blast
  then have "tracked calm M {#} (w_scoped w) w" by (auto simp: settled_def tracked_def)
  from ensures_run_op [OF assms(1) M(2) this assms(3)] show ?thesis
    by (cases "run_op ops op w") (auto simp: fails_ok_def)
qed

end
