(* ===== verification/PoolTypes.thy ===== *)
theory PoolTypes
  imports PoolSpec
begin

text \<open>
  What a pool knows about its connections: the number created for a host, their type, and when
  \<open>get\<close> reuses one. A pool that holds a connection has created one and has a type; pools that
  have not created any are left behind by calls that failed to connect.
\<close>

section \<open>Well-formed pools\<close>

definition wf_pool :: "pool_for_host \<Rightarrow> bool" where
  "wf_pool p \<longleftrightarrow> 0 \<le> ph_created p \<and> (ph_type p = None \<longleftrightarrow> ph_created p = 0) \<and> (ph_created p = 0 \<longrightarrow> ph_pool p = [])"

definition pools_wf :: "'c world \<Rightarrow> bool" where
  "pools_wf w \<longleftrightarrow> (\<forall>h. wf_pool (pool_at h w))"

text \<open>What an operation of the pool does to the pools, whether it throws or not.\<close>

definition grows :: "'c world \<Rightarrow> 'c world \<Rightarrow> bool" where
  "grows w w' \<longleftrightarrow> w_scoped w' = w_scoped w \<and> (\<forall>h. ph_created (pool_at h w) \<le> ph_created (pool_at h w')) \<and>
     (pools_wf w \<longrightarrow> pools_wf w')"

lemma grows_refl [simp]: "grows w w"
  by (simp add: grows_def)

lemma grows_trans: "grows w w' \<Longrightarrow> grows w' w'' \<Longrightarrow> grows w w''"
  by (auto simp: grows_def intro: order_trans)

lemma grows_bind:
  assumes "\<And>w. grows w (snd (m w))" and "\<And>x w. grows w (snd (f x w))"
  shows "grows w (snd (bind_act m f w))"
proof -
  obtain r w1 where m: "m w = (r, w1)" by (cases "m w")
  have w1: "grows w w1" using assms(1) [of w] m by simp
  show ?thesis using m w1 grows_trans [OF w1 assms(2)] by (cases r) auto
qed

lemma grows_lift [simp]: "grows w (snd (lift_act r w))"
  by simp

lemma grows_same: "w_pools w' = w_pools w \<Longrightarrow> w_scoped w' = w_scoped w \<Longrightarrow> grows w w'"
  by (simp add: grows_def pools_wf_def pool_at_def)

lemma grows_heap:
  "grows w (snd (new_conn c w))" "grows w (snd (delete_conn k w))" "grows w (snd (at_conn k f w))"
  by (auto intro!: grows_same simp: new_conn_def delete_conn_def at_conn_def split: option.split prod.split)

lemma pool_at_set: "pool_at h (set_pool g p w) = (if server_map.same_key h g then p else pool_at h w)"
  by (simp add: pool_at_def set_pool_def std_ref_def server_map.find_put)

lemma pool_at_same: "server_map.same_key h g \<Longrightarrow> pool_at h w = pool_at g w"
proof -
  assume hg: "server_map.same_key h g"
  have "std_find serverNameCompare h m = std_find serverNameCompare g m" for m :: "(bytes \<times> pool_for_host) list"
  proof (induction m)
    case (Cons a m)
    then show ?case using server_map.same_key_iff [OF hg, of "fst a"] by (cases a) simp
  qed simp
  then show ?thesis by (simp add: pool_at_def std_ref_def)
qed

lemma grows_set:
  assumes "ph_created (pool_at h w) \<le> ph_created p" and "wf_pool (pool_at h w) \<Longrightarrow> wf_pool p"
  shows "grows w (set_pool h p w)"
proof -
  have sc: "w_scoped (set_pool h p w) = w_scoped w" by (simp add: set_pool_def)
  have "ph_created (pool_at g w) \<le> ph_created (pool_at g (set_pool h p w))" for g
    using assms(1) pool_at_same [of g h w] by (simp add: pool_at_set)
  moreover have "wf_pool (pool_at g (set_pool h p w))" if "pools_wf w" for g
    using assms(2) that by (simp add: pool_at_set pools_wf_def)
  ultimately show ?thesis using sc by (simp add: grows_def pools_wf_def)
qed

lemma grows_deletes: "grows w (snd (seq_act (map delete_conn ds) w))"
  by (induction ds arbitrary: w) (simp_all add: seq_act_Cons grows_bind grows_heap)

lemma grows_hooks: "grows w (snd (onCreate k w))" "grows w (snd (onHandedOut k w))"
proof -
  have "grows w (snd (seq_act (map (\<lambda>h. at_conn k (sel h)) hs) w))" for sel :: "'a hook \<Rightarrow> ('a, unit) act" and hs w
    by (induction hs arbitrary: w) (simp_all add: seq_act_Cons grows_bind grows_heap)
  then show "grows w (snd (onCreate k w))" "grows w (snd (onHandedOut k w))"
    unfolding onCreate_def onHandedOut_def by blast+
qed

section \<open>The operations of the pool\<close>

lemma grows_get_stored: "grows w (snd (get_stored now ident w))"
proof -
  obtain r ds st where g: "stack_get now (ph_pool (pool_at ident w)) = (r, ds, st)" by (metis prod_cases3)
  have "wf_pool (pool_at ident w\<lparr>ph_pool := st\<rparr>)" if "wf_pool (pool_at ident w)"
    using that g by (auto simp: wf_pool_def)
  then have "grows w (set_pool ident (pool_at ident w\<lparr>ph_pool := st\<rparr>) w)" by (intro grows_set) auto
  moreover have "grows v (snd (bind_act (seq_act (map delete_conn ds)) (\<lambda>_ w. (Inr r, w)) v))" for v :: "'a world"
    by (rule grows_bind [OF grows_deletes]) simp
  ultimately show ?thesis using g grows_trans by (simp add: get_stored_def) blast
qed

lemma stored_found:
  assumes "get_stored now ident w = (Inr (Some k), w')" and "pools_wf w"
  shows "0 < ph_created (pool_at ident w)"
proof -
  obtain r ds st where g: "stack_get now (ph_pool (pool_at ident w)) = (r, ds, st)" by (metis prod_cases3)
  then have "r = Some k"
    using assms(1) by (auto simp: get_stored_def bind_act_def split: prod.splits sum.splits)
  then have "ph_pool (pool_at ident w) \<noteq> []" using g by auto
  then show ?thesis using assms(2) by (auto simp: pools_wf_def wf_pool_def order_less_le)
qed

lemma wf_createdOne: "wf_pool p \<Longrightarrow> wf_pool (createdOne t p)"
  by (auto simp: wf_pool_def createdOne_def Let_def)

lemma grows_created: "grows w (set_pool host (createdOne t (pool_at host w)) w)"
  by (rule grows_set) (simp_all add: wf_createdOne, simp add: createdOne_def Let_def)

lemma grows_finishCreate: "grows w (snd (finishCreate ops host k w))"
  unfolding finishCreate_def
  by (intro grows_bind) (simp_all add: grows_heap grows_hooks grows_created)

lemma grows_hand_out: "grows w (snd (hand_out k w))"
  unfolding hand_out_def by (intro grows_bind) (simp_all add: grows_hooks)

lemma grows_get: "grows w (snd (get_url ops now url w))" "grows w (snd (get_host ops now host w))"
  unfolding get_url_def get_host_def
  by (rule grows_bind [OF grows_get_stored]; rename_tac c w; case_tac c;
      simp add: grows_hand_out; rule grows_bind; simp; rename_tac c w; case_tac c;
      simp add: grows_bind grows_heap grows_finishCreate)+

lemma grows_release:
  assumes "0 < ph_created (pool_at host w)"
  shows "grows w (snd (pool_release ops now host k w))"
proof -
  have "grows w w1 \<and> (r = Inr failed \<longrightarrow> w_pools w1 = w_pools w)"
    if "at_conn k (\<lambda>c. (Inr (co_isFailed ops c), c)) w = (r, w1)" for r w1 failed
    using that grows_heap(3) [of w k "\<lambda>c. (Inr (co_isFailed ops c), c)"]
    by (auto simp: at_conn_def split: option.splits)
  moreover have "grows v (set_pool host (pool_done now k (pool_at host v)) v)" if "w_pools v = w_pools w" for v
    using assms that by (intro grows_set) (auto simp: pool_done_def wf_pool_def pool_at_def)
  ultimately show ?thesis
    unfolding pool_release_def bind_act_def
    by (fastforce split: prod.splits sum.splits intro: grows_trans grows_heap)
qed

section \<open>Flushing\<close>

definition same_pool :: "bytes \<times> pool_for_host \<Rightarrow> bytes \<times> pool_for_host \<Rightarrow> bool" where
  "same_pool a b \<longleftrightarrow> fst b = fst a \<and> ph_created (snd b) = ph_created (snd a) \<and> (wf_pool (snd a) \<longrightarrow> wf_pool (snd b))"

lemma flush_loop_frame:
  "flush_loop ops st popped w = (r, st', w') \<Longrightarrow> w_pools w' = w_pools w \<and> w_scoped w' = w_scoped w"
proof (induction st arbitrary: popped w)
  case (Cons sc st)
  obtain x w1 where a: "at_conn (sc_conn sc) (co_isMaster ops) w = (x, w1)" by fastforce
  then have "w_pools w1 = w_pools w \<and> w_scoped w1 = w_scoped w"
    by (auto simp: at_conn_def split: option.splits prod.splits)
  then show ?case using Cons a by (cases x) auto
qed simp

lemma flush_pools_frame:
  "flush_pools ops ps w = (r, ps', w') \<Longrightarrow> list_all2 same_pool ps ps' \<and> w_scoped w' = w_scoped w"
proof (induction ps arbitrary: w r ps')
  case (Cons q ps)
  obtain host p where q: "q = (host, p)" by (cases q)
  obtain x st w1 where a: "flush_loop ops (ph_pool p) [] w = (x, st, w1)" by (metis prod_cases3)
  have w1: "w_scoped w1 = w_scoped w" using flush_loop_frame [OF a] by simp
  have same: "same_pool q (host, p\<lparr>ph_pool := st\<rparr>)" using a by (auto simp: q same_pool_def wf_pool_def)
  show ?case
  proof (cases x)
    case (Inl err)
    then show ?thesis
      using Cons.prems q a w1 same by (auto simp: same_pool_def list.rel_refl)
  next
    case (Inr u)
    obtain ps2 w2 where b: "flush_pools ops ps w1 = (r, ps2, w2)" "ps' = (host, p\<lparr>ph_pool := st\<rparr>) # ps2" "w' = w2"
      using Cons.prems q a Inr by (auto split: prod.splits)
    then show ?thesis using Cons.IH [of w1 r ps2] b w1 same q by simp
  qed
qed simp

lemma same_pool_at:
  assumes "list_all2 same_pool ps ps'"
  shows "ph_created (std_ref serverNameCompare pool_new h ps') = ph_created (std_ref serverNameCompare pool_new h ps)"
    and "wf_pool (std_ref serverNameCompare pool_new h ps) \<Longrightarrow> wf_pool (std_ref serverNameCompare pool_new h ps')"
proof -
  have "rel_option (\<lambda>p p'. same_pool (h, p) (h, p')) (std_find serverNameCompare h ps) (std_find serverNameCompare h ps')"
    using assms
  proof (induction rule: list_all2_induct)
    case (Cons a ps b ps')
    then show ?case by (cases a; cases b) (auto simp: same_pool_def)
  qed simp
  then show "ph_created (std_ref serverNameCompare pool_new h ps') = ph_created (std_ref serverNameCompare pool_new h ps)"
    "wf_pool (std_ref serverNameCompare pool_new h ps) \<Longrightarrow> wf_pool (std_ref serverNameCompare pool_new h ps')"
    by (auto simp: std_ref_def same_pool_def elim!: option.rel_cases)
qed

lemma grows_flush: "grows w (snd (pool_flush ops w))"
proof -
  obtain r ps' w' where f: "flush_pools ops (w_pools w) w = (r, ps', w')" by (metis prod_cases3)
  from same_pool_at [OF flush_pools_frame [OF f, THEN conjunct1]] flush_pools_frame [OF f]
  show ?thesis using f by (simp add: pool_flush_def grows_def pools_wf_def pool_at_def)
qed

section \<open>The invariant\<close>

definition typed :: "'c world \<Rightarrow> bool" where
  "typed w \<longleftrightarrow> pools_wf w \<and>
     (\<forall>(i, s) \<in> set (w_scoped w). sd_conn s \<noteq> None \<longrightarrow> 0 < ph_created (pool_at (sd_host s) w))"

lemma grows_typed: "grows w w' \<Longrightarrow> typed w \<Longrightarrow> typed w'"
  by (fastforce simp: typed_def grows_def intro: order_less_le_trans)

lemma finishCreate_positive:
  assumes "finishCreate ops host k w = (Inr j, w')" and "pools_wf w"
  shows "0 < ph_created (pool_at host w')"
proof -
  obtain t w1 where t: "at_conn k (\<lambda>c. (Inr (co_type ops c), c)) w = (Inr t, w1)"
      "bind_act (\<lambda>w. (Inr (), set_pool host (createdOne t (pool_at host w)) w))
        (\<lambda>_. bind_act (onCreate k) (\<lambda>_. bind_act (onHandedOut k) (\<lambda>_. lift_act (Inr k)))) w1 = (Inr j, w')"
    using assms(1) by (auto simp: finishCreate_def bind_act_def [of "at_conn _ _"] split: prod.splits sum.splits)
  let ?w2 = "set_pool host (createdOne t (pool_at host w1)) w1"
  have "pools_wf w1" using assms(2) grows_heap(3) [of w k "\<lambda>c. (Inr (co_type ops c), c)"] t(1) by (simp add: grows_def)
  then have "0 < ph_created (pool_at host ?w2)"
    by (simp add: pool_at_set createdOne_def Let_def pools_wf_def wf_pool_def add_pos_nonneg order_less_le_trans)
  moreover have "grows ?w2 (snd (bind_act (onCreate k) (\<lambda>_. bind_act (onHandedOut k) (\<lambda>_. lift_act (Inr k))) ?w2))"
    by (intro grows_bind grows_hooks) simp
  then have "grows ?w2 w'" using t(2) by (simp add: bind_act_def [of "\<lambda>w. (Inr (), _ w)"])
  ultimately show ?thesis by (auto simp: grows_def intro: order_less_le_trans)
qed

lemma hand_out_grows: "hand_out k w = (r, w') \<Longrightarrow> grows w w'"
  using grows_hand_out [of w k] by simp

lemma stored_grows: "get_stored now ident w = (r, w') \<Longrightarrow> grows w w'"
  using grows_get_stored [of w now ident] by simp

lemma new_finish_positive:
  assumes "bind_act (new_conn c) (finishCreate ops host) w = (Inr k, w')" and "pools_wf w"
  shows "0 < ph_created (pool_at host w')"
proof -
  have "pools_wf (snd (new_conn c w))" using grows_heap(1) [of w c] assms(2) by (simp add: grows_def)
  then show ?thesis using assms(1) finishCreate_positive by (auto simp: bind_act_def new_conn_def)
qed

lemma get_positive_after:
  assumes "get_stored now host w = (Inr c, w1)" and "pools_wf w"
    and "case c of Some k \<Rightarrow> hand_out k w1 = (Inr j, w')
      | None \<Rightarrow> \<exists>c. bind_act (new_conn c) (finishCreate ops host) w1 = (Inr j, w')"
  shows "0 < ph_created (pool_at host w')"
proof (cases c)
  case None
  have "pools_wf w1" using stored_grows [OF assms(1)] assms(2) by (simp add: grows_def)
  then show ?thesis using None assms(3) new_finish_positive by auto
next
  case (Some k)
  have "0 < ph_created (pool_at host w)" using stored_found assms(1,2) Some by blast
  moreover have "grows w w'" using stored_grows [OF assms(1)] grows_trans hand_out_grows Some assms(3) by fastforce
  ultimately show ?thesis by (auto simp: grows_def intro: order_less_le_trans)
qed

lemma get_host_positive:
  assumes "get_host ops now host w = (Inr k, w')" and "pools_wf w"
  shows "0 < ph_created (pool_at host w')"
proof -
  obtain c w1 where c: "get_stored now host w = (Inr c, w1)"
    using assms(1) by (auto simp: get_host_def bind_act_def split: prod.splits sum.splits)
  show ?thesis
    by (rule get_positive_after [OF c assms(2), where ops = ops and j = k])
      (use assms(1) c in \<open>auto simp: get_host_def bind_act_def [of "lift_act _"] split: option.splits sum.splits\<close>)
qed

lemma get_url_positive:
  assumes "get_url ops now url w = (Inr k, w')" and "pools_wf w"
  shows "0 < ph_created (pool_at (cs_string url) w')"
proof -
  obtain c w1 where c: "get_stored now (cs_string url) w = (Inr c, w1)"
    using assms(1) by (auto simp: get_url_def bind_act_def split: prod.splits sum.splits)
  show ?thesis
    by (rule get_positive_after [OF c assms(2), where ops = ops and j = k])
      (use assms(1) c in \<open>auto simp: get_url_def bind_act_def [of "lift_act _"] split: option.splits sum.splits\<close>)
qed

lemma scoped_at_state: "scoped_at i w = (r, w') \<Longrightarrow> w' = w \<and> (\<forall>s. r = Inr s \<longrightarrow> (i, s) \<in> set (w_scoped w))"
  by (auto simp: scoped_at_def dest: map_of_SomeD split: option.splits)

lemma typed_add:
  "typed w \<Longrightarrow> (k \<noteq> None \<Longrightarrow> 0 < ph_created (pool_at host w)) \<Longrightarrow> typed (snd (scoped_add host k w))"
  by (auto simp: typed_def scoped_add_def pools_wf_def pool_at_def)

lemma typed_clear: "typed w \<Longrightarrow> typed (snd (scoped_clear i w))"
  by (auto simp: typed_def scoped_clear_def pools_wf_def pool_at_def split: prod.splits)

lemma typed_bind:
  assumes "typed w" and "typed w \<Longrightarrow> typed (snd (m w))"
    and "\<And>x v. m w = (Inr x, v) \<Longrightarrow> typed v \<Longrightarrow> typed (snd (f x v))"
  shows "typed (snd (bind_act m f w))"
proof -
  obtain r v where m: "m w = (r, v)" by (cases "m w")
  then show ?thesis using assms by (cases r) auto
qed

lemma typed_at_scoped:
  assumes "typed w" and "\<And>s. (i, s) \<in> set (w_scoped w) \<Longrightarrow> typed (snd (f s w))"
  shows "typed (snd (bind_act (scoped_at i) f w))"
  using assms by (auto simp: snd_bind_act dest: scoped_at_state split: prod.splits sum.splits)

lemma typed_heap: "typed w \<Longrightarrow> typed (snd (delete_conn k w))" "typed w \<Longrightarrow> typed (snd (at_conn k f w))"
  using grows_heap grows_typed by blast+

lemma typed_kill: "typed w \<Longrightarrow> typed (snd (scoped_kill i w))"
  unfolding scoped_kill_def
  by (intro typed_at_scoped typed_bind) (auto intro: typed_heap typed_clear split: option.split)

lemma typed_done: "typed w \<Longrightarrow> typed (snd (scoped_done ops now i w))"
  unfolding scoped_done_def
proof (intro typed_at_scoped)
  fix s
  assume w: "typed w" "(i, s) \<in> set (w_scoped w)"
  show "typed (snd ((case sd_conn s of None \<Rightarrow> lift_act (Inr ())
      | Some k \<Rightarrow> bind_act (pool_release ops now (sd_host s) k) (\<lambda>_. scoped_clear i)) w))"
  proof (cases "sd_conn s")
    case (Some k)
    then have "0 < ph_created (pool_at (sd_host s) w)" using w by (auto simp: typed_def)
    then show ?thesis
      using Some w grows_typed [OF grows_release] by (auto intro!: typed_bind typed_clear)
  qed (simp add: w)
qed

lemma typed_steal: "typed w \<Longrightarrow> typed (snd (scoped_steal i w))"
  unfolding scoped_steal_def
proof (intro typed_at_scoped)
  fix s
  assume w: "typed w" "(i, s) \<in> set (w_scoped w)"
  show "typed (snd ((case sd_conn s of None \<Rightarrow> lift_act (Inl AssertFail)
      | Some k \<Rightarrow> bind_act (scoped_clear i) (\<lambda>_. scoped_add (sd_host s) (Some k))) w))"
  proof (cases "sd_conn s")
    case (Some k)
    then have "0 < ph_created (pool_at (sd_host s) w)" using w by (auto simp: typed_def)
    moreover have "pool_at h v = pool_at h w" if "scoped_clear i w = (Inr (), v)" for v h
      using that by (auto simp: scoped_clear_def pool_at_def)
    ultimately show ?thesis using Some w(1) by (auto intro!: typed_bind typed_clear typed_add)
  qed (simp add: w)
qed

lemma typed_destroy: "typed w \<Longrightarrow> typed (snd (scoped_destroy i w))"
  unfolding scoped_destroy_def
  by (intro typed_at_scoped typed_bind)
    (auto intro: typed_kill simp: typed_def [of "_\<lparr>w_scoped := _\<rparr>"], auto simp: typed_def pools_wf_def pool_at_def)

lemma typed_new:
  assumes "typed w"
  shows "typed (snd (scoped_new_host ops now host w))" "typed (snd (scoped_new_url ops now url w))"
proof -
  have "pools_wf w" using assms by (simp add: typed_def)
  then show "typed (snd (scoped_new_host ops now host w))" "typed (snd (scoped_new_url ops now url w))"
    unfolding scoped_new_host_def scoped_new_url_def
    using assms grows_typed [OF grows_get(2)] grows_typed [OF grows_get(1)] get_host_positive get_url_positive
    by (auto intro!: typed_bind typed_add)
qed

lemma typed_step: "typed w \<Longrightarrow> typed (snd (run_op ops op w))"
proof (cases op)
  case (Use code i f)
  have "snd (scoped_conn code i w) = w" if "True"
    by (auto simp: scoped_conn_def snd_bind_act dest: scoped_at_state split: prod.split sum.split)
  then show "typed w \<Longrightarrow> ?thesis" using Use by (auto intro!: typed_bind typed_heap)
qed (auto simp: ignore_def scoped_new_empty_def addHook_def intro!: typed_bind typed_kill typed_done typed_steal typed_destroy
      typed_new typed_add grows_typed [OF grows_flush],
     simp_all add: typed_def pools_wf_def pool_at_def)

lemma pool_typed: "pool_reach calm ops w \<Longrightarrow> typed w"
proof (induction rule: pool_reach.induct)
  case start
  show ?case by (simp add: typed_def world_new_def pools_wf_def pool_at_def std_ref_def wf_pool_def pool_new_def)
qed (rule typed_step)

section \<open>Properties\<close>

lemma host_infos_ok: "(\<exists>r. host_infos ps = Inr r) \<longleftrightarrow> (\<forall>(h, p) \<in> set ps. \<exists>t. pool_type p = Inr t)"
  by (induction ps rule: host_infos.induct) (auto simp: res_simps)

lemma pool_entry:
  assumes "good_ops calm ops" and "pool_reach calm ops w" and "(host, p) \<in> set (w_pools w)"
  shows "wf_pool p"
proof -
  obtain M where "settled calm M w" using pool_settled [OF assms(1,2)] by blast
  then have "server_map.in_order (w_pools w)" by (auto simp: settled_def tracked_def)
  then have "pool_at host w = p"
    using server_map.find_mem [OF _ assms(3)] by (simp add: pool_at_def std_ref_def)
  then show ?thesis using pool_typed [OF assms(2)] by (auto simp: typed_def pools_wf_def)
qed

lemma wf_pool_type: "wf_pool p \<Longrightarrow> (\<exists>t. pool_type p = Inr t) \<longleftrightarrow> 0 < ph_created p"
  by (auto simp: wf_pool_def pool_type_def res_simps split: option.splits)

text \<open>
  In every state a program can bring the pool to, a pool that holds a connection has created
  one, and a pool has a type exactly when it has created one; the statistics of the pool
  (\<open>appendInfo\<close>) are complete exactly when every pool in the map has created a connection.
\<close>

theorem pool_well_typed:
  assumes "good_ops calm ops" and "pool_reach calm ops w"
  shows "(\<forall>(host, p) \<in> set (w_pools w). 0 \<le> ph_created p \<and> (ph_pool p \<noteq> [] \<longrightarrow> 0 < ph_created p) \<and>
      ((\<exists>t. pool_type p = Inr t) \<longleftrightarrow> 0 < ph_created p)) \<and>
    ((\<exists>d. pool_appendInfo w = Inr d) \<longleftrightarrow> (\<forall>(host, p) \<in> set (w_pools w). 0 < ph_created p))"
proof -
  have wf: "wf_pool p" if "(host, p) \<in> set (w_pools w)" for host p using pool_entry [OF assms that] .
  have "(\<exists>d. pool_appendInfo w = Inr d) \<longleftrightarrow> (\<exists>r. host_infos (w_pools w) = Inr r)"
    by (auto simp: pool_appendInfo_def res_simps)
  then have "(\<exists>d. pool_appendInfo w = Inr d) \<longleftrightarrow> (\<forall>(host, p) \<in> set (w_pools w). 0 < ph_created p)"
    using wf_pool_type [OF wf] by (force simp: host_infos_ok)
  moreover have "0 \<le> ph_created p \<and> (ph_pool p \<noteq> [] \<longrightarrow> 0 < ph_created p) \<and> ((\<exists>t. pool_type p = Inr t) \<longleftrightarrow> 0 < ph_created p)"
    if "(host, p) \<in> set (w_pools w)" for host p
    using wf [OF that] wf_pool_type [OF wf [OF that]] by (auto simp: wf_pool_def order_less_le)
  ultimately show ?thesis by blast
qed

lemma pool_put_back:
  assumes "w_heap w k = Some c" and "\<not> co_isFailed ops c"
  shows "pool_release ops now host k w = (Inr (), set_pool host (pool_done now k (pool_at host w)) w)"
  using assms by (simp add: pool_release_def at_conn_def bind_act_def fun_upd_idem)

text \<open>
  A connection that is given back and has not failed is the next one handed out for the same
  server, when that is asked for within an hour: it is taken from the pool without connecting,
  and the pools are as they were before it was given back.
\<close>

theorem pool_reuses_last:
  assumes "w_heap w k = Some c" and "\<not> co_isFailed ops c" and "server_map.same_key host' host" and "now' - now < 3600"
  shows "\<exists>w' v. pool_release ops now host k w = (Inr (), w') \<and> get_host ops now' host' w' = hand_out k v \<and>
    w_heap v = w_heap w \<and> (\<forall>h. pool_at h v = pool_at h w)"
proof -
  let ?w' = "set_pool host (pool_done now k (pool_at host w)) w"
  let ?v = "set_pool host' (pool_done now k (pool_at host w)\<lparr>ph_pool := ph_pool (pool_at host w)\<rparr>) ?w'"
  have at: "pool_at host' ?w' = pool_done now k (pool_at host w)" using assms(3) by (simp add: pool_at_set)
  then have "get_stored now' host' ?w' = (Inr (Some k), ?v)"
    using assms(4) by (simp add: get_stored_def pool_done_def stored_ok_def bind_act_def)
  then have "get_host ops now' host' ?w' = hand_out k ?v" by (simp add: get_host_def)
  moreover have "pool_at h ?v = pool_at h w" for h
  proof (cases "server_map.same_key h host")
    case True
    then have "server_map.same_key h host'"
      using server_map.same_key_trans [OF True] server_map.same_key_sym [OF assms(3)] by blast
    then show ?thesis using pool_at_same [OF True, of w] by (simp add: pool_at_set pool_done_def)
  next
    case False
    then have "\<not> server_map.same_key h host'"
      using server_map.same_key_trans [of h host' host] assms(3) by blast
    then show ?thesis using False by (simp add: pool_at_set)
  qed
  moreover have "w_heap ?v = w_heap w" by (simp add: set_pool_def)
  ultimately show ?thesis using pool_put_back [of w k c ops now host] assms(1,2) by blast
qed

section \<open>Concrete runs\<close>

definition demo_pool :: "bool client_ops" where
  "demo_pool = \<lparr>co_isFailed = (\<lambda>c. c), co_type = (\<lambda>_. MASTER), co_isMaster = (\<lambda>c. (if c then Inl SocketExn else Inr (), c)),
     co_connect = (\<lambda>cs. Inr (if cs_string cs = ''down'' then None else Some False))\<rparr>"

definition demo_used :: "bool world" where
  "demo_used = snd (run_op demo_pool (NewHost 0 ''a'') world_new)"

definition demo_back :: "bool world" where
  "demo_back = snd (run_op demo_pool (Done 10 0) demo_used)"

lemma demo_pool_good: "good_ops False demo_pool"
  by (simp add: good_ops_def demo_pool_def good_act_def)

lemma demo_used_facts: "map fst (w_scoped demo_used) = [0]" "w_heap demo_used 0 = Some False"
  by code_simp+

lemma demo_reach: "pool_reach False demo_pool demo_used" "pool_reach False demo_pool demo_back"
proof -
  show used: "pool_reach False demo_pool demo_used"
    unfolding demo_used_def by (rule pool_reach.step [OF pool_reach.start]) simp
  have "0 \<in> fst ` set (w_scoped demo_used)"
    using demo_used_facts(1) by (metis list.set_intros(1) list.set_map)
  then show "pool_reach False demo_pool demo_back"
    unfolding demo_back_def by (intro pool_reach.step [OF used]) simp
qed

theorem pool_owns_each_once_witness:
  "count (owners demo_back) 0 \<le> 1 \<and> map fst (w_pools demo_back) = [''a'']"
proof -
  have "map fst (w_pools demo_back) = [''a'']" by code_simp
  then show ?thesis using pool_owns_each_once [OF demo_pool_good demo_reach(2), of 0] by simp
qed

theorem pool_never_uses_deleted_witness:
  "fst (run_op demo_pool Flush demo_back) \<noteq> Inl UB"
  by (rule pool_never_uses_deleted [OF demo_pool_good demo_reach(2)]) simp

theorem pool_well_typed_witness:
  "\<exists>d. pool_appendInfo demo_back = Inr d"
proof -
  have "\<forall>(host, p) \<in> set (w_pools demo_back). 0 < ph_created p" by code_simp
  then show ?thesis using pool_well_typed [OF demo_pool_good demo_reach(2)] by blast
qed

theorem pool_reuses_last_witness:
  "\<exists>w' v. pool_release demo_pool 10 ''a'' 0 demo_used = (Inr (), w') \<and> get_host demo_pool 3000 ''a/b:1'' w' = hand_out 0 v \<and>
    w_heap v 0 = Some False"
proof -
  have "server_map.same_key ''a/b:1'' ''a''"
    unfolding server_map.same_key_def by code_simp
  moreover have "\<not> co_isFailed demo_pool False" by (simp add: demo_pool_def)
  ultimately obtain w' v where "pool_release demo_pool 10 ''a'' 0 demo_used = (Inr (), w')"
      "get_host demo_pool 3000 ''a/b:1'' w' = hand_out 0 v" "w_heap v = w_heap demo_used"
    using pool_reuses_last [of demo_used 0 False demo_pool "''a/b:1''" "''a''" 3000 10] demo_used_facts(2) by auto
  then show ?thesis using demo_used_facts(2) by (intro exI [of _ w'] exI [of _ v]) simp
qed

section \<open>What goes wrong\<close>

text \<open>
  A host that could not be connected to leaves an empty pool behind, for which \<open>type()\<close> asserts:
  \<open>connPoolStats\<close> fails from then on.
\<close>

theorem stats_assert_after_failed_get:
  "pool_appendInfo (snd (run_op demo_pool (NewHost 0 ''down'') demo_back)) = Inl AssertFail"
  by code_simp

text \<open>
  When a connection is lost while the pool is flushed, the connections that were asked before it
  are no longer in the pool and nobody else has them: they are leaked.
\<close>

definition demo_lost :: "bool world" where
  "demo_lost = world_new\<lparr>w_heap := (\<lambda>k. if k < 3 then Some (k = 1) else None), w_next := 3,
     w_pools := [(''a'', \<lparr>ph_pool = [\<lparr>sc_conn = 0, sc_when = 5\<rparr>, \<lparr>sc_conn = 1, sc_when = 4\<rparr>, \<lparr>sc_conn = 2, sc_when = 3\<rparr>],
       ph_created = 3, ph_type = Some MASTER\<rparr>)]\<rparr>"

theorem flush_leaks:
  "let (r, w) = pool_flush demo_pool demo_lost
   in r = Inl SocketExn \<and> map sc_conn (ph_pool (pool_at ''a'' w)) = [2] \<and> w_heap w 0 = Some False \<and> w_scoped w = []"
  by code_simp

text \<open>A host and a replica set of the same name share a pool, so one is handed out for the other.\<close>

theorem host_and_set_share_a_pool:
  "server_map.same_key ''rs'' ''rs/a:1,b:2''"
  unfolding server_map.same_key_def by code_simp

end
