(* ===== verification/GridFS.thy ===== *)
theory GridFS
  imports Indexes
begin

text \<open>
  GridFS (client/gridfs.h and .cpp): files stored as documents. A file is cut into chunks, each
  inserted as a document with the file's id and its number; a last document describes the file.
  \<open>GridFile\<close> reads a file back chunk by chunk. The ids and dates that the code generates are
  arguments; a \<open>FILE*\<close> is the bytes still to be read, the end-of-file flag, and whether the
  stream ends with an error rather than the end of the file.
\<close>

definition DEFAULT_CHUNK_SIZE :: "32 word" where
  "DEFAULT_CHUNK_SIZE = 256 * 1024"

record gridfs =
  gf_dbName :: bytes
  gf_prefix :: bytes
  gf_filesNS :: bytes
  gf_chunksNS :: bytes
  gf_chunkSize :: "32 word"

definition gridfs_new :: "bytes \<Rightarrow> bytes \<Rightarrow> (commander, gridfs) act" where
  "gridfs_new dbName prefix =
     (let g = \<lparr>gf_dbName = dbName, gf_prefix = prefix, gf_filesNS = dbName @ ''.'' @ prefix @ ''.files'',
               gf_chunksNS = dbName @ ''.'' @ prefix @ ''.chunks'', gf_chunkSize = DEFAULT_CHUNK_SIZE\<rparr>
      in bind_act (ensureIndex (gf_filesNS g) [(''filename'', VInt 1)] False '''' True) (\<lambda>_.
         bind_act (ensureIndex (gf_chunksNS g) [(''files_id'', VInt 1), (''n'', VInt 1)] False '''' True) (\<lambda>_.
           lift_act (Inr g))))"

text \<open>The assertion of \<open>setChunkSize\<close> lets zero pass, and nothing else.\<close>

definition setChunkSize :: "32 word \<Rightarrow> gridfs \<Rightarrow> gridfs res" where
  "setChunkSize n g = bind_res (guard (n = 0) (Massert 13296)) (\<lambda>_. Inr (g\<lparr>gf_chunkSize := n\<rparr>))"

section \<open>Chunks\<close>

definition chunk_new :: "doc \<Rightarrow> int \<Rightarrow> bytes \<Rightarrow> bytes res" where
  "chunk_new fileObject chunkNumber data =
     (case getField ''_id'' fileObject of
        None \<Rightarrow> Inl AssertFail
      | Some (_, fid) \<Rightarrow>
          build_doc [(''files_id'', fid), (''n'', VInt (word_of_int chunkNumber)), (''data'', VBinData 0 data)])"

definition chunk_data :: "bytes \<Rightarrow> (int \<times> bytes) res" where
  "chunk_data o' = bind_res (mem_field o' ''data'') binDataClean"

definition chunk_bytes :: "bytes \<Rightarrow> bytes res" where
  "chunk_bytes o' = bind_res (chunk_data o') (\<lambda>(len, p). bytes_at p len)"

section \<open>Storing\<close>

text \<open>
  \<open>MIN(_chunkSize, (unsigned)(end - data))\<close>, as an \<open>int\<close>: the length that is left is cut to 32
  bits before it is compared.
\<close>

definition chunk_len :: "32 word \<Rightarrow> nat \<Rightarrow> int" where
  "chunk_len chunkSize left = i32 (min (uint chunkSize) (int left mod 2 ^ 32))"

definition insert_chunk :: "gridfs \<Rightarrow> oid \<Rightarrow> int \<Rightarrow> bytes \<Rightarrow> (connection, unit) act" where
  "insert_chunk g fid n data =
     bind_act (lift_act (chunk_new [(''_id'', VOID fid)] n data)) (insert_one (cstr (gf_chunksNS g)))"

text \<open>\<open>storeFile(data, length, ...)\<close>; a chunk size of 2 GB or more makes a negative length.\<close>

fun store_chunks :: "nat \<Rightarrow> gridfs \<Rightarrow> oid \<Rightarrow> int \<Rightarrow> bytes \<Rightarrow> connection \<Rightarrow> (unit res \<times> connection) option" where
  "store_chunks 0 g fid n data c = None"
| "store_chunks (Suc fuel) g fid n data c =
     (if data = [] then Some (Inr (), c)
      else
        let len = chunk_len (gf_chunkSize g) (length data)
        in if len < 0 then Some (Inl UB, c)
           else case insert_chunk g fid n (take (nat len) data) c of
                  (Inl err, c) \<Rightarrow> Some (Inl err, c)
                | (Inr _, c) \<Rightarrow> store_chunks fuel g fid (n + 1) (drop (nat len) data) c)"

text \<open>\<open>fread\<close> and \<open>feof\<close>.\<close>

record fstream =
  fs_rest :: bytes
  fs_eof :: bool
  fs_bad :: bool

definition fread :: "nat \<Rightarrow> fstream \<Rightarrow> bytes \<times> fstream" where
  "fread n fd =
     (take n (fs_rest fd),
      fd\<lparr>fs_rest := drop n (fs_rest fd), fs_eof := fs_eof fd \<or> \<not> fs_bad fd \<and> length (fs_rest fd) < n\<rparr>)"

fun fill_chunk :: "nat \<Rightarrow> nat \<Rightarrow> bytes \<Rightarrow> fstream \<Rightarrow> (bytes \<times> fstream) option" where
  "fill_chunk 0 chunkSize buf fd = None"
| "fill_chunk (Suc fuel) chunkSize buf fd =
     (if length buf \<noteq> chunkSize \<and> \<not> fs_eof fd
      then case fread (chunkSize - length buf) fd of (x, fd) \<Rightarrow> fill_chunk fuel chunkSize (buf @ x) fd
      else Some (buf, fd))"

text \<open>The loop over the file, with the number of chunks and of bytes so far.\<close>

fun store_stream :: "nat \<Rightarrow> gridfs \<Rightarrow> oid \<Rightarrow> int \<Rightarrow> nat \<Rightarrow> fstream \<Rightarrow> connection \<Rightarrow>
    (nat res \<times> connection) option" where
  "store_stream 0 g fid n sofar fd c = None"
| "store_stream (Suc fuel) g fid n sofar fd c =
     (if fs_eof fd then Some (Inr sofar, c)
      else case fill_chunk (Suc fuel) (unat (gf_chunkSize g)) [] fd of
             None \<Rightarrow> None
           | Some (buf, fd) \<Rightarrow>
               (case insert_chunk g fid n buf c of
                  (Inl err, c) \<Rightarrow> Some (Inl err, c)
                | (Inr _, c) \<Rightarrow> store_stream fuel g fid (n + 1) (sofar + length buf) fd c))"

text \<open>An element read from a reply, appended under a name.\<close>

definition append_mem_as :: "belement \<Rightarrow> bytes \<Rightarrow> objbuilder \<Rightarrow> objbuilder res" where
  "append_mem_as e fieldName ob =
     bind_res (el_eoo (el_data e)) (\<lambda>z. bind_res (guard (\<not> z) AssertFail) (\<lambda>_.
     bind_res (el_value e) (\<lambda>v. bind_res (el_size e (- 1)) (\<lambda>sz. bind_res (el_fieldNameSize e) (\<lambda>f.
     bind_res (bytes_at v (sz - f - 1)) (\<lambda>xs.
       on_buf (seq_res [appendChar (hd (el_data e)), name_str fieldName, appendBuf xs]) ob))))))"

definition length_value :: "int \<Rightarrow> bson_value" where
  "length_value n = (if n < 2 ^ 30 then VInt (word_of_int n) else VLong (word_of_int n))"

definition insertFile :: "64 word \<Rightarrow> gridfs \<Rightarrow> bytes \<Rightarrow> oid \<Rightarrow> int \<Rightarrow> bytes \<Rightarrow> (connection, bytes) act" where
  "insertFile now g name fid len contentType =
     bind_act (run_doc (cstr (gf_dbName g)) [(''filemd5'', VOID fid), (''root'', VString (gf_prefix g))] 0) (\<lambda>(ok, res).
     bind_act (lift_act (guard ok (Uassert 9008))) (\<lambda>_.
     bind_act (lift_act (bind_res (mem_field res ''md5'') (\<lambda>md5. build_ops
         ([append_value (''_id'', VOID fid), append_value (''filename'', VString name),
           append_value (''chunkSize'', VInt (gf_chunkSize g)), append_value (''uploadDate'', VDate now),
           append_mem_as md5 ''md5'', append_value (''length'', length_value len)] @
          (if contentType \<noteq> '''' then [append_value (''contentType'', VString contentType)] else []))))) (\<lambda>ret.
     bind_act (insert_one (cstr (gf_filesNS g)) ret) (\<lambda>_. lift_act (Inr ret)))))"

definition storeFile_data ::
  "nat \<Rightarrow> oid \<Rightarrow> 64 word \<Rightarrow> gridfs \<Rightarrow> bytes \<Rightarrow> bytes \<Rightarrow> bytes \<Rightarrow> connection \<Rightarrow> (bytes res \<times> connection) option" where
  "storeFile_data fuel fid now g data remoteName contentType c =
     (case store_chunks fuel g fid 0 data c of
        None \<Rightarrow> None
      | Some (Inl err, c) \<Rightarrow> Some (Inl err, c)
      | Some (Inr _, c) \<Rightarrow> Some (insertFile now g remoteName fid (int (length data)) contentType c))"

text \<open>\<open>fd\<close> is \<open>None\<close> when the file is not there (10012); opening it may fail (10013).\<close>

definition storeFile_file ::
  "nat \<Rightarrow> oid \<Rightarrow> 64 word \<Rightarrow> gridfs \<Rightarrow> bytes \<Rightarrow> fstream option option \<Rightarrow> bytes \<Rightarrow> bytes \<Rightarrow> connection \<Rightarrow>
    (bytes res \<times> connection) option" where
  "storeFile_file fuel fid now g fileName fd remoteName contentType c =
     (case fd of
        None \<Rightarrow> Some (Inl (Uassert 10012), c)
      | Some None \<Rightarrow> Some (Inl (Uassert 10013), c)
      | Some (Some fd) \<Rightarrow>
          (case store_stream fuel g fid 0 0 fd c of
             None \<Rightarrow> None
           | Some (Inl err, c) \<Rightarrow> Some (Inl err, c)
           | Some (Inr len, c) \<Rightarrow>
               Some (insertFile now g (if remoteName = '''' then fileName else remoteName) fid (int len) contentType c)))"

section \<open>Finding, listing, removing\<close>

text \<open>A cursor that could not be opened is a null pointer, which is then used.\<close>

definition remove_by :: "belement \<Rightarrow> bytes \<Rightarrow> bytes \<Rightarrow> (connection, unit) act" where
  "remove_by e name ns =
     bind_act (lift_act (build_ops [append_mem_as e name])) (\<lambda>q. remove_docs ns q False)"

definition remove_one :: "gridfs \<Rightarrow> bytes \<Rightarrow> (connection, unit) act" where
  "remove_one g file =
     bind_act (lift_act (mem_field file ''_id'')) (\<lambda>e.
     bind_act (remove_by e ''_id'' (cstr (gf_filesNS g))) (\<lambda>_. remove_by e ''files_id'' (cstr (gf_chunksNS g))))"

fun remove_loop :: "nat \<Rightarrow> gridfs \<Rightarrow> client \<Rightarrow> (unit res \<times> client) option" where
  "remove_loop 0 g s = None"
| "remove_loop (Suc fuel) g s =
     (case cursor_more s of
        (Inl err, s) \<Rightarrow> Some (Inl err, s)
      | (Inr False, s) \<Rightarrow> Some (Inr (), s)
      | (Inr True, s) \<Rightarrow>
          (case cursor_next s of
             (Inl err, s) \<Rightarrow> Some (Inl err, s)
           | (Inr file, (cu, c)) \<Rightarrow>
               (case remove_one g file c of
                  (Inl err, c) \<Rightarrow> Some (Inl err, (cu, c))
                | (Inr _, c) \<Rightarrow> remove_loop fuel g (cu, c))))"

definition removeFile :: "nat \<Rightarrow> gridfs \<Rightarrow> bytes \<Rightarrow> connection \<Rightarrow> (unit res \<times> connection) option" where
  "removeFile fuel g fileName c =
     (case bind_act (lift_act (build_doc [(''filename'', VString fileName)])) (\<lambda>q. db_query (gf_filesNS g) q 0 0 None 0 0) c of
        (Inl err, c) \<Rightarrow> Some (Inl err, c)
      | (Inr None, c) \<Rightarrow> Some (Inl UB, c)
      | (Inr (Some cu), c) \<Rightarrow> map_option (\<lambda>(r, s). (r, cursor_destroy s)) (remove_loop fuel g (cu, c)))"

definition findFile :: "gridfs \<Rightarrow> doc \<Rightarrow> (connection, bytes) act" where
  "findFile g query =
     bind_act (lift_act (build_doc [(''query'', VObject query), (''orderby'', VObject [(''uploadDate'', VInt (- 1))])]))
       (\<lambda>q. findOne (cstr (gf_filesNS g)) q None 0)"

definition findFile_name :: "gridfs \<Rightarrow> bytes \<Rightarrow> (connection, bytes) act" where
  "findFile_name g fileName = findFile g [(''filename'', VString fileName)]"

definition list_files :: "gridfs \<Rightarrow> bytes \<Rightarrow> (connection, cursor option) act" where
  "list_files g query = db_query (cstr (gf_filesNS g)) query 0 0 None 0 0"

section \<open>Reading a file\<close>

definition obj_isEmpty :: "bytes \<Rightarrow> bool res" where
  "obj_isEmpty o' = bind_res (rd_int o') (\<lambda>n. Inr (n \<le> 5))"

definition file_exists :: "bytes \<Rightarrow> unit res" where
  "file_exists file = bind_res (obj_isEmpty file) (\<lambda>b. guard (\<not> b) (Uassert 10015))"

definition getFilename :: "bytes \<Rightarrow> bytes res" where
  "getFilename file = bind_res (mem_field file ''filename'') el_str"

definition getChunkSize :: "bytes \<Rightarrow> int res" where
  "getChunkSize file = bind_res (mem_field file ''chunkSize'') (\<lambda>e. bind_res (numberDouble e) dbl_to_int)"

text \<open>\<open>(unsigned long long) d\<close> is undefined outside the range of the type.\<close>

definition dbl_to_ulong :: "64 word \<Rightarrow> int res" where
  "dbl_to_ulong d = (if dbl_finite d \<and> 0 \<le> dbl_trunc d \<and> dbl_trunc d < 2 ^ 64 then Inr (dbl_trunc d) else Inl UB)"

definition getContentLength :: "bytes \<Rightarrow> int res" where
  "getContentLength file = bind_res (mem_field file ''length'') (\<lambda>e. bind_res (numberDouble e) dbl_to_ulong)"

definition getContentType :: "bytes \<Rightarrow> bytes res" where
  "getContentType file = bind_res (mem_field file ''contentType'') (\<lambda>e. bind_res (valuestr e) cstr_at)"

definition getUploadDate :: "bytes \<Rightarrow> (64 word) res" where
  "getUploadDate file = bind_res (mem_field file ''uploadDate'') el_date"

definition getMD5 :: "bytes \<Rightarrow> bytes res" where
  "getMD5 file = bind_res (mem_field file ''md5'') el_str"

definition getMetadata :: "bytes \<Rightarrow> bytes res" where
  "getMetadata file =
     bind_res (mem_field file ''metadata'') (\<lambda>e. bind_res (el_eoo (el_data e)) (\<lambda>z.
       if z then Inr (enc_doc []) else embeddedObject e))"

text \<open>
  \<open>ceil(a / b)\<close> in doubles, for positive \<open>a\<close> and \<open>b\<close> that are doubles: the quotient is rounded
  to 53 bits, half to even, before it is rounded up. The scale \<open>s\<close> gives the rounded quotient
  its 53 bits; a quotient of \<open>2 ^ 53\<close> or more is an integer already and far out of range.
\<close>

definition round_div :: "nat \<Rightarrow> nat \<Rightarrow> nat" where
  "round_div n d =
     (let q = n div d; r = n mod d in if d < 2 * r \<or> d = 2 * r \<and> odd q then q + 1 else q)"

definition quot_scale :: "nat \<Rightarrow> nat \<Rightarrow> nat" where
  "quot_scale a b = (let s = 52 + nlog2 b - nlog2 a in if a * 2 ^ s div b < 2 ^ 52 then s + 1 else s)"

definition ceil_div :: "nat \<Rightarrow> nat \<Rightarrow> nat" where
  "ceil_div a b =
     (if a = 0 then 0
      else let s = quot_scale a b; m = round_div (a * 2 ^ s) b in (m + 2 ^ s - 1) div 2 ^ s)"

definition floor_div :: "nat \<Rightarrow> nat \<Rightarrow> nat" where
  "floor_div a b =
     (if a = 0 then 0 else let s = quot_scale a b in round_div (a * 2 ^ s) b div 2 ^ s)"

text \<open>
  The chunk size is an \<open>int\<close> and the length an integer that was a double. A division by zero
  gives an infinity or a NaN, whose conversion is undefined.
\<close>

definition getNumChunks :: "bytes \<Rightarrow> int res" where
  "getNumChunks file =
     bind_res (getContentLength file) (\<lambda>len. bind_res (getChunkSize file) (\<lambda>cs.
       let a = nat (dbl_trunc (dbl_of_int len));
           num = (if cs > 0 then int (ceil_div a (nat cs)) else - int (floor_div a (nat (- cs))))
       in if cs \<noteq> 0 \<and> - (2 ^ 31) \<le> num \<and> num < 2 ^ 31 then Inr num else Inl UB))"

definition getChunk :: "gridfs \<Rightarrow> bytes \<Rightarrow> int \<Rightarrow> (connection, bytes) act" where
  "getChunk g file n =
     bind_act (lift_act (bind_res (file_exists file) (\<lambda>_. bind_res (mem_field file ''_id'') (\<lambda>e.
         build_ops [append_mem_as e ''files_id'', append_value (''n'', VInt (word_of_int n))])))) (\<lambda>q.
     bind_act (findOne (cstr (gf_chunksNS g)) q None 0) (\<lambda>o'.
     bind_act (lift_act (bind_res (obj_isEmpty o') (\<lambda>b. guard (\<not> b) (Uassert 10014)))) (\<lambda>_. lift_act (Inr o'))))"

text \<open>\<open>write(out)\<close>: what is written to the stream, also when a chunk is missing, is the last component.\<close>

fun write_loop :: "gridfs \<Rightarrow> bytes \<Rightarrow> nat \<Rightarrow> int \<Rightarrow> (connection \<times> bytes, unit) act" where
  "write_loop g file 0 i s = (Inr (), s)"
| "write_loop g file (Suc k) i (c, out) =
     (case bind_act (getChunk g file i) (\<lambda>o'. lift_act (chunk_bytes o')) c of
        (Inl err, c) \<Rightarrow> (Inl err, (c, out))
      | (Inr xs, c) \<Rightarrow> write_loop g file k (i + 1) (c, out @ xs))"

definition write_file :: "gridfs \<Rightarrow> bytes \<Rightarrow> (connection \<times> bytes, int) act" where
  "write_file g file =
     bind_act (lift_act (bind_res (file_exists file) (\<lambda>_. getNumChunks file))) (\<lambda>num.
     bind_act (write_loop g file (nat num) 0) (\<lambda>_. lift_act (getContentLength file)))"

end
