(* ===== verification/GridSpec.thy ===== *)
theory GridSpec
  imports GridFS CommandSpec
begin

text \<open>
  GridFS: what a stored file looks like on the server and that it is read back. A file is its
  chunks (\<open>chunks_of\<close>), numbered from zero; storing it sends an insert for each of them, and
  reading asks for them by number. The theorems hold for chunk sizes up to 16 MB and files
  below 4 GB; what happens outside these bounds, and the differences between storing from
  memory and from a file, are stated too.
\<close>

fun chunks_of :: "nat \<Rightarrow> bytes \<Rightarrow> bytes list" where
  "chunks_of cs data = (if data = [] \<or> cs = 0 then [] else take cs data # chunks_of cs (drop cs data))"

declare chunks_of.simps [simp del]

lemma chunks_of_Nil [simp]: "chunks_of cs [] = []"
  by (simp add: chunks_of.simps)

lemma chunks_of_step: "data \<noteq> [] \<Longrightarrow> 0 < cs \<Longrightarrow> chunks_of cs data = take cs data # chunks_of cs (drop cs data)"
  by (simp add: chunks_of.simps [of cs data])

lemma concat_chunks: "0 < cs \<Longrightarrow> concat (chunks_of cs data) = data"
  by (induction cs data rule: chunks_of.induct) (simp add: chunks_of.simps)

lemma length_chunks: "0 < cs \<Longrightarrow> length (chunks_of cs data) = (length data + cs - 1) div cs"
proof (induction cs data rule: chunks_of.induct)
  case (1 cs data)
  show ?case
  proof (cases "data = []")
    case False
    then have "length (chunks_of cs data) = Suc ((length data - cs + cs - 1) div cs)"
      using 1 by (simp add: chunks_of_step)
    also have "\<dots> = (length data + cs - 1) div cs"
    proof (cases "cs \<le> length data")
      case True
      have "length data + cs - 1 = (length data - 1) + cs" using False by (cases "length data") simp_all
      moreover have "((length data - 1) + cs) div cs = Suc ((length data - 1) div cs)"
        using 1(2) div_add_self2 [of cs "length data - 1"] by simp
      ultimately show ?thesis using True by simp
    next
      case less: False
      then have "(length data + cs - 1) div cs = Suc ((length data - 1) div cs)"
        using 1(2) False div_add_self2 [of cs "length data - 1"] by (cases "length data") simp_all
      then show ?thesis using less 1(2) False by (cases "length data") simp_all
    qed
    finally show ?thesis .
  qed (use 1(2) in simp)
qed

lemma chunk_sizes: "x \<in> set (chunks_of cs data) \<Longrightarrow> x \<noteq> [] \<and> length x \<le> cs"
proof (induction cs data rule: chunks_of.induct)
  case (1 cs data)
  then show ?case by (cases "data = [] \<or> cs = 0") (auto simp: chunks_of.simps [of cs data])
qed

section \<open>The documents of a file\<close>

definition chunk_doc :: "oid \<Rightarrow> int \<Rightarrow> bytes \<Rightarrow> doc" where
  "chunk_doc fid n data = [(''files_id'', VOID fid), (''n'', VInt (word_of_int n)), (''data'', VBinData 0 data)]"

lemma chunk_new_run:
  assumes "length fid = 12" and "length data \<le> 16 * 1024 * 1024"
  shows "chunk_new [(''_id'', VOID fid)] n data = Inr (enc_doc (chunk_doc fid n data))" "fits (chunk_doc fid n data)"
proof -
  have len: "int (length (enc_doc (chunk_doc fid n data))) \<le> BSONObjMaxInternalSize"
    using assms by (simp add: chunk_doc_def length_enc_elem)
  then show "fits (chunk_doc fid n data)" using assms by (simp add: fits_def chunk_doc_def)
  have "chunk_new [(''_id'', VOID fid)] n data = build_doc (chunk_doc fid n data)"
    by (simp add: chunk_new_def getField_def chunk_doc_def uchar_def)
  also have "\<dots> = Inr (enc_doc (chunk_doc fid n data))"
    using len build_doc_run [of "chunk_doc fid n data"] by simp
  finally show "chunk_new [(''_id'', VOID fid)] n data = Inr (enc_doc (chunk_doc fid n data))" .
qed

section \<open>Storing from memory\<close>

text \<open>The insert messages of the chunks, from message number \<open>i\<close> and chunk number \<open>n\<close>.\<close>

fun chunk_inserts :: "bytes \<Rightarrow> oid \<Rightarrow> 32 word \<Rightarrow> int \<Rightarrow> bytes list \<Rightarrow> bytes" where
  "chunk_inserts ns fid i n [] = []"
| "chunk_inserts ns fid i n (x # xs) =
     wire_bytes (stamp (insert_message ns (chunk_doc fid n x)) i (- 1)) @ chunk_inserts ns fid (i + 1) (n + 1) xs"

definition grid_ok :: "gridfs \<Rightarrow> bool" where
  "grid_ok g \<longleftrightarrow> NUL \<notin> set (gf_chunksNS g) \<and> length (gf_chunksNS g) \<le> 1024 \<and>
     0 < gf_chunkSize g \<and> gf_chunkSize g \<le> 16 * 1024 * 1024"

lemma grid_size:
  assumes "grid_ok g"
  shows "0 < unat (gf_chunkSize g)" "unat (gf_chunkSize g) \<le> 16 * 1024 * 1024"
proof -
  have "gf_chunkSize g \<noteq> 0" "gf_chunkSize g \<le> 16 * 1024 * 1024" using assms by (auto simp: grid_ok_def)
  then show "0 < unat (gf_chunkSize g)" "unat (gf_chunkSize g) \<le> 16 * 1024 * 1024"
    by (auto simp: unat_gt_0 word_le_nat_alt)
qed

lemma chunk_len_small:
  assumes "grid_ok g" and "n < 2 ^ 32"
  shows "chunk_len (gf_chunkSize g) n = int (min (unat (gf_chunkSize g)) n)"
proof -
  have "i32 (min (int a) (int n)) = int (min a n)" if "a \<le> 16 * 1024 * 1024" for a
    using that by (simp add: i32_id min_def)
  from this [OF grid_size(2) [OF assms(1)]] assms(2) show ?thesis by (simp add: chunk_len_def)
qed

lemma insert_chunk_run:
  assumes "grid_ok g" and "length fid = 12" and "length x \<le> 16 * 1024 * 1024" and "port_ok (cn_port c)" and "\<not> cn_failed c"
  shows "\<exists>p. insert_chunk g fid n x c = (Inr (), c\<lparr>cn_port := p\<rparr>) \<and> port_ok p \<and> pending p = [] \<and>
    p_next_id p = p_next_id (cn_port c) + 1 \<and> p_in p = p_in (cn_port c) \<and>
    p_out p = p_out (cn_port c) @ pending (cn_port c) @
      wire_bytes (stamp (insert_message (gf_chunksNS g) (chunk_doc fid n x)) (p_next_id (cn_port c)) (- 1))"
  using insert_one_run [OF assms(4,5) chunk_new_run(2) [OF assms(2,3)], of "gf_chunksNS g" n] chunk_new_run(1) [OF assms(2,3)] assms(1)
  by (simp add: insert_chunk_def grid_ok_def)

lemma store_chunks_run:
  assumes "grid_ok g" and "length fid = 12" and "length data < 2 ^ 32" and "port_ok (cn_port c)" and "\<not> cn_failed c"
    and "length (chunks_of (unat (gf_chunkSize g)) data) < fuel"
  shows "\<exists>p. store_chunks fuel g fid n data c = Some (Inr (), c\<lparr>cn_port := p\<rparr>) \<and> port_ok p \<and> p_in p = p_in (cn_port c) \<and>
    p_next_id p = p_next_id (cn_port c) + of_nat (length (chunks_of (unat (gf_chunkSize g)) data)) \<and>
    p_out p @ pending p = p_out (cn_port c) @ pending (cn_port c) @
      chunk_inserts (gf_chunksNS g) fid (p_next_id (cn_port c)) n (chunks_of (unat (gf_chunkSize g)) data)"
  using assms(3-)
proof (induction fuel arbitrary: n data c)
  case (Suc fuel)
  let ?cs = "unat (gf_chunkSize g)"
  show ?case
  proof (cases "data = []")
    case True
    then show ?thesis using Suc.prems by (intro exI [of _ "cn_port c"]) simp
  next
    case False
    have cs: "0 < ?cs" "?cs \<le> 16 * 1024 * 1024" using grid_size [OF assms(1)] .
    have len: "chunk_len (gf_chunkSize g) (length data) = int (min ?cs (length data))"
      using chunk_len_small [OF assms(1) Suc.prems(1)] .
    have x: "take (min ?cs (length data)) data = take ?cs data" "drop (min ?cs (length data)) data = drop ?cs data"
      by (simp_all add: min_def)
    have "length (take ?cs data) \<le> 16 * 1024 * 1024" using cs(2) by simp
    from insert_chunk_run [OF assms(1,2) this Suc.prems(2,3), of n] obtain p where p:
        "insert_chunk g fid n (take ?cs data) c = (Inr (), c\<lparr>cn_port := p\<rparr>)" "port_ok p" "pending p = []"
        "p_next_id p = p_next_id (cn_port c) + 1" "p_in p = p_in (cn_port c)"
        "p_out p = p_out (cn_port c) @ pending (cn_port c) @
          wire_bytes (stamp (insert_message (gf_chunksNS g) (chunk_doc fid n (take ?cs data))) (p_next_id (cn_port c)) (- 1))"
      by blast
    have "length (drop ?cs data) < 2 ^ 32" using Suc.prems(1) by simp
    moreover have "length (chunks_of ?cs (drop ?cs data)) < fuel"
      using Suc.prems(4) False cs(1) by (simp add: chunks_of_step)
    ultimately obtain q where "store_chunks fuel g fid (n + 1) (drop ?cs data) (c\<lparr>cn_port := p\<rparr>) = Some (Inr (), c\<lparr>cn_port := q\<rparr>)"
        "port_ok q" "p_in q = p_in (cn_port c)" "p_next_id q = p_next_id p + of_nat (length (chunks_of ?cs (drop ?cs data)))"
        "p_out q @ pending q = p_out p @ pending p @ chunk_inserts (gf_chunksNS g) fid (p_next_id p) (n + 1) (chunks_of ?cs (drop ?cs data))"
      using Suc.IH [of "drop ?cs data" "c\<lparr>cn_port := p\<rparr>" "n + 1"] Suc.prems(2,3) p by auto
    then show ?thesis
      using p False cs(1) len x by (intro exI [of _ q]) (simp add: Let_def chunks_of_step)
  qed
qed simp

section \<open>Storing from a file\<close>

text \<open>The end of a file is only seen by a read that comes up short.\<close>

definition stream_chunks :: "nat \<Rightarrow> bytes \<Rightarrow> bytes list" where
  "stream_chunks cs data = chunks_of cs data @ (if length data mod cs = 0 then [[]] else [])"

lemma stream_chunks_step:
  assumes "0 < cs"
  shows "stream_chunks cs data = take cs data # (if length data < cs then [] else stream_chunks cs (drop cs data))"
proof (cases "data = []")
  case False
  then show ?thesis using assms le_mod_geq [of cs "length data"]
    by (cases "length data < cs") (auto simp: stream_chunks_def chunks_of_step)
qed (use assms in \<open>simp add: stream_chunks_def\<close>)

lemma fill_chunk_run:
  assumes "0 < cs"
  shows "fill_chunk (Suc (Suc k)) cs [] \<lparr>fs_rest = data, fs_eof = False, fs_bad = False\<rparr> =
    Some (take cs data, \<lparr>fs_rest = drop cs data, fs_eof = length data < cs, fs_bad = False\<rparr>)"
  using assms by (cases "length data < cs") (simp_all add: fread_def)

lemma store_stream_eof: "fs_eof fd \<Longrightarrow> store_stream (Suc k) g fid n m fd c = Some (Inr m, c)"
  by simp

lemma store_stream_run:
  assumes "grid_ok g" and "length fid = 12" and "port_ok (cn_port c)" and "\<not> cn_failed c"
    and "length (stream_chunks (unat (gf_chunkSize g)) data) < fuel"
  shows "\<exists>p. store_stream fuel g fid n m \<lparr>fs_rest = data, fs_eof = False, fs_bad = False\<rparr> c =
      Some (Inr (m + length data), c\<lparr>cn_port := p\<rparr>) \<and> port_ok p \<and> p_in p = p_in (cn_port c) \<and>
    p_out p @ pending p = p_out (cn_port c) @ pending (cn_port c) @
      chunk_inserts (gf_chunksNS g) fid (p_next_id (cn_port c)) n (stream_chunks (unat (gf_chunkSize g)) data)"
  using assms(3-)
proof (induction fuel arbitrary: n m data c)
  case (Suc fuel)
  let ?cs = "unat (gf_chunkSize g)"
  have cs: "0 < ?cs" "?cs \<le> 16 * 1024 * 1024" using grid_size [OF assms(1)] .
  note step = stream_chunks_step [OF cs(1), of data]
  obtain k where k: "fuel = Suc k" using Suc.prems(3) step by (cases fuel) auto
  have "length (take ?cs data) \<le> 16 * 1024 * 1024" using cs(2) by simp
  from insert_chunk_run [OF assms(1,2) this Suc.prems(1,2), of n] obtain p where p:
      "insert_chunk g fid n (take ?cs data) c = (Inr (), c\<lparr>cn_port := p\<rparr>)" "port_ok p" "pending p = []"
      "p_next_id p = p_next_id (cn_port c) + 1" "p_in p = p_in (cn_port c)"
      "p_out p = p_out (cn_port c) @ pending (cn_port c) @
        wire_bytes (stamp (insert_message (gf_chunksNS g) (chunk_doc fid n (take ?cs data))) (p_next_id (cn_port c)) (- 1))"
    by blast
  let ?fd = "\<lparr>fs_rest = drop ?cs data, fs_eof = length data < ?cs, fs_bad = False\<rparr>"
  have run: "store_stream (Suc fuel) g fid n m \<lparr>fs_rest = data, fs_eof = False, fs_bad = False\<rparr> c =
      store_stream fuel g fid (n + 1) (m + length (take ?cs data)) ?fd (c\<lparr>cn_port := p\<rparr>)"
    using p(1) fill_chunk_run [OF cs(1), of k data] unfolding k by simp
  show ?case
  proof (cases "length data < ?cs")
    case True
    then show ?thesis using run p k step by (intro exI [of _ p]) (simp add: store_stream_eof)
  next
    case False
    then have "length (stream_chunks ?cs (drop ?cs data)) < fuel" using Suc.prems(3) step by simp
    then obtain q where "store_stream fuel g fid (n + 1) (m + length (take ?cs data))
          \<lparr>fs_rest = drop ?cs data, fs_eof = False, fs_bad = False\<rparr> (c\<lparr>cn_port := p\<rparr>) =
        Some (Inr (m + length (take ?cs data) + length (drop ?cs data)), c\<lparr>cn_port := q\<rparr>)"
        "port_ok q" "p_in q = p_in (cn_port c)"
        "p_out q @ pending q = p_out p @ pending p @
          chunk_inserts (gf_chunksNS g) fid (p_next_id p) (n + 1) (stream_chunks ?cs (drop ?cs data))"
      using Suc.IH [of "c\<lparr>cn_port := p\<rparr>" "drop ?cs data" "n + 1" "m + length (take ?cs data)"] Suc.prems(1,2) p by auto
    then show ?thesis using run p False step by (intro exI [of _ q]) simp
  qed
qed simp

section \<open>Elements of a reply\<close>

lemma append_mem_as_field:
  assumes "shows_field (Some (n, v)) e" and "int (length (enc_elem (n, v))) < 2 ^ 31"
  shows "append_mem_as e name = appendAs (Some (n, v)) name"
proof -
  obtain post f where e: "e = elem_at n v post f" "f = - 1 \<or> f = int (length n) + 1" "NUL \<notin> set n" "wf_value v"
    using assms(1) by (auto simp: shows_field_def)
  have "el_size e (- 1) = Inr (int (length (enc_elem (n, v))))"
    unfolding e(1) using e(2-4) assms(2) by (intro el_size_enc) simp_all
  moreover have "el_fieldNameSize e = Inr (int (length n) + 1)"
    unfolding e(1) by (rule el_fieldNameSize_enc [OF e(3,2)])
  moreover have "el_value e = Inr (enc_value v @ post)" "el_eoo (el_data e) = Inr False"
    using el_value_enc [of n f v post] shows_field_value(3) [OF assms(1)] e by auto
  moreover have "hd (el_data e) = type_byte (value_type v)" by (simp add: e(1) enc_elem_def)
  ultimately show ?thesis by (simp add: append_mem_as_def appendAs_def fun_eq_iff length_enc_elem)
qed

lemma chunk_bytes_run:
  assumes "fits (chunk_doc fid n x)"
  shows "chunk_bytes (enc_doc (chunk_doc fid n x)) = Inr x"
proof -
  have "getField ''data'' (chunk_doc fid n x) = Some (''data'', VBinData 0 x)"
    by (simp add: chunk_doc_def getField_def uchar_def)
  then obtain e where e: "mem_field (enc_doc (chunk_doc fid n x)) ''data'' = Inr e" "shows_field (Some (''data'', VBinData 0 x)) e"
    using mem_field_enc [OF assms, of "[]" "''data''"] by auto
  obtain post where v: "el_value e = Inr (enc_value (VBinData 0 x) @ post)" using shows_field_value(1) [OF e(2)] by blast
  have t: "el_is BinData e = Inr True" using shows_field_value(2) [OF e(2)] by (simp add: el_is_def)
  have len: "int (length x) < 2 ^ 31" using assms by (simp add: fits_def chunk_doc_def length_enc_elem)
  have "binDataClean e = Inr (int (length x), x @ post)"
    using v t len
    by (simp add: binDataClean_def binDataType_def binData_def valuestrsize_def rd_int_le_int i32_id at_def u8_def chr8_def nth_append)
  then show ?thesis using e(1) by (simp add: chunk_bytes_def chunk_data_def)
qed

section \<open>Reading one chunk\<close>

definition chunk_query :: "oid \<Rightarrow> int \<Rightarrow> doc" where
  "chunk_query fid n = [(''files_id'', VOID fid), (''n'', VInt (word_of_int n))]"

text \<open>The document of a file: it has the id \<open>fid\<close>.\<close>

definition describes :: "oid \<Rightarrow> doc \<Rightarrow> bool" where
  "describes fid f \<longleftrightarrow> fits f \<and> length fid = 12 \<and> (\<exists>k. getField ''_id'' f = Some (k, VOID fid))"

lemma file_exists_enc:
  assumes "fits f" and "f \<noteq> []"
  shows "file_exists (enc_doc f) = Inr ()"
proof -
  have "2 \<le> length (enc_elems f)" using length_doc_le [of f] assms(2) by (cases f) simp_all
  then have "enc_elems f \<noteq> []" by auto
  then show ?thesis
    using rd_int_enc_doc [OF fits_small [OF assms(1)], of "[]"]
    by (simp add: file_exists_def obj_isEmpty_def)
qed

lemma seq_res_two: "seq_res [f, g] = (\<lambda>ob. bind_res (f ob) g)"
  by (rule ext) simp

lemma getChunk_run:
  assumes "grid_ok g" and f: "describes fid f" and a: "answers c mid (chunk_doc fid n x) rest"
  shows "\<exists>p. getChunk g (enc_doc f) n c = (Inr (enc_doc (chunk_doc fid n x)), c\<lparr>cn_port := p\<rparr>) \<and> port_ok p \<and>
    p_in p = rest \<and> p_next_id p = p_next_id (cn_port c) + 1"
proof -
  obtain k where k: "getField ''_id'' f = Some (k, VOID fid)" "fits f" "length fid = 12" using f by (auto simp: describes_def)
  obtain e where e: "mem_field (enc_doc f) ''_id'' = Inr e" "shows_field (Some (k, VOID fid)) e"
    using mem_field_enc [OF k(2), of "[]" "''_id''"] k(1) by auto
  have kk: "k = ''_id''"
  proof -
    obtain i where "(k, VOID fid) = f ! i" "strcmp (fst (f ! i)) ''_id'' = 0"
      using k(1) unfolding getField_def by (auto simp: find_Some_iff)
    then have "strcmp k ''_id'' = 0" by (metis fst_conv)
    moreover have "NUL \<notin> set k" using e(2) by (simp add: shows_field_def)
    ultimately show ?thesis using strcmp_eq_0_plain [of k "''_id''"] by simp
  qed
  have "append_mem_as e ''files_id'' = appendAs (Some (k, VOID fid)) ''files_id''"
    by (rule append_mem_as_field [OF e(2)]) (simp add: length_enc_elem k(3) kk)
  then have "adds (seq_res [append_mem_as e ''files_id'', append_value (''n'', VInt (word_of_int n))]) (enc_elems (chunk_query fid n))"
    using adds_bind [OF adds_appendAs adds_append_value [of "(''n'', VInt (word_of_int n))"], of k "VOID fid" "''files_id''"]
    by (simp add: chunk_query_def seq_res_two)
  then have q: "build_ops [append_mem_as e ''files_id'', append_value (''n'', VInt (word_of_int n))] = Inr (enc_doc (chunk_query fid n))"
    using build_ops_run [of "[append_mem_as e ''files_id'', append_value (''n'', VInt (word_of_int n))]" "chunk_query fid n"]
    by (simp add: chunk_query_def length_enc_elem k(3))
  have "query_ok (gf_chunksNS g) (chunk_query fid n) None 1 0"
    using assms(1) k(3) by (simp add: query_ok_def option_docs_def fits_def chunk_query_def length_enc_elem grid_ok_def has_flag_def)
  from findOne_run [OF a this] obtain p where p:
      "findOne (gf_chunksNS g) (enc_doc (chunk_query fid n)) None 0 c = (Inr (enc_doc (chunk_doc fid n x)), c\<lparr>cn_port := p\<rparr>)"
      "port_ok p" "p_in p = rest" "p_next_id p = p_next_id (cn_port c) + 1"
    by blast
  have fx: "fits (chunk_doc fid n x)" using a by (simp add: answers_def)
  have "f \<noteq> []" using k(1) by (auto simp: getField_def)
  moreover have "cstr (gf_chunksNS g) = gf_chunksNS g" using assms(1) by (simp add: grid_ok_def)
  moreover have "obj_isEmpty (enc_doc (chunk_doc fid n x)) = Inr False"
    using file_exists_enc [OF fx] by (auto simp: file_exists_def res_simps chunk_doc_def)
  ultimately show ?thesis
    using p q e(1) file_exists_enc [OF k(2)] by (intro exI [of _ p]) (simp add: getChunk_def bind_act_def)
qed

text \<open>What the server sends when it is asked for the chunks one after the other.\<close>

fun chunk_replies :: "32 word \<Rightarrow> 32 word \<Rightarrow> oid \<Rightarrow> int \<Rightarrow> bytes list \<Rightarrow> bytes" where
  "chunk_replies mid i fid n [] = []"
| "chunk_replies mid i fid n (x # xs) =
     wire_bytes (reply_message i (reply_batch mid (chunk_doc fid n x))) @ chunk_replies mid (i + 1) fid (n + 1) xs"

lemma write_loop_run:
  assumes "grid_ok g" and "describes fid f" and "\<forall>x \<in> set xs. length x \<le> 16 * 1024 * 1024"
    and "port_ok (cn_port c)" and "\<not> cn_failed c" and "\<not> cn_clientSet c"
    and "p_in (cn_port c) = chunk_replies mid (p_next_id (cn_port c)) fid n xs"
  shows "\<exists>p. write_loop g (enc_doc f) (length xs) n (c, out) = (Inr (), (c\<lparr>cn_port := p\<rparr>, out @ concat xs))"
  using assms(3-)
proof (induction xs arbitrary: n c out)
  case Nil
  then show ?case by (intro exI [of _ "cn_port c"]) simp
next
  case (Cons x xs)
  have fid: "length fid = 12" using assms(2) by (simp add: describes_def)
  have fx: "fits (chunk_doc fid n x)" using chunk_new_run(2) [OF fid] Cons.prems(1) by simp
  then have "answers c mid (chunk_doc fid n x) (chunk_replies mid (p_next_id (cn_port c) + 1) fid (n + 1) xs)"
    using Cons.prems by (simp add: answers_def) (simp add: chunk_doc_def)
  from getChunk_run [OF assms(1,2) this] obtain p where p:
      "getChunk g (enc_doc f) n c = (Inr (enc_doc (chunk_doc fid n x)), c\<lparr>cn_port := p\<rparr>)" "port_ok p"
      "p_in p = chunk_replies mid (p_next_id (cn_port c) + 1) fid (n + 1) xs" "p_next_id p = p_next_id (cn_port c) + 1"
    by blast
  obtain q where "write_loop g (enc_doc f) (length xs) (n + 1) (c\<lparr>cn_port := p\<rparr>, out @ x) =
      (Inr (), (c\<lparr>cn_port := q\<rparr>, (out @ x) @ concat xs))"
    using Cons.IH [of "c\<lparr>cn_port := p\<rparr>" "n + 1" "out @ x"] Cons.prems p by auto
  then show ?case using p(1) chunk_bytes_run [OF fx] by (intro exI [of _ q]) (simp add: bind_act_def)
qed

section \<open>The number of chunks\<close>

lemma round_div_le:
  assumes "n \<le> d * k" and "0 < d"
  shows "round_div n d \<le> k"
proof -
  have q: "n div d \<le> k" using div_le_mono [OF assms(1), of d] assms(2) by simp
  show ?thesis
  proof (cases "n div d = k")
    case True
    then have "n mod d = 0" using assms(1) mult_div_mod_eq [of d n] by simp
    then show ?thesis using True assms(2) by (simp add: round_div_def)
  next
    case False
    then show ?thesis using q by (auto simp: round_div_def Let_def)
  qed
qed

lemma round_div_gr:
  assumes "d * j + x \<le> n" and "d < 2 * x" and "0 < d"
  shows "j < round_div n d"
proof (cases "n div d = j")
  case True
  then have "n mod d = n - d * j" using minus_mult_div_eq_mod [of n d] by simp
  then have "x \<le> n mod d" using assms(1) by simp
  then have "d < 2 * (n mod d)" using assms(2) by linarith
  then show ?thesis using True by (simp add: round_div_def)
next
  case False
  have "j \<le> n div d" using assms(1,3) by (simp add: less_eq_div_iff_mult_less_eq mult.commute)
  then show ?thesis using False by (auto simp: round_div_def Let_def)
qed

lemma ceil_div_exact:
  assumes "a < 2 ^ 53" and "0 < b"
  shows "ceil_div a b = (a + b - 1) div b"
proof (cases "a = 0")
  case False
  let ?s = "quot_scale a b" and ?k = "(a + b - 1) div b"
  let ?S = "2 ^ ?s :: nat" and ?m = "round_div (a * 2 ^ quot_scale a b) b"
  have "2 ^ nlog2 a \<le> a" using nlog2_bounds [of a] False by simp
  then have "2 ^ nlog2 a < (2 :: nat) ^ 53" using assms(1) by simp
  then have "nlog2 a < 53" by (rule power_less_imp_less_exp [rotated]) simp
  then have "nlog2 b \<le> 52 + nlog2 b - nlog2 a" by linarith
  then have "nlog2 b \<le> ?s" by (simp add: quot_scale_def Let_def)
  then have "(2 :: nat) ^ Suc (nlog2 b) \<le> 2 ^ Suc ?s" by (intro power_increasing) simp_all
  then have "b < 2 ^ Suc ?s" using nlog2_bounds [of b] assms(2) less_le_trans by blast
  then have S: "b < 2 * ?S" by simp
  have k: "a \<le> b * ?k" "b * (?k - 1) + 1 \<le> a" "0 < ?k"
  proof -
    have eq: "a + b - 1 = b * ?k + (a + b - 1) mod b" and r: "(a + b - 1) mod b < b" using assms(2) by simp_all
    then show "a \<le> b * ?k" by linarith
    show pos: "0 < ?k" using assms(2) False by (simp add: div_greater_zero_iff)
    then obtain j where j: "?k = Suc j" by (cases ?k) auto
    show "b * (?k - 1) + 1 \<le> a" using eq False unfolding j by (cases a) simp_all
  qed
  have "a * ?S \<le> b * (?k * ?S)" using mult_le_mono1 [OF k(1), of ?S] by (simp add: ac_simps)
  then have up: "?m \<le> ?k * ?S" by (rule round_div_le [OF _ assms(2)])
  have "b * ((?k - 1) * ?S) + ?S \<le> a * ?S" using mult_le_mono1 [OF k(2), of ?S] by (simp add: algebra_simps)
  then have low: "(?k - 1) * ?S < ?m" by (rule round_div_gr [OF _ S assms(2)])
  have "(?m + ?S - 1) div ?S = ?k"
  proof (rule div_nat_eqI)
    show "?S * ?k \<le> ?m + ?S - 1" using low k(3) by (cases ?k) (simp_all add: algebra_simps)
    have "?m + ?S - 1 < ?m + ?S" by simp
    also have "\<dots> \<le> ?k * ?S + ?S" using up by simp
    finally show "?m + ?S - 1 < ?S * Suc ?k" by (simp add: ac_simps)
  qed
  then show ?thesis using False by (simp add: ceil_div_def Let_def)
qed (use assms in \<open>simp add: ceil_div_def\<close>)

lemma sint_int_32: "- (2 ^ 31) \<le> x \<Longrightarrow> x < 2 ^ 31 \<Longrightarrow> sint (word_of_int x :: 32 word) = x"
  by (simp add: signed_of_int signed_take_bit_int_eq_self)

lemma sint_int_64: "- (2 ^ 63) \<le> x \<Longrightarrow> x < 2 ^ 63 \<Longrightarrow> sint (word_of_int x :: 64 word) = x"
  by (simp add: signed_of_int signed_take_bit_int_eq_self)

lemma number_field:
  assumes "fits f" and "getField name f = Some (k, v)" and "v = VInt w \<and> sint w = n \<or> v = VLong u \<and> sint u = n"
    and "\<bar>n\<bar> \<le> 2 ^ 53"
  shows "bind_res (mem_field (enc_doc f) name) numberDouble = Inr (dbl_of_int n)"
proof -
  obtain e where e: "mem_field (enc_doc f) name = Inr e" "shows_field (Some (k, v)) e"
    using mem_field_enc [OF assms(1), of "[]" name] assms(2) by auto
  obtain post where "el_value e = Inr (enc_value v @ post)" using shows_field_value(1) [OF e(2)] by blast
  moreover have "el_type (el_data e) = Inr (type_code (value_type v))" by (rule shows_field_value(2) [OF e(2)])
  ultimately show ?thesis using e(1) assms(3) by (auto simp: numberDouble_def el_numberInt_def el_numberLong_def)
qed

text \<open>What \<open>insertFile\<close> records: the chunk size, and the length as an int or a long.\<close>

definition records_file :: "oid \<Rightarrow> nat \<Rightarrow> nat \<Rightarrow> doc \<Rightarrow> bool" where
  "records_file fid cs len f \<longleftrightarrow> describes fid f \<and>
     (\<exists>k w. getField ''chunkSize'' f = Some (k, VInt w) \<and> sint w = int cs) \<and>
     (\<exists>k. getField ''length'' f = Some (k, length_value (int len)))"

lemma getNumChunks_run:
  assumes "records_file fid cs len f" and "0 < cs" and "len < 2 ^ 32" and "cs < 2 ^ 31" and "(len + cs - 1) div cs < 2 ^ 31"
  shows "getNumChunks (enc_doc f) = Inr (int ((len + cs - 1) div cs))" "getContentLength (enc_doc f) = Inr (int len)"
proof -
  have f: "fits f" using assms(1) by (simp add: records_file_def describes_def)
  obtain k w j where fields: "getField ''chunkSize'' f = Some (k, VInt w)" "sint w = int cs"
      "getField ''length'' f = Some (j, length_value (int len))"
    using assms(1) by (auto simp: records_file_def)
  have lv: "length_value (int len) = VInt (word_of_int (int len)) \<and> sint (word_of_int (int len) :: 32 word) = int len \<or>
      length_value (int len) = VLong (word_of_int (int len)) \<and> sint (word_of_int (int len) :: 64 word) = int len"
    using sint_int_32 [of "int len"] sint_int_64 [of "int len"] assms(3) by (simp add: length_value_def)
  have "bind_res (mem_field (enc_doc f) ''length'') numberDouble = Inr (dbl_of_int (int len))"
    by (rule number_field [OF f fields(3) lv]) (use assms(3) in simp)
  moreover have "bind_res (mem_field (enc_doc f) ''chunkSize'') numberDouble = Inr (dbl_of_int (int cs))"
    by (rule number_field [OF f fields(1)]) (use fields(2) assms(4) in simp_all)
  moreover have "\<bar>int len\<bar> \<le> 2 ^ 53" "\<bar>int cs\<bar> \<le> 2 ^ 53" using assms(3,4) by simp_all
  ultimately have "getContentLength (enc_doc f) = Inr (int len)" "getChunkSize (enc_doc f) = Inr (int cs)"
    using dbl_trunc_of_int [of "int len"] dbl_trunc_of_int [of "int cs"] dbl_of_int_exact(2) [of "int len"]
      dbl_of_int_exact(2) [of "int cs"] assms(3,4)
    by (simp_all add: getContentLength_def getChunkSize_def dbl_to_ulong_def dbl_to_int_def flip: bind_res_assoc)
  then show "getContentLength (enc_doc f) = Inr (int len)" "getNumChunks (enc_doc f) = Inr (int ((len + cs - 1) div cs))"
    using ceil_div_exact [of len cs] dbl_trunc_of_int [of "int len"] assms(2,3,5)
    by (simp_all add: getNumChunks_def)
qed

section \<open>Reading a whole file\<close>

lemma write_file_run:
  assumes "grid_ok g" and "length data < 2 ^ 31" and "records_file fid (unat (gf_chunkSize g)) (length data) f"
    and "port_ok (cn_port c)" and "\<not> cn_failed c" and "\<not> cn_clientSet c"
    and "p_in (cn_port c) = chunk_replies mid (p_next_id (cn_port c)) fid 0 (chunks_of (unat (gf_chunkSize g)) data)"
  shows "\<exists>p. write_file g (enc_doc f) (c, []) = (Inr (int (length data)), (c\<lparr>cn_port := p\<rparr>, data))"
proof -
  let ?cs = "unat (gf_chunkSize g)" and ?xs = "chunks_of (unat (gf_chunkSize g)) data"
  have cs: "0 < ?cs" "?cs \<le> 16 * 1024 * 1024" using grid_size [OF assms(1)] .
  have f: "describes fid f" using assms(3) by (simp add: records_file_def)
  have "(length data + ?cs - 1) div ?cs \<le> length data"
  proof (cases "length data")
    case (Suc n)
    have "length data + ?cs - 1 \<le> length data * ?cs"
      using cs(1) Suc by (cases ?cs) (simp_all add: algebra_simps)
    then show ?thesis using cs(1) div_le_mono [of "length data + ?cs - 1" "length data * ?cs" ?cs] by simp
  qed (use cs(1) in simp)
  then have n: "(length data + ?cs - 1) div ?cs < 2 ^ 31" using assms(2) by linarith
  have num: "getNumChunks (enc_doc f) = Inr (int (length ?xs))" "getContentLength (enc_doc f) = Inr (int (length data))"
    using getNumChunks_run [OF assms(3) cs(1)] assms(2) cs n length_chunks [OF cs(1), of data] by simp_all
  have "\<forall>x \<in> set ?xs. length x \<le> 16 * 1024 * 1024" using chunk_sizes [of _ ?cs data] cs(2) by fastforce
  from write_loop_run [OF assms(1) f this assms(4-7), of "[]"] obtain p where
    "write_loop g (enc_doc f) (length ?xs) 0 (c, []) = (Inr (), (c\<lparr>cn_port := p\<rparr>, data))"
    using concat_chunks [OF cs(1)] by auto
  moreover have "file_exists (enc_doc f) = Inr ()"
    using f by (intro file_exists_enc) (auto simp: describes_def getField_def)
  ultimately show ?thesis using num by (intro exI [of _ p]) (simp add: write_file_def bind_act_def)
qed

section \<open>Storing a whole file\<close>

lemma adds_list: "list_all2 (\<lambda>f e. adds f (enc_elem e)) fs d \<Longrightarrow> adds (seq_res fs) (enc_elems d)"
proof (induction rule: list_all2_induct)
  case Nil
  show ?case by (rule addsI [where xss = "[]"]) (simp_all add: fun_eq_iff on_buf_def)
next
  case (Cons f fs e d)
  have "seq_res (f # fs) = (\<lambda>ob. bind_res (f ob) (seq_res fs))" by (simp add: fun_eq_iff)
  then show ?case using adds_bind [OF Cons(1,3)] by simp
qed

definition filemd5_command :: "gridfs \<Rightarrow> oid \<Rightarrow> doc" where
  "filemd5_command g fid = [(''filemd5'', VOID fid), (''root'', VString (gf_prefix g))]"

definition file_doc :: "64 word \<Rightarrow> gridfs \<Rightarrow> bytes \<Rightarrow> oid \<Rightarrow> nat \<Rightarrow> bytes \<Rightarrow> bson_value \<Rightarrow> doc" where
  "file_doc now g name fid len contentType hash =
     [(''_id'', VOID fid), (''filename'', VString name), (''chunkSize'', VInt (gf_chunkSize g)),
      (''uploadDate'', VDate now), (''md5'', hash), (''length'', length_value (int len))] @
     (if contentType \<noteq> '''' then [(''contentType'', VString contentType)] else [])"

definition grid_names_ok :: "gridfs \<Rightarrow> oid \<Rightarrow> bool" where
  "grid_names_ok g fid \<longleftrightarrow> command_ok (gf_dbName g) (filemd5_command g fid) 0 \<and> NUL \<notin> set (gf_dbName g) \<and>
     NUL \<notin> set (gf_filesNS g) \<and> length (gf_filesNS g) \<le> 1024"

text \<open>The server's answer to \<open>filemd5\<close>.\<close>

definition gives_md5 :: "doc \<Rightarrow> bson_value \<Rightarrow> bool" where
  "gives_md5 r hash \<longleftrightarrow> truth (getField ''ok'' r) \<and> (\<exists>k. getField ''md5'' r = Some (k, hash))"

lemma insertFile_run:
  assumes a: "answers c mid r rest" and names: "grid_names_ok g fid" and hash: "gives_md5 r hash"
    and f: "fits (file_doc now g name fid len ct hash)"
  shows "\<exists>p m. assembleRequest (gf_dbName g @ ''.$cmd'') (enc_doc (filemd5_command g fid)) 1 0 None 0 = Inr m \<and>
    insertFile now g name fid (int len) ct c = (Inr (enc_doc (file_doc now g name fid len ct hash)), c\<lparr>cn_port := p\<rparr>) \<and>
    p_in p = rest \<and> p_out p @ pending p = p_out (cn_port c) @ pending (cn_port c) @
      wire_bytes (stamp m (p_next_id (cn_port c)) (- 1)) @
      wire_bytes (stamp (insert_message (gf_filesNS g) (file_doc now g name fid len ct hash)) (p_next_id (cn_port c) + 1) (- 1))"
proof -
  let ?f = "file_doc now g name fid len ct hash"
  have r: "fits r" "\<not> cn_failed c" using a by (simp_all add: answers_def)
  obtain k where k: "getField ''md5'' r = Some (k, hash)" "truth (getField ''ok'' r)" using hash by (auto simp: gives_md5_def)
  obtain e where e: "mem_field (enc_doc r) ''md5'' = Inr e" "shows_field (Some (k, hash)) e"
    using mem_field_enc [OF r(1), of "[]" "''md5''"] k(1) by auto
  have "(k, hash) \<in> set r" using k(1) by (auto simp: getField_def find_Some_iff)
  then have "length (enc_elem (k, hash)) \<le> length (enc_elems r)"
    by (induction r) auto
  then have small: "int (length (enc_elem (k, hash))) < 2 ^ 31" using r(1) by (simp add: fits_def)
  let ?ops = "[append_value (''_id'', VOID fid), append_value (''filename'', VString name),
      append_value (''chunkSize'', VInt (gf_chunkSize g)), append_value (''uploadDate'', VDate now),
      append_mem_as e ''md5'', append_value (''length'', length_value (int len))] @
      (if ct \<noteq> '''' then [append_value (''contentType'', VString ct)] else [])"
  have "list_all2 (\<lambda>f e. adds f (enc_elem e)) ?ops ?f"
    using adds_append_value adds_appendAs by (simp add: file_doc_def append_mem_as_field [OF e(2) small] del: append_value.simps)
  from build_ops_run [OF adds_list [OF this]] f have ops: "build_ops ?ops = Inr (enc_doc ?f)" by (simp add: fits_def)
  have db: "cstr (gf_dbName g) = gf_dbName g" "cstr (gf_filesNS g) = gf_filesNS g" "length (gf_filesNS g) \<le> 1024"
    using names by (simp_all add: grid_names_ok_def)
  obtain p m where p: "assembleRequest (gf_dbName g @ ''.$cmd'') (enc_doc (filemd5_command g fid)) 1 0 None 0 = Inr m"
      "run_doc (gf_dbName g) (filemd5_command g fid) 0 c = (Inr (True, enc_doc r), c\<lparr>cn_port := p\<rparr>)" "port_ok p" "p_in p = rest"
      "p_next_id p = p_next_id (cn_port c) + 1" "pending p = []"
      "p_out p = p_out (cn_port c) @ pending (cn_port c) @ wire_bytes (stamp m (p_next_id (cn_port c)) (- 1))"
    using run_doc_run [OF a, of "gf_dbName g" "filemd5_command g fid" 0] names k(2) by (auto simp: grid_names_ok_def)
  obtain q where q: "insert_one (gf_filesNS g) (enc_doc ?f) (c\<lparr>cn_port := p\<rparr>) = (Inr (), c\<lparr>cn_port := q\<rparr>)" "p_in q = rest"
      "pending q = []" "p_out q = p_out p @ wire_bytes (stamp (insert_message (gf_filesNS g) ?f) (p_next_id p) (- 1))"
    using insert_one_run [of "c\<lparr>cn_port := p\<rparr>", OF _ _ f db(3)] p(3,4,6) r(2) by auto
  have "insertFile now g name fid (int len) ct c = (Inr (enc_doc ?f), c\<lparr>cn_port := q\<rparr>)"
    using p(2) q(1) e(1) ops db unfolding filemd5_command_def by (simp add: insertFile_def bind_act_def)
  then show ?thesis using p q by (intro exI [of _ q] exI [of _ m]) simp
qed

lemma file_doc_records:
  assumes "grid_ok g" and "length fid = 12" and "fits (file_doc now g name fid len ct hash)"
  shows "records_file fid (unat (gf_chunkSize g)) len (file_doc now g name fid len ct hash)"
proof -
  have "uint (gf_chunkSize g) \<le> 16 * 1024 * 1024" using assms(1) by (simp add: grid_ok_def word_le_def)
  then have "uint (gf_chunkSize g) < 2 ^ 31" by simp
  then have "sint (word_of_int (uint (gf_chunkSize g)) :: 32 word) = uint (gf_chunkSize g)"
    by (intro sint_int_32) (use uint_ge_0 [of "gf_chunkSize g"] in linarith)+
  then have "sint (gf_chunkSize g) = int (unat (gf_chunkSize g))" by simp
  then show ?thesis using assms(2,3)
    by (simp add: records_file_def describes_def) (simp add: file_doc_def getField_def uchar_def)
qed

section \<open>Properties\<close>


text \<open>
  C31: Storing from memory ends, and sends one insert for each chunk of the data, in order and
  numbered from zero. Storing the same bytes from a file sends the same chunks, and one empty
  chunk more exactly when their length is a multiple of the chunk size.
\<close>

theorem store_sends_chunks:
  assumes "grid_ok g" and "length fid = 12" and "length data < 2 ^ 32" and "port_ok (cn_port c)" and "\<not> cn_failed c"
    and "length data div unat (gf_chunkSize g) + 1 < fuel"
  shows "\<exists>p q. store_chunks fuel g fid 0 data c = Some (Inr (), c\<lparr>cn_port := p\<rparr>) \<and>
    p_out p @ pending p = p_out (cn_port c) @ pending (cn_port c) @
      chunk_inserts (gf_chunksNS g) fid (p_next_id (cn_port c)) 0 (chunks_of (unat (gf_chunkSize g)) data) \<and>
    store_stream fuel g fid 0 0 \<lparr>fs_rest = data, fs_eof = False, fs_bad = False\<rparr> c =
      Some (Inr (length data), c\<lparr>cn_port := q\<rparr>) \<and>
    p_out q @ pending q = p_out (cn_port c) @ pending (cn_port c) @
      chunk_inserts (gf_chunksNS g) fid (p_next_id (cn_port c)) 0
        (chunks_of (unat (gf_chunkSize g)) data @ (if length data mod unat (gf_chunkSize g) = 0 then [[]] else []))"
proof -
  let ?cs = "unat (gf_chunkSize g)"
  have cs: "0 < ?cs" using grid_size [OF assms(1)] by simp
  have "length (chunks_of ?cs data) \<le> length data div ?cs + (if length data mod ?cs = 0 then 0 else 1)"
  proof (cases "length data mod ?cs = 0")
    case True
    then obtain k where k: "length data = ?cs * k" by (auto simp: mod_eq_0_iff_dvd)
    have "(?cs * k + ?cs - 1) div ?cs = k" using cs by (intro div_nat_eqI) (simp_all add: algebra_simps)
    then show ?thesis using True k cs length_chunks [OF cs, of data] by simp
  next
    case False
    have "length data + ?cs - 1 < length data + ?cs" using cs by simp
    then have "(length data + ?cs - 1) div ?cs \<le> (length data + ?cs) div ?cs" by (intro div_le_mono) simp
    then show ?thesis using False length_chunks [OF cs, of data] cs by (simp add: div_add_self2)
  qed
  then have len: "length (chunks_of ?cs data) < fuel" "length (stream_chunks ?cs data) < fuel"
    using assms(6) by (auto simp: stream_chunks_def split: if_splits)
  obtain p where "store_chunks fuel g fid 0 data c = Some (Inr (), c\<lparr>cn_port := p\<rparr>)"
      "p_out p @ pending p = p_out (cn_port c) @ pending (cn_port c) @
        chunk_inserts (gf_chunksNS g) fid (p_next_id (cn_port c)) 0 (chunks_of ?cs data)"
    using store_chunks_run [OF assms(1-5) len(1)] by blast
  moreover obtain q where "store_stream fuel g fid 0 0 \<lparr>fs_rest = data, fs_eof = False, fs_bad = False\<rparr> c =
        Some (Inr (length data), c\<lparr>cn_port := q\<rparr>)"
      "p_out q @ pending q = p_out (cn_port c) @ pending (cn_port c) @
        chunk_inserts (gf_chunksNS g) fid (p_next_id (cn_port c)) 0 (stream_chunks ?cs data)"
    using store_stream_run [OF assms(1,2,4,5) len(2), of 0 0] by auto
  ultimately show ?thesis unfolding stream_chunks_def by blast
qed


section \<open>Examples\<close>

definition demo_grid :: gridfs where
  "demo_grid = \<lparr>gf_dbName = ''db'', gf_prefix = ''fs'', gf_filesNS = ''db.fs.files'', gf_chunksNS = ''db.fs.chunks'', gf_chunkSize = 2\<rparr>"

definition demo_fid :: oid where
  "demo_fid = ''0123456789ab''"


definition grid_replies :: "bytes list \<Rightarrow> connection" where
  "grid_replies xs =
     \<lparr>cn_port = \<lparr>p_in = chunk_replies 9 1 demo_fid 0 xs, p_out = [], p_up = True, p_next_id = 1, p_piggy = None\<rparr>,
      cn_failed = False, cn_clientSet = False, cn_isntMaster = 0\<rparr>"

lemma demo_grid_ok: "grid_ok demo_grid"
  by (simp add: grid_ok_def demo_grid_def)

lemma demo_chunks: "chunks_of 2 ''wxyz'' = [''wx'', ''yz'']"
  by (simp add: chunks_of_step)

definition demo_reply :: doc where
  "demo_reply = [(''md5'', VString ''0''), (''ok'', VInt 1)]"

definition after_store :: connection where
  "after_store =
     \<lparr>cn_port = \<lparr>p_in = wire_bytes (reply_message 3 (reply_batch 9 demo_reply)), p_out = [], p_up = True, p_next_id = 1,
        p_piggy = None\<rparr>, cn_failed = False, cn_clientSet = False, cn_isntMaster = 0\<rparr>"


theorem store_sends_chunks_witness:
  "\<exists>p q. store_chunks 4 demo_grid demo_fid 0 ''wxyz'' (grid_replies []) = Some (Inr (), (grid_replies [])\<lparr>cn_port := p\<rparr>) \<and>
    p_out p @ pending p = chunk_inserts ''db.fs.chunks'' demo_fid 1 0 [''wx'', ''yz''] \<and>
    store_stream 4 demo_grid demo_fid 0 0 \<lparr>fs_rest = ''wxyz'', fs_eof = False, fs_bad = False\<rparr> (grid_replies []) =
      Some (Inr 4, (grid_replies [])\<lparr>cn_port := q\<rparr>) \<and>
    p_out q @ pending q = chunk_inserts ''db.fs.chunks'' demo_fid 1 0 [''wx'', ''yz'', '''']"
proof -
  have c: "port_ok (cn_port (grid_replies []))" "\<not> cn_failed (grid_replies [])" "length demo_fid = 12"
    "length ''wxyz'' < 2 ^ 32" "length ''wxyz'' div unat (gf_chunkSize demo_grid) + 1 < 4"
    by (simp_all add: grid_replies_def port_ok_def pending_def demo_fid_def demo_grid_def)
  from store_sends_chunks [OF demo_grid_ok c(3,4,1,2,5)] obtain p q where
    "store_chunks 4 demo_grid demo_fid 0 ''wxyz'' (grid_replies []) = Some (Inr (), (grid_replies [])\<lparr>cn_port := p\<rparr>)"
    "p_out p @ pending p = p_out (cn_port (grid_replies [])) @ pending (cn_port (grid_replies [])) @
       chunk_inserts (gf_chunksNS demo_grid) demo_fid (p_next_id (cn_port (grid_replies []))) 0
         (chunks_of (unat (gf_chunkSize demo_grid)) ''wxyz'')"
    "store_stream 4 demo_grid demo_fid 0 0 \<lparr>fs_rest = ''wxyz'', fs_eof = False, fs_bad = False\<rparr> (grid_replies []) =
      Some (Inr (length ''wxyz''), (grid_replies [])\<lparr>cn_port := q\<rparr>)"
    "p_out q @ pending q = p_out (cn_port (grid_replies [])) @ pending (cn_port (grid_replies [])) @
       chunk_inserts (gf_chunksNS demo_grid) demo_fid (p_next_id (cn_port (grid_replies []))) 0
         (chunks_of (unat (gf_chunkSize demo_grid)) ''wxyz'' @
          (if length ''wxyz'' mod unat (gf_chunkSize demo_grid) = 0 then [[]] else []))"
    by blast
  then show ?thesis using demo_chunks
    by (intro exI [of _ p] exI [of _ q]) (simp add: demo_grid_def grid_replies_def pending_def)
qed

section \<open>Outside the bounds\<close>

text \<open>The only chunk size \<open>setChunkSize\<close> accepts is zero.\<close>

lemma setChunkSize_accepts_zero_only: "setChunkSize n g = (if n = 0 then Inr (g\<lparr>gf_chunkSize := 0\<rparr>) else Inl (Massert 13296))"
  by (simp add: setChunkSize_def)

text \<open>
  When the length of a chunk comes out as zero, the loop inserts empty chunks as long as the
  connection takes them. That is so with the chunk size zero, and for a length that is a multiple
  of 4 GB, of which nothing is left in an \<open>unsigned\<close>.
\<close>

lemma empty_chunks_forever:
  assumes "chunk_len (gf_chunkSize g) (length data) = 0" and "data \<noteq> []"
    and "NUL \<notin> set (gf_chunksNS g)" and "length (gf_chunksNS g) \<le> 1024" and "length fid = 12"
    and "port_ok (cn_port c)" and "\<not> cn_failed c"
  shows "store_chunks fuel g fid n data c = None"
  using assms(6,7)
proof (induction fuel arbitrary: n c)
  case (Suc fuel)
  have fx: "fits (chunk_doc fid n [])" using chunk_new_run(2) [OF assms(5), of "[]"] by simp
  obtain p where p: "insert_one (gf_chunksNS g) (enc_doc (chunk_doc fid n [])) c = (Inr (), c\<lparr>cn_port := p\<rparr>)" "port_ok p"
    using insert_one_run [OF Suc.prems fx assms(4)] by blast
  then have "insert_chunk g fid n [] c = (Inr (), c\<lparr>cn_port := p\<rparr>)"
    using chunk_new_run(1) [OF assms(5), of "[]" n] assms(3) by (simp add: insert_chunk_def)
  moreover have "store_chunks fuel g fid (n + 1) data (c\<lparr>cn_port := p\<rparr>) = None"
    using Suc.IH [of "c\<lparr>cn_port := p\<rparr>"] Suc.prems(2) p(2) by simp
  ultimately show ?case using assms(1,2) by (simp add: Let_def)
qed simp

lemma chunk_len_zero: "chunk_len 0 n = 0" "chunk_len cs (2 ^ 32 * k) = 0"
  by (simp_all add: chunk_len_def i32_id min_def)

lemma chunk_len_negative: "chunk_len (- 1) (2 ^ 32 - 1) = - 1"
  by (simp add: chunk_len_def i32_def min_def unsigned_minus_1_eq_mask mask_eq_exp_minus_1 take_bit_eq_mod signed_take_bit_eq_take_bit_shift)

text \<open>A read error does not end the loop that fills a chunk.\<close>

lemma fill_chunk_read_error:
  "\<lbrakk>fs_bad fd; \<not> fs_eof fd; length buf + length (fs_rest fd) < chunkSize\<rbrakk> \<Longrightarrow> fill_chunk fuel chunkSize buf fd = None"
proof (induction fuel arbitrary: buf fd)
  case (Suc fuel)
  show ?case using Suc.prems by (simp add: fread_def) (rule Suc.IH; simp)
qed simp

end
