(* ===== verification/ReplicaSet.thy ===== *)
theory ReplicaSet
  imports Reconnect
begin

text \<open>
  Replica sets (client/dbclient_rs.h and .cpp). A monitor keeps a connection to every known node
  of a set, asks them which one is the master, and learns of further nodes from their answers.
  A \<open>DBClientReplicaSet\<close> sends writes to the master the monitor names and, where the caller allows
  it, reads to a slave. The network, the clock, the message ids the process has reached and the
  numbers from \<open>rand\<close> are a function of how many calls the monitor has seen (\<open>set_env\<close>). Calls
  of other threads are further steps: the model has no other interleaving.
\<close>

text \<open>What \<open>catch (DBException&)\<close> catches.\<close>

definition is_db_exception :: "mongo_error \<Rightarrow> bool" where
  "is_db_exception err \<longleftrightarrow> is_std_exception err \<and> err \<noteq> StdException"

text \<open>Code that may not end: \<open>None\<close> when its fuel is used up.\<close>

type_synonym ('s, 'a) run = "'s \<Rightarrow> ('a res \<times> 's) option"

definition run_act :: "('s, 'a) act \<Rightarrow> ('s, 'a) run" where
  "run_act f s = Some (f s)"

definition bind_run :: "('s, 'a) run \<Rightarrow> ('a \<Rightarrow> ('s, 'b) run) \<Rightarrow> ('s, 'b) run" where
  "bind_run m f s =
     (case m s of
        None \<Rightarrow> None
      | Some (Inl err, s) \<Rightarrow> Some (Inl err, s)
      | Some (Inr x, s) \<Rightarrow> f x s)"

record set_env =
  se_moment :: "nat \<Rightarrow> moment"
  se_id :: "nat \<Rightarrow> 32 word"
  se_rand :: "nat \<Rightarrow> nat"

section \<open>The monitor\<close>

record node =
  nd_addr :: host_and_port
  nd_conn :: auto_connection
  nd_ok :: bool

text \<open>
  \<open>mn_told\<close> is what the hook for changes of the configuration was called with, when there is one:
  the set's address at that time.
\<close>

record monitor =
  mn_name :: bytes
  mn_nodes :: "node list"
  mn_master :: int
  mn_hook :: bool
  mn_told :: "bytes list"
  mn_time :: nat

definition node_new :: "host_and_port \<Rightarrow> auto_connection \<Rightarrow> node" where
  "node_new h c = \<lparr>nd_addr = h, nd_conn = c, nd_ok = True\<rparr>"

definition tick :: "monitor \<Rightarrow> monitor" where
  "tick m = m\<lparr>mn_time := Suc (mn_time m)\<rparr>"

definition add_node :: "node \<Rightarrow> monitor \<Rightarrow> monitor" where
  "add_node n m = m\<lparr>mn_nodes := mn_nodes m @ [n]\<rparr>"

definition set_ok :: "nat \<Rightarrow> bool \<Rightarrow> monitor \<Rightarrow> monitor" where
  "set_ok i b m = m\<lparr>mn_nodes := (mn_nodes m)[i := (mn_nodes m ! i)\<lparr>nd_ok := b\<rparr>]\<rparr>"

definition on_node :: "set_env \<Rightarrow> nat \<Rightarrow> (moment \<Rightarrow> (auto_connection, 'a) act) \<Rightarrow> (monitor, 'a) act" where
  "on_node env i f m =
     (if i < length (mn_nodes m) then
        case f (se_moment env (mn_time m)) (nd_conn (mn_nodes m ! i)) of
          (r, c) \<Rightarrow> (r, tick (m\<lparr>mn_nodes := (mn_nodes m)[i := (mn_nodes m ! i)\<lparr>nd_conn := c\<rparr>]\<rparr>))
      else (Inl UB, m))"

text \<open>A new connection (with \<open>autoReconnect\<close>), and whether it could be connected.\<close>

definition dial_node :: "set_env \<Rightarrow> host_and_port \<Rightarrow> (monitor, bool \<times> auto_connection) act" where
  "dial_node env h m =
     (Inr (connect_to (mo_net (se_moment env (mn_time m))) h (connection_new True False (se_id env (mn_time m)))), tick m)"

definition find_addr :: "host_and_port \<Rightarrow> monitor \<Rightarrow> int" where
  "find_addr h m =
     (case find (\<lambda>i. hp_eq (nd_addr (mn_nodes m ! i)) h) [0..<length (mn_nodes m)] of None \<Rightarrow> - 1 | Some i \<Rightarrow> int i)"

text \<open>Comparing with a string makes a \<open>HostAndPort\<close> of it, once there is a node to compare with.\<close>

definition find_host :: "bytes \<Rightarrow> monitor \<Rightarrow> int res" where
  "find_host server m =
     (if mn_nodes m = [] then Inr (- 1) else bind_res (host_and_port_new server) (\<lambda>h. Inr (find_addr h m)))"

definition monitor_contains :: "bytes \<Rightarrow> monitor \<Rightarrow> bool res" where
  "monitor_contains server m = bind_res (find_host server m) (\<lambda>k. Inr (k \<ge> 0))"

definition getServerAddress :: "monitor \<Rightarrow> bytes" where
  "getServerAddress m =
     (if mn_name m \<noteq> '''' then mn_name m @ ''/'' else '''') @ join_servers (map nd_addr (mn_nodes m))"

definition notifyFailure :: "host_and_port \<Rightarrow> monitor \<Rightarrow> monitor" where
  "notifyFailure server m =
     (if 0 \<le> mn_master m \<and> mn_master m < int (length (mn_nodes m)) \<and>
         hp_eq server (nd_addr (mn_nodes m ! nat (mn_master m)))
      then m\<lparr>mn_master := - 1\<rparr> else m)"

definition notifySlaveFailure :: "host_and_port \<Rightarrow> monitor \<Rightarrow> monitor" where
  "notifySlaveFailure server m =
     (let x = find_addr server m in if x \<ge> 0 then set_ok (nat x) False m else m)"

section \<open>Checking a connection\<close>

text \<open>\<open>String()\<close> of an element: the text of a string, an exception for other types.\<close>

definition el_String :: "belement \<Rightarrow> bytes res" where
  "el_String e = bind_res (chk String valuestr e) cstr_at"

definition field_is :: "BSONType \<Rightarrow> bytes \<Rightarrow> bytes \<Rightarrow> bool res" where
  "field_is t o' name = bind_res (mem_field o' name) (el_is t)"

definition field_array :: "bytes \<Rightarrow> bytes \<Rightarrow> bytes option res" where
  "field_array o' name =
     bind_res (field_is Array o' name) (\<lambda>b.
       if b then bind_res (bind_res (mem_field o' name) embeddedObjectUserCheck) (\<lambda>a. Inr (Some a)) else Inr None)"

text \<open>
  \<open>_checkStatus\<close>: what \<open>replSetGetStatus\<close> says of the members. A member that is the first node
  is passed over like one that is unknown (\<open>_find(host) <= 0\<close>).
\<close>

definition member_ok :: "bytes \<Rightarrow> bool res" where
  "member_ok member =
     bind_res (bind_res (mem_field member ''state'') el_Number) (\<lambda>state.
     bind_res (bind_res (mem_field member ''health'') el_Number) (\<lambda>health.
       Inr (dbl_eq health (dbl_of_int 1) \<and> (dbl_eq state (dbl_of_int 1) \<or> dbl_eq state (dbl_of_int 2)))))"

definition check_member :: "bytes \<Rightarrow> (monitor, unit) act" where
  "check_member member m =
     (case bind_res (bind_res (mem_field member ''name'') el_String) (\<lambda>host. find_host host m) of
        Inl err \<Rightarrow> (Inl err, m)
      | Inr k \<Rightarrow>
          if k \<le> 0 then (Inr (), m)
          else case member_ok member of
                 Inl err \<Rightarrow> (Inl err, m)
               | Inr b \<Rightarrow> (Inr (), set_ok (nat k) b m))"

fun status_loop :: "nat \<Rightarrow> bytes \<Rightarrow> iterator \<Rightarrow> (monitor, unit) act" where
  "status_loop 0 mem it = lift_act (Inl UB)"
| "status_loop (Suc n) mem it =
     bind_act (lift_act (iter_more mem it)) (\<lambda>more.
       if \<not> more then lift_act (Inr ())
       else bind_act (lift_act (bind_res (iter_next mem False it) (\<lambda>(e, it).
                bind_res (embeddedObjectUserCheck e) (\<lambda>member. Inr (member, it))))) (\<lambda>(member, it).
            bind_act (check_member member) (\<lambda>_. status_loop n mem it)))"

definition checkStatus :: "set_env \<Rightarrow> nat \<Rightarrow> (monitor, unit) act" where
  "checkStatus env i =
     bind_act (on_node env i (\<lambda>mo. checked mo (run_doc ''admin'' [(''replSetGetStatus'', VInt 1)] 0))) (\<lambda>(ok, status).
     bind_act (lift_act (if ok then field_array status ''members'' else Inr None)) (\<lambda>members.
       case members of
         None \<Rightarrow> lift_act (Inr ())
       | Some mem \<Rightarrow> bind_act (lift_act (iter_new mem)) (status_loop (Suc (length mem)) mem)))"

text \<open>The variables of \<open>_checkConnection\<close> that are still used after an exception.\<close>

record probing =
  ck_monitor :: monitor
  ck_isMaster :: bool
  ck_changed :: bool

definition on_monitor :: "(monitor, 'a) act \<Rightarrow> (probing, 'a) act" where
  "on_monitor f s = (case f (ck_monitor s) of (r, m) \<Rightarrow> (r, s\<lparr>ck_monitor := m\<rparr>))"

definition add_host :: "set_env \<Rightarrow> bytes \<Rightarrow> (probing, unit) act" where
  "add_host env toCheck =
     bind_act (on_monitor (\<lambda>m. (find_host toCheck m, m))) (\<lambda>k.
       if k \<ge> 0 then lift_act (Inr ())
       else bind_act (lift_act (host_and_port_new toCheck)) (\<lambda>h.
            bind_act (on_monitor (dial_node env h)) (\<lambda>(_, c) s.
              (Inr (), s\<lparr>ck_monitor := add_node (node_new h c) (ck_monitor s), ck_changed := True\<rparr>))))"

fun hosts_loop :: "nat \<Rightarrow> set_env \<Rightarrow> bytes \<Rightarrow> iterator \<Rightarrow> (probing, unit) act" where
  "hosts_loop 0 env mem it = lift_act (Inl UB)"
| "hosts_loop (Suc n) env mem it =
     bind_act (lift_act (iter_more mem it)) (\<lambda>more.
       if \<not> more then lift_act (Inr ())
       else bind_act (lift_act (bind_res (iter_next mem False it) (\<lambda>(e, it).
                bind_res (el_String e) (\<lambda>host. Inr (host, it))))) (\<lambda>(host, it).
            bind_act (add_host env host) (\<lambda>_. hosts_loop n env mem it)))"

definition checkHosts :: "set_env \<Rightarrow> bytes option \<Rightarrow> (probing, unit) act" where
  "checkHosts env hostList =
     (case hostList of
        None \<Rightarrow> lift_act (Inr ())
      | Some mem \<Rightarrow> bind_act (lift_act (iter_new mem)) (hosts_loop (Suc (length mem)) env mem))"

text \<open>\<open>isMaster\<close> with the answer: \<open>ismaster\<close> in it, and the answer itself.\<close>

definition isMaster_info :: "(connection, bool \<times> bytes) act" where
  "isMaster_info =
     bind_act (run_doc ''admin'' [(''ismaster'', VInt 1)] 0) (\<lambda>(_, info).
       lift_act (bind_res (bind_res (mem_field info ''ismaster'') trueValue) (\<lambda>b. Inr (b, info))))"

text \<open>
  The code within \<open>try\<close>: what is learnt from an answer, and asking for it. The code assigns the
  primary's name to a variable of its own, declared under the name of the parameter
  \<open>maybePrimary\<close>, so the caller's variable keeps its value.
\<close>

definition learn :: "set_env \<Rightarrow> nat \<Rightarrow> bytes \<Rightarrow> (probing, unit) act" where
  "learn env i o' =
     bind_act (lift_act (field_is Array o' ''hosts'')) (\<lambda>hosts.
     bind_act (if hosts then
                 bind_act (lift_act (bind_res (field_is String o' ''primary'') (\<lambda>p.
                   if p then bind_res (bind_res (mem_field o' ''primary'') el_String) (\<lambda>_. Inr ()) else Inr ()))) (\<lambda>_.
                 bind_act (lift_act (field_array o' ''hosts'')) (checkHosts env))
               else lift_act (Inr ())) (\<lambda>_.
     bind_act (bind_act (lift_act (field_array o' ''passives'')) (checkHosts env)) (\<lambda>_.
       on_monitor (checkStatus env i))))"

definition probe :: "set_env \<Rightarrow> nat \<Rightarrow> (probing, unit) act" where
  "probe env i =
     bind_act (on_monitor (on_node env i (\<lambda>mo. checked mo isMaster_info))) (\<lambda>(b, o') s.
       learn env i o' (s\<lparr>ck_isMaster := b\<rparr>))"

definition tell_hook :: "monitor \<Rightarrow> monitor" where
  "tell_hook m = m\<lparr>mn_told := mn_told m @ [getServerAddress m]\<rparr>"

text \<open>The result: whether the node is the master, and the caller's \<open>maybePrimary\<close> afterwards.\<close>

definition checkConnection_of :: "set_env \<Rightarrow> nat \<Rightarrow> bytes \<Rightarrow> (monitor, bool \<times> bytes) act" where
  "checkConnection_of env i maybePrimary m =
     (case probe env i \<lparr>ck_monitor = m, ck_isMaster = False, ck_changed = False\<rparr> of
        (r, s) \<Rightarrow>
          let m = (if ck_changed s \<and> mn_hook (ck_monitor s) then tell_hook (ck_monitor s) else ck_monitor s)
          in case r of
               Inl err \<Rightarrow> if is_std_exception err then (Inr (ck_isMaster s, maybePrimary), m) else (Inl err, ck_monitor s)
             | Inr _ \<Rightarrow> (Inr (ck_isMaster s, maybePrimary), m))"

section \<open>Finding the master\<close>

text \<open>
  The nodes from number \<open>i\<close> on; the list may grow on the way, so a server that names new hosts in
  every answer keeps the loop going. The result says whether a master was found, and whether
  the quick check has been tried.
\<close>

definition quick_check :: "set_env \<Rightarrow> bool \<Rightarrow> bytes \<Rightarrow> (monitor, bool \<times> bool) act" where
  "quick_check env tried maybePrimary =
     (if \<not> tried \<and> maybePrimary \<noteq> '''' then
        bind_act (\<lambda>m. (find_host maybePrimary m, m)) (\<lambda>x.
          if x \<ge> 0 then
            bind_act (checkConnection_of env (nat x) '''') (\<lambda>(b, _) m.
              (Inr (b, True), if b then m\<lparr>mn_master := x\<rparr> else m))
          else lift_act (Inr (False, tried)))
      else lift_act (Inr (False, tried)))"

fun check_nodes :: "nat \<Rightarrow> set_env \<Rightarrow> bool \<Rightarrow> nat \<Rightarrow> (monitor, bool \<times> bool) run" where
  "check_nodes 0 env tried i m = None"
| "check_nodes (Suc n) env tried i m =
     (if i < length (mn_nodes m) then
        case checkConnection_of env i '''' m of
          (Inl err, m) \<Rightarrow> Some (Inl err, m)
        | (Inr (True, _), m) \<Rightarrow> Some (Inr (True, tried), m\<lparr>mn_master := int i\<rparr>)
        | (Inr (False, maybePrimary), m) \<Rightarrow>
            (case quick_check env tried maybePrimary m of
               (Inl err, m) \<Rightarrow> Some (Inl err, m)
             | (Inr (True, tried), m) \<Rightarrow> Some (Inr (True, tried), m)
             | (Inr (False, tried), m) \<Rightarrow> check_nodes n env tried (Suc i) m)
      else Some (Inr (False, tried), m))"

definition check_twice :: "nat \<Rightarrow> set_env \<Rightarrow> (monitor, unit) run" where
  "check_twice n env =
     bind_run (check_nodes n env False 0) (\<lambda>(found, tried).
       if found then run_act (lift_act (Inr ()))
       else bind_run (check_nodes n env tried 0) (\<lambda>_. run_act (lift_act (Inr ()))))"

definition monitor_check :: "nat \<Rightarrow> set_env \<Rightarrow> (monitor, unit) run" where
  "monitor_check n env m =
     bind_run (if mn_master m \<ge> 0 then run_act (checkConnection_of env (nat (mn_master m)) '''')
               else run_act (lift_act (Inr (False, '''')))) (\<lambda>(ok, _).
       if ok then run_act (lift_act (Inr ())) else check_twice n env) m"

definition node_at :: "int \<Rightarrow> monitor \<Rightarrow> node res" where
  "node_at i m = (if 0 \<le> i \<and> i < int (length (mn_nodes m)) then Inr (mn_nodes m ! nat i) else Inl UB)"

definition master_good :: "monitor \<Rightarrow> bool res" where
  "master_good m = (if mn_master m \<ge> 0 then bind_res (node_at (mn_master m) m) (\<lambda>n. Inr (nd_ok n)) else Inr False)"

definition getMaster :: "nat \<Rightarrow> set_env \<Rightarrow> (monitor, host_and_port) run" where
  "getMaster n env =
     bind_run (run_act (\<lambda>m. (master_good m, m))) (\<lambda>good.
     bind_run (if good then run_act (lift_act (Inr ())) else check_twice n env) (\<lambda>_.
       run_act (\<lambda>m. (bind_res (guard (mn_master m \<ge> 0) (Uassert 10009)) (\<lambda>_.
         bind_res (node_at (mn_master m) m) (\<lambda>n. Inr (nd_addr n))), m))))"

text \<open>A slave from a random start on; the first node when none is in order.\<close>

definition getSlave_any :: "set_env \<Rightarrow> (monitor, host_and_port) act" where
  "getSlave_any env m =
     (let n = length (mn_nodes m)
      in if n = 0 then (Inl UB, m)
         else let x = se_rand env (mn_time m) mod n
              in (Inr (case find (\<lambda>p. int p \<noteq> mn_master m \<and> nd_ok (mn_nodes m ! p)) (map (\<lambda>i. (i + x) mod n) [0..<n]) of
                         Some p \<Rightarrow> nd_addr (mn_nodes m ! p)
                       | None \<Rightarrow> nd_addr (mn_nodes m ! 0)), tick m))"

definition getSlave :: "set_env \<Rightarrow> host_and_port \<Rightarrow> (monitor, host_and_port) act" where
  "getSlave env prev m =
     (let k = find_addr prev m
      in if hp_effective_port prev > 0 \<and> k \<ge> 0 \<and> nd_ok (mn_nodes m ! nat k) then (Inr prev, m) else getSlave_any env m)"

section \<open>Making a monitor\<close>

text \<open>
  The seeds that can be connected become nodes, until one of them is the master. A seed is added
  also when an earlier seed's answer has named it already.
\<close>

fun seeds_loop :: "set_env \<Rightarrow> host_and_port list \<Rightarrow> (monitor, unit) act" where
  "seeds_loop env [] = lift_act (Inr ())"
| "seeds_loop env (h # hs) =
     bind_act (dial_node env h) (\<lambda>(ok, c) m.
       if \<not> ok then seeds_loop env hs m
       else bind_act (checkConnection_of env (length (mn_nodes m)) '''') (\<lambda>(b, _).
              if b then lift_act (Inr ()) else seeds_loop env hs) (add_node (node_new h c) m))"

definition monitor_new :: "set_env \<Rightarrow> bool \<Rightarrow> bytes \<Rightarrow> host_and_port list \<Rightarrow> monitor res" where
  "monitor_new env hook name servers =
     bind_res (guard (servers \<noteq> []) (Uassert 13642)) (\<lambda>_.
       case seeds_loop env servers
              \<lparr>mn_name = name, mn_nodes = [], mn_master = - 1, mn_hook = hook, mn_told = [], mn_time = 0\<rparr> of
         (Inl err, m) \<Rightarrow> Inl err
       | (Inr _, m) \<Rightarrow> Inr m)"

section \<open>The monitors of the process\<close>

text \<open>
  The map of monitors. \<open>_sets[name]\<close> makes a null entry, which stays when the constructor throws;
  \<open>checkAll\<close> takes a null entry it comes to for the end.
\<close>

type_synonym monitor_map = "(bytes \<times> monitor option) list"

definition monitor_get :: "set_env \<Rightarrow> bool \<Rightarrow> bytes \<Rightarrow> host_and_port list \<Rightarrow> (monitor_map, monitor) act" where
  "monitor_get env hook name servers sets =
     (case std_ref string_less None name sets of
        Some m \<Rightarrow> (Inr m, sets)
      | None \<Rightarrow>
          (case monitor_new env hook name servers of
             Inl err \<Rightarrow> (Inl err, std_put string_less name None sets)
           | Inr m \<Rightarrow> (Inr m, std_put string_less name (Some m) sets)))"

fun checkAll :: "nat \<Rightarrow> set_env \<Rightarrow> bytes set \<Rightarrow> monitor_map \<Rightarrow> (unit res \<times> monitor_map) option" where
  "checkAll 0 env seen sets = None"
| "checkAll (Suc n) env seen sets =
     (case find (\<lambda>(name, _). name \<notin> seen) sets of
        None \<Rightarrow> Some (Inr (), sets)
      | Some (name, None) \<Rightarrow> Some (Inr (), sets)
      | Some (name, Some m) \<Rightarrow>
          (case monitor_check (Suc n) env m of
             None \<Rightarrow> None
           | Some (Inl err, m) \<Rightarrow> Some (Inl err, std_put string_less name (Some m) sets)
           | Some (Inr _, m) \<Rightarrow> checkAll n env (insert name seen) (std_put string_less name (Some m) sets)))"

end
