(* ===== verification/ReplicaClient.thy ===== *)
theory ReplicaClient
  imports ReplicaSet
begin

text \<open>
  \<open>DBClientReplicaSet\<close> (client/dbclient_rs.cpp): a connection to a replica set. It keeps one
  connection to the node it last took for the master, one to the slave it last read from, and
  the credentials that worked. A null pointer that is used is \<open>UB\<close>.
\<close>

record replica_set =
  rs_monitor :: monitor
  rs_masterHost :: host_and_port
  rs_master :: "auto_connection option"
  rs_slaveHost :: host_and_port
  rs_slave :: "auto_connection option"
  rs_auths :: "(bytes \<times> bytes \<times> bytes \<times> bool) list"

definition replica_set_new :: "monitor \<Rightarrow> replica_set" where
  "replica_set_new m =
     \<lparr>rs_monitor = m, rs_masterHost = \<lparr>hp_host = '''', hp_port = - 1\<rparr>, rs_master = None,
      rs_slaveHost = \<lparr>hp_host = '''', hp_port = - 1\<rparr>, rs_slave = None, rs_auths = []\<rparr>"

section \<open>The monitor and the connections\<close>

definition with_monitor :: "(monitor, 'a) act \<Rightarrow> (replica_set, 'a) act" where
  "with_monitor f s = (case f (rs_monitor s) of (r, m) \<Rightarrow> (r, s\<lparr>rs_monitor := m\<rparr>))"

definition run_monitor :: "(monitor, 'a) run \<Rightarrow> (replica_set, 'a) run" where
  "run_monitor f s = map_option (\<lambda>(r, m). (r, s\<lparr>rs_monitor := m\<rparr>)) (f (rs_monitor s))"

definition on_master :: "set_env \<Rightarrow> (moment \<Rightarrow> (auto_connection, 'a) act) \<Rightarrow> (replica_set, 'a) act" where
  "on_master env f s =
     (case rs_master s of
        None \<Rightarrow> (Inl UB, s)
      | Some c \<Rightarrow>
          (case f (se_moment env (mn_time (rs_monitor s))) c of
             (r, c) \<Rightarrow> (r, s\<lparr>rs_master := Some c, rs_monitor := tick (rs_monitor s)\<rparr>)))"

definition on_slave :: "set_env \<Rightarrow> (moment \<Rightarrow> (auto_connection, 'a) act) \<Rightarrow> (replica_set, 'a) act" where
  "on_slave env f s =
     (case rs_slave s of
        None \<Rightarrow> (Inl UB, s)
      | Some c \<Rightarrow>
          (case f (se_moment env (mn_time (rs_monitor s))) c of
             (r, c) \<Rightarrow> (r, s\<lparr>rs_slave := Some c, rs_monitor := tick (rs_monitor s)\<rparr>)))"

definition conn_isFailed :: "moment \<Rightarrow> (auto_connection, bool) act" where
  "conn_isFailed mo c = (Inr (cn_failed (ac_conn c)), c)"

text \<open>\<open>_auth\<close>: the credentials in the order they were given; a refusal is only logged.\<close>

fun auth_all :: "((moment \<Rightarrow> (auto_connection, bool) act) \<Rightarrow> (replica_set, bool) act) \<Rightarrow>
    (bytes \<times> bytes \<times> bytes \<times> bool) list \<Rightarrow> (replica_set, unit) act" where
  "auth_all conn [] = lift_act (Inr ())"
| "auth_all conn ((dbname, username, pwd, digest) # as) =
     bind_act (conn (\<lambda>mo. auto_auth mo dbname username pwd digest)) (\<lambda>_. auth_all conn as)"

definition master_new :: "set_env \<Rightarrow> host_and_port \<Rightarrow> replica_set \<Rightarrow> replica_set" where
  "master_new env h s =
     s\<lparr>rs_masterHost := h, rs_master := Some (connection_new True False (se_id env (mn_time (rs_monitor s))))\<rparr>"

definition slave_new :: "set_env \<Rightarrow> host_and_port \<Rightarrow> replica_set \<Rightarrow> replica_set" where
  "slave_new env h s =
     s\<lparr>rs_slaveHost := h, rs_slave := Some (connection_new True False (se_id env (mn_time (rs_monitor s))))\<rparr>"

text \<open>A new connection to the master the monitor names.\<close>

definition master_connect :: "set_env \<Rightarrow> host_and_port \<Rightarrow> (replica_set, unit) act" where
  "master_connect env h =
     bind_act (\<lambda>s. (Inr (), master_new env h s)) (\<lambda>_.
     bind_act (on_master env (\<lambda>mo c. case connect_to (mo_net mo) h c of (ok, c) \<Rightarrow> (Inr ok, c))) (\<lambda>ok.
       if \<not> ok then (\<lambda>s. (Inl (Uassert 13639), s\<lparr>rs_monitor := notifyFailure h (rs_monitor s)\<rparr>))
       else (\<lambda>s. auth_all (on_master env) (rs_auths s) s)))"

definition master_fresh :: "nat \<Rightarrow> set_env \<Rightarrow> (replica_set, unit) run" where
  "master_fresh n env = bind_run (run_monitor (getMaster n env)) (\<lambda>h. run_act (master_connect env h))"

definition checkMaster :: "nat \<Rightarrow> set_env \<Rightarrow> (replica_set, unit) run" where
  "checkMaster n env =
     bind_run (run_monitor (getMaster n env)) (\<lambda>h s.
       if hp_eq h (rs_masterHost s) then
         bind_run (run_act (on_master env conn_isFailed)) (\<lambda>failed s.
           if \<not> failed then Some (Inr (), s)
           else master_fresh n env (s\<lparr>rs_monitor := notifyFailure (rs_masterHost s) (rs_monitor s)\<rparr>)) s
       else master_fresh n env s)"

definition slave_connect :: "set_env \<Rightarrow> host_and_port \<Rightarrow> (replica_set, unit) act" where
  "slave_connect env h =
     bind_act (\<lambda>s. (Inr (), slave_new env h s)) (\<lambda>_.
     bind_act (on_slave env (\<lambda>mo. connect_string (mo_net mo) (hp_toString h))) (\<lambda>_ s.
       auth_all (on_slave env) (rs_auths s) s))"

text \<open>Whether the slave's connection is still to the host asked for, and is good.\<close>

definition slave_stays :: "set_env \<Rightarrow> host_and_port \<Rightarrow> (replica_set, bool) act" where
  "slave_stays env h s =
     (if hp_eq h (rs_slaveHost s) then
        bind_act (on_slave env conn_isFailed) (\<lambda>failed s.
          (Inr (\<not> failed),
           if failed then s\<lparr>rs_monitor := notifySlaveFailure (rs_slaveHost s) (rs_monitor s)\<rparr> else s)) s
      else (Inr False, s))"

definition slave_fresh :: "set_env \<Rightarrow> (replica_set, unit) act" where
  "slave_fresh env = bind_act (with_monitor (getSlave_any env)) (slave_connect env)"

definition checkSlave :: "set_env \<Rightarrow> (replica_set, unit) act" where
  "checkSlave env s =
     bind_act (bind_act (with_monitor (getSlave env (rs_slaveHost s))) (slave_stays env)) (\<lambda>good.
       if good then lift_act (Inr ()) else slave_fresh env) s"

text \<open>\<open>connect\<close>: exceptions mean \<open>false\<close>.\<close>

definition replica_connect :: "nat \<Rightarrow> set_env \<Rightarrow> (replica_set, bool) run" where
  "replica_connect n env s =
     (case checkMaster n env s of
        None \<Rightarrow> None
      | Some (Inr _, s) \<Rightarrow> Some (Inr True, s)
      | Some (Inl err, s) \<Rightarrow>
          (case err of
             AssertFail \<Rightarrow> Some (Inr False, if rs_master s \<noteq> None
                then s\<lparr>rs_monitor := notifyFailure (rs_masterHost s) (rs_monitor s)\<rparr> else s)
           | Massert _ \<Rightarrow> Some (Inr False, if rs_master s \<noteq> None
                then s\<lparr>rs_monitor := notifyFailure (rs_masterHost s) (rs_monitor s)\<rparr> else s)
           | Uassert _ \<Rightarrow> Some (Inr False, if rs_master s \<noteq> None
                then s\<lparr>rs_monitor := notifyFailure (rs_masterHost s) (rs_monitor s)\<rparr> else s)
           | _ \<Rightarrow> Some (Inl err, s)))"

definition replica_auth :: "nat \<Rightarrow> set_env \<Rightarrow> bytes \<Rightarrow> bytes \<Rightarrow> bytes \<Rightarrow> bool \<Rightarrow> (replica_set, bool) run" where
  "replica_auth n env dbname username pwd digest =
     bind_run (checkMaster n env) (\<lambda>_. run_act (
       bind_act (on_master env (\<lambda>mo. auto_auth mo dbname username pwd digest)) (\<lambda>ok s.
         (Inr ok, if ok then s\<lparr>rs_auths := rs_auths s @ [(dbname, username, pwd, digest)]\<rparr> else s))))"

section \<open>Operations\<close>

text \<open>Writes go to the master. The request is made after the master is known, before its connection is checked.\<close>

definition master_say :: "nat \<Rightarrow> set_env \<Rightarrow> message res \<Rightarrow> (replica_set, unit) run" where
  "master_say n env toSend =
     bind_run (checkMaster n env) (\<lambda>_. run_act (
       bind_act (lift_act toSend) (\<lambda>m. on_master env (\<lambda>mo. auto_say mo m))))"

definition replica_insert :: "nat \<Rightarrow> set_env \<Rightarrow> bytes \<Rightarrow> bytes list \<Rightarrow> (replica_set, unit) run" where
  "replica_insert n env ns v = master_say n env (insert_request ns v)"

definition replica_remove :: "nat \<Rightarrow> set_env \<Rightarrow> bytes \<Rightarrow> bytes \<Rightarrow> bool \<Rightarrow> (replica_set, unit) run" where
  "replica_remove n env ns o' justOne = master_say n env (remove_request ns o' justOne)"

definition replica_update :: "nat \<Rightarrow> set_env \<Rightarrow> bytes \<Rightarrow> bytes \<Rightarrow> bytes \<Rightarrow> bool \<Rightarrow> bool \<Rightarrow> (replica_set, unit) run" where
  "replica_update n env ns query o' upsert multi = master_say n env (update_request ns query o' upsert multi)"

definition replica_say :: "nat \<Rightarrow> set_env \<Rightarrow> message \<Rightarrow> (replica_set, unit) run" where
  "replica_say n env toSend = master_say n env (Inr toSend)"

text \<open>
  A read that may go to a slave: \<open>k\<close> tries on slaves, then the master. Only exceptions of the
  driver are caught.
\<close>

fun slave_tries :: "nat \<Rightarrow> nat \<Rightarrow> set_env \<Rightarrow> (moment \<Rightarrow> (auto_connection, 'a) act) \<Rightarrow> (replica_set, 'a) run" where
  "slave_tries 0 n env f = bind_run (checkMaster n env) (\<lambda>_. run_act (on_master env f))"
| "slave_tries (Suc k) n env f = (\<lambda>s.
     case bind_act (checkSlave env) (\<lambda>_. on_slave env f) s of
       (Inr x, s) \<Rightarrow> Some (Inr x, s)
     | (Inl err, s) \<Rightarrow> if is_db_exception err then slave_tries k n env f s else Some (Inl err, s))"

definition tries_for :: "int \<Rightarrow> nat" where
  "tries_for queryOptions = (if has_flag queryOptions QueryOption_SlaveOk then 2 else 0)"

definition replica_query ::
  "nat \<Rightarrow> set_env \<Rightarrow> bytes \<Rightarrow> bytes \<Rightarrow> int \<Rightarrow> int \<Rightarrow> bytes option \<Rightarrow> int \<Rightarrow> int \<Rightarrow> (replica_set, cursor option) run" where
  "replica_query n env ns query nToReturn nToSkip fieldsToReturn queryOptions batchSize =
     slave_tries (tries_for queryOptions) n env
       (\<lambda>mo. auto_query mo ns query nToReturn nToSkip fieldsToReturn queryOptions batchSize)"

definition replica_findOne :: "nat \<Rightarrow> set_env \<Rightarrow> bytes \<Rightarrow> bytes \<Rightarrow> bytes option \<Rightarrow> int \<Rightarrow> (replica_set, bytes) run" where
  "replica_findOne n env ns query fieldsToReturn queryOptions =
     slave_tries (tries_for queryOptions) n env (\<lambda>mo. auto_findOne mo ns query fieldsToReturn queryOptions)"

text \<open>\<open>call\<close>, which does not check the connection; the result has the address of the server that was used.\<close>

definition named_call :: "message \<Rightarrow> bool \<Rightarrow> moment \<Rightarrow> (auto_connection, bytes \<times> message option) act" where
  "named_call toSend assertOk mo c =
     bind_act (on_direct (conn_call toSend assertOk)) (\<lambda>r. lift_act (Inr (ac_serverString c, r))) c"

definition replica_call ::
  "nat \<Rightarrow> set_env \<Rightarrow> (bytes \<Rightarrow> bool res) option \<Rightarrow> message \<Rightarrow> bool \<Rightarrow> (replica_set, bytes \<times> message option) run" where
  "replica_call n env check toSend assertOk =
     bind_run (run_act (lift_act (
       if m_operation toSend = op_code dbQuery then
         bind_res (query_message_new check (dbmessage_new toSend)) (\<lambda>qm. Inr (tries_for (qm_options qm)))
       else Inr 0))) (\<lambda>k. slave_tries k n env (named_call toSend assertOk))"

definition replica_killCursor :: "64 word \<Rightarrow> (replica_set, unit) act" where
  "replica_killCursor cursorId = lift_act (Inl AssertFail)"

definition replica_isntMaster :: "replica_set \<Rightarrow> replica_set" where
  "replica_isntMaster s = s\<lparr>rs_master := None\<rparr>"

definition replica_isFailed :: "replica_set \<Rightarrow> bool" where
  "replica_isFailed s \<longleftrightarrow> (case rs_master s of None \<Rightarrow> True | Some c \<Rightarrow> cn_failed (ac_conn c))"

definition replica_checkResponse :: "nat \<Rightarrow> set_env \<Rightarrow> bytes \<Rightarrow> int \<Rightarrow> (replica_set, unit) run" where
  "replica_checkResponse n env data nReturned =
     bind_run (checkMaster n env) (\<lambda>_. run_act (on_master env (\<lambda>_. on_direct (checkResponse data nReturned))))"

end
