(* ===== verification/ReplicaSpec.thy ===== *)
theory ReplicaSpec
  imports ReplicaClient "HOL-Library.Sublist"
begin

text \<open>
  What the monitor of a replica set and its clients keep: the number of the master is that of a
  node, nodes are only added, and a client's connections are to the hosts it thinks they are
  to. Writes go to the master, and what goes wrong on a slave stays hidden. The first node is
  treated differently from the others, which is stated too.
\<close>

section \<open>Relations between the states before and after\<close>

text \<open>
  A reflexive and transitive relation holds between the states before and after a piece of code
  when it holds for its parts, whether they return or throw.
\<close>

locale step_relation =
  fixes R :: "'s \<Rightarrow> 's \<Rightarrow> bool"
  assumes R_refl: "R s s" and R_trans: "R s t \<Longrightarrow> R t u \<Longrightarrow> R s u"
begin

definition moves :: "('s, 'a) act \<Rightarrow> bool" where
  "moves f \<longleftrightarrow> (\<forall>s. R s (snd (f s)))"

lemma movesI: "(\<And>s. R s (snd (f s))) \<Longrightarrow> moves f"
  by (simp add: moves_def)

lemma movesD: "moves f \<Longrightarrow> f s = (r, t) \<Longrightarrow> R s t"
  unfolding moves_def by (metis snd_conv)

lemma moves_resultI: "(\<And>s r t. f s = (r, t) \<Longrightarrow> R s t) \<Longrightarrow> moves f"
  by (rule movesI) (metis prod.collapse)

lemma moves_lift: "moves (lift_act r)"
  by (simp add: moves_def R_refl)

lemma moves_bind:
  assumes "moves f" and "\<And>x. moves (g x)"
  shows "moves (bind_act f g)"
proof (rule movesI)
  fix s
  obtain r t where f: "f s = (r, t)" by (cases "f s")
  show "R s (snd (bind_act f g s))"
  proof (cases r)
    case (Inr x)
    have "R t (snd (g x t))" using assms(2) [of x] by (simp add: moves_def)
    then show ?thesis using movesD [OF assms(1) f] Inr by (simp add: snd_bind_act f) (rule R_trans)
  qed (use movesD [OF assms(1) f] in \<open>simp add: snd_bind_act f\<close>)
qed

lemmas moves_rules = moves_bind moves_lift

text \<open>The same for code that may not end.\<close>

definition runs :: "('s, 'a) run \<Rightarrow> bool" where
  "runs f \<longleftrightarrow> (\<forall>s r t. f s = Some (r, t) \<longrightarrow> R s t)"

lemma runsI: "(\<And>s r t. f s = Some (r, t) \<Longrightarrow> R s t) \<Longrightarrow> runs f"
  by (simp add: runs_def)

lemma runsD: "runs f \<Longrightarrow> f s = Some (r, t) \<Longrightarrow> R s t"
  by (simp add: runs_def)

lemma runs_act: "moves f \<Longrightarrow> runs (run_act f)"
  by (rule runsI) (simp add: run_act_def movesD)

lemma runs_bind:
  assumes "runs f" and "\<And>x. runs (g x)"
  shows "runs (bind_run f g)"
proof (rule runsI)
  fix s r t assume b: "bind_run f g s = Some (r, t)"
  then obtain r1 s1 where f: "f s = Some (r1, s1)" by (cases "f s") (auto simp: bind_run_def)
  show "R s t"
  proof (cases r1)
    case (Inr x)
    then have "R s1 t" using b runsD [OF assms(2)] by (simp add: bind_run_def f)
    then show ?thesis using runsD [OF assms(1) f] R_trans by blast
  qed (use b runsD [OF assms(1) f] in \<open>simp add: bind_run_def f\<close>)
qed

lemmas runs_rules = runs_bind runs_act

end

section \<open>What checking a connection keeps\<close>

definition addrs :: "monitor \<Rightarrow> host_and_port list" where
  "addrs m = map nd_addr (mn_nodes m)"

definition distinct_addrs :: "monitor \<Rightarrow> bool" where
  "distinct_addrs m \<longleftrightarrow> sorted_wrt (\<lambda>a b. \<not> hp_eq a b) (addrs m)"

definition first_ok :: "monitor \<Rightarrow> bool" where
  "first_ok m \<longleftrightarrow> (case mn_nodes m of [] \<Rightarrow> True | n # _ \<Rightarrow> nd_ok n)"

definition keeps :: "monitor \<Rightarrow> monitor \<Rightarrow> bool" where
  "keeps m m' \<longleftrightarrow> mn_master m' = mn_master m \<and> mn_name m' = mn_name m \<and> prefix (addrs m) (addrs m') \<and>
     (first_ok m' \<longrightarrow> first_ok m) \<and> (distinct_addrs m \<longrightarrow> distinct_addrs m')"

lemma keeps_refl [simp]: "keeps m m"
  by (simp add: keeps_def)

lemma keeps_trans: "keeps m1 m2 \<Longrightarrow> keeps m2 m3 \<Longrightarrow> keeps m1 m3"
  by (auto simp: keeps_def intro: prefix_order.trans)

lemma keeps_same:
  "\<lbrakk>mn_master m' = mn_master m; mn_name m' = mn_name m; addrs m' = addrs m; first_ok m' \<longrightarrow> first_ok m\<rbrakk> \<Longrightarrow> keeps m m'"
  by (simp add: keeps_def distinct_addrs_def)

lemma keeps_tick [simp]: "keeps m (tick m)"
  by (rule keeps_same) (simp_all add: tick_def addrs_def first_ok_def)

lemma addrs_update: "nd_addr n = nd_addr (mn_nodes m ! i) \<Longrightarrow> addrs (m\<lparr>mn_nodes := (mn_nodes m)[i := n]\<rparr>) = addrs m"
  by (simp add: addrs_def map_update list_update_same_conv)
     (metis list_update_beyond list_update_id map_update not_le)

interpretation mon: step_relation keeps
  by unfold_locales (simp, rule keeps_trans)

lemma kept_on_node: "mon.moves (on_node env i f)"
proof -
  have "keeps m (m\<lparr>mn_nodes := (mn_nodes m)[i := (mn_nodes m ! i)\<lparr>nd_conn := c\<rparr>]\<rparr>)" for m c
    by (rule keeps_same) (simp_all add: addrs_update, simp add: first_ok_def split: list.split nat.split)
  then show ?thesis
    using keeps_trans [OF _ keeps_tick] by (simp add: mon.moves_def on_node_def split: prod.split)
qed

lemma kept_set_ok: "0 < k \<Longrightarrow> keeps m (set_ok k b m)"
  by (rule keeps_same) (simp_all add: set_ok_def addrs_update, simp add: first_ok_def split: list.split nat.split)

lemma kept_check_member: "mon.moves (check_member member)"
  using kept_set_ok by (auto simp: mon.moves_def check_member_def split: sum.split)

lemma kept_status_loop: "mon.moves (status_loop n mem it)"
  by (induction n arbitrary: it)
     (auto intro!: mon.moves_rules kept_check_member split: prod.split)

lemma kept_checkStatus: "mon.moves (checkStatus env i)"
  by (auto simp: checkStatus_def intro!: mon.moves_rules kept_on_node kept_status_loop split: prod.split option.split)

text \<open>While the answer is evaluated, the result is kept too.\<close>

interpretation prb: step_relation "\<lambda>s s'. keeps (ck_monitor s) (ck_monitor s') \<and> ck_isMaster s' = ck_isMaster s"
  by unfold_locales (auto intro: keeps_trans)

lemma probing_monitor: "mon.moves f \<Longrightarrow> prb.moves (on_monitor f)"
  by (rule prb.movesI) (simp add: on_monitor_def mon.movesD split: prod.split)

lemma find_addr_none: "find_addr h m < 0 \<Longrightarrow> \<forall>a \<in> set (addrs m). \<not> hp_eq a h"
  by (auto simp: find_addr_def addrs_def find_None_iff in_set_conv_nth split: option.splits)

lemma find_addr_some: "0 \<le> find_addr h m \<Longrightarrow> nat (find_addr h m) < length (mn_nodes m)"
  by (auto simp: find_addr_def find_Some_iff split: option.splits)

lemma keeps_add:
  assumes "\<forall>a \<in> set (addrs m). \<not> hp_eq a h"
  shows "keeps m (add_node (node_new h c) m)"
  using assms by (auto simp: keeps_def add_node_def node_new_def addrs_def distinct_addrs_def first_ok_def sorted_wrt_append
      split: list.splits)

lemma probing_add_host: "prb.moves (add_host env host)"
proof -
  have "keeps (ck_monitor s) (ck_monitor (snd (add_host env host s))) \<and>
      ck_isMaster (snd (add_host env host s)) = ck_isMaster s" for s
  proof (cases "find_host host (ck_monitor s)")
    case (Inr k)
    show ?thesis
    proof (cases "k \<ge> 0 \<or> (\<exists>e. host_and_port_new host = Inl e)")
      case True
      then show ?thesis using Inr by (auto simp: add_host_def bind_act_def on_monitor_def)
    next
      case False
      then obtain h where h: "host_and_port_new host = Inr h" by (cases "host_and_port_new host") auto
      have "\<forall>a \<in> set (addrs (ck_monitor s)). \<not> hp_eq a h"
        using Inr False h find_addr_none [of h "ck_monitor s"] by (auto simp: find_host_def addrs_def split: if_splits)
      then have "keeps (tick (ck_monitor s)) (add_node (node_new h c) (tick (ck_monitor s)))" for c
        by (intro keeps_add) (simp add: tick_def addrs_def)
      then show ?thesis using Inr False h keeps_trans [OF keeps_tick]
        by (simp add: add_host_def bind_act_def on_monitor_def dial_node_def split: prod.split)
    qed
  qed (simp add: add_host_def bind_act_def on_monitor_def)
  then show ?thesis by (simp add: prb.moves_def)
qed

lemma probing_hosts_loop: "prb.moves (hosts_loop n env mem it)"
  by (induction n arbitrary: it)
     (auto intro!: prb.moves_rules probing_add_host split: prod.split)

lemma probing_checkHosts: "prb.moves (checkHosts env hosts)"
  by (auto simp: checkHosts_def intro!: prb.moves_rules probing_hosts_loop split: option.split)

lemma probing_learn: "prb.moves (learn env i o')"
  unfolding learn_def
  by (auto intro!: prb.moves_rules probing_checkHosts probing_monitor kept_checkStatus split: prod.split)

text \<open>Node \<open>i\<close> has answered, when it was asked in the state \<open>m\<close>, that it is the master.\<close>

definition says_master :: "set_env \<Rightarrow> nat \<Rightarrow> monitor \<Rightarrow> bool" where
  "says_master env i m \<longleftrightarrow> i < length (mn_nodes m) \<and>
     (\<exists>info c. checked (se_moment env (mn_time m)) isMaster_info (nd_conn (mn_nodes m ! i)) = (Inr (True, info), c))"

lemma probe_run:
  assumes "probe env i s = (r, s')" and "\<not> ck_isMaster s"
  shows "keeps (ck_monitor s) (ck_monitor s') \<and> (ck_isMaster s' \<longrightarrow> says_master env i (ck_monitor s))"
proof -
  let ?ask = "on_monitor (on_node env i (\<lambda>mo. checked mo isMaster_info)) :: (probing, bool \<times> bytes) act"
  obtain r1 s1 where ask: "?ask s = (r1, s1)" by (cases "?ask s")
  have s1: "keeps (ck_monitor s) (ck_monitor s1)" "\<not> ck_isMaster s1"
    using prb.movesD [OF probing_monitor [OF kept_on_node] ask] assms(2) by simp_all
  show ?thesis
  proof (cases r1)
    case (Inr x)
    obtain b o' where x: "x = (b, o')" by (cases x)
    then have "learn env i o' (s1\<lparr>ck_isMaster := b\<rparr>) = (r, s')"
      using assms(1) ask Inr by (simp add: probe_def bind_act_def)
    from prb.movesD [OF probing_learn this] have l: "keeps (ck_monitor s1) (ck_monitor s')" "ck_isMaster s' = b" by simp_all
    have "b \<Longrightarrow> says_master env i (ck_monitor s)"
      using ask Inr x by (auto simp: on_monitor_def on_node_def says_master_def split: prod.splits if_splits)
    then show ?thesis using l s1 keeps_trans by blast
  qed (use assms ask s1 in \<open>simp add: probe_def bind_act_def\<close>)
qed

lemma keeps_tell: "keeps m m' \<Longrightarrow> keeps m (tell_hook m')"
  by (simp add: keeps_def tell_hook_def addrs_def distinct_addrs_def first_ok_def)

lemma checkConnection_run:
  assumes "checkConnection_of env i x m = (r, m')"
  shows "keeps m m'" "r = Inr (b, y) \<Longrightarrow> y = x" "r = Inr (True, y) \<Longrightarrow> says_master env i m"
proof -
  obtain q s where p: "probe env i \<lparr>ck_monitor = m, ck_isMaster = False, ck_changed = False\<rparr> = (q, s)"
    by (cases "probe env i \<lparr>ck_monitor = m, ck_isMaster = False, ck_changed = False\<rparr>")
  note run = probe_run [OF p, simplified]
  show "keeps m m'" using run assms by (auto simp: checkConnection_of_def p keeps_tell Let_def split: sum.splits if_splits)
  show "y = x" if "r = Inr (b, y)"
    using assms that by (auto simp: checkConnection_of_def p Let_def split: sum.splits if_splits)
  show "says_master env i m" if "r = Inr (True, y)"
    using assms that run by (auto simp: checkConnection_of_def p Let_def split: sum.splits if_splits)
qed

section \<open>The search for the master\<close>

text \<open>
  The quick check of the node that another node calls the primary is never made: the name does
  not get out of \<open>_checkConnection\<close>.
\<close>

lemma no_quick_check: "quick_check env tried '''' m = (Inr (False, tried), m)"
  by (simp add: quick_check_def)

lemma check_nodes_step:
  "check_nodes (Suc n) env tried i m =
     (if i < length (mn_nodes m) then
        case checkConnection_of env i '''' m of
          (Inl err, m) \<Rightarrow> Some (Inl err, m)
        | (Inr (True, _), m) \<Rightarrow> Some (Inr (True, tried), m\<lparr>mn_master := int i\<rparr>)
        | (Inr (False, _), m) \<Rightarrow> check_nodes n env tried (Suc i) m
      else Some (Inr (False, tried), m))"
proof -
  have "y = ''''" if "checkConnection_of env i '''' m = (Inr (b, y), m')" for b y m'
    using checkConnection_run(2) [OF that] by simp
  then show ?thesis by (fastforce simp: no_quick_check split: prod.split sum.split bool.split)
qed

definition in_range :: "monitor \<Rightarrow> bool" where
  "in_range m \<longleftrightarrow> - 1 \<le> mn_master m \<and> mn_master m < int (length (mn_nodes m))"

text \<open>What a search comes to: a node that says it is the master, or nothing.\<close>

definition search :: "set_env \<Rightarrow> nat \<Rightarrow> monitor \<Rightarrow> monitor \<Rightarrow> bool" where
  "search env k m m' \<longleftrightarrow>
     (\<exists>m1 m2. keeps m m1 \<and> says_master env k m1 \<and> keeps m1 m2 \<and> m' = m2\<lparr>mn_master := int k\<rparr>)"

lemma search_later: "keeps m m1 \<Longrightarrow> search env k m1 m' \<Longrightarrow> search env k m m'"
  unfolding search_def using keeps_trans by blast

lemma check_nodes_run:
  assumes "check_nodes n env tried i m = Some (r, m')"
  shows "(\<exists>t k. r = Inr (True, t) \<and> search env k m m') \<or> (\<forall>t. r \<noteq> Inr (True, t)) \<and> keeps m m'"
  using assms
proof (induction n arbitrary: i m)
  case (Suc n)
  note step = Suc.prems [unfolded check_nodes_step]
  obtain q m1 where c: "checkConnection_of env i '''' m = (q, m1)" by (cases "checkConnection_of env i '''' m")
  note run = checkConnection_run [OF c]
  consider (last) "length (mn_nodes m) \<le> i" | (err) e where "i < length (mn_nodes m)" "q = Inl e"
    | (found) y where "i < length (mn_nodes m)" "q = Inr (True, y)" | (no) y where "i < length (mn_nodes m)" "q = Inr (False, y)"
  proof (cases q)
    case (Inr x)
    then show ?thesis using that by (cases x; cases "fst x"; cases "i < length (mn_nodes m)") auto
  qed (use that in \<open>cases "i < length (mn_nodes m)"; auto\<close>)
  then show ?case
  proof cases
    case found
    then have r: "r = Inr (True, tried)" "m' = m1\<lparr>mn_master := int i\<rparr>" using step c by simp_all
    have "search env i m m'" unfolding search_def r(2) using run(1) run(3) [OF found(2)] keeps_refl by blast
    then show ?thesis using r(1) by blast
  next
    case no
    then have "check_nodes n env tried (Suc i) m1 = Some (r, m')" using step c by simp
    from Suc.IH [OF this] show ?thesis
      using search_later [OF run(1)] keeps_trans [OF run(1)] by (elim disjE exE conjE) (blast, simp)
  qed (use step c run(1) in auto)
qed simp

text \<open>\<open>_check\<close>: a found master, or none although all nodes were asked twice.\<close>

lemma check_twice_run:
  assumes "check_twice n env m = Some (r, m')"
  shows "(\<exists>k. search env k m m') \<or> keeps m m'"
proof -
  obtain r1 m1 where one: "check_nodes n env False 0 m = Some (r1, m1)"
    using assms by (cases "check_nodes n env False 0 m") (auto simp: check_twice_def bind_run_def)
  note run1 = check_nodes_run [OF one]
  show ?thesis
  proof (cases "\<exists>t. r1 = Inr (False, t)")
    case True
    then obtain t where t: "r1 = Inr (False, t)" by blast
    then obtain r2 where two: "check_nodes n env t 0 m1 = Some (r2, m')"
      using assms one by (cases "check_nodes n env t 0 m1")
        (auto simp: check_twice_def bind_run_def run_act_def lift_act_def split: sum.splits)
    have k: "keeps m m1" using run1 t by simp
    from check_nodes_run [OF two] show ?thesis
      using search_later [OF k] keeps_trans [OF k] by blast
  next
    case False
    then have "m' = m1" using assms one
      by (cases r1) (auto simp: check_twice_def bind_run_def run_act_def lift_act_def split: if_splits)
    then show ?thesis using run1 by blast
  qed
qed

lemma search_in_range: "search env k m m' \<Longrightarrow> in_range m'"
  by (auto simp: search_def says_master_def in_range_def keeps_def addrs_def dest!: prefix_length_le)

text \<open>With a bound on the number of nodes the search ends.\<close>

lemma check_nodes_ends:
  assumes "\<And>m j r m'. P m \<Longrightarrow> checkConnection_of env j '''' m = (r, m') \<Longrightarrow> P m'"
    and "\<And>m. P m \<Longrightarrow> length (mn_nodes m) \<le> bound" and "P m" and "bound - i < n"
  shows "check_nodes n env tried i m \<noteq> None"
  using assms(3,4)
proof (induction n arbitrary: i m)
  case (Suc n)
  obtain q m1 where c: "checkConnection_of env i '''' m = (q, m1)" by (cases "checkConnection_of env i '''' m")
  have m1: "P m1" using assms(1) [OF Suc.prems(1) c] .
  have "check_nodes n env tried (Suc i) m1 \<noteq> None" if "i < length (mn_nodes m)"
    using Suc.IH [OF m1, of "Suc i"] Suc.prems assms(2) [OF Suc.prems(1)] that by simp
  then show ?case unfolding check_nodes_step using c by (auto split: sum.split bool.split)
qed simp

section \<open>The life of a monitor\<close>

definition evolves :: "monitor \<Rightarrow> monitor \<Rightarrow> bool" where
  "evolves m m' \<longleftrightarrow> mn_name m' = mn_name m \<and> prefix (addrs m) (addrs m') \<and> (first_ok m' \<longrightarrow> first_ok m) \<and>
     (distinct_addrs m \<longrightarrow> distinct_addrs m') \<and> (in_range m \<longrightarrow> in_range m')"

interpretation evo: step_relation evolves
  by unfold_locales (auto simp: evolves_def intro: prefix_order.trans)

lemma keeps_evolves: "keeps m m' \<Longrightarrow> evolves m m'"
  by (auto simp: keeps_def evolves_def in_range_def addrs_def dest: prefix_length_le)

lemma search_evolves:
  assumes "search env k m m'"
  shows "evolves m m'"
proof -
  obtain m1 m2 where m: "keeps m m1" "keeps m1 m2" "m' = m2\<lparr>mn_master := int k\<rparr>" using assms by (auto simp: search_def)
  then have "keeps m m2" by (blast intro: keeps_trans)
  then show ?thesis using search_in_range [OF assms] m(3)
    by (simp add: keeps_def evolves_def addrs_def first_ok_def distinct_addrs_def)
qed

lemma runs_check_twice: "evo.runs (check_twice n env)"
  by (rule evo.runsI) (auto dest!: check_twice_run intro: keeps_evolves search_evolves)

lemma moves_checkConnection: "evo.moves (checkConnection_of env i x)"
  by (rule evo.movesI) (metis checkConnection_run(1) keeps_evolves prod.collapse)

lemma moves_look: "evo.moves (\<lambda>m. (f m, m))"
  by (rule evo.movesI) (simp add: evo.R_refl)

inductive monitor_step :: "set_env \<Rightarrow> monitor \<Rightarrow> monitor \<Rightarrow> bool" for env where
  check: "monitor_check n env m = Some (r, m') \<Longrightarrow> monitor_step env m m'"
| master: "getMaster n env m = Some (r, m') \<Longrightarrow> monitor_step env m m'"
| slave: "getSlave env prev m = (r, m') \<Longrightarrow> monitor_step env m m'"
| any_slave: "getSlave_any env m = (r, m') \<Longrightarrow> monitor_step env m m'"
| failure: "monitor_step env m (notifyFailure h m)"
| slave_failure: "monitor_step env m (notifySlaveFailure h m)"

lemma evolves_time: "\<lbrakk>mn_nodes m' = mn_nodes m; mn_master m' = mn_master m; mn_name m' = mn_name m\<rbrakk> \<Longrightarrow> evolves m m'"
  by (simp add: evolves_def addrs_def first_ok_def distinct_addrs_def in_range_def)

lemma evolves_set_ok: "evolves m (set_ok k False m)"
proof -
  have "first_ok (set_ok k False m) \<longrightarrow> first_ok m"
    by (simp add: set_ok_def first_ok_def split: list.split nat.split)
  then show ?thesis by (simp add: evolves_def set_ok_def addrs_update distinct_addrs_def in_range_def)
qed

lemma step_evolves: "monitor_step env m m' \<Longrightarrow> evolves m m'"
proof (induction rule: monitor_step.induct)
  case (check n m r m')
  have "evo.runs (monitor_check n env)"
    unfolding monitor_check_def [abs_def]
    by (rule evo.runsI)
      (auto split: if_splits dest!: evo.runsD [rotated, of "bind_run _ _"]
        intro!: evo.runs_rules evo.moves_lift runs_check_twice moves_checkConnection)
  then show ?case using check by (rule evo.runsD)
next
  case (master n m r m')
  have "evo.runs (getMaster n env)"
    unfolding getMaster_def by (intro evo.runs_rules moves_look) (auto intro!: evo.runs_rules evo.moves_lift runs_check_twice)
  then show ?case using master by (rule evo.runsD)
next
  case (slave prev m r m')
  then show ?case by (auto simp: getSlave_def getSlave_any_def Let_def tick_def evo.R_refl split: if_splits intro!: evolves_time)
next
  case (any_slave m r m')
  then show ?case by (auto simp: getSlave_any_def Let_def tick_def evo.R_refl split: if_splits intro!: evolves_time)
next
  case (failure m h)
  show ?case by (auto simp: notifyFailure_def evolves_def addrs_def first_ok_def distinct_addrs_def in_range_def)
next
  case (slave_failure m h)
  show ?case by (simp add: notifySlaveFailure_def Let_def evolves_set_ok evo.R_refl)
qed

lemma steps_evolve: "(monitor_step env)\<^sup>*\<^sup>* m m' \<Longrightarrow> evolves m m'"
  by (induction rule: rtranclp_induct) (auto intro: evo.R_refl evo.R_trans step_evolves)

interpretation mst: step_relation "\<lambda>(m :: monitor) m'. mn_master m' = mn_master m"
  by unfold_locales simp_all

lemma seeds_master: "mst.moves (seeds_loop env hs)"
proof (induction hs)
  case (Cons h hs)
  have c: "mst.moves (checkConnection_of env i x)" for i x
    by (rule mst.movesI) (metis checkConnection_run(1) keeps_def prod.collapse)
  have d: "mst.moves (dial_node env h)" by (rule mst.movesI) (simp add: dial_node_def tick_def)
  have e: "mst.moves (\<lambda>m. bind_act (checkConnection_of env (length (mn_nodes m)) '''') (\<lambda>(b, _).
      if b then lift_act (Inr ()) else seeds_loop env hs) (add_node nd m))" for nd
  proof (rule mst.movesI)
    fix m :: monitor
    have "mst.moves (bind_act (checkConnection_of env (length (mn_nodes m)) '''') (\<lambda>(b, _).
        if b then lift_act (Inr ()) else seeds_loop env hs))"
      using Cons.IH c by (auto intro!: mst.moves_rules)
    then show "mn_master (snd (bind_act (checkConnection_of env (length (mn_nodes m)) '''') (\<lambda>(b, _).
        if b then lift_act (Inr ()) else seeds_loop env hs) (add_node nd m))) = mn_master m"
      by (simp add: mst.moves_def add_node_def)
  qed
  have "mst.moves (\<lambda>m. if \<not> ok then seeds_loop env hs m
       else bind_act (checkConnection_of env (length (mn_nodes m)) '''') (\<lambda>(b, _).
              if b then lift_act (Inr ()) else seeds_loop env hs) (add_node (node_new h c) m))" for ok c
    using Cons.IH e by (cases ok) simp_all
  then show ?case using d by (auto intro!: mst.moves_bind simp del: if_not_P)
qed (simp add: mst.moves_def)

lemma monitor_new_in_range:
  assumes "monitor_new env hook name servers = Inr m"
  shows "in_range m"
proof -
  let ?m = "\<lparr>mn_name = name, mn_nodes = [], mn_master = - 1, mn_hook = hook, mn_told = [], mn_time = 0\<rparr>"
  obtain r m' where s: "seeds_loop env servers ?m = (r, m')" by (cases "seeds_loop env servers ?m")
  then have "m' = m" using assms by (auto simp: monitor_new_def res_simps split: sum.splits)
  then show ?thesis using mst.movesD [OF seeds_master s] by (simp add: in_range_def)
qed

section \<open>Properties of the monitor\<close>

text \<open>
  C19: A monitor never loses sight of its nodes: from its construction on, through checks, requests
  for the master or a slave and notifications in any order, the number of the master is either
  \<open>- 1\<close> or that of a node, so that using it never leaves the vector; nodes are never removed, and
  the checks add no node twice.
\<close>

theorem monitor_master_in_range:
  assumes "monitor_new env hook name servers = Inr m" and "(monitor_step env)\<^sup>*\<^sup>* m m'"
  shows "(mn_master m' = - 1 \<or> node_at (mn_master m') m' \<noteq> Inl UB) \<and> prefix (addrs m) (addrs m') \<and>
    (distinct_addrs m \<longrightarrow> distinct_addrs m')"
  using steps_evolve [OF assms(2)] monitor_new_in_range [OF assms(1)]
  by (auto simp: evolves_def in_range_def node_at_def)


text \<open>
  C22: The first node never recovers: once it has been reported as a failed slave, no check, whatever
  the servers answer, makes it \<open>ok\<close> again (\<open>_checkStatus\<close> passes over the node with number 0).
\<close>

theorem first_node_stays_down:
  assumes "(monitor_step env)\<^sup>*\<^sup>* m m'" and "mn_nodes m \<noteq> []" and "\<not> nd_ok (mn_nodes m ! 0)"
  shows "mn_nodes m' \<noteq> [] \<and> \<not> nd_ok (mn_nodes m' ! 0)"
proof -
  have "\<not> first_ok m'" using steps_evolve [OF assms(1)] assms(2,3)
    by (cases "mn_nodes m") (auto simp: evolves_def first_ok_def)
  then show ?thesis by (cases "mn_nodes m'") (simp_all add: first_ok_def)
qed


section \<open>Examples\<close>

definition demo_host :: host_and_port where
  "demo_host = \<lparr>hp_host = ''a'', hp_port = 1\<rparr>"

text \<open>An environment in which every host that is dialled answers with the given bytes, or with nothing.\<close>

definition demo_env :: "bytes option \<Rightarrow> set_env" where
  "demo_env answer = \<lparr>se_moment = (\<lambda>_. demo_moment 1 answer), se_id = (\<lambda>_. 1), se_rand = (\<lambda>_. 0)\<rparr>"

definition demo_node :: "bool \<Rightarrow> node" where
  "demo_node ok = \<lparr>nd_addr = demo_host, nd_conn = connection_new False False 1, nd_ok = ok\<rparr>"

definition demo_monitor :: "node list \<Rightarrow> int \<Rightarrow> monitor" where
  "demo_monitor nodes k =
     \<lparr>mn_name = ''rs'', mn_nodes = nodes, mn_master = k, mn_hook = False, mn_told = [], mn_time = 0\<rparr>"

text \<open>A server that accepts the connection and closes it.\<close>

lemma isMaster_closed:
  assumes "port_ok (cn_port (ac_conn c))" and "\<not> cn_failed (ac_conn c)" and "p_in (cn_port (ac_conn c)) = []"
  shows "\<exists>c'. checked mo isMaster_info c = (Inl (Uassert 10276), c')"
proof -
  have q: "query_ok ''admin.$cmd'' [(''ismaster'', VInt 1)] None 1 0"
    by (simp add: query_ok_def option_docs_def fits_def length_enc_elem has_flag_def)
  have "fst (findOne ''admin.$cmd'' (enc_doc [(''ismaster'', VInt 1)]) None 0 (ac_conn c)) = Inl (Uassert 10276)"
    using findOne_closed [OF assms q] .
  then obtain c' where "run_doc ''admin'' [(''ismaster'', VInt 1)] 0 (ac_conn c) = (Inl (Uassert 10276), c')"
    by (cases "findOne ''admin.$cmd'' (enc_doc [(''ismaster'', VInt 1)]) None 0 (ac_conn c)")
       (auto simp: run_doc_def runCommand_def build_doc_run length_enc_elem bind_act_def)
  then show ?thesis using assms(2)
    by (simp add: checked_def check_connection_def on_direct_def isMaster_info_def bind_act_def)
qed

lemma demo_monitor_new:
  "\<exists>c t. monitor_new (demo_env (Some [])) False ''rs'' [demo_host] =
     Inr \<lparr>mn_name = ''rs'', mn_nodes = [node_new demo_host c], mn_master = - 1, mn_hook = False, mn_told = [], mn_time = t\<rparr>"
proof -
  let ?nw = "mo_net (demo_moment 1 (Some []))"
  obtain c where c: "connect_to ?nw demo_host (connection_new True False 1) = (True, c)"
      "port_ok (cn_port (ac_conn c))" "\<not> cn_failed (ac_conn c)" "p_in (cn_port (ac_conn c)) = []"
    by (cases "connect_to ?nw demo_host (connection_new True False 1)")
      (auto simp: connect_to_def dial_def demo_moment_def demo_host_def connection_new_def set_port_def new_port_def
        port_ok_def pending_def cstr_def Let_def)
  obtain c' where c': "checked (demo_moment 1 (Some [])) isMaster_info c = (Inl (Uassert 10276), c')"
    using isMaster_closed [OF c(2-4)] by blast
  show ?thesis
    using c(1) c'
    by (simp add: monitor_new_def dial_node_def demo_env_def bind_act_def tick_def add_node_def node_new_def
        checkConnection_of_def probe_def on_monitor_def on_node_def is_std_exception_def)
qed

theorem monitor_master_in_range_witness:
  "\<exists>m. monitor_new (demo_env (Some [])) False ''rs'' [demo_host] = Inr m \<and> addrs m = [demo_host] \<and>
     (let m' = notifyFailure demo_host (notifySlaveFailure demo_host m)
      in (mn_master m' = - 1 \<or> node_at (mn_master m') m' \<noteq> Inl UB) \<and> prefix (addrs m) (addrs m'))"
proof -
  obtain m where m: "monitor_new (demo_env (Some [])) False ''rs'' [demo_host] = Inr m" "addrs m = [demo_host]"
    using demo_monitor_new by (auto simp: addrs_def node_new_def)
  let ?m = "notifyFailure demo_host (notifySlaveFailure demo_host m)"
  have "(monitor_step (demo_env (Some [])))\<^sup>*\<^sup>* m ?m"
    by (meson monitor_step.failure monitor_step.slave_failure r_into_rtranclp rtranclp.rtrancl_into_rtrancl)
  from monitor_master_in_range [OF m(1) this] m show ?thesis by (auto simp: Let_def)
qed


theorem first_node_stays_down_witness:
  "let m = demo_monitor [demo_node False, (demo_node True)\<lparr>nd_addr := \<lparr>hp_host = ''b'', hp_port = 1\<rparr>\<rparr>] 1;
       m' = snd (getSlave_any (demo_env None) (notifyFailure \<lparr>hp_host = ''b'', hp_port = 1\<rparr> m))
   in mn_master m' = - 1 \<and> mn_nodes m' \<noteq> [] \<and> \<not> nd_ok (mn_nodes m' ! 0)"
proof -
  let ?b = "\<lparr>hp_host = ''b'', hp_port = 1\<rparr>"
  let ?m = "demo_monitor [demo_node False, (demo_node True)\<lparr>nd_addr := ?b\<rparr>] 1"
  let ?n = "snd (getSlave_any (demo_env None) (notifyFailure ?b ?m))"
  have "monitor_step (demo_env None) ?m (notifyFailure ?b ?m)" by (rule monitor_step.failure)
  moreover have "monitor_step (demo_env None) (notifyFailure ?b ?m) ?n" by (rule monitor_step.any_slave) (rule prod.collapse [symmetric])
  ultimately have "(monitor_step (demo_env None))\<^sup>*\<^sup>* ?m ?n" by (meson r_into_rtranclp rtranclp.rtrancl_into_rtrancl)
  moreover have "mn_nodes ?m \<noteq> []" "\<not> nd_ok (mn_nodes ?m ! 0)" by (simp_all add: demo_monitor_def demo_node_def)
  ultimately have "mn_nodes ?n \<noteq> [] \<and> \<not> nd_ok (mn_nodes ?n ! 0)" by (rule first_node_stays_down)
  moreover have "mn_master ?n = - 1"
    by (simp add: notifyFailure_def demo_monitor_def demo_node_def hp_eq_def getSlave_any_def Let_def tick_def)
  ultimately show ?thesis by (simp add: Let_def)
qed

section \<open>Where the monitor goes wrong\<close>

text \<open>
  When the master is not \<open>ok\<close> and no node answers, \<open>getMaster\<close> returns the old master; here its
  connection has failed and may not be dialled again.
\<close>

lemma getMaster_returns_dead_master:
  "let m = demo_monitor [(demo_node False)\<lparr>nd_conn := set_failed True (connection_new False False 1)\<rparr>] 0
   in map_option fst (getMaster 2 (demo_env None) m) = Some (Inr demo_host)"
  by (simp add: Let_def getMaster_def bind_run_def run_act_def master_good_def node_at_def demo_monitor_def demo_node_def lift_act_def
      check_twice_def checkConnection_of_def probe_def on_monitor_def on_node_def checked_def check_connection_def may_try_def
      bind_act_def is_std_exception_def quick_check_def tick_def set_failed_def connection_new_def eval_nat_numeral)

text \<open>A monitor none of whose seeds could be reached has no node to take for a slave.\<close>

lemma no_node_no_slave:
  "\<exists>m. monitor_new (demo_env None) False ''rs'' [demo_host] = Inr m \<and> fst (getSlave_any (demo_env None) m) = Inl UB"
proof -
  have "\<exists>c. connect_to (mo_net (demo_moment 1 None)) demo_host (connection_new True False 1) = (False, c)"
    by (simp add: connect_to_def dial_def demo_moment_def demo_host_def set_port_def cstr_def Let_def)
  then show ?thesis
    by (auto simp: monitor_new_def dial_node_def demo_env_def bind_act_def tick_def getSlave_any_def lift_act_def)
qed

text \<open>
  When a constructor has thrown, the null entry it leaves ends every later round of checks, also
  for the sets behind it.
\<close>

lemma null_entry_ends_checks: "checkAll (Suc n) env {} ((name, None) # sets) = Some (Inr (), (name, None) # sets)"
  by simp

end
