(* ===== verification/ReplicaClientSpec.thy ===== *)
theory ReplicaClientSpec
  imports ReplicaSpec
begin

text \<open>
  What a client of a replica set keeps: the connection it writes to is to the node that the
  monitor holds as master; reading from slaves does not touch that connection; a failure on a
  slave is not seen by the caller.
\<close>

section \<open>Operations of a connection stay with its server\<close>

definition same_server :: "(moment \<Rightarrow> (auto_connection, 'a) act) \<Rightarrow> bool" where
  "same_server f \<longleftrightarrow> (\<forall>mo c. ac_server (snd (f mo c)) = ac_server c)"

lemma dial_server [simp]: "ac_server (snd (dial nw c)) = ac_server c"
  by (simp add: dial_def Let_def split: option.split)

lemma check_connection_server [simp]: "ac_server (snd (check_connection mo c)) = ac_server c"
  using dial_server [of "mo_net mo" "set_failed False (c\<lparr>ac_lastReconnectTry := mo_try mo\<rparr>)"]
  by (auto simp: check_connection_def Let_def on_direct_def simp del: dial_server split: prod.split bool.split)

lemma checked_server [simp]: "ac_server (snd (checked mo f c)) = ac_server c"
  using check_connection_server [of mo c]
  by (auto simp: checked_def snd_bind_act on_direct_def simp del: check_connection_server split: prod.split sum.split)

lemma same_server_ops:
  "same_server (\<lambda>mo. checked mo f)" "same_server (\<lambda>mo. auto_say mo m)" "same_server conn_isFailed"
  "same_server (\<lambda>mo. auto_auth mo db user pw d)" "same_server (\<lambda>_. on_direct g)"
  by (simp_all add: same_server_def auto_say_def auto_auth_def conn_isFailed_def on_direct_def Let_def split: prod.split)

section \<open>The master's connection\<close>

text \<open>What using the master's connection keeps of the rest.\<close>

definition uses_master :: "replica_set \<Rightarrow> replica_set \<Rightarrow> bool" where
  "uses_master s s' \<longleftrightarrow>
     rs_slave s' = rs_slave s \<and> rs_slaveHost s' = rs_slaveHost s \<and> rs_masterHost s' = rs_masterHost s \<and>
     mn_nodes (rs_monitor s') = mn_nodes (rs_monitor s) \<and> mn_master (rs_monitor s') = mn_master (rs_monitor s) \<and>
     map_option ac_server (rs_master s') = map_option ac_server (rs_master s)"

interpretation use: step_relation uses_master
  by unfold_locales (simp_all add: uses_master_def)

lemma use_on_master: "same_server f \<Longrightarrow> use.moves (on_master env f)"
  by (rule use.movesI)
    (auto simp: uses_master_def on_master_def tick_def same_server_def split: option.split prod.split, metis snd_conv)

lemma use_auth_all: "use.moves (auth_all (on_master env) as)"
proof (induction as)
  case (Cons a as)
  obtain db user pw d where "a = (db, user, pw, d)" by (cases a)
  then show ?case using Cons by (simp add: use.moves_bind use_on_master same_server_ops)
qed (simp add: use.moves_def use.R_refl)

text \<open>The client knows which server its connection is to.\<close>

definition knows_master :: "replica_set \<Rightarrow> bool" where
  "knows_master s \<longleftrightarrow> (\<forall>c. rs_master s = Some c \<longrightarrow> ac_server c = rs_masterHost s)"

text \<open>Its connection is to the node that the monitor holds as master.\<close>

definition at_master :: "replica_set \<Rightarrow> bool" where
  "at_master s \<longleftrightarrow> (\<exists>c nd. rs_master s = Some c \<and>
     node_at (mn_master (rs_monitor s)) (rs_monitor s) = Inr nd \<and> hp_eq (ac_server c) (nd_addr nd))"

lemma use_knows: "uses_master s s' \<Longrightarrow> knows_master s \<Longrightarrow> knows_master s'"
  by (cases "rs_master s"; cases "rs_master s'") (auto simp: uses_master_def knows_master_def)

lemma node_at_cong: "mn_nodes m' = mn_nodes m \<Longrightarrow> node_at i m' = node_at i m"
  by (simp add: node_at_def)

lemma node_at_tick [simp]: "node_at i (tick m) = node_at i m" "mn_master (tick m) = mn_master m"
  by (simp_all add: node_at_def tick_def)

lemma use_at: "uses_master s s' \<Longrightarrow> at_master s \<Longrightarrow> at_master s'"
  using node_at_cong [of "rs_monitor s'" "rs_monitor s"]
  by (cases "rs_master s'") (auto simp: uses_master_def at_master_def)

lemma hp_eq_refl [simp]: "hp_eq h h"
  by (simp add: hp_eq_def)

lemma hp_eq_sym: "hp_eq a b \<Longrightarrow> hp_eq b a"
  by (simp add: hp_eq_def)

lemma getMaster_node:
  assumes "getMaster n env m = Some (Inr h, m')"
  shows "\<exists>nd. node_at (mn_master m') m' = Inr nd \<and> h = nd_addr nd"
  using assms
  by (auto simp: getMaster_def bind_run_def run_act_def res_simps split: option.splits sum.splits)

lemma connect_to_server: "connect_to nw h c = (ok, c') \<Longrightarrow> ac_server c' = h"
  using dial_server [of nw "c\<lparr>ac_server := h, ac_serverString := hp_toString h\<rparr>"]
  by (simp add: connect_to_def del: dial_server)

text \<open>After \<open>master_connect\<close>, whether it returns or throws.\<close>

lemma master_connect_run:
  assumes "master_connect env h s = (r, s')"
  shows "rs_slave s' = rs_slave s \<and> rs_slaveHost s' = rs_slaveHost s \<and> knows_master s' \<and>
    (r = Inr () \<longrightarrow> node_at (mn_master (rs_monitor s)) (rs_monitor s) = Inr nd \<longrightarrow> h = nd_addr nd \<longrightarrow> at_master s')"
proof -
  let ?c = "connection_new True False (se_id env (mn_time (rs_monitor s)))"
  obtain ok c where c: "connect_to (mo_net (se_moment env (mn_time (rs_monitor s)))) h ?c = (ok, c)"
    by (cases "connect_to (mo_net (se_moment env (mn_time (rs_monitor s)))) h ?c")
  note srv = connect_to_server [OF c]
  let ?s = "s\<lparr>rs_masterHost := h, rs_master := Some c, rs_monitor := tick (rs_monitor s)\<rparr>"
  have k: "knows_master ?s" using srv by (simp add: knows_master_def)
  have mc: "master_connect env h s =
      (if \<not> ok then (Inl (Uassert 13639), ?s\<lparr>rs_monitor := notifyFailure h (rs_monitor ?s)\<rparr>)
       else auth_all (on_master env) (rs_auths s) ?s)"
    using c by (simp add: master_connect_def bind_act_def on_master_def master_new_def)
  show ?thesis
  proof (cases ok)
    case True
    then have u: "uses_master ?s s'" using assms mc use.movesD [OF use_auth_all] by simp
    moreover have "at_master ?s" if "node_at (mn_master (rs_monitor s)) (rs_monitor s) = Inr nd" "h = nd_addr nd"
      using srv that by (simp add: at_master_def)
    moreover have "rs_slave s' = rs_slave s" "rs_slaveHost s' = rs_slaveHost s" using u by (simp_all add: uses_master_def)
    ultimately show ?thesis using use_knows [OF u k] use_at [OF u] by simp
  next
    case False
    then show ?thesis using assms mc k by (auto simp: knows_master_def)
  qed
qed

text \<open>What \<open>checkMaster\<close> keeps in any case, and what holds when it returns.\<close>

definition master_work :: "replica_set \<Rightarrow> replica_set \<Rightarrow> bool" where
  "master_work s s' \<longleftrightarrow> rs_slave s' = rs_slave s \<and> rs_slaveHost s' = rs_slaveHost s \<and> (knows_master s \<longrightarrow> knows_master s')"

interpretation wrk: step_relation master_work
  by unfold_locales (simp_all add: master_work_def)

lemma use_work: "use.moves f \<Longrightarrow> wrk.moves f"
proof (rule wrk.moves_resultI)
  fix s r t assume "use.moves f" and "f s = (r, t)"
  then have u: "uses_master s t" by (rule use.movesD)
  then show "master_work s t" using use_knows [OF u] by (simp add: master_work_def uses_master_def)
qed

lemma work_monitor: "wrk.runs (run_monitor f)"
  by (rule wrk.runsI) (auto simp: run_monitor_def master_work_def knows_master_def)

lemma work_connect: "wrk.moves (master_connect env h)"
  by (rule wrk.moves_resultI) (drule master_connect_run [where nd = undefined], simp add: master_work_def)

lemma work_fresh: "wrk.runs (master_fresh n env)"
  unfolding master_fresh_def by (intro wrk.runs_bind work_monitor wrk.runs_act work_connect)

lemma fresh_run:
  assumes "master_fresh n env s = Some (Inr (), s')"
  shows "at_master s'"
proof -
  obtain h m where g: "getMaster n env (rs_monitor s) = Some (Inr h, m)"
      and c: "master_connect env h (s\<lparr>rs_monitor := m\<rparr>) = (Inr (), s')"
    using assms by (auto simp: master_fresh_def bind_run_def run_monitor_def run_act_def split: option.splits sum.splits)
  obtain nd where "node_at (mn_master m) m = Inr nd" "h = nd_addr nd" using getMaster_node [OF g] by blast
  then show ?thesis using master_connect_run [OF c, of nd] by simp
qed

lemma checkMaster_run:
  assumes "checkMaster n env s = Some (r, s')"
  shows "master_work s s'" "r = Inr () \<Longrightarrow> knows_master s \<Longrightarrow> at_master s'"
proof -
  obtain r1 m where g: "getMaster n env (rs_monitor s) = Some (r1, m)"
    using assms by (cases "getMaster n env (rs_monitor s)") (auto simp: checkMaster_def bind_run_def run_monitor_def)
  let ?s = "s\<lparr>rs_monitor := m\<rparr>"
  have w: "master_work s ?s" by (simp add: master_work_def knows_master_def)
  have "master_work s s' \<and> (r = Inr () \<longrightarrow> knows_master s \<longrightarrow> at_master s')"
  proof (cases r1)
    case (Inl e)
    then show ?thesis using assms g w by (auto simp: checkMaster_def bind_run_def run_monitor_def)
  next
    case (Inr h)
    obtain nd where nd: "node_at (mn_master m) m = Inr nd" "h = nd_addr nd" using getMaster_node g Inr by blast
    show ?thesis
    proof (cases "hp_eq h (rs_masterHost s)")
      case False
      then have "master_fresh n env ?s = Some (r, s')"
        using assms g Inr by (simp add: checkMaster_def bind_run_def run_monitor_def)
      then show ?thesis using wrk.R_trans [OF w] wrk.runsD [OF work_fresh] fresh_run by blast
    next
      case same: True
      show ?thesis
      proof (cases "rs_master s")
        case None
        then show ?thesis using assms g Inr same w
          by (auto simp: checkMaster_def bind_run_def run_monitor_def run_act_def on_master_def)
      next
        case (Some c)
        let ?t = "s\<lparr>rs_master := Some c, rs_monitor := tick m\<rparr>"
        have t: "master_work s ?t" using Some by (simp add: master_work_def knows_master_def)
        show ?thesis
        proof (cases "cn_failed (ac_conn c)")
          case True
          then have f: "master_fresh n env (?t\<lparr>rs_monitor := notifyFailure (rs_masterHost s) (tick m)\<rparr>) = Some (r, s')"
            using assms g Inr same Some
            by (simp add: checkMaster_def bind_run_def run_monitor_def run_act_def on_master_def conn_isFailed_def)
          moreover have "master_work s (?t\<lparr>rs_monitor := notifyFailure (rs_masterHost s) (tick m)\<rparr>)"
            using Some by (simp add: master_work_def knows_master_def)
          ultimately show ?thesis using wrk.R_trans wrk.runsD [OF work_fresh] fresh_run by blast
        next
          case False
          then have "s' = ?t" "r = Inr ()"
            using assms g Inr same Some
            by (simp_all add: checkMaster_def bind_run_def run_monitor_def run_act_def on_master_def conn_isFailed_def)
          moreover have "at_master ?t" if "knows_master s"
            using that Some nd same by (simp add: at_master_def knows_master_def hp_eq_sym)
          ultimately show ?thesis using t by simp
        qed
      qed
    qed
  qed
  then show "master_work s s'" "r = Inr () \<Longrightarrow> knows_master s \<Longrightarrow> at_master s'" by auto
qed

section \<open>Slaves\<close>

text \<open>What reading from a slave keeps.\<close>

definition keeps_master :: "replica_set \<Rightarrow> replica_set \<Rightarrow> bool" where
  "keeps_master s s' \<longleftrightarrow> rs_master s' = rs_master s \<and> rs_masterHost s' = rs_masterHost s \<and> rs_auths s' = rs_auths s"

interpretation slv: step_relation keeps_master
  by unfold_locales (simp_all add: keeps_master_def)

lemma slave_on_slave: "slv.moves (on_slave env f)"
  by (rule slv.movesI) (auto simp: keeps_master_def on_slave_def split: option.split prod.split)

lemma slave_monitor: "slv.moves (with_monitor f)"
  by (rule slv.movesI) (auto simp: keeps_master_def with_monitor_def split: prod.split)

lemma slave_auth_all: "slv.moves (auth_all (on_slave env) as)"
proof (induction as)
  case (Cons a as)
  obtain db user pw d where "a = (db, user, pw, d)" by (cases a)
  then show ?case using Cons by (simp add: slv.moves_bind slave_on_slave)
qed (simp add: slv.moves_def slv.R_refl)

lemma slave_connect_keeps: "slv.moves (slave_connect env h)"
proof -
  have "slv.moves (\<lambda>s. auth_all (on_slave env) (rs_auths s) s)"
    using slave_auth_all by (auto simp: slv.moves_def)
  then show ?thesis unfolding slave_connect_def
    by (intro slv.moves_bind slave_on_slave) (rule slv.movesI, simp add: slave_new_def keeps_master_def)
qed

lemma slave_stays_keeps: "slv.moves (slave_stays env h)"
proof (rule slv.movesI)
  fix s :: replica_set
  have "slv.moves (bind_act (on_slave env conn_isFailed) (\<lambda>failed s.
      (Inr (\<not> failed), if failed then s\<lparr>rs_monitor := notifySlaveFailure (rs_slaveHost s) (rs_monitor s)\<rparr> else s)))"
    by (intro slv.moves_bind slave_on_slave) (rule slv.movesI, simp add: keeps_master_def)
  then show "keeps_master s (snd (slave_stays env h s))" by (simp add: slave_stays_def slv.moves_def slv.R_refl)
qed

lemma checkSlave_keeps: "slv.moves (checkSlave env)"
proof (rule slv.movesI)
  fix s :: replica_set
  have g: "slv.moves (if good then lift_act (Inr ()) else slave_fresh env)" for good
    by (cases good) (simp_all only: if_True if_False slave_fresh_def slv.moves_lift slv.moves_bind slave_monitor slave_connect_keeps)
  have "slv.moves (bind_act (bind_act (with_monitor (getSlave env (rs_slaveHost s))) (slave_stays env)) (\<lambda>good.
       if good then lift_act (Inr ()) else slave_fresh env))"
    by (intro slv.moves_bind slave_monitor slave_stays_keeps g)
  then show "keeps_master s (snd (checkSlave env s))" by (simp add: checkSlave_def slv.moves_def)
qed

lemma slave_tries_error:
  assumes "slave_tries k n env f s = Some (Inl err, s')" and "is_db_exception err"
  shows "\<exists>s1. keeps_master s s1 \<and> bind_run (checkMaster n env) (\<lambda>_. run_act (on_master env f)) s1 = Some (Inl err, s')"
  using assms(1)
proof (induction k arbitrary: s)
  case 0
  then show ?case using slv.R_refl by (intro exI [of _ s]) simp
next
  case (Suc k)
  obtain r t where t: "bind_act (checkSlave env) (\<lambda>_. on_slave env f) s = (r, t)"
    by (cases "bind_act (checkSlave env) (\<lambda>_. on_slave env f) s")
  have "slv.moves (bind_act (checkSlave env) (\<lambda>_. on_slave env f))"
    by (intro slv.moves_bind checkSlave_keeps slave_on_slave)
  then have k: "keeps_master s t" using t by (rule slv.movesD)
  have "slave_tries k n env f t = Some (Inl err, s')"
    using Suc.prems t assms(2) by (auto split: sum.splits if_splits)
  from Suc.IH [OF this] show ?case using slv.R_trans [OF k] by blast
qed

section \<open>The life of a client\<close>

text \<open>
  The operations of a client, and the steps of others that use the same monitor.
\<close>

inductive replica_step :: "set_env \<Rightarrow> replica_set \<Rightarrow> replica_set \<Rightarrow> bool" for env where
  say: "master_say n env toSend s = Some (r, s') \<Longrightarrow> replica_step env s s'"
| query: "replica_query n env ns q nToReturn nToSkip flds opts batch s = Some (r, s') \<Longrightarrow> replica_step env s s'"
| find_one: "replica_findOne n env ns q flds opts s = Some (r, s') \<Longrightarrow> replica_step env s s'"
| call: "replica_call n env check toSend assertOk s = Some (r, s') \<Longrightarrow> replica_step env s s'"
| response: "replica_checkResponse n env data nReturned s = Some (r, s') \<Longrightarrow> replica_step env s s'"
| auth: "replica_auth n env db user pw d s = Some (r, s') \<Longrightarrow> replica_step env s s'"
| connect: "replica_connect n env s = Some (r, s') \<Longrightarrow> replica_step env s s'"
| isnt_master: "replica_step env s (replica_isntMaster s)"
| other: "replica_step env s (s\<lparr>rs_monitor := m\<rparr>)"

definition stays_known :: "replica_set \<Rightarrow> replica_set \<Rightarrow> bool" where
  "stays_known s s' \<longleftrightarrow> (knows_master s \<longrightarrow> knows_master s')"

interpretation knw: step_relation stays_known
  by unfold_locales (simp_all add: stays_known_def)

lemma known_use: "use.moves f \<Longrightarrow> knw.moves f"
  by (rule knw.moves_resultI) (auto simp: stays_known_def dest: use.movesD use_knows)

lemma known_slave: "slv.moves f \<Longrightarrow> knw.moves f"
  by (rule knw.moves_resultI) (auto simp: stays_known_def knows_master_def keeps_master_def dest: slv.movesD)

lemma known_check: "knw.runs (checkMaster n env)"
  by (rule knw.runsI) (auto simp: stays_known_def master_work_def dest: checkMaster_run(1))

lemma known_tries: "same_server f \<Longrightarrow> knw.runs (slave_tries k n env f)"
proof (induction k)
  case 0
  then show ?case by (auto intro!: knw.runs_rules known_check known_use use_on_master)
next
  case (Suc k)
  have "knw.moves (bind_act (checkSlave env) (\<lambda>_. on_slave env f))"
    by (intro known_slave slv.moves_bind checkSlave_keeps slave_on_slave)
  then show ?case using Suc
    by (intro knw.runsI)
      (auto split: prod.splits sum.splits if_splits dest: knw.movesD knw.runsD intro: knw.R_trans)
qed

lemma step_known: "replica_step env s s' \<Longrightarrow> stays_known s s'"
proof (induction rule: replica_step.induct)
  case (say n toSend s r s')
  have "knw.runs (master_say n env toSend)"
    unfolding master_say_def
    by (intro knw.runs_rules known_check known_use use.moves_rules use_on_master same_server_ops)
  then show ?case using say by (rule knw.runsD)
next
  case (query n ns q nToReturn nToSkip flds opts batch s r s')
  then show ?case
    unfolding replica_query_def auto_query_def using knw.runsD [OF known_tries [OF same_server_ops(1)]] by blast
next
  case (find_one n ns q flds opts s r s')
  then show ?case
    unfolding replica_findOne_def auto_findOne_def using knw.runsD [OF known_tries [OF same_server_ops(1)]] by blast
next
  case (call n check toSend assertOk s r s')
  have "same_server (named_call toSend assertOk)"
    by (auto simp: same_server_def named_call_def snd_bind_act on_direct_def split: prod.split sum.split)
  then have "knw.runs (replica_call n env check toSend assertOk)"
    unfolding replica_call_def by (intro knw.runs_rules knw.moves_lift known_tries)
  then show ?case using call by (rule knw.runsD)
next
  case (response n data nReturned s r s')
  have "knw.runs (replica_checkResponse n env data nReturned)"
    unfolding replica_checkResponse_def by (intro knw.runs_rules known_check known_use use_on_master same_server_ops)
  then show ?case using response by (rule knw.runsD)
next
  case (auth n db user pw d s r s')
  have "knw.runs (replica_auth n env db user pw d)"
    unfolding replica_auth_def
    by (intro knw.runs_rules known_check knw.moves_bind known_use use_on_master same_server_ops)
      (rule use.movesI, simp add: uses_master_def)
  then show ?case using auth by (rule knw.runsD)
next
  case (connect n s r s')
  then obtain r1 s1 where c: "checkMaster n env s = Some (r1, s1)"
    by (cases "checkMaster n env s") (auto simp: replica_connect_def)
  have "knows_master s1 \<longrightarrow> knows_master s'"
    using connect c
    by (cases r1) (auto simp: replica_connect_def knows_master_def split: mongo_error.splits if_splits)
  then show ?case using knw.runsD [OF known_check c] by (simp add: stays_known_def)
qed (auto simp: stays_known_def knows_master_def replica_isntMaster_def)

lemma client_knows_master: "(replica_step env)\<^sup>*\<^sup>* (replica_set_new m) s \<Longrightarrow> knows_master s"
proof (induction rule: rtranclp_induct)
  case base
  show ?case by (simp add: knows_master_def replica_set_new_def)
next
  case (step s s')
  then show ?case using step_known by (auto simp: stays_known_def)
qed

section \<open>Properties of the client\<close>

text \<open>
  C18: A write goes to the master: when it returns, its message has been said on the connection to
  the node that the monitor then holds as master, and neither the slave's connection nor its
  host has changed.
\<close>

theorem writes_go_to_master:
  assumes "knows_master s" and "master_say n env toSend s = Some (Inr (), s')"
  shows "\<exists>m mo c c' nd. toSend = Inr m \<and> auto_say mo m c = (Inr (), c') \<and> rs_master s' = Some c' \<and>
    node_at (mn_master (rs_monitor s')) (rs_monitor s') = Inr nd \<and> hp_eq (ac_server c') (nd_addr nd) \<and>
    rs_slave s' = rs_slave s \<and> rs_slaveHost s' = rs_slaveHost s"
proof -
  obtain s1 where c: "checkMaster n env s = Some (Inr (), s1)"
      and m: "bind_act (lift_act toSend) (\<lambda>m. on_master env (\<lambda>mo. auto_say mo m)) s1 = (Inr (), s')"
    using assms(2) by (auto simp: master_say_def bind_run_def run_act_def split: option.splits sum.splits)
  note run = checkMaster_run [OF c]
  obtain c1 nd where at: "rs_master s1 = Some c1" "node_at (mn_master (rs_monitor s1)) (rs_monitor s1) = Inr nd"
      "hp_eq (ac_server c1) (nd_addr nd)"
    using run(2) assms(1) by (auto simp: at_master_def)
  obtain msg where msg: "toSend = Inr msg" using m by (cases toSend) (auto simp: bind_act_def)
  obtain c2 where say: "auto_say (se_moment env (mn_time (rs_monitor s1))) msg c1 = (Inr (), c2)"
      "s' = s1\<lparr>rs_master := Some c2, rs_monitor := tick (rs_monitor s1)\<rparr>"
    using m msg at(1) by (auto simp: bind_act_def on_master_def split: prod.splits)
  have "ac_server c2 = ac_server c1" using same_server_ops(2) [of msg] say(1) unfolding same_server_def by (metis snd_conv)
  then show ?thesis using run(1) msg say at by (auto simp: master_work_def)
qed

text \<open>
  C21: A failure on a slave is not seen by the caller: an exception of the driver that a query lets
  through comes from the master, after what was tried on slaves, which has left the master's
  connection alone.
\<close>

theorem slave_failures_hidden:
  assumes "replica_query n env ns query nToReturn nToSkip flds opts batch s = Some (Inl err, s')" and "is_db_exception err"
  shows "\<exists>s1. rs_master s1 = rs_master s \<and> rs_masterHost s1 = rs_masterHost s \<and>
    bind_run (checkMaster n env) (\<lambda>_. run_act (on_master env
      (\<lambda>mo. auto_query mo ns query nToReturn nToSkip flds opts batch))) s1 = Some (Inl err, s')"
  using slave_tries_error [OF assms(1) [unfolded replica_query_def] assms(2)] by (auto simp: keeps_master_def)

section \<open>Examples\<close>

text \<open>A client whose connection to the first node is open and has nothing to read.\<close>

definition demo_conn :: auto_connection where
  "demo_conn =
     \<lparr>ac_conn = \<lparr>cn_port = \<lparr>p_in = [], p_out = [], p_up = True, p_next_id = 1, p_piggy = None\<rparr>,
        cn_failed = False, cn_clientSet = False, cn_isntMaster = 0\<rparr>,
      ac_autoReconnect = True, ac_lastReconnectTry = 0, ac_server = demo_host, ac_serverString = ''a:1'', ac_authCache = []\<rparr>"

definition demo_client :: "monitor \<Rightarrow> auto_connection option \<Rightarrow> replica_set" where
  "demo_client m c = (replica_set_new m)\<lparr>rs_masterHost := demo_host, rs_master := c\<rparr>"

theorem writes_go_to_master_witness:
  "\<exists>s' c'. master_say 1 (demo_env None) (Inr (set_data dbInsert [])) (demo_client (demo_monitor [demo_node True] 0) (Some demo_conn)) =
      Some (Inr (), s') \<and> rs_master s' = Some c' \<and> ac_server c' = demo_host \<and>
      (\<exists>nd. node_at (mn_master (rs_monitor s')) (rs_monitor s') = Inr nd \<and> hp_eq demo_host (nd_addr nd)) \<and>
      rs_slave s' = None"
proof -
  let ?m = "set_data dbInsert []" and ?mon = "demo_monitor [demo_node True] 0"
  let ?s = "demo_client ?mon (Some demo_conn)"
  have "sendable ?m" by (simp add: sendable_def set_data_def MsgDataHeaderSize_def i32_id)
  from port_say_run [OF _ this, of "cn_port (ac_conn demo_conn)" "- 1"] obtain q p where p:
      "port_say ?m (- 1) (cn_port (ac_conn demo_conn)) = (Inr q, p)"
    by (auto simp: demo_conn_def port_ok_def pending_def)
  then have say: "auto_say mo ?m demo_conn = (Inr (), demo_conn\<lparr>ac_conn := (ac_conn demo_conn)\<lparr>cn_port := p\<rparr>\<rparr>)" for mo
    by (simp add: auto_say_def checked_def check_connection_def bind_act_def on_direct_def conn_say_def checkConnection_def
        catching_socket_def) (simp add: demo_conn_def)
  have g: "getMaster 1 (demo_env None) ?mon = Some (Inr demo_host, ?mon)"
    by (simp add: getMaster_def bind_run_def run_act_def master_good_def node_at_def demo_monitor_def demo_node_def lift_act_def)
  have f: "\<not> cn_failed (ac_conn demo_conn)" "ac_server demo_conn = demo_host" by (simp_all add: demo_conn_def)
  obtain s' where s': "master_say 1 (demo_env None) (Inr ?m) ?s = Some (Inr (), s')"
      "rs_master s' = Some (demo_conn\<lparr>ac_conn := (ac_conn demo_conn)\<lparr>cn_port := p\<rparr>\<rparr>)"
    using g say f(1)
    by (simp add: master_say_def checkMaster_def run_monitor_def bind_run_def demo_client_def run_act_def on_master_def
        conn_isFailed_def bind_act_def replica_set_new_def)
  have "knows_master ?s" by (simp add: knows_master_def demo_client_def f(2))
  from writes_go_to_master [OF this s'(1)] s' f(2) obtain nd where
    "node_at (mn_master (rs_monitor s')) (rs_monitor s') = Inr nd" "hp_eq (ac_server demo_conn) (nd_addr nd)" "rs_slave s' = None"
    by (auto simp: demo_client_def replica_set_new_def)
  then show ?thesis using s' f(2) by auto
qed

text \<open>A set of one node that cannot be reached, neither as a slave nor as the master.\<close>

definition dead_client :: replica_set where
  "dead_client =
     replica_set_new (demo_monitor [(demo_node True)\<lparr>nd_conn := set_failed True (connection_new False False 1)\<rparr>] (- 1))"

lemma demo_host_text: "host_and_port_new (hp_toString demo_host) = Inr demo_host"
  by code_simp

lemma demo_unreachable: "connect_to (mo_net (demo_moment 1 None)) demo_host c =
    (False, set_failed True (set_port (new_port (p_next_id (cn_port (ac_conn c)))) (c\<lparr>ac_server := demo_host, ac_serverString := hp_toString demo_host\<rparr>)))"
  by (simp add: connect_to_def dial_def demo_moment_def demo_host_def cstr_def Let_def set_port_def)

lemma demo_eq: "hp_eq demo_host demo_host" "\<not> hp_eq demo_host \<lparr>hp_host = '''', hp_port = - 1\<rparr>" "hp_effective_port demo_host = 1"
  by (simp_all add: hp_eq_def demo_host_def hp_effective_port_def)

lemma dead_client_query: "\<exists>s'. slave_tries 2 2 (demo_env None) f dead_client = Some (Inl (Uassert 10009), s')"
  by (simp add: dead_client_def replica_set_new_def demo_monitor_def demo_node_def demo_env_def numeral_2_eq_2 Let_def
      checkSlave_def with_monitor_def getSlave_def find_addr_def getSlave_any_def tick_def bind_act_def slave_stays_def slave_fresh_def
      slave_connect_def slave_new_def on_slave_def connect_string_def lift_act_def demo_host_text demo_unreachable demo_eq
      is_db_exception_def is_std_exception_def conn_isFailed_def notifySlaveFailure_def set_ok_def
      checkMaster_def run_monitor_def getMaster_def bind_run_def run_act_def master_good_def check_twice_def checkConnection_of_def
      probe_def on_monitor_def on_node_def checked_def check_connection_def may_try_def quick_check_def
      set_failed_def connection_new_def)

theorem slave_failures_hidden_witness:
  "\<exists>s' s1. replica_query 2 (demo_env None) ''db.c'' (enc_doc []) 0 0 None 4 0 dead_client = Some (Inl (Uassert 10009), s') \<and>
     rs_master s1 = None \<and>
     bind_run (checkMaster 2 (demo_env None)) (\<lambda>_. run_act (on_master (demo_env None)
       (\<lambda>mo. auto_query mo ''db.c'' (enc_doc []) 0 0 None 4 0))) s1 = Some (Inl (Uassert 10009), s')"
proof -
  obtain s' where s': "replica_query 2 (demo_env None) ''db.c'' (enc_doc []) 0 0 None 4 0 dead_client = Some (Inl (Uassert 10009), s')"
    using dead_client_query unfolding replica_query_def by (auto simp: tries_for_def has_flag_def QueryOption_SlaveOk_def)
  have "is_db_exception (Uassert 10009)" by (simp add: is_db_exception_def is_std_exception_def)
  from slave_failures_hidden [OF s' this] s' show ?thesis by (auto simp: dead_client_def replica_set_new_def)
qed

end
