(* ===== verification/SyncCluster.thy ===== *)
theory SyncCluster
  imports ReplicaSet
begin

text \<open>
  \<open>SyncClusterConnection\<close> (client/syncclusterconnection.h and .cpp): writes go to all of a fixed
  list of servers, in two phases. Every server is asked to flush its files; only when all have
  done so is the write sent to each, and then each is asked for its last error and another flush.
  Reads go to the first server that answers. The environment is that of the replica sets.
\<close>

record sync_cluster =
  sy_address :: bytes
  sy_connAddresses :: "bytes list"
  sy_conns :: "auto_connection list"
  sy_lockTypes :: "(bytes \<times> int) list"
  sy_lastErrors :: "bytes list"
  sy_writeConcern :: bool
  sy_time :: nat

text \<open>\<open>catch (...)\<close> catches everything that is thrown.\<close>

definition is_thrown :: "mongo_error \<Rightarrow> bool" where
  "is_thrown err \<longleftrightarrow> err \<noteq> OutOfBounds \<and> err \<noteq> UB"

definition sync_at :: "set_env \<Rightarrow> nat \<Rightarrow> (moment \<Rightarrow> (auto_connection, 'a) act) \<Rightarrow> (sync_cluster, 'a) act" where
  "sync_at env i f s =
     (if i < length (sy_conns s) then
        case f (se_moment env (sy_time s)) (sy_conns s ! i) of
          (r, c) \<Rightarrow> (r, s\<lparr>sy_conns := (sy_conns s)[i := c], sy_time := Suc (sy_time s)\<rparr>)
      else (Inl UB, s))"

definition sync_indices :: "sync_cluster \<Rightarrow> nat list" where
  "sync_indices s = [0..<length (sy_conns s)]"

text \<open>The same on every connection, up to the first exception.\<close>

definition on_all :: "set_env \<Rightarrow> (moment \<Rightarrow> (auto_connection, unit) act) \<Rightarrow> (sync_cluster, unit) act" where
  "on_all env f s = seq_act (map (\<lambda>i. sync_at env i f) (sync_indices s)) s"

section \<open>Making one\<close>

definition sync_connect :: "set_env \<Rightarrow> bytes \<Rightarrow> (sync_cluster, unit) act" where
  "sync_connect env host =
     bind_act (lift_act (host_and_port_new host)) (\<lambda>h s.
       case connect_to (mo_net (se_moment env (sy_time s))) h (connection_new True False (se_id env (sy_time s))) of
         (ok, c) \<Rightarrow> (Inr (), s\<lparr>sy_connAddresses := sy_connAddresses s @ [host], sy_conns := sy_conns s @ [c],
                        sy_time := Suc (sy_time s)\<rparr>))"

definition sync_empty :: "bytes \<Rightarrow> sync_cluster" where
  "sync_empty address =
     \<lparr>sy_address = address, sy_connAddresses = [], sy_conns = [], sy_lockTypes = [], sy_lastErrors = [],
      sy_writeConcern = True, sy_time = 0\<rparr>"

definition sync_new_list :: "set_env \<Rightarrow> host_and_port list \<Rightarrow> unit res \<times> sync_cluster" where
  "sync_new_list env L =
     seq_act (map (\<lambda>h. sync_connect env (hp_toString h)) L) (sync_empty (join_servers L))"

fun sync_connect_commas :: "nat \<Rightarrow> set_env \<Rightarrow> bytes \<Rightarrow> (sync_cluster, unit) act" where
  "sync_connect_commas 0 env rest = lift_act (Inl UB)"
| "sync_connect_commas (Suc n) env rest =
     (case split_char (CHR '','') rest of
        Some (h, rest) \<Rightarrow> bind_act (sync_connect env h) (\<lambda>_. sync_connect_commas n env rest)
      | None \<Rightarrow> sync_connect env rest)"

definition sync_new_commas :: "set_env \<Rightarrow> bytes \<Rightarrow> unit res \<times> sync_cluster" where
  "sync_new_commas env s =
     bind_act (sync_connect_commas (Suc (length s)) env s) (\<lambda>_ s.
       (guard (length (sy_conns s) = 3) (Uassert 8004), s)) (sync_empty s)"

definition sync_new_three :: "set_env \<Rightarrow> bytes \<Rightarrow> bytes \<Rightarrow> bytes \<Rightarrow> unit res \<times> sync_cluster" where
  "sync_new_three env a b c =
     seq_act [sync_connect env a, sync_connect env b, sync_connect env c] (sync_empty (a @ '','' @ b @ '','' @ c))"

section \<open>The two phases\<close>

fun fsync_loop :: "set_env \<Rightarrow> nat list \<Rightarrow> bool \<Rightarrow> (sync_cluster, bool) act" where
  "fsync_loop env [] ok s = (Inr ok, s)"
| "fsync_loop env (i # is) ok s =
     (case sync_at env i (\<lambda>mo. checked mo (simpleCommand ''admin'' ''fsync'')) s of
        (Inr (b, _), s) \<Rightarrow> fsync_loop env is (ok \<and> b) s
      | (Inl err, s) \<Rightarrow> if is_thrown err then fsync_loop env is False s else (Inl err, s))"

definition sync_fsync :: "set_env \<Rightarrow> (sync_cluster, bool) act" where
  "sync_fsync env s = fsync_loop env (sync_indices s) True s"

definition sync_prepare :: "set_env \<Rightarrow> (sync_cluster, bool) act" where
  "sync_prepare env s = sync_fsync env (s\<lparr>sy_lastErrors := []\<rparr>)"

definition gle_fsync :: doc where
  "gle_fsync = [(''getlasterror'', VInt 1), (''fsync'', VInt 1)]"

text \<open>The answers, an empty object for a server that threw.\<close>

fun last_loop :: "set_env \<Rightarrow> nat list \<Rightarrow> (sync_cluster, unit) act" where
  "last_loop env [] s = (Inr (), s)"
| "last_loop env (i # is) s =
     (case sync_at env i (\<lambda>mo. checked mo (run_doc ''admin'' gle_fsync 0)) s of
        (Inr (_, res), s) \<Rightarrow> last_loop env is (s\<lparr>sy_lastErrors := sy_lastErrors s @ [res]\<rparr>)
      | (Inl err, s) \<Rightarrow>
          if is_thrown err then last_loop env is (s\<lparr>sy_lastErrors := sy_lastErrors s @ [enc_doc []]\<rparr>)
          else (Inl err, s))"

fun has_element_loop :: "nat \<Rightarrow> bytes \<Rightarrow> iterator \<Rightarrow> bytes \<Rightarrow> bool res" where
  "has_element_loop 0 mem it name = Inl UB"
| "has_element_loop (Suc n) mem it name =
     (if \<not> moreWithEOO it then Inr False
      else bind_res (iter_next mem False it) (\<lambda>(e, it).
           bind_res (el_fieldName e) (\<lambda>fn.
             if strcmp name fn = 0 then Inr True else has_element_loop n mem it name)))"

definition mem_hasElement :: "bytes \<Rightarrow> bytes \<Rightarrow> bool res" where
  "mem_hasElement mem name =
     bind_res (rd_int mem) (\<lambda>n. if n \<le> 5 then Inr False
       else bind_res (iter_new mem) (\<lambda>it. has_element_loop (Suc (length mem)) mem it name))"

definition acknowledged :: "bytes \<Rightarrow> bool res" where
  "acknowledged res =
     bind_res (bind_res (mem_field res ''ok'') trueValue) (\<lambda>ok.
       if \<not> ok then Inr False
       else bind_res (bind_res (mem_field res ''fsyncFiles'') numberInt) (\<lambda>n.
         if n > 0 then Inr True else mem_hasElement res ''waited''))"

fun all_acknowledged :: "bytes list \<Rightarrow> bool res" where
  "all_acknowledged [] = Inr True"
| "all_acknowledged (r # rs) =
     bind_res (acknowledged r) (\<lambda>a. bind_res (all_acknowledged rs) (\<lambda>b. Inr (a \<and> b)))"

definition sync_checkLast :: "set_env \<Rightarrow> (sync_cluster, unit) act" where
  "sync_checkLast env =
     bind_act (\<lambda>s. last_loop env (sync_indices s) (s\<lparr>sy_lastErrors := []\<rparr>)) (\<lambda>_ s.
       (bind_res (all_acknowledged (sy_lastErrors s)) (\<lambda>ok. guard ok (Uassert 8001)), s))"

text \<open>A write: prepare, send it everywhere, check. \<open>code\<close> is thrown when the servers are not ready.\<close>

definition two_phase :: "set_env \<Rightarrow> nat \<Rightarrow> (sync_cluster, unit) act \<Rightarrow> (sync_cluster, unit) act" where
  "two_phase env code send =
     bind_act (sync_prepare env) (\<lambda>ok.
       if \<not> ok then lift_act (Inl (Uassert code)) else bind_act send (\<lambda>_. sync_checkLast env))"

section \<open>Reading from the first server that answers\<close>

fun query_on_active :: "set_env \<Rightarrow> nat list \<Rightarrow> (moment \<Rightarrow> (auto_connection, cursor option) act) \<Rightarrow>
    (sync_cluster, nat \<times> cursor) act" where
  "query_on_active env [] f s = (Inl (Uassert 8002), s)"
| "query_on_active env (i # is) f s =
     (case sync_at env i f s of
        (Inr (Some cu), s) \<Rightarrow> (Inr (i, cu), s)
      | (Inr None, s) \<Rightarrow> query_on_active env is f s
      | (Inl err, s) \<Rightarrow> if is_thrown err then query_on_active env is f s else (Inl err, s))"

definition queryOnActive ::
  "set_env \<Rightarrow> bytes \<Rightarrow> bytes \<Rightarrow> int \<Rightarrow> int \<Rightarrow> bytes option \<Rightarrow> int \<Rightarrow> int \<Rightarrow> (sync_cluster, nat \<times> cursor) act" where
  "queryOnActive env ns query nToReturn nToSkip fieldsToReturn queryOptions batchSize s =
     query_on_active env (sync_indices s)
       (\<lambda>mo. auto_query mo ns query nToReturn nToSkip fieldsToReturn queryOptions batchSize) s"

text \<open>A piece of code on a cursor of connection \<open>i\<close>, which is destroyed after it.\<close>

definition with_cursor_of :: "set_env \<Rightarrow> nat \<times> cursor \<Rightarrow> (client, 'a) act \<Rightarrow> (sync_cluster, 'a) act" where
  "with_cursor_of env icu f =
     sync_at env (fst icu) (\<lambda>_. on_direct (\<lambda>c. case f (snd icu, c) of (r, s) \<Rightarrow> (r, cursor_destroy s)))"

definition commandOnActive :: "set_env \<Rightarrow> bytes \<Rightarrow> bytes \<Rightarrow> int \<Rightarrow> (sync_cluster, bool \<times> bytes) act" where
  "commandOnActive env dbname cmd options =
     bind_act (queryOnActive env (dbname @ ''.$cmd'') cmd 1 0 None options 0) (\<lambda>icu.
     bind_act (with_cursor_of env icu (bind_act cursor_more (\<lambda>m.
         if m then bind_act cursor_next (\<lambda>o'. lift_act (obj_copy o')) else lift_act (Inr (enc_doc []))))) (\<lambda>info.
       lift_act (bind_res (isOk info) (\<lambda>ok. Inr (ok, info)))))"

text \<open>Whether a command writes: asked once, then remembered.\<close>

definition sync_lockType :: "set_env \<Rightarrow> bytes \<Rightarrow> (sync_cluster, int) act" where
  "sync_lockType env name s =
     (case std_find string_less name (sy_lockTypes s) of
        Some t \<Rightarrow> (Inr t, s)
      | None \<Rightarrow>
          bind_act (lift_act (build_doc [(name, VString ''1''), (''help'', VInt 1)])) (\<lambda>cmd.
          bind_act (commandOnActive env ''admin'' cmd 0) (\<lambda>(ok, info).
          bind_act (lift_act (bind_res (guard ok (Uassert 13053)) (\<lambda>_.
              bind_res (mem_field info ''lockType'') numberInt))) (\<lambda>t s.
            (Inr t, s\<lparr>sy_lockTypes := std_put string_less name t (sy_lockTypes s)\<rparr>)))) s)"

definition is_command :: "bytes \<Rightarrow> bool" where
  "is_command ns \<longleftrightarrow> strstr ns ''.$cmd'' \<noteq> None"

definition command_name :: "bytes \<Rightarrow> bytes res" where
  "command_name query = bind_res (firstElement query) el_fieldName"

definition command_lockType :: "set_env \<Rightarrow> bytes \<Rightarrow> bytes \<Rightarrow> (sync_cluster, int) act" where
  "command_lockType env ns query =
     (if is_command ns then bind_act (lift_act (command_name query)) (sync_lockType env) else lift_act (Inr 0))"

definition sync_query ::
  "set_env \<Rightarrow> bytes \<Rightarrow> bytes \<Rightarrow> int \<Rightarrow> int \<Rightarrow> bytes option \<Rightarrow> int \<Rightarrow> int \<Rightarrow> (sync_cluster, nat \<times> cursor) act" where
  "sync_query env ns query nToReturn nToSkip fieldsToReturn queryOptions batchSize s =
     bind_act (command_lockType env ns query) (\<lambda>t.
     bind_act (lift_act (guard (t \<le> 0) (Uassert 13054))) (\<lambda>_.
       queryOnActive env ns query nToReturn nToSkip fieldsToReturn queryOptions batchSize)) (s\<lparr>sy_lastErrors := []\<rparr>)"

section \<open>Commands\<close>

text \<open>A command that writes is run on all servers; its answers, in the order of the servers.\<close>

fun find_on_all :: "set_env \<Rightarrow> nat list \<Rightarrow> bytes \<Rightarrow> bytes \<Rightarrow> int \<Rightarrow> (sync_cluster, bytes list) act" where
  "find_on_all env [] ns query opts = lift_act (Inr [])"
| "find_on_all env (i # is) ns query opts =
     bind_act (sync_at env i (\<lambda>mo. auto_findOne mo ns query None opts)) (\<lambda>r.
     bind_act (find_on_all env is ns query opts) (\<lambda>rs. lift_act (Inr (r # rs))))"

fun all_isOk :: "bytes list \<Rightarrow> unit res" where
  "all_isOk [] = Inr ()"
| "all_isOk (r # rs) = bind_res (isOk r) (\<lambda>ok. bind_res (guard ok (Uassert 13105)) (\<lambda>_. all_isOk rs))"

definition sync_write_command :: "set_env \<Rightarrow> bytes \<Rightarrow> bytes \<Rightarrow> int \<Rightarrow> (sync_cluster, bytes) act" where
  "sync_write_command env ns query opts =
     bind_act (sync_prepare env) (\<lambda>ok.
       if \<not> ok then lift_act (Inl (Uassert 13104))
       else bind_act (\<lambda>s. find_on_all env (sync_indices s) ns query opts s) (\<lambda>all.
            bind_act (sync_checkLast env) (\<lambda>_.
              lift_act (bind_res (all_isOk all) (\<lambda>_. case all of [] \<Rightarrow> Inl UB | r # _ \<Rightarrow> Inr r)))))"

definition sync_findOne :: "set_env \<Rightarrow> bytes \<Rightarrow> bytes \<Rightarrow> bytes option \<Rightarrow> int \<Rightarrow> (sync_cluster, bytes) act" where
  "sync_findOne env ns query fieldsToReturn opts =
     bind_act (command_lockType env ns query) (\<lambda>t.
       if t > 0 then sync_write_command env ns query opts
       else bind_act (sync_query env ns query 1 0 fieldsToReturn opts 0) (\<lambda>icu. with_cursor_of env icu findOne_result))"

definition sync_getLastErrorDetailed :: "set_env \<Rightarrow> (sync_cluster, bytes) act" where
  "sync_getLastErrorDetailed env s =
     (case sy_lastErrors s of
        r # _ \<Rightarrow> (Inr r, s)
      | [] \<Rightarrow> bind_act (lift_act (build_doc [(''getlasterror'', VInt 1)])) (\<lambda>cmd.
              bind_act (sync_findOne env ''admin.$cmd'' cmd None 0) (\<lambda>info.
                lift_act (bind_res (isOk info) (\<lambda>_. Inr info)))) s)"

section \<open>Writes\<close>

definition say_built :: "message res \<Rightarrow> moment \<Rightarrow> (auto_connection, unit) act" where
  "say_built toSend mo = bind_act (lift_act toSend) (auto_say mo)"

definition has_id :: "bytes \<Rightarrow> bool res" where
  "has_id o' = bind_res (mem_field o' ''_id'') (\<lambda>e. bind_res (el_type (el_data e)) (\<lambda>t. Inr (t \<noteq> 0)))"

definition sync_insert :: "set_env \<Rightarrow> bytes \<Rightarrow> bytes \<Rightarrow> (sync_cluster, unit) act" where
  "sync_insert env ns o' =
     bind_act (lift_act (if strstr ns ''.system.indexes'' \<noteq> None then Inr ()
                         else bind_res (has_id o') (\<lambda>b. guard b (Uassert 13119)))) (\<lambda>_.
       two_phase env 8003 (on_all env (say_built (insert_request ns [o']))))"

definition sync_insert_many :: "set_env \<Rightarrow> bytes \<Rightarrow> bytes list \<Rightarrow> (sync_cluster, unit) act" where
  "sync_insert_many env ns v = lift_act (Inl (Uassert 10023))"

definition sync_remove :: "set_env \<Rightarrow> bytes \<Rightarrow> bytes \<Rightarrow> bool \<Rightarrow> (sync_cluster, unit) act" where
  "sync_remove env ns query justOne = two_phase env 8020 (on_all env (say_built (remove_request ns query justOne)))"

definition sync_say :: "set_env \<Rightarrow> message \<Rightarrow> (sync_cluster, unit) act" where
  "sync_say env toSend = two_phase env 13397 (on_all env (\<lambda>mo. auto_say mo toSend))"

text \<open>
  \<open>update\<close>. With a write concern, an exception is thrown again as \<open>throw e\<close>, where \<open>e\<close> is a
  reference to \<open>std::exception\<close>: a plain \<open>std::exception\<close>. Without, it is ignored.
\<close>

fun update_loop :: "set_env \<Rightarrow> nat list \<Rightarrow> message res \<Rightarrow> (sync_cluster, unit) act" where
  "update_loop env [] toSend s = (Inr (), s)"
| "update_loop env (i # is) toSend s =
     (case sync_at env i (say_built toSend) s of
        (Inr _, s) \<Rightarrow> update_loop env is toSend s
      | (Inl err, s) \<Rightarrow>
          if \<not> is_std_exception err then (Inl err, s)
          else if sy_writeConcern s then (Inl StdException, s)
          else update_loop env is toSend s)"

fun same_n :: "int \<Rightarrow> bytes list \<Rightarrow> unit res" where
  "same_n a [] = Inr ()"
| "same_n a (r # rs) =
     bind_res (bind_res (mem_field r ''n'') numberInt) (\<lambda>b. bind_res (guard (a = b) (Uassert 8017)) (\<lambda>_. same_n a rs))"

definition consistent :: "bytes list \<Rightarrow> unit res" where
  "consistent errs =
     (case errs of
        r # rs \<Rightarrow> if rs = [] then Inl AssertFail else bind_res (bind_res (mem_field r ''n'') numberInt) (\<lambda>a. same_n a rs)
      | [] \<Rightarrow> Inl AssertFail)"

definition sync_update :: "set_env \<Rightarrow> bytes \<Rightarrow> bytes \<Rightarrow> bytes \<Rightarrow> bool \<Rightarrow> bool \<Rightarrow> (sync_cluster, unit) act" where
  "sync_update env ns query o' upsert multi =
     bind_act (lift_act (if upsert then bind_res (has_id query) (\<lambda>b. guard b (Uassert 13120)) else Inr ())) (\<lambda>_ s.
       let send = (\<lambda>s. update_loop env (sync_indices s) (update_request ns query o' upsert multi) s)
       in if sy_writeConcern s
          then bind_act (two_phase env 8005 send) (\<lambda>_ s. (consistent (sy_lastErrors s), s)) s
          else send s)"

section \<open>Messages\<close>

fun call_on_active :: "set_env \<Rightarrow> nat list \<Rightarrow> message \<Rightarrow> bool \<Rightarrow> (sync_cluster, bytes \<times> message) act" where
  "call_on_active env [] toSend assertOk s = (Inl (Uassert 8008), s)"
| "call_on_active env (i # is) toSend assertOk s =
     (case sync_at env i (\<lambda>_. on_direct (conn_call toSend assertOk)) s of
        (Inr (Some m), s) \<Rightarrow> (Inr (sy_connAddresses s ! i, m), s)
      | (Inr None, s) \<Rightarrow> call_on_active env is toSend assertOk s
      | (Inl err, s) \<Rightarrow> if is_thrown err then call_on_active env is toSend assertOk s else (Inl err, s))"

definition sync_call :: "set_env \<Rightarrow> message \<Rightarrow> bool \<Rightarrow> (sync_cluster, bytes \<times> message) act" where
  "sync_call env toSend assertOk s =
     bind_act (lift_act (bind_res (guard (m_operation toSend = op_code dbQuery) (Uassert 8006)) (\<lambda>_.
         bind_res (dm_getns (dbmessage_new toSend)) (\<lambda>ns. guard (strstr ns ''$cmd'' = None) (Uassert 8007))))) (\<lambda>_.
       call_on_active env (sync_indices s) toSend assertOk) s"

definition sync_getMore :: "(sync_cluster, nat \<times> cursor) act" where
  "sync_getMore = lift_act (Inl (Uassert 10022))"

definition sync_killCursor :: "(sync_cluster, unit) act" where
  "sync_killCursor = lift_act (Inl AssertFail)"

end
