(* ===== verification/SyncSpec.thy ===== *)
theory SyncSpec
  imports SyncCluster ReplicaSpec
begin

text \<open>
  What \<open>SyncClusterConnection\<close> promises. Each of its loops visits every connection once, in
  order (\<open>swept\<close>); from that follow the two phases of a write, what a refused write leaves behind,
  and which server answers a read.
\<close>

section \<open>One pass over the connections\<close>

text \<open>What \<open>F\<close> gives on connection \<open>j\<close> when a pass that is at connection \<open>k\<close> gets there.\<close>

definition visit :: "set_env \<Rightarrow> (moment \<Rightarrow> (auto_connection, 'a) act) \<Rightarrow> nat \<Rightarrow> sync_cluster \<Rightarrow> nat \<Rightarrow> 'a res \<times> auto_connection" where
  "visit env F k s j = F (se_moment env (sy_time s + (j - k))) (sy_conns s ! j)"

text \<open>The rest of the pass is over.\<close>

definition swept :: "set_env \<Rightarrow> (moment \<Rightarrow> (auto_connection, 'a) act) \<Rightarrow> nat \<Rightarrow> sync_cluster \<Rightarrow> sync_cluster \<Rightarrow> bool" where
  "swept env F k s s' \<longleftrightarrow>
     length (sy_conns s') = length (sy_conns s) \<and> sy_time s' = sy_time s + (length (sy_conns s) - k) \<and>
     (\<forall>j < length (sy_conns s). sy_conns s' ! j = (if j < k then sy_conns s ! j else snd (visit env F k s j))) \<and>
     sy_writeConcern s' = sy_writeConcern s"

lemma swept_end: "swept env F (length (sy_conns s)) s s"
  by (simp add: swept_def)

lemma swept_errors [simp]:
  "swept env F k (s\<lparr>sy_lastErrors := es\<rparr>) s' = swept env F k s s'"
  "swept env F k s (s'\<lparr>sy_lastErrors := es\<rparr>) = swept env F k s s'"
  by (simp_all add: swept_def visit_def)

lemma visit_errors [simp]: "visit env F k (s\<lparr>sy_lastErrors := es\<rparr>) = visit env F k s"
  by (simp add: visit_def fun_eq_iff)

text \<open>A step of the pass.\<close>

definition stepped :: "set_env \<Rightarrow> (moment \<Rightarrow> (auto_connection, 'a) act) \<Rightarrow> nat \<Rightarrow> sync_cluster \<Rightarrow> sync_cluster" where
  "stepped env F k s = s\<lparr>sy_conns := (sy_conns s)[k := snd (visit env F k s k)], sy_time := Suc (sy_time s)\<rparr>"

lemma sync_at_run:
  "k < length (sy_conns s) \<Longrightarrow> sync_at env k F s = (fst (visit env F k s k), stepped env F k s)"
  by (simp add: sync_at_def stepped_def visit_def split: prod.split)

lemma stepped_simps [simp]:
  "length (sy_conns (stepped env F k s)) = length (sy_conns s)" "sy_lastErrors (stepped env F k s) = sy_lastErrors s"
  "sy_writeConcern (stepped env F k s) = sy_writeConcern s" "sy_connAddresses (stepped env F k s) = sy_connAddresses s"
  by (simp_all add: stepped_def)

lemma visit_stepped [simp]: "Suc k \<le> j \<Longrightarrow> visit env F (Suc k) (stepped env F k s) j = visit env F k s j"
  by (simp add: visit_def stepped_def Suc_diff_le [symmetric])

lemma swept_step:
  assumes "k < length (sy_conns s)" and "swept env F (Suc k) (stepped env F k s) s'"
  shows "swept env F k s s'"
proof -
  have "sy_conns s' ! j = (if j < k then sy_conns s ! j else snd (visit env F k s j))" if j: "j < length (sy_conns s)" for j
  proof -
    have "sy_conns s' ! j = (if j < Suc k then sy_conns (stepped env F k s) ! j else snd (visit env F (Suc k) (stepped env F k s) j))"
      using assms(2) j by (simp add: swept_def)
    moreover have "sy_conns (stepped env F k s) ! j = (if j = k then snd (visit env F k s k) else sy_conns s ! j)"
      using j by (simp add: stepped_def)
    ultimately show ?thesis using visit_stepped [of k j env F s] by (cases j k rule: linorder_cases) auto
  qed
  moreover have "sy_time (stepped env F k s) = Suc (sy_time s)" by (simp add: stepped_def)
  ultimately show ?thesis using assms by (simp add: swept_def)
qed

lemma upt_step: "k < n \<Longrightarrow> [k..<n] = k # [Suc k..<n]"
  by (rule upt_conv_Cons)

lemma from_step:
  "k < n \<Longrightarrow> (\<forall>j. k \<le> j \<and> j < n \<longrightarrow> P j) \<longleftrightarrow> P k \<and> (\<forall>j. Suc k \<le> j \<and> j < n \<longrightarrow> P j)"
  by (metis Suc_leI Suc_le_lessD le_eq_less_or_eq less_imp_le)

text \<open>The loops are such passes.\<close>

lemma fsync_pass:
  fixes s :: sync_cluster
  defines "F \<equiv> \<lambda>mo. checked mo (simpleCommand ''admin'' ''fsync'')"
  assumes "k \<le> length (sy_conns s)" and "fsync_loop env [k..<length (sy_conns s)] ok s = (Inr b, s')"
  shows "swept env F k s s' \<and> sy_lastErrors s' = sy_lastErrors s \<and>
    (b \<longleftrightarrow> ok \<and> (\<forall>j. k \<le> j \<and> j < length (sy_conns s) \<longrightarrow> (\<exists>x. fst (visit env F k s j) = Inr (True, x))))"
  using assms(2,3)
proof (induction "length (sy_conns s) - k" arbitrary: k s ok)
  case 0
  then show ?case using swept_end [of env F s] by auto
next
  case (Suc n)
  then have k: "k < length (sy_conns s)" by simp
  let ?t = "stepped env F k s"
  note at = sync_at_run [OF k, of env F]
  obtain ok' where ok': "fsync_loop env [Suc k..<length (sy_conns ?t)] ok' ?t = (Inr b, s')"
      "ok' \<longleftrightarrow> ok \<and> (\<exists>x. fst (visit env F k s k) = Inr (True, x))"
    using Suc.prems(2) at unfolding upt_step [OF k] fsync_loop.simps F_def [symmetric]
    by (auto split: sum.splits if_splits)
  from Suc.hyps(1) [OF _ _ ok'(1)] Suc.hyps(2) k
  have ih: "swept env F (Suc k) ?t s'" "sy_lastErrors s' = sy_lastErrors s"
      "b \<longleftrightarrow> ok' \<and> (\<forall>j. Suc k \<le> j \<and> j < length (sy_conns s) \<longrightarrow> (\<exists>x. fst (visit env F (Suc k) ?t j) = Inr (True, x)))"
    by auto
  then show ?case using swept_step [OF k ih(1)] ok'(2) by (auto simp: from_step [OF k])
qed

text \<open>No access outside of memory on the way.\<close>

definition clean :: "'a res \<Rightarrow> bool" where
  "clean r \<longleftrightarrow> (\<forall>err. r = Inl err \<longrightarrow> is_thrown err)"

lemma fsync_returns:
  fixes s :: sync_cluster
  defines "F \<equiv> \<lambda>mo. checked mo (simpleCommand ''admin'' ''fsync'')"
  assumes "k \<le> length (sy_conns s)" and "\<forall>j. k \<le> j \<and> j < length (sy_conns s) \<longrightarrow> clean (fst (visit env F k s j))"
  shows "\<exists>b s'. fsync_loop env [k..<length (sy_conns s)] ok s = (Inr b, s')"
  using assms(2,3)
proof (induction "length (sy_conns s) - k" arbitrary: k s ok)
  case (Suc n)
  then have k: "k < length (sy_conns s)" by simp
  let ?t = "stepped env F k s"
  note at = sync_at_run [OF k, of env F]
  have "\<exists>b s'. fsync_loop env [Suc k..<length (sy_conns ?t)] ok' ?t = (Inr b, s')" for ok'
    using Suc.prems(2) by (intro Suc.hyps(1)) (use k Suc.hyps(2) in \<open>auto simp: from_step [OF k]\<close>)
  then show ?case
    using Suc.prems(2) at unfolding upt_step [OF k] fsync_loop.simps F_def [symmetric]
    by (auto simp: clean_def from_step [OF k] split: sum.splits)
qed simp

lemma all_pass:
  assumes "k \<le> length (sy_conns s)" and "seq_act (map (\<lambda>i. sync_at env i F) [k..<length (sy_conns s)]) s = (Inr (), s')"
  shows "swept env F k s s' \<and> sy_lastErrors s' = sy_lastErrors s \<and>
    (\<forall>j. k \<le> j \<and> j < length (sy_conns s) \<longrightarrow> fst (visit env F k s j) = Inr ())"
  using assms
proof (induction "length (sy_conns s) - k" arbitrary: k s)
  case 0
  then show ?case using swept_end [of env F s] by auto
next
  case (Suc n)
  then have k: "k < length (sy_conns s)" by simp
  let ?t = "stepped env F k s"
  have run: "fst (visit env F k s k) = Inr ()" "seq_act (map (\<lambda>i. sync_at env i F) [Suc k..<length (sy_conns ?t)]) ?t = (Inr (), s')"
    using Suc.prems(2) sync_at_run [OF k, of env F] by (auto simp: upt_step [OF k] bind_act_def split: sum.splits)
  from Suc.hyps(1) [OF _ _ run(2)] Suc.hyps(2) k
  have "swept env F (Suc k) ?t s'" "sy_lastErrors s' = sy_lastErrors s"
      "\<forall>j. Suc k \<le> j \<and> j < length (sy_conns s) \<longrightarrow> fst (visit env F (Suc k) ?t j) = Inr ()"
    by auto
  then show ?case using swept_step [OF k] run(1) by (auto simp: from_step [OF k])
qed

text \<open>What is kept of a server's answer to \<open>getlasterror\<close>.\<close>

definition last_answer :: "(bool \<times> bytes) res \<Rightarrow> bytes" where
  "last_answer r = (case r of Inr (_, res) \<Rightarrow> res | Inl _ \<Rightarrow> enc_doc [])"

lemma last_pass:
  fixes s :: sync_cluster
  defines "F \<equiv> \<lambda>mo. checked mo (run_doc ''admin'' gle_fsync 0)"
  assumes "k \<le> length (sy_conns s)" and "last_loop env [k..<length (sy_conns s)] s = (Inr (), s')"
  shows "swept env F k s s' \<and>
    sy_lastErrors s' = sy_lastErrors s @ map (\<lambda>j. last_answer (fst (visit env F k s j))) [k..<length (sy_conns s)]"
  using assms(2,3)
proof (induction "length (sy_conns s) - k" arbitrary: k s)
  case 0
  then show ?case using swept_end [of env F s] by auto
next
  case (Suc n)
  then have k: "k < length (sy_conns s)" by simp
  let ?r = "last_answer (fst (visit env F k s k))"
  let ?t = "stepped env F k s\<lparr>sy_lastErrors := sy_lastErrors s @ [?r]\<rparr>"
  have run: "last_loop env [Suc k..<length (sy_conns ?t)] ?t = (Inr (), s')"
    using Suc.prems(2) sync_at_run [OF k, of env F] unfolding upt_step [OF k] last_loop.simps F_def [symmetric]
    by (auto simp: last_answer_def split: sum.splits if_splits)
  from Suc.hyps(1) [OF _ _ run] Suc.hyps(2) k
  have "swept env F (Suc k) (stepped env F k s) s'"
      "sy_lastErrors s' = sy_lastErrors s @ [?r] @ map (\<lambda>j. last_answer (fst (visit env F k s j))) [Suc k..<length (sy_conns s)]"
    by auto
  then show ?case using swept_step [OF k] by (simp add: upt_step [OF k])
qed

section \<open>The two phases of a write\<close>

lemma empty_not_acknowledged: "acknowledged (enc_doc []) = Inr False"
  by code_simp

lemma all_acknowledged_iff: "all_acknowledged rs = Inr True \<longleftrightarrow> (\<forall>r \<in> set rs. acknowledged r = Inr True)" (is "?a \<longleftrightarrow> ?b")
proof
  show "?b \<Longrightarrow> ?a" by (induction rs) simp_all
  show "?a \<Longrightarrow> ?b" by (induction rs) (auto simp: res_simps)
qed

text \<open>What a write has done on connection \<open>i\<close> when it returns: flush, write, acknowledgement.\<close>

definition acknowledged_write ::
  "set_env \<Rightarrow> nat \<Rightarrow> (moment \<Rightarrow> (auto_connection, unit) act) \<Rightarrow> sync_cluster \<Rightarrow> sync_cluster \<Rightarrow> bool" where
  "acknowledged_write env i say s s' \<longleftrightarrow>
     (\<exists>x ok r c1 c2. let n = length (sy_conns s); moment = (\<lambda>phase. se_moment env (sy_time s + phase * n + i)) in
        checked (moment 0) (simpleCommand ''admin'' ''fsync'') (sy_conns s ! i) = (Inr (True, x), c1) \<and>
        say (moment 1) c1 = (Inr (), c2) \<and>
        checked (moment 2) (run_doc ''admin'' gle_fsync 0) c2 = (Inr (ok, r), sy_conns s' ! i) \<and>
        sy_lastErrors s' ! i = r \<and> acknowledged r = Inr True)"

lemma two_phase_inv:
  "two_phase env code send s = (Inr (), s') \<longleftrightarrow>
     (\<exists>s1 s2. sync_prepare env s = (Inr True, s1) \<and> send s1 = (Inr (), s2) \<and> sync_checkLast env s2 = (Inr (), s'))"
  unfolding two_phase_def bind_act_def by (force split: sum.splits prod.splits)

lemma checkLast_inv:
  "sync_checkLast env s = (Inr (), s') \<longleftrightarrow>
     last_loop env (sync_indices s) (s\<lparr>sy_lastErrors := []\<rparr>) = (Inr (), s') \<and> all_acknowledged (sy_lastErrors s') = Inr True"
  by (auto simp: sync_checkLast_def bind_act_def res_simps split: sum.splits prod.splits)

lemma two_phase_run:
  assumes "two_phase env code (on_all env say) s = (Inr (), s')"
  shows "length (sy_lastErrors s') = length (sy_conns s) \<and> length (sy_conns s') = length (sy_conns s) \<and>
    (\<forall>i < length (sy_conns s). acknowledged_write env i say s s')"
proof -
  let ?F = "\<lambda>mo. checked mo (simpleCommand ''admin'' ''fsync'')" and ?G = "\<lambda>mo. checked mo (run_doc ''admin'' gle_fsync 0)"
  let ?n = "length (sy_conns s)" and ?s = "s\<lparr>sy_lastErrors := []\<rparr>"
  obtain s1 s2 s3 where
      f: "fsync_loop env [0..<length (sy_conns ?s)] True ?s = (Inr True, s1)"
    and w: "seq_act (map (\<lambda>i. sync_at env i say) [0..<length (sy_conns s1)]) s1 = (Inr (), s2)"
    and g: "last_loop env [0..<length (sy_conns s2)] (s2\<lparr>sy_lastErrors := []\<rparr>) = (Inr (), s3)"
    and a: "all_acknowledged (sy_lastErrors s3) = Inr True" "s' = s3"
    using assms
    by (auto simp: two_phase_inv checkLast_inv sync_prepare_def sync_fsync_def on_all_def sync_indices_def)
  have F: "swept env ?F 0 s s1" "\<forall>j < ?n. \<exists>x. fst (visit env ?F 0 s j) = Inr (True, x)"
    using fsync_pass [OF _ f] by simp_all
  have W: "swept env say 0 s1 s2" "\<forall>j < length (sy_conns s1). fst (visit env say 0 s1 j) = Inr ()"
    using all_pass [OF _ w] by simp_all
  have G: "swept env ?G 0 s2 s3"
      "sy_lastErrors s3 = map (\<lambda>j. last_answer (fst (visit env ?G 0 s2 j))) [0..<length (sy_conns s2)]"
    using last_pass [of 0 "s2\<lparr>sy_lastErrors := []\<rparr>" env s3] g by simp_all
  have n: "length (sy_conns s1) = ?n" "length (sy_conns s2) = ?n" "length (sy_conns s3) = ?n"
      "sy_time s1 = sy_time s + ?n" "sy_time s2 = sy_time s + 2 * ?n"
    using F(1) W(1) G(1) by (simp_all add: swept_def)
  have "acknowledged_write env i say s s3" if i: "i < ?n" for i
  proof -
    obtain x where x: "fst (visit env ?F 0 s i) = Inr (True, x)" using F(2) i by blast
    have ack: "acknowledged (last_answer (fst (visit env ?G 0 s2 i))) = Inr True"
      using a(1) G(2) n i by (simp add: all_acknowledged_iff)
    then obtain ok r where r: "fst (visit env ?G 0 s2 i) = Inr (ok, r)"
      using empty_not_acknowledged by (cases "fst (visit env ?G 0 s2 i)") (auto simp: last_answer_def)
    have "?F (se_moment env (sy_time s + i)) (sy_conns s ! i) = (Inr (True, x), sy_conns s1 ! i)"
      using x F(1) i by (simp add: swept_def visit_def prod_eq_iff)
    moreover have "say (se_moment env (sy_time s + ?n + i)) (sy_conns s1 ! i) = (Inr (), sy_conns s2 ! i)"
      using W i n by (simp add: swept_def visit_def prod_eq_iff)
    moreover have "?G (se_moment env (sy_time s + 2 * ?n + i)) (sy_conns s2 ! i) = (Inr (ok, r), sy_conns s3 ! i)"
      using r G(1) i n by (simp add: swept_def visit_def prod_eq_iff)
    ultimately show ?thesis
      using r ack G(2) n i unfolding acknowledged_write_def Let_def by (auto simp: last_answer_def intro!: exI)
  qed
  then show ?thesis using a(2) n G(2) by simp
qed

text \<open>
  C23: A write of \<open>SyncClusterConnection\<close> (one insert, a remove, a message that is said) that returns
  has been through both phases on every server: first every server has flushed its files, then the
  message has been sent on every connection, then every server has been asked for its last
  error, and its answer, which is kept, says \<open>ok\<close> and tells of a flush.
\<close>

theorem write_in_two_phases:
  assumes "op = sync_insert env ns o' \<and> say = say_built (insert_request ns [o'])
      \<or> op = sync_remove env ns query justOne \<and> say = say_built (remove_request ns query justOne)
      \<or> op = sync_say env m \<and> say = (\<lambda>mo. auto_say mo m)"
    and "op s = (Inr (), s')"
  shows "length (sy_lastErrors s') = length (sy_conns s) \<and> length (sy_conns s') = length (sy_conns s) \<and>
    (\<forall>i < length (sy_conns s). acknowledged_write env i say s s')"
proof -
  have "\<exists>code. two_phase env code (on_all env say) s = (Inr (), s')"
    using assms by (auto simp: sync_insert_def sync_remove_def sync_say_def bind_act_def split: sum.splits)
  then show ?thesis using two_phase_run by blast
qed

section \<open>A write that is refused\<close>

text \<open>What the flush of the first phase gives on connection \<open>j\<close>.\<close>

definition flush_at :: "set_env \<Rightarrow> sync_cluster \<Rightarrow> nat \<Rightarrow> (bool \<times> bytes) res \<times> auto_connection" where
  "flush_at env s j = checked (se_moment env (sy_time s + j)) (simpleCommand ''admin'' ''fsync'') (sy_conns s ! j)"


section \<open>Updates agree\<close>

lemma same_n_Inr:
  "same_n a rs = Inr () \<Longrightarrow> r \<in> set rs \<Longrightarrow> bind_res (mem_field r ''n'') numberInt = Inr a"
  by (induction rs) (auto simp: res_simps)

lemma checkLast_acknowledged: "sync_checkLast env s = (Inr (), s') \<Longrightarrow> r \<in> set (sy_lastErrors s') \<Longrightarrow> acknowledged r = Inr True"
  by (simp add: checkLast_inv all_acknowledged_iff)


section \<open>Reads\<close>

lemma first_answer:
  assumes "k \<le> length (sy_conns s)" and "query_on_active env [k..<length (sy_conns s)] F s = (Inr (i, cu), s')"
  shows "k \<le> i \<and> i < length (sy_conns s) \<and> fst (visit env F k s i) = Inr (Some cu) \<and>
    (\<forall>j. k \<le> j \<and> j < i \<longrightarrow> fst (visit env F k s j) = Inr None \<or> (\<exists>err. fst (visit env F k s j) = Inl err)) \<and>
    (\<forall>j. i < j \<and> j < length (sy_conns s) \<longrightarrow> sy_conns s' ! j = sy_conns s ! j)"
  using assms
proof (induction "length (sy_conns s) - k" arbitrary: k s)
  case (Suc n)
  then have k: "k < length (sy_conns s)" by simp
  let ?t = "stepped env F k s"
  note at = sync_at_run [OF k, of env F]
  show ?case
  proof (cases "\<exists>cu. fst (visit env F k s k) = Inr (Some cu)")
    case True
    then have "i = k" "s' = ?t" "fst (visit env F k s k) = Inr (Some cu)" using Suc.prems(2) at by (auto simp: upt_step [OF k])
    then show ?thesis using k by (auto simp: stepped_def)
  next
    case False
    then have rest: "query_on_active env [Suc k..<length (sy_conns ?t)] F ?t = (Inr (i, cu), s')"
        and here: "fst (visit env F k s k) = Inr None \<or> (\<exists>err. fst (visit env F k s k) = Inl err)"
      using Suc.prems(2) at by (auto simp: upt_step [OF k] split: sum.splits option.splits if_splits)
    have "n = length (sy_conns ?t) - Suc k" "Suc k \<le> length (sy_conns ?t)" using Suc.hyps(2) k by simp_all
    from Suc.hyps(1) [OF this rest]
    have ih: "Suc k \<le> i" "i < length (sy_conns s)" "fst (visit env F (Suc k) ?t i) = Inr (Some cu)"
        "\<forall>j. Suc k \<le> j \<and> j < i \<longrightarrow> fst (visit env F (Suc k) ?t j) = Inr None \<or> (\<exists>err. fst (visit env F (Suc k) ?t j) = Inl err)"
        "\<forall>j. i < j \<and> j < length (sy_conns s) \<longrightarrow> sy_conns s' ! j = sy_conns ?t ! j"
      by auto
    have "fst (visit env F k s j) = Inr None \<or> (\<exists>err. fst (visit env F k s j) = Inl err)" if "k \<le> j" "j < i" for j
      using ih(4) here that by (cases "j = k") auto
    moreover have "sy_conns ?t ! j = sy_conns s ! j" if "i < j" for j using that ih(1) by (simp add: stepped_def)
    ultimately show ?thesis using ih by simp
  qed
qed simp

text \<open>What a query gives on connection \<open>j\<close> when it gets there.\<close>

definition query_at :: "set_env \<Rightarrow> bytes \<Rightarrow> bytes \<Rightarrow> int \<Rightarrow> int \<Rightarrow> bytes option \<Rightarrow> int \<Rightarrow> int \<Rightarrow> sync_cluster \<Rightarrow> nat \<Rightarrow> cursor option res" where
  "query_at env ns query nToReturn nToSkip flds opts batch s j =
     fst (auto_query (se_moment env (sy_time s + j)) ns query nToReturn nToSkip flds opts batch (sy_conns s ! j))"

text \<open>
  C26: A query goes to the first server that answers: the cursor is the one this server gave, all
  before it threw or gave no data, and those behind it have not been touched.
\<close>

theorem first_server_answers:
  assumes "queryOnActive env ns query nToReturn nToSkip flds opts batch s = (Inr (i, cu), s')"
  shows "i < length (sy_conns s) \<and> query_at env ns query nToReturn nToSkip flds opts batch s i = Inr (Some cu) \<and>
    (\<forall>j < i. query_at env ns query nToReturn nToSkip flds opts batch s j = Inr None \<or>
      (\<exists>err. query_at env ns query nToReturn nToSkip flds opts batch s j = Inl err)) \<and>
    (\<forall>j. i < j \<and> j < length (sy_conns s) \<longrightarrow> sy_conns s' ! j = sy_conns s ! j)"
  using first_answer [of 0 s env "\<lambda>mo. auto_query mo ns query nToReturn nToSkip flds opts batch" i cu s'] assms
  by (simp add: queryOnActive_def sync_indices_def query_at_def visit_def)

text \<open>
  Whether a command writes is asked once: after \<open>_lockType\<close> has returned, it returns the same
  value again without sending anything.
\<close>

theorem lock_type_is_remembered:
  assumes "sync_lockType env name s = (Inr t, s')"
  shows "sync_lockType env name s' = (Inr t, s')"
proof (cases "std_find string_less name (sy_lockTypes s)")
  case None
  then obtain s1 where "s' = s1\<lparr>sy_lockTypes := std_put string_less name t (sy_lockTypes s1)\<rparr>"
    using assms by (auto simp: sync_lockType_def bind_act_def split: sum.splits prod.splits)
  then show ?thesis by (simp add: sync_lockType_def string_map.find_put)
qed (use assms in \<open>simp add: sync_lockType_def\<close>)

section \<open>Examples\<close>

text \<open>A server that answers the two commands of a write.\<close>

definition ack :: doc where
  "ack = [(''ok'', VInt 1), (''fsyncFiles'', VInt 1), (''n'', VInt 1)]"

definition sync_conn :: connection where
  "sync_conn =
     \<lparr>cn_port = \<lparr>p_in = wire_bytes (reply_message 1 (reply_batch 9 ack)) @ wire_bytes (reply_message 3 (reply_batch 9 ack)),
        p_out = [], p_up = True, p_next_id = 1, p_piggy = None\<rparr>,
      cn_failed = False, cn_clientSet = False, cn_isntMaster = 0\<rparr>"

definition sync_server :: auto_connection where
  "sync_server = (connection_new True False 1)\<lparr>ac_conn := sync_conn\<rparr>"

definition demo_sync :: "auto_connection list \<Rightarrow> sync_cluster" where
  "demo_sync cs = (sync_empty ''a,b'')\<lparr>sy_conns := cs\<rparr>"

lemma ack_fits: "fits ack"
  by (simp add: ack_def fits_def length_enc_elem)

lemma acknowledged_ack: "acknowledged (enc_doc ack) = Inr True" and n_ack: "bind_res (mem_field (enc_doc ack) ''n'') numberInt = Inr 1"
  unfolding ack_def by code_simp+

lemma connected: "\<not> cn_failed (ac_conn c) \<Longrightarrow> checked mo f c = on_direct f c"
  by (simp add: checked_def check_connection_def bind_act_def)

lemma demo_command_ok: "command_ok ''admin'' [(''fsync'', VInt 1)] 0" "command_ok ''admin'' gle_fsync 0"
  by (simp_all add: gle_fsync_def command_ok_def query_ok_def option_docs_def fits_def has_flag_def length_enc_elem)

lemma sync_server_run:
  assumes "sendable m"
  shows "\<exists>c1 c2 c3. \<forall>mo. checked mo (simpleCommand ''admin'' ''fsync'') sync_server = (Inr (True, enc_doc ack), c1) \<and>
    auto_say mo m c1 = (Inr (), c2) \<and> checked mo (run_doc ''admin'' gle_fsync 0) c2 = (Inr (True, enc_doc ack), c3)"
proof -
  have t: "truth (getField ''ok'' ack)" by (simp add: ack_def truth_def getField_def uchar_def)
  let ?last = "wire_bytes (reply_message 3 (reply_batch 9 ack))"
  have "answers sync_conn 9 ack ?last"
    using ack_fits by (simp add: answers_def sync_conn_def port_ok_def pending_def) (simp add: ack_def)
  from run_doc_run [OF this demo_command_ok(1)] t obtain p where p:
      "simpleCommand ''admin'' ''fsync'' sync_conn = (Inr (True, enc_doc ack), sync_conn\<lparr>cn_port := p\<rparr>)"
      "port_ok p" "p_in p = ?last" "p_next_id p = 2"
    by (auto simp: simpleCommand_def sync_conn_def)
  obtain q p2 where q: "port_say m (- 1) p = (Inr q, p2)" "port_ok p2" "p_in p2 = ?last" "p_next_id p2 = 3"
    using port_say_run [OF p(2) assms, of "- 1"] p(3,4) by auto
  have "answers (sync_conn\<lparr>cn_port := p2\<rparr>) 9 ack []"
    using ack_fits q by (simp add: answers_def sync_conn_def) (simp add: ack_def)
  from run_doc_run [OF this demo_command_ok(2)] t obtain p3 where p3:
      "run_doc ''admin'' gle_fsync 0 (sync_conn\<lparr>cn_port := p2\<rparr>) = (Inr (True, enc_doc ack), sync_conn\<lparr>cn_port := p3\<rparr>)"
    by auto
  have nf: "\<not> cn_failed sync_conn" "\<not> cn_failed (sync_conn\<lparr>cn_port := x\<rparr>)" for x by (simp_all add: sync_conn_def)
  have "conn_say m (sync_conn\<lparr>cn_port := p\<rparr>) = (Inr (), sync_conn\<lparr>cn_port := p2\<rparr>)"
    using q(1) by (simp add: conn_say_def checkConnection_def bind_act_def catching_socket_def) (simp add: sync_conn_def)
  then have "checked mo (simpleCommand ''admin'' ''fsync'') sync_server = (Inr (True, enc_doc ack), sync_server\<lparr>ac_conn := sync_conn\<lparr>cn_port := p\<rparr>\<rparr>) \<and>
      auto_say mo m (sync_server\<lparr>ac_conn := sync_conn\<lparr>cn_port := p\<rparr>\<rparr>) = (Inr (), sync_server\<lparr>ac_conn := sync_conn\<lparr>cn_port := p2\<rparr>\<rparr>) \<and>
      checked mo (run_doc ''admin'' gle_fsync 0) (sync_server\<lparr>ac_conn := sync_conn\<lparr>cn_port := p2\<rparr>\<rparr>) =
        (Inr (True, enc_doc ack), sync_server\<lparr>ac_conn := sync_conn\<lparr>cn_port := p3\<rparr>\<rparr>)" for mo
    using p(1) p3 nf by (simp add: auto_say_def connected on_direct_def sync_server_def)
  then show ?thesis by blast
qed

lemma two_phase_demo:
  assumes "sendable m" and "send = on_all env (\<lambda>mo. auto_say mo m) \<or> send = (\<lambda>s. update_loop env (sync_indices s) (Inr m) s)"
  shows "\<exists>s'. two_phase env code send (demo_sync [sync_server, sync_server]) = (Inr (), s') \<and>
    sy_lastErrors s' = [enc_doc ack, enc_doc ack]"
proof -
  obtain c1 c2 c3 where c: "checked mo (simpleCommand ''admin'' ''fsync'') sync_server = (Inr (True, enc_doc ack), c1)"
      "auto_say mo m c1 = (Inr (), c2)" "checked mo (run_doc ''admin'' gle_fsync 0) c2 = (Inr (True, enc_doc ack), c3)" for mo
    using sync_server_run [OF assms(1)] by blast
  let ?s = "demo_sync [sync_server, sync_server]"
  have ix: "[0..<Suc (Suc 0)] = [0, 1]" by (simp add: upt_rec)
  have p: "sync_prepare env ?s = (Inr True, ?s\<lparr>sy_conns := [c1, c1], sy_time := 2\<rparr>)"
    using c(1) by (simp add: demo_sync_def sync_empty_def sync_prepare_def sync_fsync_def sync_indices_def ix sync_at_def del: upt_Suc)
  have w: "send (?s\<lparr>sy_conns := [c1, c1], sy_time := 2\<rparr>) = (Inr (), ?s\<lparr>sy_conns := [c2, c2], sy_time := 4\<rparr>)"
    using c(2) assms(2)
    by (auto simp: demo_sync_def sync_empty_def on_all_def sync_indices_def ix sync_at_def say_built_def bind_act_def simp del: upt_Suc)
  have "sync_checkLast env (?s\<lparr>sy_conns := [c2, c2], sy_time := 4\<rparr>) =
      (Inr (), ?s\<lparr>sy_conns := [c3, c3], sy_time := 6, sy_lastErrors := [enc_doc ack, enc_doc ack]\<rparr>)"
    using c(3) acknowledged_ack by (simp add: demo_sync_def sync_empty_def checkLast_inv sync_indices_def ix sync_at_def del: upt_Suc)
  then show ?thesis using p w by (auto simp: two_phase_inv)
qed

theorem write_in_two_phases_witness:
  "\<exists>s'. sync_say (demo_env None) (set_data dbInsert []) (demo_sync [sync_server, sync_server]) = (Inr (), s') \<and>
     length (sy_lastErrors s') = 2 \<and>
     acknowledged_write (demo_env None) 1 (\<lambda>mo. auto_say mo (set_data dbInsert [])) (demo_sync [sync_server, sync_server]) s'"
proof -
  let ?m = "set_data dbInsert []" and ?s = "demo_sync [sync_server, sync_server]"
  have "sendable ?m" by (simp add: sendable_def set_data_def MsgDataHeaderSize_def i32_id)
  from two_phase_demo [OF this disjI1 [OF refl]] obtain s' where
      s': "sync_say (demo_env None) ?m ?s = (Inr (), s')" unfolding sync_say_def by blast
  have "length (sy_conns ?s) = 2" by (simp add: demo_sync_def)
  with write_in_two_phases [OF disjI2 [OF disjI2 [OF conjI [OF refl refl]]] s'] s' show ?thesis by simp
qed



theorem lock_type_is_remembered_witness:
  "sync_lockType (demo_env None) ''drop'' ((demo_sync [])\<lparr>sy_lockTypes := [(''drop'', 1)]\<rparr>) =
     (Inr 1, (demo_sync [])\<lparr>sy_lockTypes := [(''drop'', 1)]\<rparr>)"
  by (rule lock_type_is_remembered [where s = "(demo_sync [])\<lparr>sy_lockTypes := [(''drop'', 1)]\<rparr>"])
    (simp add: sync_lockType_def string_map.same_key_refl)

text \<open>A server with one answer to a query.\<close>

definition query_server :: auto_connection where
  "query_server = sync_server\<lparr>ac_conn := sync_conn\<lparr>cn_port := (cn_port sync_conn)\<lparr>p_in := CursorSpec.replies 1 [reply_batch 9 ack]\<rparr>\<rparr>\<rparr>"

theorem first_server_answers_witness:
  "\<exists>cu s'. let s = demo_sync [set_failed True (connection_new False False 1), query_server] in
     queryOnActive (demo_env None) ''db.c'' (enc_doc []) 0 0 None 0 0 s = (Inr (1, cu), s') \<and>
     query_at (demo_env None) ''db.c'' (enc_doc []) 0 0 None 0 0 s 1 = Inr (Some cu)"
proof -
  let ?c = "set_failed True (connection_new False False 1)"
  let ?s = "demo_sync [?c, query_server]"
  have "serves (ac_conn query_server) [reply_batch 9 ack]"
    using reply_batch_ok [OF ack_fits, of 9]
    by (simp add: serves_def query_server_def sync_conn_def port_ok_def pending_def) (simp add: reply_batch_def)
  moreover have "query_ok ''db.c'' [] None 0 0" by (simp add: query_ok_def option_docs_def fits_def has_flag_def enc_docs_def)
  ultimately obtain cu c' where q: "db_query ''db.c'' (enc_doc []) 0 0 None 0 0 (ac_conn query_server) = (Inr (Some cu), c')"
    using db_query_run [of "ac_conn query_server" "[reply_batch 9 ack]" "''db.c''" "[]" None 0 0 0 0] by auto
  have nf: "\<not> cn_failed (ac_conn query_server)" by (simp add: query_server_def sync_conn_def)
  have f: "auto_query (demo_moment 1 None) ''db.c'' (enc_doc []) 0 0 None 0 0 ?c = (Inl SocketExn, ?c)"
    by (simp add: auto_query_def demo_moment_def checked_def check_connection_def bind_act_def may_try_def
        set_failed_def connection_new_def)
  have ix: "[0..<Suc (Suc 0)] = [0, 1]" by (simp add: upt_rec)
  have "\<exists>s'. queryOnActive (demo_env None) ''db.c'' (enc_doc []) 0 0 None 0 0 ?s = (Inr (1, cu), s')"
    using q f
    by (simp add: connected [OF nf] queryOnActive_def sync_indices_def demo_sync_def sync_empty_def ix sync_at_def demo_env_def is_thrown_def
        auto_query_def on_direct_def del: upt_Suc)
  then obtain s' where s': "queryOnActive (demo_env None) ''db.c'' (enc_doc []) 0 0 None 0 0 ?s = (Inr (1, cu), s')" by blast
  from first_server_answers [OF s'] s' show ?thesis by (auto simp: Let_def)
qed

section \<open>Where the code differs from what it means\<close>

text \<open>
  When sending an update throws, the exception that reaches the caller is a plain
  \<open>std::exception\<close>, whatever it was; without a write concern it is lost.
\<close>

lemma update_loses_exception:
  assumes "say_built toSend (se_moment env (sy_time s)) c = (Inl err, c')" and "is_std_exception err" and "sy_conns s = [c]"
  shows "fst (update_loop env [0] toSend s) = (if sy_writeConcern s then Inl StdException else Inr ())"
  using assms by (simp add: sync_at_def)

end
