(* ===== verification/Projection.thy ===== *)
theory Projection
  imports BsonFields CommandSpec StdMap
begin

text \<open>
  \<open>Projection\<close> (db/projection.h and .cpp): which fields of a document a query wants, with
  \<open>$slice\<close> for arrays; and \<open>KeyOnly\<close>, with which an index key alone gives the answer. Documents
  are values; \<open>truth\<close> and \<open>int_of\<close> read a field as \<open>trueValue\<close> and \<open>numberInt\<close> do.
\<close>

section \<open>Specifications\<close>

text \<open>
  The fields of class \<open>Projection\<close>. Each level has a projection for the names below it;
  \<open>source\<close>, \<open>includeID\<close> and \<open>hasNonSimple\<close> are used at the root only.
\<close>

datatype projection = Projection
  (pj_include: bool) (pj_special: bool) (pj_fields: "(bytes \<times> projection) list")
  (pj_source: doc) (pj_includeID: bool) (pj_skip: int) (pj_limit: int) (pj_hasNonSimple: bool)

definition projection_new :: projection where
  "projection_new = Projection True False [] [] True 0 (- 1) False"

fun set_include :: "bool \<Rightarrow> projection \<Rightarrow> projection" where
  "set_include b (Projection i sp fs src iid sk l ns) = Projection b sp fs src iid sk l ns"

fun set_slice :: "int \<Rightarrow> int \<Rightarrow> projection \<Rightarrow> projection" where
  "set_slice sk l (Projection i sp fs src iid _ _ ns) = Projection i sp fs src iid sk l ns"

fun set_special :: "projection \<Rightarrow> projection" where
  "set_special (Projection i _ fs src iid sk l ns) = Projection i True fs src iid sk l ns"

fun set_field :: "bytes \<Rightarrow> projection \<Rightarrow> projection \<Rightarrow> projection" where
  "set_field name q (Projection i sp fs src iid sk l ns) =
     Projection i sp (std_put string_less name q fs) src iid sk l ns"

fun exclude_id :: "projection \<Rightarrow> projection" where
  "exclude_id (Projection i sp fs src _ sk l ns) = Projection i sp fs src False sk l ns"

fun set_nonSimple :: "projection \<Rightarrow> projection" where
  "set_nonSimple (Projection i sp fs src iid sk l _) = Projection i sp fs src iid sk l True"

fun set_source :: "doc \<Rightarrow> projection \<Rightarrow> projection" where
  "set_source src (Projection i sp fs _ iid sk l ns) = Projection i sp fs src iid sk l ns"

text \<open>A name up to its first dot, and what is behind it.\<close>

definition dot_parts :: "bytes \<Rightarrow> bytes \<times> bytes" where
  "dot_parts field = (case split_dot field of Some p \<Rightarrow> p | None \<Rightarrow> (field, []))"

lemma dot_parts_shorter [termination_simp]:
  assumes "field \<noteq> []"
  shows "length (snd (dot_parts field)) < length field"
  using assms split_dot_length [of field] by (auto simp: dot_parts_def split: option.split)

text \<open>The projection for a name, a new one when there is none.\<close>

definition subfield :: "bytes \<Rightarrow> projection \<Rightarrow> projection" where
  "subfield name p = std_ref string_less projection_new name (pj_fields p)"

function add_include :: "bytes \<Rightarrow> bool \<Rightarrow> projection \<Rightarrow> projection" where
  "add_include field include p =
     (if field = [] then set_include include p
      else let name = fst (dot_parts field)
           in set_field name (add_include (snd (dot_parts field)) include (subfield name p)) (set_include (\<not> include) p))"
  by pat_completeness auto
termination by (relation "measure (\<lambda>(field, _, _). length field)") (simp_all add: dot_parts_shorter)

function add_slice :: "bytes \<Rightarrow> int \<Rightarrow> int \<Rightarrow> projection \<Rightarrow> projection" where
  "add_slice field sk l p =
     (if field = [] then set_slice sk l (set_special p)
      else let name = fst (dot_parts field)
           in set_field name (add_slice (snd (dot_parts field)) sk l (subfield name p)) (set_special p))"
  by pat_completeness auto
termination by (relation "measure (\<lambda>(field, _, _, _). length field)") (simp_all add: dot_parts_shorter)

declare add_include.simps [simp del] add_slice.simps [simp del]

section \<open>Reading a specification\<close>

text \<open>The object of a field: \<open>{ $slice: n }\<close> or \<open>{ $slice: [skip, limit] }\<close>. \<open>- i\<close> overflows for the least \<open>i\<close>.\<close>

definition slice_of :: "doc \<Rightarrow> (int \<times> int) res" where
  "slice_of o' =
     (case o' of
        (op, v) # _ \<Rightarrow>
          if strcmp op ''$slice'' = 0 then
            if is_number v then
              bind_res (int_of (Some (op, v))) (\<lambda>i.
                if i < 0 then bind_res (guard (i \<noteq> - (2 ^ 31)) UB) (\<lambda>_. Inr (i, - i)) else Inr (0, i))
            else (case v of
                VArray ys \<Rightarrow>
                  (case ys of
                     [a, b] \<Rightarrow>
                       bind_res (int_of (Some a)) (\<lambda>skip. bind_res (int_of (Some b)) (\<lambda>limit.
                       bind_res (guard (limit > 0) (Uassert 13100)) (\<lambda>_. Inr (skip, limit))))
                   | _ \<Rightarrow> Inl (Uassert 13099))
              | _ \<Rightarrow> Inl (Uassert 13098))
          else Inl (Uassert 13097)
      | [] \<Rightarrow> Inl (Uassert 13097))"

text \<open>The loop of \<open>init\<close>; \<open>tf\<close> is \<open>true_false\<close>, none at first.\<close>

fun init_loop :: "doc \<Rightarrow> bool option \<Rightarrow> projection \<Rightarrow> projection res" where
  "init_loop [] tf p = Inr p"
| "init_loop ((n, v) # es) tf p =
     (let p = (if is_number v then p else set_nonSimple p); b = truth (Some (n, v))
      in case v of
        VObject o' \<Rightarrow> bind_res (slice_of o') (\<lambda>(sk, l). init_loop es tf (add_slice n sk l p))
      | _ \<Rightarrow>
          if strcmp n ''_id'' = 0 \<and> \<not> b then init_loop es tf (exclude_id p)
          else let p = add_include n b p
               in case tf of
                    None \<Rightarrow> init_loop es (Some b) (set_include (\<not> b) p)
                  | Some t \<Rightarrow> bind_res (guard (t = b) (Uassert 10053)) (\<lambda>_. init_loop es tf p))"

definition projection_init :: "doc \<Rightarrow> projection \<Rightarrow> projection res" where
  "projection_init spec p =
     bind_res (guard (pj_source p = []) (Massert 10371)) (\<lambda>_. init_loop spec None (set_source spec p))"

section \<open>Transforming a document\<close>

text \<open>What \<open>appendArray\<close> skips at first; below an array of the array it is called with \<open>nested\<close>.\<close>

definition array_skip :: "projection \<Rightarrow> doc \<Rightarrow> int" where
  "array_skip p a = (if pj_skip p < 0 then max 0 (pj_skip p + int (nFields a)) else pj_skip p)"

fun pj_append :: "projection \<Rightarrow> elem \<Rightarrow> doc"
  and pj_array :: "projection \<Rightarrow> int \<Rightarrow> int \<Rightarrow> nat \<Rightarrow> doc \<Rightarrow> doc" where
  "pj_append p (n, v) =
     (case std_find string_less n (pj_fields p) of
        None \<Rightarrow> if pj_include p then [(n, v)] else []
      | Some sub \<Rightarrow>
          if (pj_fields sub = [] \<and> \<not> pj_special sub) \<or> value_type v \<notin> {Object, Array}
          then if pj_include sub then [(n, v)] else []
          else case v of
             VObject es \<Rightarrow> [(n, VObject (concat (map (pj_append sub) es)))]
           | VArray a \<Rightarrow> [(n, VArray (pj_array sub (array_skip sub a) (pj_limit sub) 0 a))]
           | _ \<Rightarrow> [])"
| "pj_array p skip limit i [] = []"
| "pj_array p skip limit i ((n, v) # es) =
     (if skip \<noteq> 0 then pj_array p (skip - 1) limit i es
      else if limit = 0 then []
      else let limit = (if limit \<noteq> - 1 then limit - 1 else limit)
           in case v of
             VArray a \<Rightarrow> (numStr (int i), VArray (pj_array p 0 (- 1) 0 a)) # pj_array p skip limit (Suc i) es
           | VObject o' \<Rightarrow> (numStr (int i), VObject (concat (map (pj_append p) o'))) # pj_array p skip limit (Suc i) es
           | _ \<Rightarrow> if pj_include p then (numStr (int i), v) # pj_array p skip limit (Suc i) es
                  else pj_array p skip limit i es)"

declare pj_append.simps [simp del]

definition transform :: "projection \<Rightarrow> doc \<Rightarrow> doc" where
  "transform p d =
     concat (map (\<lambda>(n, v). if strcmp ''_id'' n = 0 then (if pj_includeID p then [(n, v)] else []) else pj_append p (n, v)) d)"

section \<open>Answers from an index key\<close>

record key_only =
  ko_include :: "bool list"
  ko_names :: "bytes list"
  ko_stringSize :: int

definition key_only_new :: key_only where
  "key_only_new = \<lparr>ko_include = [], ko_names = [], ko_stringSize = 0\<rparr>"

definition ko_add :: "bool \<Rightarrow> bytes \<Rightarrow> key_only \<Rightarrow> key_only" where
  "ko_add b name k =
     k\<lparr>ko_include := ko_include k @ [b], ko_names := ko_names k @ [name], ko_stringSize := ko_stringSize k + int (length name)\<rparr>"

definition addNo :: "key_only \<Rightarrow> key_only" where
  "addNo = ko_add False []"

definition addYes :: "bytes \<Rightarrow> key_only \<Rightarrow> key_only" where
  "addYes name = ko_add True name"

text \<open>The loop over the key pattern, \<open>got\<close> fields of the specification so far.\<close>

fun key_loop :: "projection \<Rightarrow> doc \<Rightarrow> int \<Rightarrow> key_only \<Rightarrow> (int \<times> key_only) option" where
  "key_loop p [] got k = Some (got, k)"
| "key_loop p ((n, _) # ks) got k =
     (if getField n (pj_source p) \<noteq> None then
        if CHR ''.'' \<in> set n then None
        else if \<not> pj_includeID p \<and> strcmp n ''_id'' = 0 then key_loop p ks got (addNo k)
        else key_loop p ks (got + 1) (addYes n k)
      else if strcmp ''_id'' n = 0 \<and> pj_includeID p then key_loop p ks got (addYes ''_id'' k)
      else key_loop p ks got (addNo k))"

definition checkKey :: "projection \<Rightarrow> doc \<Rightarrow> key_only option" where
  "checkKey p keyPattern =
     (if pj_include p \<or> pj_hasNonSimple p \<or> (pj_includeID p \<and> getField ''_id'' keyPattern = None) then None
      else case key_loop p keyPattern 0 key_only_new of
             None \<Rightarrow> None
           | Some (got, k) \<Rightarrow>
               if got = int (nFields (pj_source p)) - (if pj_includeID p then 0 else 1) then Some k else None)"

fun hydrate_loop :: "key_only \<Rightarrow> nat \<Rightarrow> doc \<Rightarrow> doc res" where
  "hydrate_loop k n [] = Inr []"
| "hydrate_loop k n ((_, v) # key) =
     bind_res (guard (n < length (ko_include k)) AssertFail) (\<lambda>_.
     bind_res (hydrate_loop k (Suc n) key) (\<lambda>d. Inr (if ko_include k ! n then (ko_names k ! n, v) # d else d)))"

definition hydrate :: "key_only \<Rightarrow> doc \<Rightarrow> doc res" where
  "hydrate k key =
     bind_res (guard (length (ko_include k) = length (ko_names k)) AssertFail) (\<lambda>_. hydrate_loop k 0 key)"

end
