(* ===== verification/IndexKeys.thy ===== *)
theory IndexKeys
  imports Projection
begin

text \<open>
  Index keys (db/indexkey.h and .cpp): which keys a document has in an index. A field that is an
  array gives a key for each of its values; only one array can be expanded. The code of index
  plugins is not in the repository: a plugin is an argument.
\<close>

datatype suitability = USELESS | HELPFUL | OPTIMAL

text \<open>What a plugin generates for a specification; \<open>suitability\<close> is \<open>None\<close> unless overridden.\<close>

record index_type =
  it_name :: bytes
  it_getKeys :: "doc \<Rightarrow> doc list \<Rightarrow> doc list res"
  it_suitability :: "(doc \<Rightarrow> doc \<Rightarrow> suitability res) option"

type_synonym index_plugins = "bytes \<rightharpoonup> (doc \<Rightarrow> doc \<Rightarrow> index_type)"

text \<open>\<open>_fixed\<close> holds the values found so far, at first the EOO element.\<close>

record index_spec =
  sp_keyPattern :: doc
  sp_info :: doc
  sp_nFields :: nat
  sp_sparse :: bool
  sp_fieldNames :: "bytes list"
  sp_fixed :: "bson_value option list"
  sp_nullKey :: doc
  sp_type :: "index_type option"

section \<open>Specifications\<close>

definition findPluginName_step :: "elem \<Rightarrow> bytes \<Rightarrow> bytes res" where
  "findPluginName_step e name =
     (case snd e of
        VString s \<Rightarrow> bind_res (guard (name = [] \<or> name = cstr s) (Uassert 13007)) (\<lambda>_. Inr (cstr s))
      | _ \<Rightarrow> Inr name)"

definition findPluginName :: "doc \<Rightarrow> bytes res" where
  "findPluginName keyPattern = seq_res (map findPluginName_step keyPattern) []"

definition index_spec_new :: "index_plugins \<Rightarrow> doc \<Rightarrow> doc \<Rightarrow> index_spec res" where
  "index_spec_new plugins k m =
     (let sparse = truth (getField ''sparse'' m)
      in bind_res (guard (\<not> sparse \<or> nFields k \<noteq> 0) (Uassert 13529)) (\<lambda>_.
         bind_res (findPluginName k) (\<lambda>name.
           Inr \<lparr>sp_keyPattern = k, sp_info = m, sp_nFields = nFields k, sp_sparse = sparse, sp_fieldNames = map fst k,
                sp_fixed = map (\<lambda>_. None) k, sp_nullKey = map (\<lambda>_. ('''', VNull)) k,
                sp_type = (if name = [] then None else map_option (\<lambda>g. g k m) (plugins name))\<rparr>)))"

definition getTypeName :: "index_spec \<Rightarrow> bytes" where
  "getTypeName sp = (case sp_type sp of Some t \<Rightarrow> it_name t | None \<Rightarrow> [])"

section \<open>Keys\<close>

text \<open>
  The pointer \<open>rawdata\<close> of the element that \<open>getFieldDottedOrArray\<close> found: in one object it is
  determined by the part of the name that was used up.
\<close>

definition found_at :: "bytes \<Rightarrow> bytes \<Rightarrow> bytes" where
  "found_at name rest =
     (let c = take (length name - length rest) name in if c \<noteq> [] \<and> last c = CHR ''.'' then butlast c else c)"

text \<open>
  The first loop of \<open>_getKeys\<close>: for every name what is left of it and its value, the one array to
  expand (its index, its place, its elements), and how many were not found.
\<close>

fun scan_fields :: "doc \<Rightarrow> nat \<Rightarrow> (bytes \<times> bson_value option) list \<Rightarrow> (nat \<times> bytes \<times> doc) option \<Rightarrow>
    ((bytes \<times> bson_value option) list \<times> (nat \<times> bytes \<times> doc) option \<times> nat) res" where
  "scan_fields d i [] ae = Inr ([], ae, 0)"
| "scan_fields d i ((name, fx) # fs) ae =
     (if name = [] then bind_res (scan_fields d (Suc i) fs ae) (\<lambda>(gs, ae, k). Inr (([], fx) # gs, ae, k))
      else case getFieldDottedOrArray name d of
        (None, _) \<Rightarrow> bind_res (scan_fields d (Suc i) fs ae) (\<lambda>(gs, ae, k). Inr (([], Some VNull) # gs, ae, Suc k))
      | (Some (_, v), rest) \<Rightarrow>
          (case v of
             VArray es \<Rightarrow>
               (let at = found_at name rest; fx = (if rest = [] then Some v else fx)
                in bind_res (guard (case ae of None \<Rightarrow> True | Some (_, at', _) \<Rightarrow> at = at') (Uassert 10088)) (\<lambda>_.
                   bind_res (scan_fields d (Suc i) fs (if ae = None then Some (i, at, es) else ae)) (\<lambda>(gs, ae, k).
                     Inr ((rest, fx) # gs, ae, k))))
           | _ \<Rightarrow> bind_res (scan_fields d (Suc i) fs ae) (\<lambda>(gs, ae, k). Inr (([], Some v) # gs, ae, k))))"

text \<open>\<open>appendAs\<close> asserts that it does not get the EOO element.\<close>

fun key_of :: "bson_value option list \<Rightarrow> doc res" where
  "key_of [] = Inr []"
| "key_of (x # xs) = (case x of None \<Rightarrow> Inl AssertFail | Some v \<Rightarrow> bind_res (key_of xs) (\<lambda>k. Inr (('''', v) # k)))"

definition undefined_key :: "nat \<Rightarrow> bson_value option list \<Rightarrow> doc" where
  "undefined_key i xs =
     map (\<lambda>x. ('''', case x of None \<Rightarrow> VNull | Some v \<Rightarrow> v)) (xs[i := Some VUndefined])"

text \<open>\<open>BSONObjSetDefaultOrder\<close>.\<close>

definition key_less :: "doc \<Rightarrow> doc \<Rightarrow> bool" where
  "key_less l r = (case woCompare True [] l r of Inr x \<Rightarrow> x < 0 | Inl _ \<Rightarrow> False)"

definition key_insert :: "doc \<Rightarrow> doc list \<Rightarrow> doc list" where
  "key_insert = ord_insert key_less"

fun expand_array :: "bson_value option list \<Rightarrow> nat \<Rightarrow> doc \<Rightarrow> doc list \<Rightarrow> doc list res" where
  "expand_array xs i [] keys = Inr keys"
| "expand_array xs i ((_, v) # es) keys =
     bind_res (key_of (xs[i := Some v])) (\<lambda>k. expand_array xs i es (key_insert k keys))"

text \<open>The array that is expanded is a part of the document.\<close>

lemma found_smaller:
  "getFieldDottedOrArray name d = (Some (n, v), rest) \<Longrightarrow> size v < Suc (size_list (size_prod (\<lambda>_. 0) size) d)"
proof (induction name d rule: getFieldDottedOrArray.induct)
  case (1 name d)
  have mem: "getField m d = Some (k, w) \<Longrightarrow> size w < Suc (size_list (size_prod (\<lambda>_. 0) size) d)" for m k w
    by (rule size_field [of k]) (metis getField_def find_Some_iff nth_mem)
  from 1 show ?case
    by (subst (asm) (2) getFieldDottedOrArray.simps)
      (fastforce simp: Let_def dest: mem split: option.splits prod.splits if_splits bson_value.splits)
qed

lemma scan_smaller:
  "scan_fields d i fs ae = Inr (gs, Some (j, q, es), k) \<Longrightarrow>
    ae = Some (j, q, es) \<or> size_list (size_prod (\<lambda>_. 0) size) es < size_list (size_prod (\<lambda>_. 0) size) d"
proof (induction fs arbitrary: i ae gs k)
  case (Cons p fs)
  obtain name fx where p: "p = (name, fx)" by (cases p)
  show ?case
  proof (cases "name = []")
    case True
    then show ?thesis using Cons p by (auto simp: bind_res_Inr)
  next
    case False
    obtain f rest where f: "getFieldDottedOrArray name d = (f, rest)" by (cases "getFieldDottedOrArray name d")
    show ?thesis
    proof (cases f)
      case None
      then show ?thesis using Cons False f p by (auto simp: bind_res_Inr)
    next
      case (Some e)
      obtain n v where e: "e = (n, v)" by (cases e)
      show ?thesis
      proof (cases "\<exists>as. v = VArray as")
        case True
        then obtain as where v: "v = VArray as" by blast
        have "size_list (size_prod (\<lambda>_. 0) size) as < size_list (size_prod (\<lambda>_. 0) size) d"
          using found_smaller [of name d n v rest] f Some e v by simp
        then show ?thesis
          using Cons.IH [of "Suc i"] Cons.prems False f Some e v p
          by (fastforce simp: bind_res_Inr Let_def split: if_splits option.splits)
      next
        case other: False
        then have "\<exists>gs' k'. scan_fields d (Suc i) fs ae = Inr (gs', Some (j, q, es), k')"
          using Cons.prems False f Some e p by (cases v) (auto simp: bind_res_Inr)
        then show ?thesis using Cons.IH by blast
      qed
    qed
  qed
qed simp

text \<open>\<open>_getKeys\<close>, and its loop over the elements of an array that is not at the end of a name.\<close>

function index_keys :: "bool \<Rightarrow> nat \<Rightarrow> (bytes \<times> bson_value option) list \<Rightarrow> doc \<Rightarrow> doc list \<Rightarrow> doc list res"
  and elements_keys :: "bool \<Rightarrow> nat \<Rightarrow> (bytes \<times> bson_value option) list \<Rightarrow> doc \<Rightarrow> doc list \<Rightarrow> doc list res" where
  "index_keys sparse n fs d keys =
     (case scan_fields d 0 fs None of
        Inl err \<Rightarrow> Inl err
      | Inr (fs, ae, k) \<Rightarrow>
          if sparse \<and> k = n then Inr keys
          else if list_all (\<lambda>f. fst f = []) fs then
            (case ae of
               None \<Rightarrow> bind_res (key_of (map snd fs)) (\<lambda>key. Inr (key_insert key keys))
             | Some (i, _, es) \<Rightarrow>
                 if es \<noteq> [] then expand_array (map snd fs) i es keys
                 else if length fs > 1 then Inr (key_insert (undefined_key i (map snd fs)) keys)
                 else Inr keys)
          else (case ae of
               None \<Rightarrow> Inl AssertFail
             | Some (i, _, es) \<Rightarrow>
                 if es \<noteq> [] then elements_keys sparse n fs es keys
                 else Inr (key_insert (undefined_key i (map snd fs)) keys)))"
| "elements_keys sparse n fs [] keys = Inr keys"
| "elements_keys sparse n fs ((_, v) # es) keys =
     (case v of
        VObject o' \<Rightarrow>
          (case index_keys sparse n fs o' keys of
             Inl err \<Rightarrow> Inl err
           | Inr keys \<Rightarrow> elements_keys sparse n fs es keys)
      | _ \<Rightarrow> elements_keys sparse n fs es keys)"
  by pat_completeness auto
termination
  by (relation "measure (\<lambda>x. case x of
        Inl (_, _, _, d, _) \<Rightarrow> Suc (size_list (size_prod (\<lambda>_. 0) size) d)
      | Inr (_, _, _, es, _) \<Rightarrow> Suc (size_list (size_prod (\<lambda>_. 0) size) es))")
    (auto dest: scan_smaller)

declare index_keys.simps [simp del]

definition getKeys :: "index_spec \<Rightarrow> doc \<Rightarrow> doc list \<Rightarrow> doc list res" where
  "getKeys sp d keys =
     (case sp_type sp of
        Some t \<Rightarrow> it_getKeys t d keys
      | None \<Rightarrow>
          bind_res (index_keys (sp_sparse sp) (sp_nFields sp) (zip (sp_fieldNames sp) (sp_fixed sp)) d keys) (\<lambda>keys.
            Inr (if keys = [] \<and> \<not> sp_sparse sp then key_insert (sp_nullKey sp) keys else keys)))"

section \<open>Suitability\<close>

fun name_matches :: "bytes \<Rightarrow> doc \<Rightarrow> bool res" where
  "name_matches n [] = Inr False"
| "name_matches n ((m, _) # fs) =
     bind_res (compareDottedFieldNames n m) (\<lambda>c.
       if c \<in> {SAME, LEFT_SUBFIELD, RIGHT_SUBFIELD} then Inr True else name_matches n fs)"

fun anyElementNamesMatch :: "doc \<Rightarrow> doc \<Rightarrow> bool res" where
  "anyElementNamesMatch [] b = Inr False"
| "anyElementNamesMatch ((n, _) # es) b =
     bind_res (name_matches n b) (\<lambda>m. if m then Inr True else anyElementNamesMatch es b)"

definition own_suitability :: "index_spec \<Rightarrow> doc \<Rightarrow> doc \<Rightarrow> suitability res" where
  "own_suitability sp query order =
     bind_res (anyElementNamesMatch (sp_keyPattern sp) query) (\<lambda>q.
       if q then Inr HELPFUL
       else bind_res (anyElementNamesMatch (sp_keyPattern sp) order) (\<lambda>o'. Inr (if o' then HELPFUL else USELESS)))"

definition spec_suitability :: "index_spec \<Rightarrow> doc \<Rightarrow> doc \<Rightarrow> suitability res" where
  "spec_suitability sp query order =
     (case sp_type sp of
        Some t \<Rightarrow> (case it_suitability t of Some f \<Rightarrow> f query order | None \<Rightarrow> own_suitability sp query order)
      | None \<Rightarrow> own_suitability sp query order)"

definition type_compare :: "index_spec \<Rightarrow> doc \<Rightarrow> doc \<Rightarrow> int res" where
  "type_compare sp l r = woCompare True (sp_keyPattern sp) l r"

definition scanAndOrderRequired :: "doc \<Rightarrow> doc \<Rightarrow> bool" where
  "scanAndOrderRequired query order \<longleftrightarrow> order \<noteq> []"

end
