(* ===== verification/ProjectionSpec.thy ===== *)
theory ProjectionSpec
  imports Projection
begin

text \<open>
  What a projection keeps. A specification without operators and without dots is a filter on the
  fields of a document (\<open>wanted\<close>); \<open>$slice\<close> cuts the values of an array; an index key that
  \<open>checkKey\<close> accepts holds the fields that the transformed document has.
\<close>

section \<open>Maps of names\<close>

lemma list_cmp_uchar_0: "list_cmp (\<lambda>x y. uchar x - uchar y) a b = 0 \<longleftrightarrow> a = b"
  by (induction "\<lambda>x y. uchar x - uchar y" a b rule: list_cmp.induct) auto

lemma same_name [simp]: "string_map.same_key a b \<longleftrightarrow> a = b"
  using three_way.cmp_antisym [OF bytes_three_way, of a b] list_cmp_uchar_0 [of a b]
  by (auto simp: string_map.same_key_def string_less_def sgn_if split: if_splits)

section \<open>Adding names\<close>

lemma projection_sel [simp]:
  "pj_include (set_include b p) = b" "pj_special (set_include b p) = pj_special p" "pj_fields (set_include b p) = pj_fields p"
  "pj_include (set_field n q p) = pj_include p" "pj_fields (set_field n q p) = std_put string_less n q (pj_fields p)"
  "pj_include (exclude_id p) = pj_include p" "pj_fields (exclude_id p) = pj_fields p"
  "pj_include (set_nonSimple p) = pj_include p" "pj_fields (set_nonSimple p) = pj_fields p"
  "pj_include (set_source s p) = pj_include p" "pj_fields (set_source s p) = pj_fields p"
  "pj_includeID (set_include b p) = pj_includeID p" "pj_includeID (set_field n q p) = pj_includeID p"
  "pj_includeID (exclude_id p) = False" "pj_includeID (set_nonSimple p) = pj_includeID p" "pj_includeID (set_source s p) = pj_includeID p"
  "pj_source (set_include b p) = pj_source p" "pj_source (set_field n q p) = pj_source p"
  "pj_source (exclude_id p) = pj_source p" "pj_source (set_nonSimple p) = pj_source p" "pj_source (set_source s p) = s"
  "pj_hasNonSimple (set_include b p) = pj_hasNonSimple p" "pj_hasNonSimple (set_field n q p) = pj_hasNonSimple p"
  "pj_hasNonSimple (exclude_id p) = pj_hasNonSimple p" "pj_hasNonSimple (set_nonSimple p)" "pj_hasNonSimple (set_source s p) = pj_hasNonSimple p"
  by (cases p, simp)+

lemma projection_new_sel [simp]:
  "pj_include projection_new" "\<not> pj_special projection_new" "pj_fields projection_new = []" "pj_source projection_new = []"
  "pj_includeID projection_new" "pj_skip projection_new = 0" "pj_limit projection_new = - 1" "\<not> pj_hasNonSimple projection_new"
  by (simp_all add: projection_new_def)

lemma dot_parts_plain [simp]: "CHR ''.'' \<notin> set n \<Longrightarrow> dot_parts n = (n, [])"
  by (simp add: dot_parts_def split_dot_None [THEN iffD2])

lemma add_include_plain:
  "n \<noteq> [] \<Longrightarrow> CHR ''.'' \<notin> set n \<Longrightarrow>
    add_include n b p = set_field n (set_include b (subfield n p)) (set_include (\<not> b) p)"
  by (subst add_include.simps) (simp add: add_include.simps [of "[]"])

section \<open>Specifications without operators\<close>

text \<open>A field of the specification that names a field of the document, without dots.\<close>

definition plain_field :: "elem \<Rightarrow> bool" where
  "plain_field e \<longleftrightarrow> fst e \<noteq> [] \<and> CHR ''.'' \<notin> set (fst e) \<and> NUL \<notin> set (fst e) \<and> \<not> is_object (snd e)"

definition drops_id :: "elem \<Rightarrow> bool" where
  "drops_id e \<longleftrightarrow> fst e = ''_id'' \<and> \<not> truth (Some e)"

text \<open>The fields of the specification that name fields to include or to exclude.\<close>

definition listed :: "doc \<Rightarrow> doc" where
  "listed spec = filter (\<lambda>e. \<not> drops_id e) spec"

text \<open>The document that a plain specification asks for.\<close>

definition wanted :: "doc \<Rightarrow> doc \<Rightarrow> doc" where
  "wanted spec d =
     filter (\<lambda>(n, v).
       if n = ''_id'' then \<not> (\<exists>e \<in> set spec. drops_id e)
       else case listed spec of [] \<Rightarrow> True | e # _ \<Rightarrow> (n \<in> fst ` set (listed spec)) = truth (Some e)) d"

text \<open>A level that has exactly the names of \<open>A\<close> below it, all to include (or all to exclude).\<close>

definition plain_level :: "bool \<Rightarrow> bytes set \<Rightarrow> projection \<Rightarrow> bool" where
  "plain_level b A p \<longleftrightarrow> pj_include p = (\<not> b) \<and>
     (\<forall>n. case std_find string_less n (pj_fields p) of
        None \<Rightarrow> n \<notin> A
      | Some q \<Rightarrow> n \<in> A \<and> pj_fields q = [] \<and> \<not> pj_special q \<and> pj_include q = b)"

lemma plain_level_add:
  assumes "n \<noteq> []" and "CHR ''.'' \<notin> set n"
    and "plain_level b A p \<or> A = {} \<and> pj_fields p = []"
  shows "plain_level b (insert n A) (add_include n b p)"
proof -
  have none: "m \<notin> A" if "std_find string_less m (pj_fields p) = None" for m
    using assms(3) that by (auto simp: plain_level_def dest: spec [of _ m])
  have some: "m \<in> A \<and> pj_fields q = [] \<and> \<not> pj_special q \<and> pj_include q = b" if "std_find string_less m (pj_fields p) = Some q" for m q
    using assms(3) that by (auto simp: plain_level_def dest: spec [of _ m])
  have sub: "pj_fields (subfield n p) = [] \<and> \<not> pj_special (subfield n p)"
    using some [of n] by (simp add: subfield_def std_ref_def split: option.split)
  show ?thesis
    using none some sub assms(1,2)
    by (simp add: plain_level_def add_include_plain string_map.find_put split: option.split)
qed

lemma init_loop_plain:
  assumes "\<not> is_object v"
  shows "init_loop ((n, v) # es) tf p =
    (let p = (if is_number v then p else set_nonSimple p); b = truth (Some (n, v))
     in if strcmp n ''_id'' = 0 \<and> \<not> b then init_loop es tf (exclude_id p)
        else case tf of
               None \<Rightarrow> init_loop es (Some b) (set_include (\<not> b) (add_include n b p))
             | Some t \<Rightarrow> bind_res (guard (t = b) (Uassert 10053)) (\<lambda>_. init_loop es tf (add_include n b p)))"
  using assms unfolding init_loop.simps Let_def
  by (cases v) (simp_all only: bson_value.case is_object_def value_type.simps simp_thms)

text \<open>What the rest of the loop makes of a level, when it has decided for \<open>t\<close>.\<close>

definition read_as :: "bool \<Rightarrow> bytes set \<Rightarrow> bool \<Rightarrow> doc \<Rightarrow> projection res \<Rightarrow> bool" where
  "read_as t A iid spec r \<longleftrightarrow>
     (case r of
        Inl err \<Rightarrow> err = Uassert 10053 \<and> \<not> (\<forall>e \<in> set (listed spec). truth (Some e) = t)
      | Inr q \<Rightarrow> (\<forall>e \<in> set (listed spec). truth (Some e) = t) \<and> plain_level t (A \<union> fst ` set (listed spec)) q \<and>
          pj_includeID q = (iid \<and> \<not> (\<exists>e \<in> set spec. drops_id e)))"

lemma read_as_drop: "drops_id e \<Longrightarrow> read_as t A False spec r \<Longrightarrow> read_as t A iid (e # spec) r"
  by (cases r) (simp_all add: read_as_def listed_def)

lemma read_as_add: "\<not> drops_id e \<Longrightarrow> truth (Some e) = t \<Longrightarrow> read_as t (insert (fst e) A) iid spec r \<Longrightarrow> read_as t A iid (e # spec) r"
  by (cases r) (simp_all add: read_as_def listed_def)

lemma read_as_mixed: "\<not> drops_id e \<Longrightarrow> truth (Some e) \<noteq> t \<Longrightarrow> read_as t A iid (e # spec) (Inl (Uassert 10053))"
  by (simp add: read_as_def listed_def)

lemma plain_loop:
  "list_all plain_field spec \<Longrightarrow> plain_level t A p \<Longrightarrow> read_as t A (pj_includeID p) spec (init_loop spec (Some t) p)"
proof (induction spec arbitrary: A p)
  case (Cons e spec)
  obtain n v where e: "e = (n, v)" by (cases e)
  have n: "n \<noteq> []" "CHR ''.'' \<notin> set n" "NUL \<notin> set n" "\<not> is_object v" using Cons.prems(1) e by (simp_all add: plain_field_def)
  obtain p' where p': "p' = (if is_number v then p else set_nonSimple p)" by blast
  have p: "plain_level t A p'" "pj_includeID p' = pj_includeID p" using Cons.prems(2) p' by (simp_all add: plain_level_def)
  have id: "strcmp n ''_id'' = 0 \<longleftrightarrow> n = ''_id''" using n(3) by (simp add: strcmp_eq_0_plain)
  have rest: "list_all plain_field spec" using Cons.prems(1) by simp
  have run: "init_loop (e # spec) (Some t) p =
      (if drops_id e then init_loop spec (Some t) (exclude_id p')
       else bind_res (guard (t = truth (Some e)) (Uassert 10053)) (\<lambda>_. init_loop spec (Some t) (add_include n (truth (Some e)) p')))"
    unfolding e init_loop_plain [OF n(4)] using id p' by (simp only: Let_def drops_id_def option.case fst_conv)
  show ?case
  proof (cases "drops_id e")
    case True
    have "plain_level t A (exclude_id p')" using p(1) by (simp add: plain_level_def)
    from read_as_drop [OF True Cons.IH [OF rest this, simplified]] show ?thesis using run True by simp
  next
    case drop: False
    show ?thesis
    proof (cases "truth (Some e) = t")
      case True
      have a: "plain_level t (insert n A) (add_include n t p')" using plain_level_add n p(1) by blast
      have "pj_includeID (add_include n t p') = pj_includeID p" using n p(2) by (simp add: add_include_plain)
      with read_as_add [OF drop True] Cons.IH [OF rest a] show ?thesis using run drop True e by simp
    next
      case False
      then have "init_loop (e # spec) (Some t) p = Inl (Uassert 10053)" using run drop by (auto simp: eq_commute)
      then show ?thesis using read_as_mixed [OF drop False] by simp
    qed
  qed
qed (simp add: read_as_def listed_def)

text \<open>The loop from its start, before it has decided.\<close>

definition read_first :: "bool \<Rightarrow> doc \<Rightarrow> projection res \<Rightarrow> bool" where
  "read_first iid spec r \<longleftrightarrow>
     (case listed spec of
        [] \<Rightarrow> \<exists>q. r = Inr q \<and> pj_fields q = [] \<and> pj_include q \<and> pj_includeID q = (iid \<and> \<not> (\<exists>e \<in> set spec. drops_id e))
      | e # _ \<Rightarrow> read_as (truth (Some e)) {} iid spec r)"

lemma read_first_drop: "drops_id e \<Longrightarrow> read_first False spec r \<Longrightarrow> read_first iid (e # spec) r"
  using read_as_drop [of e _ "{}" spec r iid] by (auto simp: read_first_def listed_def split: list.splits)

lemma plain_start:
  "list_all plain_field spec \<Longrightarrow> pj_fields p = [] \<Longrightarrow> pj_include p \<Longrightarrow> read_first (pj_includeID p) spec (init_loop spec None p)"
proof (induction spec arbitrary: p)
  case (Cons e spec)
  obtain n v where e: "e = (n, v)" by (cases e)
  have n: "n \<noteq> []" "CHR ''.'' \<notin> set n" "NUL \<notin> set n" "\<not> is_object v" using Cons.prems(1) e by (simp_all add: plain_field_def)
  obtain p' where p': "p' = (if is_number v then p else set_nonSimple p)" by blast
  have p: "pj_fields p' = []" "pj_include p'" "pj_includeID p' = pj_includeID p" using Cons.prems(2,3) p' by simp_all
  have id: "strcmp n ''_id'' = 0 \<longleftrightarrow> n = ''_id''" using n(3) by (simp add: strcmp_eq_0_plain)
  have rest: "list_all plain_field spec" using Cons.prems(1) by simp
  let ?t = "truth (Some e)"
  have run: "init_loop (e # spec) None p =
      (if drops_id e then init_loop spec None (exclude_id p')
       else init_loop spec (Some ?t) (set_include (\<not> ?t) (add_include n ?t p')))"
    unfolding e init_loop_plain [OF n(4)] using id p' by (simp only: Let_def drops_id_def option.case fst_conv)
  show ?case
  proof (cases "drops_id e")
    case True
    have "pj_fields (exclude_id p') = []" "pj_include (exclude_id p')" using p by simp_all
    from read_first_drop [OF True Cons.IH [OF rest this, simplified]] show ?thesis using run True by simp
  next
    case False
    have "plain_level ?t (insert n {}) (add_include n ?t p')" using plain_level_add n p(1) by blast
    then have "plain_level ?t {n} (set_include (\<not> ?t) (add_include n ?t p'))" by (simp add: plain_level_def)
    from plain_loop [OF rest this] have "read_as ?t (insert (fst e) {}) (pj_includeID p) spec (init_loop (e # spec) None p)"
      using run False n p(3) e by (simp add: add_include_plain)
    from read_as_add [OF False refl this] show ?thesis using False by (simp add: read_first_def listed_def)
  qed
qed (simp add: read_first_def listed_def)

section \<open>Plain specifications are filters\<close>

definition names_ok :: "doc \<Rightarrow> bool" where
  "names_ok d \<longleftrightarrow> list_all (\<lambda>e. NUL \<notin> set (fst e)) d"

lemma concat_singletons: "concat (map (\<lambda>x. if P x then [x] else []) xs) = filter P xs"
  by (induction xs) simp_all

lemma append_plain:
  "plain_level t A q \<Longrightarrow> pj_append q (n, v) = (if (n \<in> A) = t then [(n, v)] else [])"
  "pj_fields q = [] \<Longrightarrow> pj_include q \<Longrightarrow> pj_append q (n, v) = [(n, v)]"
  by (auto simp: plain_level_def pj_append.simps dest: spec [of _ n] split: option.splits)

lemma transform_filter:
  assumes "names_ok d" and "\<And>n v. n \<noteq> ''_id'' \<Longrightarrow> pj_append q (n, v) = (if P n then [(n, v)] else [])"
  shows "transform q d = filter (\<lambda>(n, v). if n = ''_id'' then pj_includeID q else P n) d"
proof -
  have "(case e of (n, v) \<Rightarrow> if strcmp ''_id'' n = 0 then if pj_includeID q then [(n, v)] else [] else pj_append q (n, v)) =
      (if (case e of (n, v) \<Rightarrow> if n = ''_id'' then pj_includeID q else P n) then [e] else [])" if "e \<in> set d" for e
  proof -
    obtain n v where e: "e = (n, v)" by (cases e)
    have "NUL \<notin> set n" using that assms(1) e by (auto simp: names_ok_def list_all_iff)
    then have "strcmp ''_id'' n = 0 \<longleftrightarrow> n = ''_id''" by (auto simp: strcmp_eq_0_plain)
    then show ?thesis using assms(2) [of n v] e by simp
  qed
  then show ?thesis by (simp add: transform_def concat_singletons [symmetric] cong: map_cong)
qed

text \<open>
  C28: A specification without operators and dotted names is a filter: it is refused exactly when
  it mixes including and excluding, and otherwise keeps of a document the fields it lists, or
  all but those, and \<open>_id\<close> unless it says no.
\<close>

theorem plain_projection:
  assumes "list_all plain_field spec"
  shows "case projection_init spec projection_new of
      Inl err \<Rightarrow> err = Uassert 10053 \<and> (\<exists>e \<in> set (listed spec). \<exists>e' \<in> set (listed spec). truth (Some e) \<and> \<not> truth (Some e'))
    | Inr p \<Rightarrow> (\<forall>d. names_ok d \<longrightarrow> transform p d = wanted spec d)"
proof -
  have r: "read_first True spec (projection_init spec projection_new)"
    using plain_start [OF assms, of "set_source spec projection_new"] by (simp add: projection_init_def)
  show ?thesis
  proof (cases "listed spec")
    case Nil
    then obtain q where q: "projection_init spec projection_new = Inr q" "pj_fields q = []" "pj_include q"
        "pj_includeID q = (\<not> (\<exists>e \<in> set spec. drops_id e))"
      using r by (auto simp: read_first_def)
    have "transform q d = wanted spec d" if "names_ok d" for d
      using transform_filter [OF that, of q "\<lambda>_. True"] append_plain(2) [OF q(2,3)] q(4) Nil by (simp add: wanted_def cong: if_cong)
    then show ?thesis using q(1) by simp
  next
    case (Cons e es)
    then have r: "read_as (truth (Some e)) {} True spec (projection_init spec projection_new)" using r by (simp add: read_first_def)
    show ?thesis
    proof (cases "projection_init spec projection_new")
      case (Inl err)
      then show ?thesis using r Cons by (cases "truth (Some e)") (auto simp: read_as_def)
    next
      case (Inr q)
      then have q: "plain_level (truth (Some e)) (fst ` set (listed spec)) q" "pj_includeID q = (\<not> (\<exists>e \<in> set spec. drops_id e))"
        using r by (simp_all add: read_as_def)
      have "transform q d = wanted spec d" if "names_ok d" for d
        using transform_filter [OF that, of q "\<lambda>n. (n \<in> fst ` set (listed spec)) = truth (Some e)"] append_plain(1) [OF q(1)] q(2) Cons
        by (simp add: wanted_def cong: if_cong)
      then show ?thesis using Inr by simp
    qed
  qed
qed

section \<open>Slices\<close>

text \<open>The arguments of \<open>$slice\<close> that are accepted, and what they mean.\<close>

fun valid_slice :: "bson_value \<Rightarrow> bool" where
  "valid_slice (VInt k) \<longleftrightarrow> sint k \<noteq> - (2 ^ 31)"
| "valid_slice (VArray [(_, VInt _), (_, VInt l)]) \<longleftrightarrow> 0 < sint l"
| "valid_slice _ \<longleftrightarrow> False"

text \<open>Behind the first \<open>s\<close>; a negative \<open>s\<close> counts from the end.\<close>

definition drop_from :: "int \<Rightarrow> 'a list \<Rightarrow> 'a list" where
  "drop_from s vs = drop (if s \<ge> 0 then nat s else length vs - nat (- s)) vs"

fun sliced :: "bson_value \<Rightarrow> 'a list \<Rightarrow> 'a list" where
  "sliced (VInt k) vs = (if sint k \<ge> 0 then take (nat (sint k)) vs else drop_from (sint k) vs)"
| "sliced (VArray [(_, VInt s), (_, VInt l)]) vs = take (nat (sint l)) (drop_from (sint s) vs)"
| "sliced _ vs = vs"

definition cut_array :: "bson_value \<Rightarrow> bson_value \<Rightarrow> bson_value" where
  "cut_array w v = (case v of VArray a \<Rightarrow> VArray (numbered 0 (sliced w (map snd a))) | _ \<Rightarrow> v)"

definition no_arrays :: "doc \<Rightarrow> bool" where
  "no_arrays a \<longleftrightarrow> list_all (\<lambda>e. value_type (snd e) \<noteq> Array) a"

text \<open>A projection that leaves everything below it.\<close>

definition keeps_all :: "projection \<Rightarrow> bool" where
  "keeps_all q \<longleftrightarrow> pj_fields q = [] \<and> pj_include q"

lemma keeps_object [simp]: "keeps_all q \<Longrightarrow> concat (map (pj_append q) es) = es"
  by (induction es) (auto simp: keeps_all_def append_plain(2))

lemma numStr_nat: "numStr (int i) = show_nat i"
  by (simp add: numStr_def numStrs_def show_int_def)

lemma array_cut:
  "keeps_all q \<Longrightarrow> no_arrays a \<Longrightarrow>
    pj_array q (int k) (case lim of None \<Rightarrow> - 1 | Some l \<Rightarrow> int l) i a =
      numbered i ((case lim of None \<Rightarrow> id | Some l \<Rightarrow> take l) (drop k (map snd a)))"
proof (induction a arbitrary: k lim i)
  case (Cons e a)
  obtain n v where e: "e = (n, v)" by (cases e)
  have a: "value_type v \<noteq> Array" "no_arrays a" using Cons.prems(2) e by (simp_all add: no_arrays_def)
  show ?case
  proof (cases k)
    case (Suc k')
    then show ?thesis using Cons.IH [OF Cons.prems(1) a(2), of k' lim i] e by simp
  next
    case 0
    show ?thesis
    proof (cases "lim = Some 0")
      case True
      then show ?thesis using 0 e by (simp add: numbered_def)
    next
      case False
      obtain lim' where l: "(let l = (case lim of None \<Rightarrow> - 1 | Some l \<Rightarrow> int l) in if l \<noteq> - 1 then l - 1 else l) =
          (case lim' of None \<Rightarrow> - 1 | Some l \<Rightarrow> int l)"
          "(case lim of None \<Rightarrow> id | Some l \<Rightarrow> take l) (v # vs) = v # (case lim' of None \<Rightarrow> id | Some l \<Rightarrow> take l) vs" for vs
        using False by (cases lim) (force simp: take_Cons' intro: that [of None] that [of "Some (l - 1)" for l])+
      have "pj_array q 0 (case lim of None \<Rightarrow> - 1 | Some l \<Rightarrow> int l) i (e # a) =
          (show_nat i, v) # pj_array q (int 0) (case lim' of None \<Rightarrow> - 1 | Some l \<Rightarrow> int l) (Suc i) a"
        using False l(1) a(1) e Cons.prems(1)
        by (cases v) (auto simp: Let_def numStr_nat keeps_all_def split: option.splits)
      then show ?thesis
        using 0 l(2) e Cons.IH [OF Cons.prems(1) a(2), of 0 lim' "Suc i"] by (simp add: numbered_Cons)
    qed
  qed
qed (simp add: numbered_def split: option.split)

text \<open>The two numbers of a slice, as \<open>init\<close> stores them.\<close>

fun slice_numbers :: "bson_value \<Rightarrow> int \<times> int" where
  "slice_numbers (VInt k) = (if sint k < 0 then (sint k, - sint k) else (0, sint k))"
| "slice_numbers (VArray [(_, VInt s), (_, VInt l)]) = (sint s, sint l)"
| "slice_numbers _ = (0, 0)"

lemma slice_of_valid: "valid_slice w \<Longrightarrow> slice_of [(''$slice'', w)] = Inr (slice_numbers w)"
  by (induction w rule: valid_slice.induct) (simp_all add: slice_of_def is_number_def int_of_def)

lemma slice_numbers_cut:
  assumes "valid_slice w" and "slice_numbers w = (sk, l)"
  shows "0 \<le> l" "take (nat l) (drop (nat (if sk < 0 then max 0 (sk + int (length vs)) else sk)) vs) = sliced w vs"
proof -
  have "nat (max 0 (x + int m)) = m - nat (- x)" if "x < 0" for x :: int and m using that by (simp add: max_def) arith
  then show "0 \<le> l" "take (nat l) (drop (nat (if sk < 0 then max 0 (sk + int (length vs)) else sk)) vs) = sliced w vs"
    using assms by (induction w rule: valid_slice.induct) (auto simp: drop_from_def split: if_splits)
qed

lemma subfield_none [simp]: "pj_fields p = [] \<Longrightarrow> subfield n p = projection_new"
  by (simp add: subfield_def std_ref_def)

lemma slice_sel [simp]:
  "pj_include (set_slice sk l p) = pj_include p" "pj_fields (set_slice sk l p) = pj_fields p" "pj_special (set_slice sk l p) = pj_special p"
  "pj_skip (set_slice sk l p) = sk" "pj_limit (set_slice sk l p) = l" "pj_includeID (set_slice sk l p) = pj_includeID p"
  "pj_include (set_special p) = pj_include p" "pj_fields (set_special p) = pj_fields p" "pj_special (set_special p)"
  "pj_includeID (set_special p) = pj_includeID p"
  by (cases p, simp)+

lemma add_slice_plain:
  "n \<noteq> [] \<Longrightarrow> CHR ''.'' \<notin> set n \<Longrightarrow>
    add_slice n sk l p = set_field n (set_slice sk l (set_special (subfield n p))) (set_special p)"
  by (subst add_slice.simps) (simp add: add_slice.simps [of "[]"])

lemma append_slice:
  assumes "valid_slice w" and "slice_numbers w = (sk, l)" and "pj_fields p = [(n, q)]" and "pj_include p"
    and "q = set_slice sk l (set_special projection_new)" and "m = n \<longrightarrow> (\<forall>a. v = VArray a \<longrightarrow> no_arrays a)"
  shows "pj_append p (m, v) = [(m, if m = n then cut_array w v else v)]"
proof (cases "m = n")
  case True
  have q: "keeps_all q" "pj_special q" "pj_skip q = sk" "pj_limit q = l" using assms(5) by (simp_all add: keeps_all_def)
  have cut: "pj_array q (array_skip q a) l 0 a = numbered 0 (sliced w (map snd a))" if "v = VArray a" for a
    using array_cut [OF q(1), of a "nat (array_skip q a)" "Some (nat l)" 0] slice_numbers_cut(1) [OF assms(1,2)]
      slice_numbers_cut(2) [OF assms(1,2), of "map snd a"]
      assms(6) True that
    by (auto simp: array_skip_def q(3) nFields_def max_def split: if_splits)
  show ?thesis using True assms(3) q cut
    by (cases v) (simp_all add: pj_append.simps cut_array_def keeps_all_def append_plain(2) del: std_find.simps)
next
  case False
  then have "std_find string_less m (pj_fields p) = None" using assms(3) by (simp del: std_find.simps(2))
  then show ?thesis using False assms(4) by (simp add: pj_append.simps)
qed

text \<open>
  C29: \<open>$slice\<close> cuts the values of the array it names and leaves the other fields: a number takes
  so many from the front, or from the back when it is negative; a pair skips (from the end when
  negative) and limits. What is left is numbered from 0.
\<close>

theorem slice_projection:
  assumes "n \<noteq> []" and "CHR ''.'' \<notin> set n" and "n \<noteq> ''_id''" and "valid_slice w"
    and "names_ok d" and "\<And>a. (n, VArray a) \<in> set d \<Longrightarrow> no_arrays a"
  shows "\<exists>p. projection_init [(n, VObject [(''$slice'', w)])] projection_new = Inr p \<and>
    transform p d = map (\<lambda>(m, v). (m, if m = n then cut_array w v else v)) d"
proof -
  obtain sk l where w: "slice_numbers w = (sk, l)" by (cases "slice_numbers w")
  let ?q = "set_slice sk l (set_special projection_new)"
  let ?p0 = "set_nonSimple (set_source [(n, VObject [(''$slice'', w)])] projection_new)"
  let ?p = "set_field n ?q (set_special ?p0)"
  have i: "projection_init [(n, VObject [(''$slice'', w)])] projection_new = Inr ?p"
    using assms(1,2) slice_of_valid [OF assms(4)] w
    by (simp add: projection_init_def is_number_def add_slice_plain)
  have p: "pj_fields ?p = [(n, ?q)]" "pj_include ?p" "pj_includeID ?p" by simp_all
  have "(case e of (m, v) \<Rightarrow> if strcmp ''_id'' m = 0 then if pj_includeID ?p then [(m, v)] else [] else pj_append ?p (m, v)) =
      [(case e of (m, v) \<Rightarrow> (m, if m = n then cut_array w v else v))]" if "e \<in> set d" for e
  proof -
    obtain m v where e: "e = (m, v)" by (cases e)
    have "strcmp ''_id'' m = 0 \<longleftrightarrow> m = ''_id''" using that assms(5) e by (auto simp: names_ok_def list_all_iff strcmp_eq_0_plain)
    moreover have "m = n \<longrightarrow> (\<forall>a. v = VArray a \<longrightarrow> no_arrays a)" using assms(6) that e by auto
    ultimately show ?thesis
      using append_slice [OF assms(4) w p(1,2) refl, of m v] p(3) assms(3) e by simp
  qed
  then have "transform ?p d = map (\<lambda>(m, v). (m, if m = n then cut_array w v else v)) d"
    unfolding transform_def by (induction d) simp_all
  then show ?thesis using i by blast
qed

section \<open>Examples\<close>

theorem plain_projection_witness:
  "\<exists>p. projection_init [(''a'', VInt 1), (''_id'', VInt 0)] projection_new = Inr p \<and>
     transform p [(''_id'', VInt 7), (''a'', VNull), (''b'', VNull)] = [(''a'', VNull)]"
proof -
  have s: "list_all plain_field [(''a'', VInt 1), (''_id'', VInt 0)]" by (simp add: plain_field_def is_object_def)
  have l: "listed [(''a'', VInt 1), (''_id'', VInt 0)] = [(''a'', VInt 1)]" "drops_id (''_id'', VInt 0)"
    by (simp_all add: listed_def drops_id_def truth_def)
  obtain p where p: "projection_init [(''a'', VInt 1), (''_id'', VInt 0)] projection_new = Inr p"
      "\<forall>d. names_ok d \<longrightarrow> transform p d = wanted [(''a'', VInt 1), (''_id'', VInt 0)] d"
    using plain_projection [OF s] l(1) by (auto split: sum.splits)
  have "names_ok [(''_id'', VInt 7), (''a'', VNull), (''b'', VNull)]" by (simp add: names_ok_def)
  then show ?thesis using p l by (auto simp: wanted_def truth_def)
qed

theorem slice_projection_witness:
  "\<exists>p. projection_init [(''a'', VObject [(''$slice'', VInt (- 2))])] projection_new = Inr p \<and>
     transform p [(''a'', VArray (numbered 0 [VNull, VBool True, VInt 3])), (''b'', VNull)] =
       [(''a'', VArray (numbered 0 [VBool True, VInt 3])), (''b'', VNull)]"
proof -
  let ?d = "[(''a'', VArray (numbered 0 [VNull, VBool True, VInt 3])), (''b'', VNull)]"
  have a: "no_arrays a" if "(''a'', VArray a) \<in> set ?d" for a
    using that by (auto simp: no_arrays_def numbered_Cons) (simp add: numbered_def)
  have "valid_slice (VInt (- 2))" "names_ok ?d" by (simp_all add: names_ok_def)
  from slice_projection [where n = "''a''", OF _ _ _ this a] obtain p where
      "projection_init [(''a'', VObject [(''$slice'', VInt (- 2))])] projection_new = Inr p"
      "transform p ?d = map (\<lambda>(m, v). (m, if m = ''a'' then cut_array (VInt (- 2)) v else v)) ?d"
    by auto
  moreover have "map snd (numbered 0 [VNull, VBool True, VInt 3]) = [VNull, VBool True, VInt 3]"
    by (simp add: numbered_Cons) (simp add: numbered_def)
  ultimately show ?thesis by (auto simp: cut_array_def drop_from_def)
qed

end
