(* ===== verification/IndexKeysSpec.thy ===== *)
theory IndexKeysSpec
  imports IndexKeys ProjectionSpec "HOL-Library.Multiset"
begin

text \<open>
  The keys of a document have the form of the key pattern, and only an index that is sparse has
  none for a document; when \<open>checkKey\<close> accepts an index, its key is the answer to the query.
\<close>

section \<open>The first loop\<close>

text \<open>A name that is used up has its value.\<close>

definition filled :: "(bytes \<times> bson_value option) list \<Rightarrow> bool" where
  "filled fs \<longleftrightarrow> list_all (\<lambda>(n, x). n = [] \<longrightarrow> x \<noteq> None) fs"

lemma found_rest:
  "getFieldDottedOrArray name d = (Some (n, v), rest) \<Longrightarrow> value_type v \<noteq> Array \<Longrightarrow> rest = []"
proof (induction name d rule: getFieldDottedOrArray.induct)
  case (1 name d)
  then show ?case
    by (subst (asm) (2) getFieldDottedOrArray.simps)
      (auto simp: Let_def split: option.splits prod.splits if_splits bson_value.splits)
qed

lemma scan_result:
  "filled fs \<Longrightarrow>
    (case scan_fields d i fs ae of
       Inl err \<Rightarrow> err = Uassert 10088
     | Inr (gs, ae', k) \<Rightarrow> filled gs \<and> length gs = length fs \<and>
         (ae \<noteq> None \<longrightarrow> ae' = ae) \<and> (\<forall>j q es. ae = None \<longrightarrow> ae' = Some (j, q, es) \<longrightarrow> i \<le> j \<and> j < i + length fs) \<and>
         (ae' = None \<longrightarrow> list_all (\<lambda>g. fst g = []) gs))"
proof (induction fs arbitrary: i ae)
  case (Cons p fs)
  obtain name fx where p: "p = (name, fx)" by (cases p)
  have fs: "filled fs" and fx: "name = [] \<Longrightarrow> fx \<noteq> None" using Cons.prems p by (auto simp: filled_def)
  note ih = Cons.IH [OF fs]
  show ?case
  proof (cases "name = []")
    case True
    then show ?thesis using ih [where i = "Suc i" and ae = ae] p fx
      by (cases "scan_fields d (Suc i) fs ae") (fastforce simp: filled_def)+
  next
    case False
    obtain f rest where f: "getFieldDottedOrArray name d = (f, rest)" by (cases "getFieldDottedOrArray name d")
    show ?thesis
    proof (cases f)
      case None
      then show ?thesis using ih [where i = "Suc i" and ae = ae] p False f
        by (cases "scan_fields d (Suc i) fs ae") (fastforce simp: filled_def)+
    next
      case (Some e)
      obtain n v where e: "e = (n, v)" by (cases e)
      show ?thesis
      proof (cases "\<exists>as. v = VArray as")
        case True
        then obtain as where v: "v = VArray as" by blast
        let ?ae = "if ae = None then Some (i, found_at name rest, as) else ae"
        show ?thesis
        proof (cases "case ae of None \<Rightarrow> True | Some (_, q, _) \<Rightarrow> found_at name rest = q")
          case True
          then have run: "scan_fields d i (p # fs) ae =
              bind_res (scan_fields d (Suc i) fs ?ae) (\<lambda>(gs, ae, k). Inr ((rest, if rest = [] then Some v else fx) # gs, ae, k))"
            using p False f Some e v by (simp add: Let_def)
          show ?thesis unfolding run using ih [where i = "Suc i" and ae = ?ae]
            by (cases "scan_fields d (Suc i) fs ?ae") (auto simp: filled_def split: if_splits)
        next
          case no: False
          have "scan_fields d i (p # fs) ae = Inl (Uassert 10088)"
            using p False f Some e v no by (simp add: Let_def)
          then show ?thesis by simp
        qed
      next
        case other: False
        then have run: "scan_fields d i (p # fs) ae = bind_res (scan_fields d (Suc i) fs ae) (\<lambda>(gs, ae, k). Inr (([], Some v) # gs, ae, k))"
          using False f Some e p by (cases v) simp_all
        show ?thesis unfolding run using ih [where i = "Suc i" and ae = ae]
          by (cases "scan_fields d (Suc i) fs ae") (fastforce simp: filled_def)+
      qed
    qed
  qed
qed (simp add: filled_def)

section \<open>The form of keys\<close>

definition key_form :: "nat \<Rightarrow> doc \<Rightarrow> bool" where
  "key_form m k \<longleftrightarrow> map fst k = replicate m []"

lemma key_of_filled: "list_all (\<lambda>x. x \<noteq> None) xs \<Longrightarrow> key_of xs = Inr (map (\<lambda>x. ('''', the x)) xs)"
  by (induction xs) auto

lemma key_of_form: "key_of xs = Inr k \<Longrightarrow> key_form (length xs) k"
  by (induction xs arbitrary: k) (auto simp: key_form_def res_simps split: option.splits)

lemma undefined_form: "key_form (length xs) (undefined_key i xs)"
  by (simp add: key_form_def undefined_key_def comp_def map_replicate_const)

lemma insert_subset: "set (key_insert k keys) \<subseteq> insert k (set keys)"
  unfolding key_insert_def by (induction keys) auto

lemma insert_not_Nil [simp]: "key_insert k keys \<noteq> []"
  unfolding key_insert_def by (cases keys) auto

lemma insert_forms: "\<forall>k \<in> set keys. key_form m k \<Longrightarrow> key_form m k \<Longrightarrow> \<forall>k \<in> set (key_insert k keys). key_form m k"
  using insert_subset [of k keys] by auto

text \<open>The only error is that of parallel arrays; the keys have the form of the pattern.\<close>

definition keys_result :: "nat \<Rightarrow> doc list \<Rightarrow> doc list res \<Rightarrow> bool" where
  "keys_result m keys r \<longleftrightarrow>
     (case r of
        Inl err \<Rightarrow> err = Uassert 10088
      | Inr keys' \<Rightarrow> (\<forall>k \<in> set keys. key_form m k) \<longrightarrow> (\<forall>k \<in> set keys'. key_form m k))"

lemma keys_result_simps:
  "keys_result m keys (Inr keys)"
  "key_form m k \<Longrightarrow> keys_result m keys (Inr (key_insert k keys))"
  unfolding keys_result_def sum.case using insert_forms by blast+

lemma keys_result_trans:
  "keys_result m keys (Inr keys') \<Longrightarrow> keys_result m keys' r \<Longrightarrow> keys_result m keys r"
  by (auto simp: keys_result_def split: sum.splits)

lemma expand_result:
  "list_all (\<lambda>x. x \<noteq> None) xs \<Longrightarrow> keys_result (length xs) keys (expand_array xs i es keys)"
proof (induction es arbitrary: keys)
  case (Cons e es)
  obtain n v where e: "e = (n, v)" by (cases e)
  have "list_all (\<lambda>x. x \<noteq> None) (xs[i := Some v])"
    using Cons.prems set_update_subset_insert [of xs i "Some v"] by (auto simp: list_all_iff)
  from key_of_filled [OF this] obtain k where k: "key_of (xs[i := Some v]) = Inr k" by blast
  then have "key_form (length xs) k" using key_of_form [OF k] by simp
  from keys_result_trans [OF keys_result_simps(2) [OF this] Cons.IH [OF Cons.prems]] show ?case using e k by simp
qed (simp add: keys_result_simps)

lemma index_keys_result:
  "filled fs \<Longrightarrow> keys_result (length fs) keys (index_keys sparse n fs d keys)"
  "filled fs \<Longrightarrow> keys_result (length fs) keys (elements_keys sparse n fs es keys)"
proof (induction sparse n fs d keys and sparse n fs es keys rule: index_keys_elements_keys.induct)
  case (1 sparse n fs d keys)
  show ?case
  proof (cases "scan_fields d 0 fs None")
    case (Inl err)
    then show ?thesis using scan_result [OF "1.prems", where d = d and i = 0 and ae = None] by (simp add: index_keys.simps keys_result_def)
  next
    case (Inr r)
    obtain gs ae k where r: "r = (gs, ae, k)" by (cases r)
    have gs: "filled gs" "length gs = length fs" "ae = None \<Longrightarrow> list_all (\<lambda>g. fst g = []) gs"
      using scan_result [OF "1.prems", where d = d and i = 0 and ae = None] Inr r by auto
    have vals: "list_all (\<lambda>x. x \<noteq> None) (map snd gs)" if "list_all (\<lambda>g. fst g = []) gs"
      using gs(1) that by (fastforce simp: filled_def list_all_iff)
    have el: "keys_result (length fs) keys (elements_keys sparse n gs es keys)"
      if "\<not> (sparse \<and> k = n)" "\<not> list_all (\<lambda>g. fst g = []) gs" "ae = Some (i, q, es)" "es \<noteq> []" for i q es
      using "1.IH" [OF Inr r [symmetric] refl that(1,2,3) refl refl that(4)] gs by simp
    show ?thesis
      using Inr r gs(3) vals el key_of_filled [OF vals] key_of_form [of "map snd gs"] expand_result [OF vals] undefined_form [of "map snd gs"]
      by (subst index_keys.simps)
        (auto simp: keys_result_simps gs(2) split: option.splits)
  qed
next
  case (3 sparse n fs nm v es keys)
  show ?case
  proof (cases "\<exists>o'. v = VObject o'")
    case True
    then obtain o' where v: "v = VObject o'" by blast
    have one: "keys_result (length fs) keys (index_keys sparse n fs o' keys)" by (rule "3.IH"(4) [OF v "3.prems"])
    show ?thesis
    proof (cases "index_keys sparse n fs o' keys")
      case (Inl err)
      then show ?thesis using one v by (simp add: keys_result_def)
    next
      case (Inr keys')
      have "keys_result (length fs) keys' (elements_keys sparse n fs es keys')" by (rule "3.IH"(5) [OF v Inr "3.prems"])
      then show ?thesis using keys_result_trans [of _ _ keys'] one v Inr by simp
    qed
  next
    case False
    then show ?thesis using "3.IH" "3.prems" by (cases v) auto
  qed
qed (simp add: keys_result_simps)

section \<open>Specifications without a plugin\<close>

lemma spec_new_fields:
  assumes "index_spec_new plugins kp info = Inr sp"
  shows "sp_nFields sp = length kp" "sp_sparse sp = truth (getField ''sparse'' info)" "sp_nullKey sp = map (\<lambda>_. ('''', VNull)) kp"
    "zip (sp_fieldNames sp) (sp_fixed sp) = map (\<lambda>e. (fst e, None)) kp" "sp_sparse sp \<Longrightarrow> kp \<noteq> []"
  using assms
  by (auto simp: index_spec_new_def Let_def res_simps nFields_def zip_map_map zip_same_conv_map)


section \<open>A document without arrays\<close>

definition key_value :: "doc \<Rightarrow> bytes \<Rightarrow> bson_value" where
  "key_value d n = (case fst (getFieldDottedOrArray n d) of None \<Rightarrow> VNull | Some e \<Rightarrow> snd e)"

definition missing :: "doc \<Rightarrow> bytes \<Rightarrow> bool" where
  "missing d n \<longleftrightarrow> fst (getFieldDottedOrArray n d) = None"

lemma scan_scalars:
  "\<forall>e \<in> set kp. fst e \<noteq> [] \<and> value_type (key_value d (fst e)) \<noteq> Array \<Longrightarrow>
    scan_fields d i (map (\<lambda>e. (fst e, None)) kp) None =
      Inr (map (\<lambda>e. ([], Some (key_value d (fst e)))) kp, None, length (filter (\<lambda>e. missing d (fst e)) kp))"
proof (induction kp arbitrary: i)
  case (Cons e kp)
  have e: "fst e \<noteq> []" "value_type (key_value d (fst e)) \<noteq> Array" using Cons.prems by auto
  have ih: "scan_fields d (Suc i) (map (\<lambda>e. (fst e, None)) kp) None =
      Inr (map (\<lambda>e. ([], Some (key_value d (fst e)))) kp, None, length (filter (\<lambda>e. missing d (fst e)) kp))"
    using Cons by simp
  obtain f rest where f: "getFieldDottedOrArray (fst e) d = (f, rest)" by (cases "getFieldDottedOrArray (fst e) d")
  show ?case
  proof (cases f)
    case None
    then show ?thesis using e f ih by (simp add: key_value_def missing_def)
  next
    case (Some x)
    obtain n v where x: "x = (n, v)" by (cases x)
    then have "value_type v \<noteq> Array" using e(2) f Some by (simp add: key_value_def)
    then show ?thesis using e(1) f ih Some x by (cases v) (simp_all add: key_value_def missing_def)
  qed
qed simp

text \<open>
  A document with no array under the names of the key pattern has one key, the values under these
  names, null where there is none; a sparse index leaves it out when there is none at all.
\<close>

lemma scalar_key:
  assumes "index_spec_new plugins kp info = Inr sp" and "sp_type sp = None"
    and "\<forall>e \<in> set kp. fst e \<noteq> [] \<and> value_type (key_value d (fst e)) \<noteq> Array"
  shows "getKeys sp d [] =
    Inr (if truth (getField ''sparse'' info) \<and> (\<forall>e \<in> set kp. missing d (fst e)) then []
         else [map (\<lambda>e. ('''', key_value d (fst e))) kp])"
proof -
  note sp = spec_new_fields [OF assms(1)]
  have all: "length (filter (\<lambda>e. missing d (fst e)) kp) = length kp \<longleftrightarrow> (\<forall>e \<in> set kp. missing d (fst e))"
    using length_filter_less [of _ kp] by (metis filter_True nat_neq_iff)
  have k: "key_of (map snd (map (\<lambda>e. ([] :: bytes, Some (key_value d (fst e)))) kp)) = Inr (map (\<lambda>e. ('''', key_value d (fst e))) kp)"
    by (subst key_of_filled) (simp_all add: list_all_iff comp_def)
  show ?thesis
    using scan_scalars [OF assms(3)] k all assms(2) sp
    by (auto simp: getKeys_def index_keys.simps [of _ _ "map _ _"] key_insert_def list_all_iff)
qed

section \<open>Answers from the key\<close>

lemma add_include_source [simp]: "pj_source (add_include n b p) = pj_source p"
  by (subst add_include.simps) (simp add: Let_def)

lemma plain_source:
  "list_all plain_field es \<Longrightarrow> init_loop es tf p = Inr q \<Longrightarrow> pj_source q = pj_source p"
proof (induction es arbitrary: tf p)
  case (Cons e es)
  obtain n v where e: "e = (n, v)" by (cases e)
  then have v: "\<not> is_object v" using Cons.prems(1) by (simp add: plain_field_def)
  have rest: "list_all plain_field es" using Cons.prems(1) by simp
  show ?case
    using Cons.prems(2) Cons.IH [OF rest] unfolding e init_loop_plain [OF v]
    by (auto simp: Let_def bind_res_Inr split: if_splits option.splits)
qed simp

text \<open>A field of the key that the answer has.\<close>

definition shown :: "projection \<Rightarrow> bytes \<Rightarrow> bool" where
  "shown p n \<longleftrightarrow> (if n = ''_id'' then pj_includeID p else getField n (pj_source p) \<noteq> None)"

text \<open>A field of the key that counts for the specification.\<close>

definition counted :: "projection \<Rightarrow> bytes \<Rightarrow> bool" where
  "counted p n \<longleftrightarrow> getField n (pj_source p) \<noteq> None \<and> shown p n"

definition key_only_of :: "projection \<Rightarrow> bytes list \<Rightarrow> bool list \<times> bytes list" where
  "key_only_of p ns = (map (shown p) ns, map (\<lambda>n. if shown p n then n else []) ns)"

lemma key_loop_run:
  "list_all (\<lambda>e. NUL \<notin> set (fst e)) kp \<Longrightarrow> key_loop p kp got k = Some (got', k') \<Longrightarrow>
    got' = got + int (length (filter (\<lambda>e. counted p (fst e)) kp)) \<and>
    ko_include k' = ko_include k @ map (\<lambda>e. shown p (fst e)) kp \<and>
    ko_names k' = ko_names k @ map (\<lambda>e. if shown p (fst e) then fst e else []) kp \<and>
    (\<forall>e \<in> set kp. counted p (fst e) \<longrightarrow> CHR ''.'' \<notin> set (fst e))"
proof (induction kp arbitrary: got k)
  case (Cons e kp)
  obtain n v where e: "e = (n, v)" by (cases e)
  have n: "NUL \<notin> set n" "list_all (\<lambda>e. NUL \<notin> set (fst e)) kp" using Cons.prems(1) e by simp_all
  have id: "strcmp n ''_id'' = 0 \<longleftrightarrow> n = ''_id''" "strcmp ''_id'' n = 0 \<longleftrightarrow> n = ''_id''"
    using n(1) by (auto simp: strcmp_eq_0_plain)
  let ?got = "if counted p n then got + 1 else got" and ?k = "if shown p n then addYes n k else addNo k"
  have "key_loop p kp ?got ?k = Some (got', k')" and dot: "counted p n \<longrightarrow> CHR ''.'' \<notin> set n"
    using Cons.prems(2) e id by (auto simp: counted_def shown_def split: if_splits)
  from Cons.IH [OF n(2) this(1)] show ?case
    using dot e by (auto simp: addYes_def addNo_def ko_add_def split: if_splits)
qed simp

lemma hydrate_run:
  "length (ko_include k) = length (ko_names k) \<Longrightarrow> j + length key = length (ko_include k) \<Longrightarrow>
    hydrate_loop k j key = Inr (map (\<lambda>(b, n, v). (n, v)) (filter fst
      (zip (drop j (ko_include k)) (zip (drop j (ko_names k)) (map snd key)))))"
proof (induction key arbitrary: j)
  case (Cons e key)
  obtain n v where e: "e = (n, v)" by (cases e)
  have j: "j < length (ko_include k)" "j < length (ko_names k)" using Cons.prems by simp_all
  then have "drop j (ko_include k) = ko_include k ! j # drop (Suc j) (ko_include k)"
      "drop j (ko_names k) = ko_names k ! j # drop (Suc j) (ko_names k)"
    by (simp_all add: Cons_nth_drop_Suc)
  then show ?case using Cons.IH [of "Suc j"] Cons.prems j e by simp
qed simp

lemma getField_distinct:
  assumes "names_ok d" and "NUL \<notin> set n" and "distinct (map fst d)"
  shows "getField n d = Some e \<longleftrightarrow> e \<in> set d \<and> fst e = n"
proof -
  have eq: "strcmp (fst x) n = 0 \<longleftrightarrow> fst x = n" if "x \<in> set d" for x
    using that assms(1,2) by (auto simp: names_ok_def list_all_iff strcmp_eq_0_plain)
  have "find (\<lambda>x. strcmp (fst x) n = 0) d = find (\<lambda>x. fst x = n) d"
    using eq by (induction d) auto
  moreover have "find (\<lambda>x. fst x = n) d = Some e \<longleftrightarrow> e \<in> set d \<and> fst e = n"
    using assms(3) by (induction d) (force simp: image_iff)+
  ultimately show ?thesis by (simp add: getField_def)
qed

lemma getField_none:
  assumes "names_ok d" and "NUL \<notin> set n"
  shows "getField n d = None \<longleftrightarrow> n \<notin> fst ` set d"
proof -
  have "strcmp (fst x) n = 0 \<longleftrightarrow> fst x = n" if "x \<in> set d" for x
    using that assms by (auto simp: names_ok_def list_all_iff strcmp_eq_0_plain)
  then show ?thesis by (auto simp: getField_def find_None_iff image_iff)
qed

lemma undotted_found: "CHR ''.'' \<notin> set n \<Longrightarrow> getFieldDottedOrArray n d = (getField n d, [])"
  by (subst getFieldDottedOrArray.simps) (auto simp: split_dot_None [THEN iffD2] Let_def split: option.split)

lemma zip_hydrate:
  "map (\<lambda>(b, n, v). (n, v)) (filter fst (zip (map (\<lambda>e. f (fst e)) kp) (zip (map (\<lambda>e. if f (fst e) then fst e else []) kp) (map (\<lambda>e. g (fst e)) kp)))) =
    map (\<lambda>e. (fst e, g (fst e))) (filter (\<lambda>e. f (fst e)) kp)"
  by (induction kp) auto

lemma image_pick: "n \<in> f ` A \<Longrightarrow> \<exists>e. e \<in> A \<and> f e = n"
  by blast

lemma same_name_same: "distinct (map fst xs) \<Longrightarrow> x \<in> set xs \<Longrightarrow> y \<in> set xs \<Longrightarrow> fst x = fst y \<Longrightarrow> x = y"
  by (simp add: distinct_map inj_on_def)

text \<open>A specification that only includes fields, as \<open>checkKey\<close> asks for.\<close>

lemma include_only:
  assumes "list_all plain_field spec" and "distinct (map fst spec)" and "projection_init spec projection_new = Inr p" and "\<not> pj_include p"
  shows "plain_level True (fst ` set (listed spec)) p" "pj_source p = spec"
    "pj_includeID p = (\<not> (\<exists>e \<in> set spec. drops_id e))" "listed spec \<noteq> []"
    "length (listed spec) = length spec - (if pj_includeID p then 0 else 1)" "distinct (map fst (listed spec))"
proof -
  let ?p = "set_source spec projection_new"
  have i: "init_loop spec None ?p = Inr p" using assms(3) by (simp add: projection_init_def)
  have r: "read_first True spec (Inr p)" using plain_start [OF assms(1), of ?p] i by simp
  then obtain e es where l: "listed spec = e # es" using assms(4) by (cases "listed spec") (auto simp: read_first_def)
  then have a: "read_as (truth (Some e)) {} True spec (Inr p)" using r by (simp add: read_first_def)
  then have t: "truth (Some e)" using assms(4) by (simp add: read_as_def plain_level_def)
  show lv: "plain_level True (fst ` set (listed spec)) p" and iid: "pj_includeID p = (\<not> (\<exists>e \<in> set spec. drops_id e))"
    using a t by (simp_all add: read_as_def)
  show "pj_source p = spec" using plain_source [OF assms(1) i] by simp
  show "listed spec \<noteq> []" using l by simp
  show "distinct (map fst (listed spec))" using assms(2) by (simp add: listed_def distinct_map_filter)
  have "length (filter drops_id spec) = (if pj_includeID p then 0 else 1)"
  proof (cases "pj_includeID p")
    case True
    then show ?thesis using iid by (simp add: filter_empty_conv)
  next
    case False
    then obtain e where e: "e \<in> set spec" "drops_id e" using iid by blast
    have "x = e" if "x \<in> set spec" "drops_id x" for x
      using that e by (intro same_name_same [OF assms(2)]) (simp_all add: drops_id_def)
    then have "set (filter drops_id spec) = {e}" unfolding set_filter using e by blast
    moreover have "distinct (filter drops_id spec)" using assms(2) by (simp add: distinct_map)
    ultimately show ?thesis using False distinct_card [of "filter drops_id spec"] by simp
  qed
  then show "length (listed spec) = length spec - (if pj_includeID p then 0 else 1)"
    using sum_length_filter_compl [of drops_id spec] by (simp add: listed_def)
qed

lemma counted_listed:
  assumes "list_all plain_field spec" and "distinct (map fst spec)" and "pj_source p = spec"
    and "pj_includeID p = (\<not> (\<exists>e \<in> set spec. drops_id e))" and "NUL \<notin> set n"
  shows "counted p n \<longleftrightarrow> n \<in> fst ` set (listed spec)" "shown p n \<longleftrightarrow> (if n = ''_id'' then pj_includeID p else n \<in> fst ` set (listed spec))"
proof -
  have ok: "names_ok spec" using assms(1) by (auto simp: names_ok_def plain_field_def list_all_iff)
  have src: "getField n (pj_source p) \<noteq> None \<longleftrightarrow> n \<in> fst ` set spec" using getField_none [OF ok assms(5)] assms(3) by simp
  have other: "n \<in> fst ` set spec \<longleftrightarrow> n \<in> fst ` set (listed spec)" if "n \<noteq> ''_id''"
    using that by (force simp: listed_def drops_id_def)
  have "n \<in> fst ` set spec \<and> pj_includeID p \<longleftrightarrow> n \<in> fst ` set (listed spec)" if n: "n = ''_id''"
  proof (cases "pj_includeID p")
    case True
    then show ?thesis using assms(4) by (force simp: listed_def)
  next
    case False
    then obtain e where e: "e \<in> set spec" "drops_id e" using assms(4) by blast
    have "x = e" if "x \<in> set spec" "fst x = n" for x
      using that e n by (intro same_name_same [OF assms(2)]) (simp_all add: drops_id_def)
    then have "n \<notin> fst ` set (listed spec)" unfolding listed_def set_filter using e(2) by blast
    then show ?thesis using False by simp
  qed
  then show "counted p n \<longleftrightarrow> n \<in> fst ` set (listed spec)"
      "shown p n \<longleftrightarrow> (if n = ''_id'' then pj_includeID p else n \<in> fst ` set (listed spec))"
    using src other by (auto simp: counted_def shown_def)
qed

text \<open>
  C27: When \<open>checkKey\<close> accepts an index for a projection, the index key of a document gives the answer
  without the document: the document's one key, hydrated, has exactly the fields of the transformed
  document (in the order of the key), provided the document has the fields that are asked for
  and no arrays under the names of the key pattern.
\<close>

theorem covered_index:
  assumes spec: "list_all plain_field spec" "distinct (map fst spec)" "projection_init spec projection_new = Inr p"
    and check: "checkKey p kp = Some ko"
    and kp: "names_ok kp" "distinct (map fst kp)" "index_spec_new plugins kp info = Inr sp" "sp_type sp = None"
    and d: "names_ok d" "distinct (map fst d)"
      "\<forall>e \<in> set kp. fst e \<noteq> [] \<and> value_type (key_value d (fst e)) \<noteq> Array"
      "\<forall>e \<in> set kp. fst e = ''_id'' \<or> fst e \<in> fst ` set spec \<longrightarrow> fst e \<in> fst ` set d"
  shows "\<exists>key r. getKeys sp d [] = Inr [key] \<and> hydrate ko key = Inr r \<and> mset r = mset (transform p d)"
proof -
  obtain got where c: "\<not> pj_include p" "pj_includeID p \<Longrightarrow> getField ''_id'' kp \<noteq> None"
      "key_loop p kp 0 key_only_new = Some (got, ko)" "got = int (nFields (pj_source p)) - (if pj_includeID p then 0 else 1)"
    using check by (auto simp: checkKey_def split: if_splits option.splits prod.splits)
  note p = include_only [OF spec c(1)]
  note cl = counted_listed [OF spec(1,2) p(2,3)]
  have kpok: "list_all (\<lambda>e. NUL \<notin> set (fst e)) kp" using kp(1) by (simp add: names_ok_def)
  then have nok: "NUL \<notin> set (fst e)" if "e \<in> set kp" for e using that by (simp add: list_all_iff)
  have run: "got = int (length (filter (\<lambda>e. counted p (fst e)) kp))" "ko_include ko = map (\<lambda>e. shown p (fst e)) kp"
      "ko_names ko = map (\<lambda>e. if shown p (fst e) then fst e else []) kp"
      "\<forall>e \<in> set kp. counted p (fst e) \<longrightarrow> CHR ''.'' \<notin> set (fst e)"
    using key_loop_run [OF kpok c(3)] by (simp_all add: key_only_new_def)
  have sub: "fst ` set (listed spec) \<subseteq> fst ` set spec" by (auto simp: listed_def)
  let ?L = "fst ` set (listed spec)" and ?cs = "filter (\<lambda>e. counted p (fst e)) kp"
  have "fst ` set ?cs = ?L"
  proof (rule card_subset_eq)
    show "fst ` set ?cs \<subseteq> ?L" using cl(1) nok by fastforce
    have "card (fst ` set ?cs) = length ?cs"
      using distinct_card [of "map fst ?cs"] kp(2) by (simp add: distinct_map_filter)
    moreover have "card ?L = length (listed spec)" using distinct_card [OF p(6)] by simp
    moreover have "listed spec \<noteq> []" by (rule p(4))
    ultimately show "card (fst ` set ?cs) = card ?L"
      using run c(4) p(2,5) by (cases "length spec") (auto simp: nFields_def split: if_splits)
  qed simp
  then have listed_kp: "?L \<subseteq> fst ` set kp" by auto
  have id_kp: "''_id'' \<in> fst ` set kp" if "pj_includeID p" using c(2) that getField_none [OF kp(1), of "''_id''"] by simp
  let ?key = "map (\<lambda>e. ('''', key_value d (fst e))) kp"
  let ?r = "map (\<lambda>e. (fst e, key_value d (fst e))) (filter (\<lambda>e. shown p (fst e)) kp)"
  have hyd: "hydrate ko ?key = Inr ?r"
    using hydrate_run [of ko 0 ?key] run zip_hydrate [of "shown p" kp "key_value d"] by (simp add: hydrate_def comp_def)
  have shown_d: "n \<in> fst ` set d" if n: "n \<in> fst ` set kp" "shown p n" for n
  proof -
    obtain e where e: "e \<in> set kp" "fst e = n" using image_pick [OF n(1)] by blast
    have "n = ''_id'' \<or> n \<in> fst ` set spec" using cl(2) [of n] nok [OF e(1)] e(2) n(2) sub by (auto split: if_splits)
    then show ?thesis using bspec [OF d(4) e(1)] unfolding e(2) by (rule mp [rotated])
  qed
  have dotless: "CHR ''.'' \<notin> set n" if n: "n \<in> fst ` set kp" "shown p n" for n
  proof (cases "n = ''_id''")
    case False
    obtain e where e: "e \<in> set kp" "fst e = n" using image_pick [OF n(1)] by blast
    then have "counted p n" using cl [of n] nok [OF e(1)] n(2) False by simp
    then show ?thesis using bspec [OF run(4) e(1)] unfolding e(2) by simp
  qed simp
  have val: "(n, key_value d n) \<in> set d" if n: "n \<in> fst ` set kp" "shown p n" for n
  proof -
    obtain e where e: "e \<in> set d" "fst e = n" using image_pick [OF shown_d [OF n]] by blast
    have "NUL \<notin> set n" using n(1) nok by auto
    then have "getField n d = Some e" using getField_distinct [OF d(1) _ d(2)] e by simp
    then show ?thesis using undotted_found [OF dotless [OF n]] e by (auto simp: key_value_def)
  qed
  have tr: "transform p d = filter (\<lambda>e. shown p (fst e)) d"
  proof -
    have "transform p d = filter (\<lambda>(n, v). if n = ''_id'' then pj_includeID p else (n \<in> ?L) = True) d"
      by (rule transform_filter [OF d(1)]) (simp add: append_plain(1) [OF p(1)])
    also have "\<dots> = filter (\<lambda>e. shown p (fst e)) d"
    proof (rule filter_cong [OF refl])
      fix e assume "e \<in> set d"
      then have "NUL \<notin> set (fst e)" using d(1) by (simp add: names_ok_def list_all_iff)
      then show "(case e of (n, v) \<Rightarrow> if n = ''_id'' then pj_includeID p else (n \<in> ?L) = True) = shown p (fst e)"
        by (simp add: cl(2) case_prod_beta)
    qed
    finally show ?thesis .
  qed
  have "set ?r = set (transform p d)"
  proof
    show "set ?r \<subseteq> set (transform p d)" using val tr by auto
    show "set (transform p d) \<subseteq> set ?r"
    proof
      fix e assume "e \<in> set (transform p d)"
      then have e: "e \<in> set d" "shown p (fst e)" using tr by auto
      have "NUL \<notin> set (fst e)" using e(1) d(1) by (auto simp: names_ok_def list_all_iff)
      then have k: "fst e \<in> fst ` set kp" using cl(2) [of "fst e"] e(2) listed_kp id_kp by (auto split: if_splits)
      then have "e = (fst e, key_value d (fst e))" using same_name_same [OF d(2) e(1) val [OF k e(2)]] by simp
      then show "e \<in> set ?r" using k e(2) by (cases e) force
    qed
  qed
  moreover have "distinct ?r" using kp(2) by (simp add: distinct_map inj_on_def)
  moreover have "distinct (transform p d)" unfolding tr using d(2) by (simp add: distinct_map)
  ultimately have m: "mset ?r = mset (transform p d)" using set_eq_iff_mset_eq_distinct by blast
  obtain x where x: "x \<in> set (listed spec)" using p(4) by (cases "listed spec") auto
  then have k: "fst x \<in> fst ` set kp" using listed_kp by blast
  then have "NUL \<notin> set (fst x)" using image_pick [OF k] nok by auto
  then have "shown p (fst x)" using cl(1) [of "fst x"] x by (simp add: counted_def)
  with k obtain n where n: "n \<in> fst ` set kp" "shown p n" by blast
  have "\<not> missing d n" using val [OF n] undotted_found [OF dotless [OF n]] shown_d [OF n] n(1) nok getField_none [OF d(1), of n]
    by (auto simp: missing_def)
  then have "\<not> (\<forall>e \<in> set kp. missing d (fst e))" using n(1) by auto
  then have "getKeys sp d [] = Inr [?key]" using scalar_key [OF kp(3,4) d(3)] by simp
  then show ?thesis using hyd m by blast
qed

section \<open>Examples\<close>

definition demo_pattern :: doc where
  "demo_pattern = [(''a'', VInt 1), (''c'', VInt 1)]"

definition demo_index :: index_spec where
  "demo_index =
     \<lparr>sp_keyPattern = demo_pattern, sp_info = [], sp_nFields = 2, sp_sparse = False, sp_fieldNames = [''a'', ''c''],
      sp_fixed = [None, None], sp_nullKey = [('''', VNull), ('''', VNull)], sp_type = None\<rparr>"

lemma demo_index_new: "index_spec_new plugins demo_pattern [] = Inr demo_index"
  by (simp add: index_spec_new_def demo_index_def demo_pattern_def findPluginName_def findPluginName_step_def Let_def
      nFields_def getField_def truth_def)

definition demo_doc :: doc where
  "demo_doc = [(''_id'', VInt 7), (''a'', VInt 5), (''b'', VNull)]"

lemma demo_values: "key_value demo_doc ''a'' = VInt 5" "key_value demo_doc ''c'' = VNull" "\<not> missing demo_doc ''a''"
  by (simp_all add: key_value_def missing_def demo_doc_def undotted_found getField_def uchar_def)


theorem covered_index_witness:
  "\<exists>p ko r. projection_init [(''a'', VInt 1), (''_id'', VInt 0)] projection_new = Inr p \<and> checkKey p demo_pattern = Some ko \<and>
     hydrate ko [('''', VInt 5), ('''', VNull)] = Inr r \<and> mset r = mset (transform p demo_doc)"
proof -
  let ?spec = "[(''a'', VInt 1), (''_id'', VInt 0)]"
  let ?p = "exclude_id (set_include False (add_include ''a'' True (set_source ?spec projection_new)))"
  have s: "list_all plain_field ?spec" "distinct (map fst ?spec)" by (simp_all add: plain_field_def is_object_def)
  have p: "projection_init ?spec projection_new = Inr ?p"
    by (simp add: projection_init_def is_number_def truth_def Let_def uchar_def)
  obtain ko where ko: "checkKey ?p demo_pattern = Some ko"
    by (simp add: checkKey_def demo_pattern_def add_include_plain getField_def uchar_def nFields_def)
  have d: "names_ok demo_pattern" "distinct (map fst demo_pattern)" "names_ok demo_doc" "distinct (map fst demo_doc)" "sp_type demo_index = None"
    by (simp_all add: names_ok_def demo_pattern_def demo_doc_def demo_index_def)
  have v: "\<forall>e \<in> set demo_pattern. fst e \<noteq> [] \<and> value_type (key_value demo_doc (fst e)) \<noteq> Array"
      "\<forall>e \<in> set demo_pattern. fst e = ''_id'' \<or> fst e \<in> fst ` set ?spec \<longrightarrow> fst e \<in> fst ` set demo_doc"
    using demo_values by (simp_all add: demo_pattern_def demo_doc_def)
  have "getKeys demo_index demo_doc [] = Inr [[('''', VInt 5), ('''', VNull)]]"
    using scalar_key [OF demo_index_new d(5) v(1)] demo_values by (simp add: demo_pattern_def getField_def truth_def)
  with covered_index [OF s p ko d(1,2) demo_index_new d(5,3,4) v] p ko show ?thesis by auto
qed

section \<open>Where the code differs from what it says\<close>

text \<open>The check that is to allow sparse indexes on single fields only lets every key pattern pass.\<close>

lemma sparse_on_two_fields: "\<exists>sp. index_spec_new plugins demo_pattern [(''sparse'', VBool True)] = Inr sp \<and> sp_sparse sp"
  by (simp add: index_spec_new_def demo_pattern_def findPluginName_def findPluginName_step_def Let_def nFields_def
      getField_def truth_def uchar_def)

end
